(* ===== verification/Prelude.thy ===== *)
theory Prelude
  imports Main "HOL-Library.Word" "HOL-Library.AList" "HOL-Library.Char_ord"
    "HOL-Library.List_Lexorder" "HOL-Library.Multiset"
begin

text \<open>
  Shared vocabulary of the development.

  \<^item> Go's integers keep their width: \<open>uint64\<close> heights and vote powers are \<open>u64\<close>,
    \<open>uint32\<close> rounds and versions are \<open>u32\<close>. Addition wraps, as in Go.
  \<^item> \<open>[]byte\<close> and Go strings are both \<open>bytes\<close>, a list of 8-bit characters. The orders of
    \<open>HOL-Library.Char_ord\<close> and \<open>HOL-Library.List_Lexorder\<close> make \<open><\<close> on \<open>bytes\<close> the bytewise
    lexicographic order of Go's string comparison. A nil slice and an empty one are identified.
  \<^item> A Go map that the code ranges over is an association list with distinct keys, in the
    order the loop visits it: a statement for every such list is a statement for every
    iteration order. A Go map that is only looked up is a partial function.
  \<^item> A panic is a value: \<open>Panic m\<close> of the type \<open>go\<close>, with \<open>gobind\<close> for sequencing.
    A returned Go \<open>error\<close> is the left summand of \<open>go_error + 'a\<close>.
  \<^item> The third-party package \<open>bitset\<close> is the record \<open>bitset_ops\<close> of the operations the code
    calls, passed as an argument; the locale \<open>bitset_lib\<close> holds its documented behaviour.
\<close>

section \<open>Scalars, errors and panics\<close>

type_synonym u64 = "64 word"
type_synonym u32 = "32 word"
type_synonym u16 = "16 word"
type_synonym bytes = string

text \<open>The error values that the modelled functions return, by the names of their Go types.\<close>

datatype go_error =
    ErrUnknownKey
  | ErrInvalidSignature
  | ErrStoreUninitialized
  | RoundUnknownError u64 u32
  | HeightUnknownError u64
  | OverwriteError string bytes
  | FinalizationOverwriteError u64
  | DoubleActionError string
  | PubKeyChangedError string bytes bytes
  | PubKeysAlreadyExistError bytes
  | VotePowersAlreadyExistError bytes
  | NoPubKeyHashError bytes
  | NoVotePowerHashError bytes
  | PubKeyPowerCountMismatchError nat nat
  | JoinedErrors go_error go_error
  | TxInvalidError string
  | OtherError string

datatype 'a go = Panic string | Ret 'a

primrec gobind :: "'a go \<Rightarrow> ('a \<Rightarrow> 'b go) \<Rightarrow> 'b go" where
  "gobind (Panic m) f = Panic m"
| "gobind (Ret x) f = f x"

text \<open>\<open>go_post P m\<close>: whenever \<open>m\<close> returns, its result satisfies \<open>P\<close>.\<close>

primrec go_post :: "('a \<Rightarrow> bool) \<Rightarrow> 'a go \<Rightarrow> bool" where
  "go_post P (Panic m) = True"
| "go_post P (Ret x) = P x"

primrec go_returns :: "'a go \<Rightarrow> bool" where
  "go_returns (Panic m) = False"
| "go_returns (Ret x) = True"

text \<open>A loop over a slice or a map whose body may panic.\<close>

fun gofold :: "('x \<Rightarrow> 's \<Rightarrow> 's go) \<Rightarrow> 'x list \<Rightarrow> 's \<Rightarrow> 's go" where
  "gofold f [] s = Ret s"
| "gofold f (x # xs) s = gobind (f x s) (gofold f xs)"

named_theorems go_simps \<open>rewrite rules that push \<open>go_post\<close> through a handler\<close>

lemma gobind_Ret_iff [simp]: "gobind m f = Ret y \<longleftrightarrow> (\<exists>x. m = Ret x \<and> f x = Ret y)"
  by (cases m) auto

lemma gobind_assoc: "gobind (gobind m f) g = gobind m (\<lambda>x. gobind (f x) g)"
  by (cases m) auto

lemma go_post_bind [go_simps]: "go_post P (gobind m f) = go_post (\<lambda>x. go_post P (f x)) m"
  by (cases m) auto

lemma go_post_iff: "go_post P m \<longleftrightarrow> (\<forall>x. m = Ret x \<longrightarrow> P x)"
  by (cases m) auto

lemma go_post_mono: "go_post P m \<Longrightarrow> (\<And>x. P x \<Longrightarrow> Q x) \<Longrightarrow> go_post Q m"
  by (cases m) auto

lemma go_postD: "go_post P m \<Longrightarrow> m = Ret x \<Longrightarrow> P x"
  by simp

lemma go_post_if [go_simps]:
  "go_post P (if b then m else n) = (if b then go_post P m else go_post P n)"
  by simp

lemma go_returns_iff: "go_returns m \<longleftrightarrow> (\<exists>x. m = Ret x)"
  by (cases m) auto

lemma gofold_post:
  assumes "I s" and "\<And>x s. x \<in> set xs \<Longrightarrow> I s \<Longrightarrow> go_post I (f x s)"
  shows "go_post I (gofold f xs s)"
  using assms
proof (induction xs arbitrary: s)
  case Nil
  then show ?case by simp
next
  case (Cons x xs)
  have "go_post I (f x s)" using Cons.prems by simp
  then show ?case
    using Cons.IH Cons.prems(2) by (cases "f x s") simp_all
qed

lemma gofold_total:
  assumes "\<And>x s. x \<in> set xs \<Longrightarrow> \<exists>s'. f x s = Ret s'"
  shows "\<exists>s'. gofold f xs s = Ret s'"
  using assms
proof (induction xs arbitrary: s)
  case Nil
  then show ?case by simp
next
  case (Cons x xs)
  obtain t where t: "f x s = Ret t" using Cons.prems[of x s] by auto
  obtain u where "gofold f xs t = Ret u" using Cons.IH Cons.prems by (meson list.set_intros(2))
  with t show ?case by simp
qed

text \<open>The idiom \<open>if err != nil { return err }\<close>, without and with possible panics, and the loops
  whose body uses it.\<close>

primrec errbind :: "'e + 'a \<Rightarrow> ('a \<Rightarrow> 'e + 'b) \<Rightarrow> 'e + 'b" where
  "errbind (Inl e) f = Inl e"
| "errbind (Inr x) f = f x"

fun errfold :: "('x \<Rightarrow> 's \<Rightarrow> 'e + 's) \<Rightarrow> 'x list \<Rightarrow> 's \<Rightarrow> 'e + 's" where
  "errfold f [] s = Inr s"
| "errfold f (x # xs) s = errbind (f x s) (errfold f xs)"

definition gotry :: "('e + 'a) go \<Rightarrow> ('a \<Rightarrow> ('e + 'b) go) \<Rightarrow> ('e + 'b) go" where
  "gotry m f = gobind m (\<lambda>r. case r of Inl e \<Rightarrow> Ret (Inl e) | Inr x \<Rightarrow> f x)"

fun gotryfold :: "('x \<Rightarrow> 's \<Rightarrow> ('e + 's) go) \<Rightarrow> 'x list \<Rightarrow> 's \<Rightarrow> ('e + 's) go" where
  "gotryfold f [] s = Ret (Inr s)"
| "gotryfold f (x # xs) s = gotry (f x s) (gotryfold f xs)"

lemma errbind_Inr_iff [simp]: "errbind m f = Inr y \<longleftrightarrow> (\<exists>x. m = Inr x \<and> f x = Inr y)"
  by (cases m) auto

lemma gotry_simps [simp]:
  "gotry (Ret (Inr x)) f = f x" "gotry (Ret (Inl e)) f = Ret (Inl e)" "gotry (Panic m) f = Panic m"
  by (simp_all add: gotry_def)

lemma gotry_Inr_iff [simp]: "gotry m f = Ret (Inr y) \<longleftrightarrow> (\<exists>x. m = Ret (Inr x) \<and> f x = Ret (Inr y))"
  by (cases m) (auto simp: gotry_def split: sum.splits)

lemma gotryfold_map: "gotryfold f (map g xs) s = gotryfold (\<lambda>x. f (g x)) xs s"
proof (induction xs arbitrary: s)
  case (Cons x xs)
  have "gotryfold f (map g xs) = gotryfold (\<lambda>x. f (g x)) xs" by (rule ext) (rule Cons.IH)
  then show ?case by simp
qed simp

section \<open>Go maps as association lists\<close>

type_synonym ('k, 'v) gomap = "('k \<times> 'v) list"

text \<open>A representation of a Go map: every key occurs once.\<close>

definition gomap_ok :: "('k, 'v) gomap \<Rightarrow> bool" where
  "gomap_ok m \<longleftrightarrow> distinct (map fst m)"

lemma gomap_ok_Nil [simp]: "gomap_ok []"
  by (simp add: gomap_ok_def)

lemma gomap_ok_update [simp]: "gomap_ok m \<Longrightarrow> gomap_ok (AList.update k v m)"
  by (simp add: gomap_ok_def distinct_update)

lemma gomap_ok_map_snd [simp]: "gomap_ok (map (\<lambda>(k, v). (k, f k v)) m) = gomap_ok m"
  by (simp add: gomap_ok_def case_prod_unfold comp_def)

lemma set_AList_update: "set (AList.update k v m) \<subseteq> insert (k, v) (set m)"
  by (induction m) auto

lemma map_of_map_snd: "map_of (map (\<lambda>(k, v). (k, f k v)) m) k = map_option (f k) (map_of m k)"
  by (induction m) auto

lemma AList_update_fresh: "k \<notin> fst ` set m \<Longrightarrow> AList.update k v m = m @ [(k, v)]"
  by (induction m) auto

text \<open>A loop that stores one value per entry of a map builds the mapped association list.\<close>

lemma gotryfold_store:
  assumes "distinct (map fst (acc @ xs))"
    and "\<And>e m. e \<in> set xs \<Longrightarrow> f e m = Ret (Inr (AList.update (fst e) (g e) m))"
  shows "gotryfold f xs (map (\<lambda>e. (fst e, g e)) acc) = Ret (Inr (map (\<lambda>e. (fst e, g e)) (acc @ xs)))"
  using assms
proof (induction xs arbitrary: acc)
  case Nil
  then show ?case by simp
next
  case (Cons e xs)
  have "AList.update (fst e) (g e) (map (\<lambda>e. (fst e, g e)) acc) = map (\<lambda>e. (fst e, g e)) (acc @ [e])"
    using Cons.prems(1) by (subst AList_update_fresh) (auto simp: image_iff)
  then show ?case using Cons.IH[of "acc @ [e]"] Cons.prems by simp
qed

lemma errfold_store:
  assumes "distinct (map fst (acc @ xs))"
    and "\<And>e m. e \<in> set xs \<Longrightarrow> f e m = Inr (AList.update (fst e) (g e) m)"
  shows "errfold f xs (map (\<lambda>e. (fst e, g e)) acc) = Inr (map (\<lambda>e. (fst e, g e)) (acc @ xs))"
  using assms
proof (induction xs arbitrary: acc)
  case Nil
  then show ?case by simp
next
  case (Cons e xs)
  have "AList.update (fst e) (g e) (map (\<lambda>e. (fst e, g e)) acc) = map (\<lambda>e. (fst e, g e)) (acc @ [e])"
    using Cons.prems(1) by (subst AList_update_fresh) (auto simp: image_iff)
  then show ?case using Cons.IH[of "acc @ [e]"] Cons.prems by simp
qed

text \<open>Two representations of the same map differ by the order of their entries only.\<close>

lemma gomap_perm:
  assumes "gomap_ok m" and "mset m' = mset m"
  shows "gomap_ok m'" and "map_of m' = map_of m"
proof -
  have "mset (map fst m') = mset (map fst m)"
    using assms(2) by simp
  then show ok: "gomap_ok m'"
    using assms(1) unfolding gomap_ok_def by (metis distinct_count_atmost_1 set_mset_mset)
  show "map_of m' = map_of m"
    using ok assms unfolding gomap_ok_def by (metis map_of_inject_set set_mset_mset)
qed

section \<open>Word arithmetic\<close>

lemma unat_u64_bound [simp]: "unat (x :: u64) < 18446744073709551616"
  using unsigned_less[where 'a = nat, of x] by simp

lemma unat_u32_bound [simp]: "unat (x :: u32) < 4294967296"
  using unsigned_less[where 'a = nat, of x] by simp

lemma word_succ_neq [simp]: "(x :: u32) + 1 \<noteq> x" "x \<noteq> (x :: u32) + 1"
  by auto

lemma word_succ_neq64 [simp]: "(x :: u64) + 1 \<noteq> x" "x \<noteq> (x :: u64) + 1"
  by auto

text \<open>A sum of machine words does not wrap when the sum of their values fits.\<close>

lemma unat_sum_list_word:
  fixes ws :: "'a::len word list"
  assumes "sum_list (map unat ws) < 2 ^ LENGTH('a)"
  shows "unat (sum_list ws) = sum_list (map unat ws)"
  using assms
proof (induction ws)
  case Nil
  then show ?case by simp
next
  case (Cons w ws)
  then have "unat (sum_list ws) = sum_list (map unat ws)" by simp
  with Cons.prems show ?case
    by (simp add: unat_word_ariths)
qed

section \<open>Big-endian 16-bit integers\<close>

text \<open>\<open>binary.BigEndian.PutUint16\<close> into a fresh 2-byte array, and \<open>Uint16\<close>, which reads the first
  two bytes and panics (index out of range) on a shorter slice.\<close>

definition PutUint16 :: "u16 \<Rightarrow> bytes" where
  "PutUint16 w = [char_of (unat w div 256), char_of (unat w mod 256)]"

definition Uint16 :: "bytes \<Rightarrow> u16 go" where
  "Uint16 b = (case b of
     b0 # b1 # _ \<Rightarrow> Ret (word_of_nat (256 * of_char b0 + of_char b1))
   | _ \<Rightarrow> Panic ''index out of range'')"

lemma of_char_less_256: "(of_char c :: nat) < 256"
  by (metis nat_of_char_less_256)

lemma Uint16_PutUint16 [simp]: "Uint16 (PutUint16 w) = Ret w"
proof -
  have "unat w < 65536" using unsigned_less[where 'a = nat, of w] by simp
  then have "unat w div 256 < 256" by simp
  then show ?thesis
    by (simp add: Uint16_def PutUint16_def of_char_of mod_less del: of_nat_add of_nat_mult)
qed

lemma length_PutUint16 [simp]: "length (PutUint16 w) = 2"
  by (simp add: PutUint16_def)

lemma Uint16_returns_iff: "(\<exists>w. Uint16 b = Ret w) \<longleftrightarrow> 2 \<le> length b"
  by (auto simp: Uint16_def split: list.splits)

lemma Uint16_returnsE:
  assumes "2 \<le> length b"
  obtains w where "Uint16 b = Ret w"
  using assms Uint16_returns_iff by blast

section \<open>The bitset package\<close>

text \<open>
  The operations of \<open>github.com/bits-and-blooms/bitset\<close> that the code calls. \<open>Clone\<close> and
  \<open>CopyFull\<close> produce an equal bitset and need no field.
\<close>

record 'b bitset_ops =
  bs_New :: "nat \<Rightarrow> 'b"
  bs_Set :: "'b \<Rightarrow> nat \<Rightarrow> 'b"
  bs_Test :: "'b \<Rightarrow> nat \<Rightarrow> bool"
  bs_Count :: "'b \<Rightarrow> nat"
  bs_None :: "'b \<Rightarrow> bool"
  bs_NextSet :: "'b \<Rightarrow> nat \<Rightarrow> nat option"
  bs_IsStrictSuperSet :: "'b \<Rightarrow> 'b \<Rightarrow> bool"

locale bitset_lib =
  fixes B :: "'b bitset_ops"
    and bits :: "'b \<Rightarrow> nat set"
  assumes finite_bits: "finite (bits b)"
    and bits_New: "bits (bs_New B n) = {}"
    and bits_Set: "bits (bs_Set B b i) = insert i (bits b)"
    and Test_iff: "bs_Test B b i \<longleftrightarrow> i \<in> bits b"
    and Count_eq: "bs_Count B b = card (bits b)"
    and None_iff: "bs_None B b \<longleftrightarrow> bits b = {}"
    and NextSet_Some: "bs_NextSet B b i = Some j \<Longrightarrow>
          j \<in> bits b \<and> i \<le> j \<and> (\<forall>k\<in>bits b. i \<le> k \<longrightarrow> j \<le> k)"
    and NextSet_None: "bs_NextSet B b i = None \<Longrightarrow> (\<forall>k\<in>bits b. k < i)"
    and StrictSuperSet_iff: "bs_IsStrictSuperSet B a b \<longleftrightarrow> bits b \<subset> bits a"
begin

lemmas bits_simps = bits_New bits_Set Test_iff Count_eq None_iff StrictSuperSet_iff

end

text \<open>A reference bitset that keeps the documented behaviour: a list of the set indices.\<close>

definition ref_bitset :: "nat list bitset_ops" where
  "ref_bitset = \<lparr>
     bs_New = (\<lambda>n. []),
     bs_Set = (\<lambda>b i. if i \<in> set b then b else i # b),
     bs_Test = (\<lambda>b i. i \<in> set b),
     bs_Count = (\<lambda>b. length (remdups b)),
     bs_None = (\<lambda>b. b = []),
     bs_NextSet = (\<lambda>b i. case filter (\<lambda>k. i \<le> k) b of [] \<Rightarrow> None | k # ks \<Rightarrow> Some (foldl min k ks)),
     bs_IsStrictSuperSet = (\<lambda>a b. list_all (\<lambda>k. k \<in> set a) b \<and> \<not> list_all (\<lambda>k. k \<in> set b) a) \<rparr>"

lemma foldl_min_mem: "foldl min k ks \<in> set (k # ks)"
  by (induction ks arbitrary: k) (force simp: min_def)+

lemma foldl_min_le: "x \<in> set (k # ks) \<Longrightarrow> foldl min k ks \<le> (x :: nat)"
proof (induction ks arbitrary: k x)
  case Nil
  then show ?case by simp
next
  case (Cons y ks)
  have le: "foldl min (min k y) ks \<le> min k y" using Cons.IH[of "min k y" "min k y"] by simp
  from Cons.prems consider "x = k" | "x = y" | "x \<in> set ks" by auto
  then show ?case
    using le Cons.IH[of x "min k y"] by cases auto
qed

lemma ref_NextSet_Some:
  assumes "bs_NextSet ref_bitset b i = Some j"
  shows "j \<in> set b \<and> i \<le> j \<and> (\<forall>k\<in>set b. i \<le> k \<longrightarrow> j \<le> k)"
proof -
  obtain k ks where f: "filter (\<lambda>k. i \<le> k) b = k # ks" and j: "j = foldl min k ks"
    using assms by (auto simp: ref_bitset_def split: list.splits)
  have mem: "x \<in> set (k # ks) \<longleftrightarrow> x \<in> set b \<and> i \<le> x" for x
    using f by (metis (mono_tags, lifting) mem_Collect_eq set_filter)
  have "j \<in> set (k # ks)" unfolding j by (rule foldl_min_mem)
  moreover have "j \<le> x" if "x \<in> set b" "i \<le> x" for x
    unfolding j using that mem by (intro foldl_min_le) simp
  ultimately show ?thesis using mem by blast
qed

interpretation rbs: bitset_lib ref_bitset set
proof (unfold_locales, goal_cases)
  case (7 b i j)
  then show ?case by (rule ref_NextSet_Some)
next
  case (8 b i)
  then show ?case by (auto simp: ref_bitset_def filter_empty_conv split: list.splits)
qed (auto simp: ref_bitset_def list_all_iff List.card_set insert_absorb)

end
