(* ===== verification/Gcrypto.thy ===== *)
theory Gcrypto
  imports Prelude
begin

text \<open>
  The package \<open>gcrypto\<close>: public keys, sparse signatures, merge results, the interface
  \<open>CommonMessageSignatureProof\<close> with its scheme, and the implementation
  \<open>SimpleCommonMessageSignatureProof\<close>.

  The interface is the record \<open>cmsp\<close> of its methods (Go dispatches through such a table); its
  contract is the locale \<open>signature_proof\<close>, which \<open>SimpleCommonMessageSignatureProof\<close>
  interprets. The methods mutate the proof behind its value receiver, so the model returns the
  updated proof. The verification of a signature is ed25519 or BLS library code: it is the
  parameter \<open>V\<close> of the definitions.
\<close>

section \<open>Keys, sparse signatures and merge results\<close>

text \<open>A public key, as \<open>PubKey.Equal\<close> sees it: the name of its type and its bytes.\<close>

datatype PubKey = PubKey (TypeName: string) (PubKeyBytes: bytes)

type_synonym verifier = "PubKey \<Rightarrow> bytes \<Rightarrow> bytes \<Rightarrow> bool"

record SparseSignature =
  KeyID :: bytes
  Sig :: bytes

record SparseSignatureProof =
  ssp_PubKeyHash :: bytes
  ssp_Signatures :: "SparseSignature list"

record SignatureProofMergeResult =
  AllValidSignatures :: bool
  IncreasedSignatures :: bool
  WasStrictSuperset :: bool

abbreviation zeroMergeResult :: SignatureProofMergeResult where
  "zeroMergeResult \<equiv> \<lparr>AllValidSignatures = False, IncreasedSignatures = False, WasStrictSuperset = False\<rparr>"

definition Combine ::
  "SignatureProofMergeResult \<Rightarrow> SignatureProofMergeResult \<Rightarrow> SignatureProofMergeResult" where
  "Combine r other = \<lparr>
     AllValidSignatures = (AllValidSignatures r \<and> AllValidSignatures other),
     IncreasedSignatures = (IncreasedSignatures r \<or> IncreasedSignatures other),
     WasStrictSuperset = (WasStrictSuperset r \<and> WasStrictSuperset other) \<rparr>"

lemma Combine_assoc: "Combine (Combine a b) c = Combine a (Combine b c)"
  by (simp add: Combine_def)

section \<open>The proof interface\<close>

text \<open>\<open>CommonMessageSignatureProof\<close> and \<open>CommonMessageSignatureProofScheme\<close>, method by method.
  \<open>MergeSparse\<close> may panic on a malformed key ID.\<close>

record ('p, 'b) cmsp =
  cm_New :: "bytes \<Rightarrow> PubKey list \<Rightarrow> bytes \<Rightarrow> go_error + 'p"
  cm_KeyIDChecker :: "PubKey list \<Rightarrow> bytes \<Rightarrow> bool"
  cm_Message :: "'p \<Rightarrow> bytes"
  cm_PubKeyHash :: "'p \<Rightarrow> bytes"
  cm_AddSignature :: "'p \<Rightarrow> bytes \<Rightarrow> PubKey \<Rightarrow> go_error + 'p"
  cm_Matches :: "'p \<Rightarrow> 'p \<Rightarrow> bool"
  cm_Merge :: "'p \<Rightarrow> 'p \<Rightarrow> SignatureProofMergeResult \<times> 'p"
  cm_MergeSparse :: "'p \<Rightarrow> SparseSignatureProof \<Rightarrow> (SignatureProofMergeResult \<times> 'p) go"
  cm_HasSparseKeyID :: "'p \<Rightarrow> bytes \<Rightarrow> bool \<times> bool"
  cm_Clone :: "'p \<Rightarrow> 'p"
  cm_Derive :: "'p \<Rightarrow> 'p"
  cm_SignatureBitSet :: "'p \<Rightarrow> 'b"
  cm_AsSparse :: "'p \<Rightarrow> SparseSignatureProof"

text \<open>The contract: \<open>inv\<close> is the representation invariant of the implementation, \<open>nkeys\<close> the number
  of candidate keys. Signature bits point at candidate keys and are never lost, and the merge
  result says whether bits were gained.\<close>

locale signature_proof = bitset_lib B bits
  for B :: "'b bitset_ops" and bits :: "'b \<Rightarrow> nat set" +
  fixes C :: "('p, 'b) cmsp"
    and inv :: "'p \<Rightarrow> bool"
    and nkeys :: "'p \<Rightarrow> nat"
  assumes New_fresh: "cm_New C msg ks kh = Inr p \<Longrightarrow>
            inv p \<and> bits (cm_SignatureBitSet C p) = {} \<and> nkeys p = length ks \<and> cm_PubKeyHash C p = kh"
    and bits_in_range: "inv p \<Longrightarrow> bits (cm_SignatureBitSet C p) \<subseteq> {..<nkeys p}"
    and AddSignature_grows: "inv p \<Longrightarrow> cm_AddSignature C p sig k = Inr p' \<Longrightarrow>
            inv p' \<and> nkeys p' = nkeys p \<and> cm_PubKeyHash C p' = cm_PubKeyHash C p \<and>
            bits (cm_SignatureBitSet C p) \<subseteq> bits (cm_SignatureBitSet C p')"
    and MergeSparse_grows: "inv p \<Longrightarrow> cm_MergeSparse C p s = Ret (r, p') \<Longrightarrow>
            inv p' \<and> nkeys p' = nkeys p \<and> cm_PubKeyHash C p' = cm_PubKeyHash C p \<and>
            bits (cm_SignatureBitSet C p) \<subseteq> bits (cm_SignatureBitSet C p') \<and>
            (IncreasedSignatures r \<longleftrightarrow>
               bits (cm_SignatureBitSet C p) \<noteq> bits (cm_SignatureBitSet C p'))"
    and Clone_same: "cm_Clone C p = p"
begin

text \<open>The indices of the candidate keys that have signed.\<close>

definition signers :: "'p \<Rightarrow> nat set" where
  "signers p = bits (cm_SignatureBitSet C p)"

lemma signers_finite [simp]: "finite (signers p)"
  by (simp add: signers_def finite_bits)

lemma signers_New: "cm_New C msg ks kh = Inr p \<Longrightarrow> signers p = {}"
  by (simp add: signers_def New_fresh)

lemma signers_mono_MergeSparse:
  "inv p \<Longrightarrow> cm_MergeSparse C p s = Ret (r, p') \<Longrightarrow> signers p \<subseteq> signers p'"
  by (simp add: signers_def MergeSparse_grows)

lemma signers_mono_AddSignature:
  "inv p \<Longrightarrow> cm_AddSignature C p sig k = Inr p' \<Longrightarrow> signers p \<subseteq> signers p'"
  using AddSignature_grows by (simp add: signers_def)

lemma MergeSparse_not_increased:
  "inv p \<Longrightarrow> cm_MergeSparse C p s = Ret (r, p') \<Longrightarrow> \<not> IncreasedSignatures r \<Longrightarrow> signers p' = signers p"
  using MergeSparse_grows by (simp add: signers_def)

end

section \<open>SimpleCommonMessageSignatureProof\<close>

record 'b SimpleProof =
  sp_msg :: bytes
  sp_sigs :: "(bytes, PubKey) gomap"
  sp_keys :: "PubKey list"
  sp_keyIdxs :: "bytes \<rightharpoonup> nat"
  sp_keyHash :: bytes
  sp_bitset :: 'b

text \<open>The loop that fills \<open>keyIdxs\<close>: a later key with the same bytes overwrites the index.\<close>

definition keyIndexes :: "PubKey list \<Rightarrow> (bytes \<rightharpoonup> nat)" where
  "keyIndexes ks = fold (\<lambda>(i, k) m. m(PubKeyBytes k \<mapsto> i)) (enumerate 0 ks) Map.empty"

definition NewSimpleCommonMessageSignatureProof ::
  "'b bitset_ops \<Rightarrow> bytes \<Rightarrow> PubKey list \<Rightarrow> bytes \<Rightarrow> go_error + 'b SimpleProof" where
  "NewSimpleCommonMessageSignatureProof B msg candidateKeys pubKeyHash = Inr \<lparr>
     sp_msg = msg,
     sp_sigs = [],
     sp_keys = candidateKeys,
     sp_keyIdxs = keyIndexes candidateKeys,
     sp_keyHash = pubKeyHash,
     sp_bitset = bs_New B (length candidateKeys) \<rparr>"

definition simple_AddSignature ::
  "verifier \<Rightarrow> 'b bitset_ops \<Rightarrow> 'b SimpleProof \<Rightarrow> bytes \<Rightarrow> PubKey \<Rightarrow> go_error + 'b SimpleProof" where
  "simple_AddSignature V B p sig key =
     (case sp_keyIdxs p (PubKeyBytes key) of
        None \<Rightarrow> Inl ErrUnknownKey
      | Some keyIdx \<Rightarrow>
          if \<not> V key (sp_msg p) sig then Inl ErrInvalidSignature
          else Inr (p\<lparr>sp_sigs := AList.update sig key (sp_sigs p),
                      sp_bitset := bs_Set B (sp_bitset p) keyIdx\<rparr>))"

definition simple_Matches :: "'b SimpleProof \<Rightarrow> 'b SimpleProof \<Rightarrow> bool" where
  "simple_Matches p other \<longleftrightarrow>
     sp_msg p = sp_msg other \<and> sp_keyHash p = sp_keyHash other \<and> sp_keys p = sp_keys other"

text \<open>One iteration of the loop of \<open>Merge\<close> over the other proof's signatures.\<close>

definition simple_Merge_step ::
  "verifier \<Rightarrow> 'b bitset_ops \<Rightarrow> bytes \<times> PubKey \<Rightarrow> SignatureProofMergeResult \<times> 'b SimpleProof \<Rightarrow>
   SignatureProofMergeResult \<times> 'b SimpleProof" where
  "simple_Merge_step V B e st =
     (case (e, st) of ((otherSig, otherKey), (res, p)) \<Rightarrow>
        case map_of (sp_sigs p) otherSig of
          None \<Rightarrow>
            (case simple_AddSignature V B p otherSig otherKey of
               Inr p' \<Rightarrow> (res\<lparr>IncreasedSignatures := True\<rparr>, p')
             | Inl _ \<Rightarrow> (res\<lparr>AllValidSignatures := False\<rparr>, p))
        | Some curKey \<Rightarrow>
            if curKey \<noteq> otherKey then (res\<lparr>AllValidSignatures := False\<rparr>, p) else (res, p))"

definition simple_Merge ::
  "verifier \<Rightarrow> 'b bitset_ops \<Rightarrow> 'b SimpleProof \<Rightarrow> 'b SimpleProof \<Rightarrow>
   SignatureProofMergeResult \<times> 'b SimpleProof" where
  "simple_Merge V B p other =
     (if \<not> simple_Matches p other then (zeroMergeResult, p)
      else
        let looksLikeStrictSuperset =
              (bs_None B (sp_bitset other) \<and> bs_None B (sp_bitset p)) \<or>
              bs_IsStrictSuperSet B (sp_bitset other) (sp_bitset p);
            (res, p') = fold (simple_Merge_step V B) (sp_sigs other)
                          (zeroMergeResult\<lparr>AllValidSignatures := True\<rparr>, p)
        in (res\<lparr>WasStrictSuperset := looksLikeStrictSuperset \<and> AllValidSignatures res\<rparr>, p'))"

definition simple_Clone :: "'b SimpleProof \<Rightarrow> 'b SimpleProof" where
  "simple_Clone p = \<lparr>
     sp_msg = sp_msg p, sp_sigs = sp_sigs p, sp_keys = sp_keys p,
     sp_keyIdxs = sp_keyIdxs p, sp_keyHash = sp_keyHash p, sp_bitset = sp_bitset p \<rparr>"

definition simple_Derive :: "'b bitset_ops \<Rightarrow> 'b SimpleProof \<Rightarrow> 'b SimpleProof" where
  "simple_Derive B p = \<lparr>
     sp_msg = sp_msg p, sp_sigs = [], sp_keys = sp_keys p,
     sp_keyIdxs = sp_keyIdxs p, sp_keyHash = sp_keyHash p,
     sp_bitset = bs_New B (length (sp_keys p)) \<rparr>"

text \<open>\<open>AsSparse\<close>: every signature with the big-endian index of its key, sorted by key ID. A missing
  index reads as Go's zero value.\<close>

definition simple_AsSparse :: "'b SimpleProof \<Rightarrow> SparseSignatureProof" where
  "simple_AsSparse p = \<lparr>
     ssp_PubKeyHash = sp_keyHash p,
     ssp_Signatures = sort_key KeyID
       (map (\<lambda>(sigBytes, pubKey).
          let keyIdx = case sp_keyIdxs p (PubKeyBytes pubKey) of None \<Rightarrow> 0 | Some i \<Rightarrow> i
          in \<lparr>KeyID = PutUint16 (word_of_nat keyIdx), Sig = sigBytes\<rparr>) (sp_sigs p)) \<rparr>"

text \<open>One iteration of the loop of \<open>MergeSparse\<close>; the state is \<open>res.AllValidSignatures\<close>,
  \<open>addedBS\<close> and the proof.\<close>

definition simple_MergeSparse_step ::
  "verifier \<Rightarrow> 'b bitset_ops \<Rightarrow> SparseSignature \<Rightarrow> bool \<times> 'b \<times> 'b SimpleProof \<Rightarrow>
   (bool \<times> 'b \<times> 'b SimpleProof) go" where
  "simple_MergeSparse_step V B sparseSig st =
     (case st of (allValid, addedBS, p) \<Rightarrow>
        gobind (Uint16 (KeyID sparseSig)) (\<lambda>w.
          let n = unat w in
          if length (sp_keys p) \<le> n then Ret (False, addedBS, p)
          else case simple_AddSignature V B p (Sig sparseSig) (sp_keys p ! n) of
                 Inl _ \<Rightarrow> Ret (False, addedBS, p)
               | Inr p' \<Rightarrow> Ret (allValid, bs_Set B addedBS n, p')))"

definition simple_MergeSparse ::
  "verifier \<Rightarrow> 'b bitset_ops \<Rightarrow> 'b SimpleProof \<Rightarrow> SparseSignatureProof \<Rightarrow>
   (SignatureProofMergeResult \<times> 'b SimpleProof) go" where
  "simple_MergeSparse V B p s =
     (if sp_keyHash p \<noteq> ssp_PubKeyHash s then Ret (zeroMergeResult, p)
      else
        let bsBefore = sp_bitset p in
        gobind (gofold (simple_MergeSparse_step V B) (ssp_Signatures s)
                  (True, bs_New B (length (sp_keys p)), p))
          (\<lambda>(allValid, addedBS, p').
             Ret (\<lparr>AllValidSignatures = allValid,
                    IncreasedSignatures = bs_Count B bsBefore < bs_Count B (sp_bitset p'),
                    WasStrictSuperset = bs_IsStrictSuperSet B addedBS bsBefore\<rparr>, p')))"

definition beUint16KeyLenIDChecker_IsValid :: "PubKey list \<Rightarrow> bytes \<Rightarrow> bool" where
  "beUint16KeyLenIDChecker_IsValid keys keyID =
     (if length keyID \<noteq> 2 then False
      else case Uint16 keyID of Ret u \<Rightarrow> unat u < length keys | Panic _ \<Rightarrow> False)"

definition simple_HasSparseKeyID :: "'b bitset_ops \<Rightarrow> 'b SimpleProof \<Rightarrow> bytes \<Rightarrow> bool \<times> bool" where
  "simple_HasSparseKeyID B p keyID =
     (if length keyID \<noteq> 2 then (False, False)
      else case Uint16 keyID of
             Ret u \<Rightarrow> if length (sp_keys p) \<le> unat u then (False, False)
                      else (bs_Test B (sp_bitset p) (unat u), True)
           | Panic _ \<Rightarrow> (False, False))"

text \<open>The method table of the scheme \<open>SimpleCommonMessageSignatureProofScheme\<close>.\<close>

definition SimpleScheme :: "verifier \<Rightarrow> 'b bitset_ops \<Rightarrow> ('b SimpleProof, 'b) cmsp" where
  "SimpleScheme V B = \<lparr>
     cm_New = NewSimpleCommonMessageSignatureProof B,
     cm_KeyIDChecker = beUint16KeyLenIDChecker_IsValid,
     cm_Message = sp_msg,
     cm_PubKeyHash = sp_keyHash,
     cm_AddSignature = simple_AddSignature V B,
     cm_Matches = simple_Matches,
     cm_Merge = simple_Merge V B,
     cm_MergeSparse = simple_MergeSparse V B,
     cm_HasSparseKeyID = simple_HasSparseKeyID B,
     cm_Clone = simple_Clone,
     cm_Derive = simple_Derive B,
     cm_SignatureBitSet = sp_bitset,
     cm_AsSparse = simple_AsSparse \<rparr>"

lemmas SimpleScheme_sel [simp] = SimpleScheme_def [THEN arg_cong, of cm_New, simplified]
  SimpleScheme_def [THEN arg_cong, of cm_PubKeyHash, simplified]
  SimpleScheme_def [THEN arg_cong, of cm_AddSignature, simplified]
  SimpleScheme_def [THEN arg_cong, of cm_MergeSparse, simplified]
  SimpleScheme_def [THEN arg_cong, of cm_Clone, simplified]
  SimpleScheme_def [THEN arg_cong, of cm_SignatureBitSet, simplified]
  SimpleScheme_def [THEN arg_cong, of cm_AsSparse, simplified]

end
