(* ===== verification/Consensus.thy ===== *)
theory Consensus
  imports Prelude Gcrypto "HOL-Library.Product_Lexorder"
begin

text \<open>
  The arithmetic and the validator sets of the package \<open>tmconsensus\<close> (\<open>math.go\<close>, \<open>validator.go\<close>).

  \<open>ByzantineMajority\<close> and \<open>ByzantineMinority\<close> work on 64-bit words and panic on zero. The locale
  \<open>quorum_system\<close> states what consensus needs of a majority (two of them share more than any
  tolerated set of faulty validators); it is interpreted on the code's threshold.
\<close>

section \<open>Byzantine thresholds\<close>

definition ByzantineMajority :: "u64 \<Rightarrow> u64 go" where
  "ByzantineMajority n =
     (if n = 0 then Panic ''ByzantineMajority: n must be positive''
      else let quo = n div 3; rem = n mod 3 in
           if rem < 2 then Ret (2 * quo + 1) else Ret (2 * quo + 2))"

definition ByzantineMinority :: "u64 \<Rightarrow> u64 go" where
  "ByzantineMinority n =
     (if n = 0 then Panic ''ByzantineMinority: n must be positive''
      else let quo = n div 3; rem = n mod 3 in
           if rem = 0 then Ret quo else Ret (quo + 1))"

lemma unat_less_iff_word: "(a :: 'a::len word) < b \<longleftrightarrow> unat a < unat b"
  by (simp add: word_less_nat_alt)

lemma ByzantineMajority_value:
  assumes "n \<noteq> 0"
  obtains m where "ByzantineMajority n = Ret m" and "unat m = 2 * unat n div 3 + 1"
proof -
  let ?q = "unat n div 3" and ?r = "unat n mod 3"
  have q: "?q < 6148914691236517206" using unat_u64_bound[of n] by linarith
  have r: "n mod 3 < 2 \<longleftrightarrow> ?r < 2" by (simp add: word_less_nat_alt unat_mod)
  show thesis
  proof (cases "?r < 2")
    case True
    then have "ByzantineMajority n = Ret (2 * (n div 3) + 1)"
      using assms r by (simp add: ByzantineMajority_def Let_def)
    moreover have "unat (2 * (n div 3) + 1) = 2 * ?q + 1"
      using q by (simp add: unat_word_ariths unat_div)
    moreover have "2 * ?q + 1 = 2 * unat n div 3 + 1" using True by presburger
    ultimately show thesis using that by metis
  next
    case False
    then have "ByzantineMajority n = Ret (2 * (n div 3) + 2)"
      using assms r by (simp add: ByzantineMajority_def Let_def)
    moreover have "unat (2 * (n div 3) + 2) = 2 * ?q + 2"
      using q by (simp add: unat_word_ariths unat_div)
    moreover have "2 * ?q + 2 = 2 * unat n div 3 + 1" using False by presburger
    ultimately show thesis using that by metis
  qed
qed

lemma ByzantineMinority_value:
  assumes "n \<noteq> 0"
  obtains m where "ByzantineMinority n = Ret m" and "unat m = (unat n + 2) div 3"
proof -
  let ?q = "unat n div 3" and ?r = "unat n mod 3"
  have q: "?q < 6148914691236517206" using unat_u64_bound[of n] by linarith
  have r: "n mod 3 = 0 \<longleftrightarrow> ?r = 0" by (simp add: word_unat_eq_iff unat_mod)
  show thesis
  proof (cases "?r = 0")
    case True
    then have "ByzantineMinority n = Ret (n div 3)"
      using assms r by (simp add: ByzantineMinority_def Let_def)
    moreover have "unat (n div 3) = (unat n + 2) div 3" using True by (simp add: unat_div) presburger
    ultimately show thesis using that by metis
  next
    case False
    then have "ByzantineMinority n = Ret (n div 3 + 1)"
      using assms r by (simp add: ByzantineMinority_def Let_def)
    moreover have "unat (n div 3 + 1) = ?q + 1"
      using q by (simp add: unat_word_ariths unat_div)
    moreover have "?q + 1 = (unat n + 2) div 3" using False by presburger
    ultimately show thesis using that by metis
  qed
qed

lemma ByzantineMajority_iff:
  assumes "ByzantineMajority n = Ret m"
  shows "m \<le> v \<longleftrightarrow> 2 * unat n < 3 * unat v"
proof -
  have "n \<noteq> 0" using assms by (auto simp: ByzantineMajority_def)
  then have "unat m = 2 * unat n div 3 + 1"
    using ByzantineMajority_value[of n] assms by auto
  then show ?thesis by (simp add: word_le_nat_alt) presburger
qed

lemma ByzantineMinority_iff:
  assumes "ByzantineMinority n = Ret m"
  shows "m \<le> v \<longleftrightarrow> unat n \<le> 3 * unat v"
proof -
  have "n \<noteq> 0" using assms by (auto simp: ByzantineMinority_def)
  then have "unat m = (unat n + 2) div 3"
    using ByzantineMinority_value[of n] assms by auto
  then show ?thesis by (simp add: word_le_nat_alt) presburger
qed

lemma ByzantineMajority_pos: "ByzantineMajority n = Ret m \<Longrightarrow> 0 < unat m"
  using ByzantineMajority_iff[of n m 0] by (simp add: word_le_nat_alt)

section \<open>Validators\<close>

record Validator =
  val_PubKey :: PubKey
  Power :: u64

record ValidatorSet =
  Validators :: "Validator list"
  vs_PubKeyHash :: bytes
  VotePowerHash :: bytes

text \<open>The part of the interface \<open>HashScheme\<close> that concerns validators.\<close>

record validator_hashes =
  hs_PubKeys :: "PubKey list \<Rightarrow> go_error + bytes"
  hs_VotePowers :: "u64 list \<Rightarrow> go_error + bytes"

definition ValidatorsToPubKeys :: "Validator list \<Rightarrow> PubKey list" where
  "ValidatorsToPubKeys vs = map val_PubKey vs"

definition ValidatorsToVotePowers :: "Validator list \<Rightarrow> u64 list" where
  "ValidatorsToVotePowers vs = map Power vs"

definition ValidatorSlicesEqual :: "Validator list \<Rightarrow> Validator list \<Rightarrow> bool" where
  "ValidatorSlicesEqual vs1 vs2 =
     list_all2 (\<lambda>v1 v2. Power v1 = Power v2 \<and> val_PubKey v1 = val_PubKey v2) vs1 vs2"

definition ValidatorSet_Equal :: "ValidatorSet \<Rightarrow> ValidatorSet \<Rightarrow> bool" where
  "ValidatorSet_Equal v other \<longleftrightarrow>
     vs_PubKeyHash v = vs_PubKeyHash other \<and>
     VotePowerHash v = VotePowerHash other \<and>
     ValidatorSlicesEqual (Validators v) (Validators other)"

definition NewValidatorSet :: "Validator list \<Rightarrow> ('a validator_hashes_scheme) \<Rightarrow> go_error + ValidatorSet" where
  "NewValidatorSet vs hs =
     (case hs_PubKeys hs (ValidatorsToPubKeys vs) of
        Inl e \<Rightarrow> Inl e
      | Inr pkh \<Rightarrow>
          (case hs_VotePowers hs (ValidatorsToVotePowers vs) of
             Inl e \<Rightarrow> Inl e
           | Inr vph \<Rightarrow> Inr \<lparr>Validators = vs, vs_PubKeyHash = pkh, VotePowerHash = vph\<rparr>))"

text \<open>\<open>SortValidators\<close>: power descending, then key bytes ascending.\<close>

definition SortValidators :: "Validator list \<Rightarrow> Validator list" where
  "SortValidators vs = sort_key (\<lambda>v. (- uint (Power v), PubKeyBytes (val_PubKey v))) vs"

definition CanTrustValidators :: "Validator list \<Rightarrow> PubKey list \<Rightarrow> bool go" where
  "CanTrustValidators vs pubKeys =
     (let trustedKeys = map PubKeyBytes pubKeys;
          (totalPower, trustedPower) =
            fold (\<lambda>v (tot, trusted).
                (tot + Power v,
                 if PubKeyBytes (val_PubKey v) \<in> set trustedKeys then trusted + Power v else trusted))
              vs (0, 0)
      in gobind (ByzantineMinority totalPower) (\<lambda>m. Ret (m + 1 < trustedPower)))"

lemma ValidatorSlicesEqual_iff: "ValidatorSlicesEqual vs1 vs2 \<longleftrightarrow> vs1 = vs2"
proof -
  have "(\<lambda>v1 v2. Power v1 = Power v2 \<and> val_PubKey v1 = val_PubKey v2) = ((=) :: Validator \<Rightarrow> _)"
    by (auto simp: fun_eq_iff)
  then show ?thesis by (simp add: ValidatorSlicesEqual_def list.rel_eq)
qed

lemma ValidatorSet_Equal_iff [simp]: "ValidatorSet_Equal v w \<longleftrightarrow> v = w"
  by (auto simp: ValidatorSet_Equal_def ValidatorSlicesEqual_iff)

lemma fold_trusted_power:
  "fold (\<lambda>v (tot, trusted). (tot + Power v, if P v then trusted + Power v else trusted)) vs (a, b) =
   (a + sum_list (map Power vs), b + sum_list (map Power (filter P vs)))"
  by (induction vs arbitrary: a b) (auto simp: add.assoc)

section \<open>Voting power of sets of validators\<close>

text \<open>The exact power of a set of validator indices, and of the whole list.\<close>

definition set_power :: "Validator list \<Rightarrow> nat set \<Rightarrow> nat" where
  "set_power vals S = (\<Sum>i \<in> S \<inter> {..<length vals}. unat (Power (vals ! i)))"

definition total_power :: "Validator list \<Rightarrow> nat" where
  "total_power vals = (\<Sum>v\<leftarrow>vals. unat (Power v))"

text \<open>Validator lists whose total power is positive and fits in 64 bits.\<close>

definition powers_ok :: "Validator list \<Rightarrow> bool" where
  "powers_ok vals \<longleftrightarrow> 0 < total_power vals \<and> total_power vals < 2 ^ 64"

lemma set_power_all: "set_power vals {..<length vals} = total_power vals"
  by (simp add: set_power_def total_power_def sum_list_sum_nth atLeast0LessThan)

lemma set_power_mono: "S \<subseteq> T \<Longrightarrow> set_power vals S \<le> set_power vals T"
  unfolding set_power_def by (rule sum_mono2) auto

lemma set_power_le_total: "set_power vals S \<le> total_power vals"
  unfolding set_power_all[symmetric] set_power_def by (rule sum_mono2) auto

lemma set_power_Un_Int:
  "set_power vals (S \<union> T) + set_power vals (S \<inter> T) = set_power vals S + set_power vals T"
proof -
  let ?U = "{..<length vals}" and ?f = "\<lambda>i. unat (Power (vals ! i))"
  have "(S \<union> T) \<inter> ?U = S \<inter> ?U \<union> T \<inter> ?U" "S \<inter> T \<inter> ?U = (S \<inter> ?U) \<inter> (T \<inter> ?U)" by auto
  then show ?thesis
    unfolding set_power_def using sum.union_inter[of "S \<inter> ?U" "T \<inter> ?U" ?f] by simp
qed

lemma unat_total_power:
  "total_power vals < 2 ^ 64 \<Longrightarrow> unat (sum_list (map Power vals)) = total_power vals"
  using unat_sum_list_word[of "map Power vals"] by (simp add: total_power_def comp_def)

section \<open>Quorums\<close>

text \<open>
  What a consensus protocol needs of its quorums, over a weight of voter sets: two quorums share
  voters whose weight exceeds what faulty voters may have.
\<close>

locale quorum_system =
  fixes quorum :: "nat set \<Rightarrow> bool"
    and tolerated :: "nat set \<Rightarrow> bool"
  assumes quorum_mono: "quorum S \<Longrightarrow> S \<subseteq> T \<Longrightarrow> quorum T"
    and tolerated_anti: "tolerated T \<Longrightarrow> S \<subseteq> T \<Longrightarrow> tolerated S"
    and quorum_overlap: "quorum S \<Longrightarrow> quorum T \<Longrightarrow> \<not> tolerated (S \<inter> T)"
begin

text \<open>When the voters outside \<open>F\<close> vote for one value at most, and \<open>F\<close> is tolerated, two values
  with a quorum each are the same value.\<close>

lemma quorum_agreement:
  assumes "quorum (votes a)" and "quorum (votes b)" and "tolerated F"
    and once: "\<And>i. i \<in> votes a \<Longrightarrow> i \<in> votes b \<Longrightarrow> i \<notin> F \<Longrightarrow> a = b"
  shows "a = b"
proof (rule ccontr)
  assume "a \<noteq> b"
  then have "votes a \<inter> votes b \<subseteq> F" using once by blast
  with assms(3) have "tolerated (votes a \<inter> votes b)" by (rule tolerated_anti)
  with quorum_overlap assms(1,2) show False by blast
qed

lemma quorum_witness: "quorum S \<Longrightarrow> tolerated F \<Longrightarrow> \<exists>i \<in> S. i \<notin> F"
  using quorum_overlap[of S S] tolerated_anti[of F S] by auto

end

text \<open>The code's test for a majority of a validator list, and less than a third of its power.\<close>

definition has_majority :: "Validator list \<Rightarrow> nat set \<Rightarrow> bool" where
  "has_majority vals S \<longleftrightarrow> powers_ok vals \<and>
     (case ByzantineMajority (sum_list (map Power vals)) of
        Panic _ \<Rightarrow> False
      | Ret m \<Rightarrow> unat m \<le> set_power vals S)"

definition below_third :: "Validator list \<Rightarrow> nat set \<Rightarrow> bool" where
  "below_third vals F \<longleftrightarrow> 3 * set_power vals F < total_power vals"

lemma has_majority_iff:
  "has_majority vals S \<longleftrightarrow> powers_ok vals \<and> 2 * total_power vals < 3 * set_power vals S"
proof (cases "powers_ok vals")
  case True
  then have t: "unat (sum_list (map Power vals)) = total_power vals"
    by (simp add: unat_total_power powers_ok_def)
  with True have "sum_list (map Power vals) \<noteq> 0" by (auto simp: powers_ok_def)
  then obtain m where "ByzantineMajority (sum_list (map Power vals)) = Ret m"
    and "unat m = 2 * total_power vals div 3 + 1"
    using ByzantineMajority_value t by metis
  then show ?thesis using True by (simp add: has_majority_def) presburger
qed (simp add: has_majority_def)

interpretation byz: quorum_system "has_majority vals" "below_third vals" for vals
proof (unfold_locales, goal_cases)
  case (1 S T)
  then show ?case using set_power_mono[of S T vals] by (auto simp: has_majority_iff)
next
  case (2 T S)
  then show ?case using set_power_mono[of S T vals] by (auto simp: below_third_def)
next
  case (3 S T)
  then show ?case
    using set_power_Un_Int[of vals S T] set_power_le_total[of vals "S \<union> T"]
    by (auto simp: has_majority_iff below_third_def)
qed

section \<open>Properties\<close>

text \<open>(C29) \<open>ByzantineMajority\<close> of a positive power is the least vote power that exceeds two thirds
  of it, it can always be reached, and \<open>ByzantineMinority\<close> is the least power that reaches one
  third; no intermediate result wraps. On zero both panic.\<close>

theorem byzantine_thresholds:
  "(\<exists>e. ByzantineMajority 0 = Panic e) \<and> (\<exists>e. ByzantineMinority 0 = Panic e) \<and>
   (n \<noteq> 0 \<longrightarrow>
     (\<exists>maj min. ByzantineMajority n = Ret maj \<and> ByzantineMinority n = Ret min \<and> min \<le> maj \<and> maj \<le> n \<and>
       (\<forall>v. maj \<le> v \<longleftrightarrow> 2 * unat n < 3 * unat v) \<and> (\<forall>v. min \<le> v \<longleftrightarrow> unat n \<le> 3 * unat v)))"
proof (intro conjI impI)
  assume n: "n \<noteq> 0"
  obtain maj where maj: "ByzantineMajority n = Ret maj" using ByzantineMajority_value[OF n] .
  obtain min where min: "ByzantineMinority n = Ret min" using ByzantineMinority_value[OF n] .
  have "maj \<le> n" using ByzantineMajority_iff[OF maj, of n] n by (simp add: unat_gt_0)
  moreover have "min \<le> maj"
    using ByzantineMinority_iff[OF min, of maj] ByzantineMajority_iff[OF maj, of maj] by simp
  ultimately show "\<exists>maj min. ByzantineMajority n = Ret maj \<and> ByzantineMinority n = Ret min \<and>
      min \<le> maj \<and> maj \<le> n \<and> (\<forall>v. maj \<le> v \<longleftrightarrow> 2 * unat n < 3 * unat v) \<and>
      (\<forall>v. min \<le> v \<longleftrightarrow> unat n \<le> 3 * unat v)"
    using maj min ByzantineMajority_iff[OF maj] ByzantineMinority_iff[OF min] by blast
qed (simp_all add: ByzantineMajority_def ByzantineMinority_def)

theorem byzantine_thresholds_witness:
  "\<exists>maj min. ByzantineMajority 10 = Ret maj \<and> ByzantineMinority 10 = Ret min \<and>
     (\<forall>v. maj \<le> v \<longleftrightarrow> 20 < 3 * unat v) \<and> (\<forall>v. min \<le> v \<longleftrightarrow> 10 \<le> 3 * unat v)"
  using byzantine_thresholds[of 10] by auto

text \<open>\<open>SortValidators\<close> is a permutation ordered by power descending and then by key bytes
  ascending, and for distinct keys the result does not depend on the order of the input.\<close>

theorem SortValidators_canonical:
  assumes "distinct (map (PubKeyBytes \<circ> val_PubKey) vs)"
  shows "mset (SortValidators vs) = mset vs \<and>
    sorted_wrt (\<lambda>v w. Power w < Power v \<or>
      Power v = Power w \<and> PubKeyBytes (val_PubKey v) < PubKeyBytes (val_PubKey w)) (SortValidators vs) \<and>
    (\<forall>vs'. mset vs' = mset vs \<longrightarrow> SortValidators vs' = SortValidators vs)"
proof -
  let ?k = "\<lambda>v. (- uint (Power v), PubKeyBytes (val_PubKey v))"
  have inj: "inj_on ?k (set vs)"
    using assms by (auto simp: distinct_map inj_on_def)
  have srt: "sorted (map ?k (SortValidators vs))" by (simp add: SortValidators_def)
  have "distinct (map (PubKeyBytes \<circ> val_PubKey) (SortValidators vs))"
    using assms by (simp add: SortValidators_def distinct_map)
  then have diff: "PubKeyBytes (val_PubKey (SortValidators vs ! i)) \<noteq> PubKeyBytes (val_PubKey (SortValidators vs ! j))"
    if "i < j" "j < length (SortValidators vs)" for i j
    using that by (auto simp: distinct_conv_nth)
  have "?k (SortValidators vs ! i) \<le> ?k (SortValidators vs ! j)"
    if "i < j" "j < length (SortValidators vs)" for i j
    using sorted_nth_mono[OF srt, of i j] that by simp
  with diff have "sorted_wrt (\<lambda>v w. Power w < Power v \<or>
      Power v = Power w \<and> PubKeyBytes (val_PubKey v) < PubKeyBytes (val_PubKey w)) (SortValidators vs)"
    unfolding sorted_wrt_iff_nth_less less_eq_prod_def word_less_def word_uint_eq_iff
    by (smt (verit) fst_conv order_le_less snd_conv)
  moreover have "SortValidators vs' = SortValidators vs" if "mset vs' = mset vs" for vs'
  proof -
    have "mset (map ?k (SortValidators vs')) = mset (map ?k (SortValidators vs))"
      using that by (simp add: SortValidators_def)
    moreover have "sorted (map ?k (SortValidators vs'))" by (simp add: SortValidators_def)
    ultimately have "map ?k (SortValidators vs') = map ?k (SortValidators vs)"
      using srt properties_for_sort[of "map ?k (SortValidators vs')" "map ?k (SortValidators vs)"]
      by (simp add: sorted_sort_id)
    moreover have "set (SortValidators vs') \<union> set (SortValidators vs) = set vs"
      using mset_eq_setD[OF that] by (simp add: SortValidators_def)
    ultimately show ?thesis
      using inj inj_on_map_eq_map[of ?k "SortValidators vs'" "SortValidators vs"] by simp
  qed
  moreover have "mset (SortValidators vs) = mset vs" by (simp add: SortValidators_def)
  ultimately show ?thesis by blast
qed

theorem SortValidators_canonical_witness:
  "SortValidators [\<lparr>val_PubKey = PubKey ''t'' ''a'', Power = 1\<rparr>, \<lparr>val_PubKey = PubKey ''t'' ''b'', Power = 4\<rparr>] =
   SortValidators [\<lparr>val_PubKey = PubKey ''t'' ''b'', Power = 4\<rparr>, \<lparr>val_PubKey = PubKey ''t'' ''a'', Power = 1\<rparr>]"
proof -
  let ?a = "\<lparr>val_PubKey = PubKey ''t'' ''a'', Power = 1\<rparr>" and ?b = "\<lparr>val_PubKey = PubKey ''t'' ''b'', Power = 4\<rparr>"
  have "distinct (map (PubKeyBytes \<circ> val_PubKey) [?b, ?a])" by simp
  moreover have "mset [?a, ?b] = mset [?b, ?a]" by (simp only: mset.simps add_mset_commute)
  ultimately show ?thesis using SortValidators_canonical by blast
qed

text \<open>\<open>CanTrustValidators\<close> answers whether the trusted keys hold strictly more than one third
  of the power (rounded up) plus one, computed exactly when the total fits in 64 bits; reaching
  one third, as its comment says, is not enough.\<close>

theorem CanTrustValidators_threshold:
  assumes ok: "powers_ok vs"
  shows "CanTrustValidators vs ks =
    Ret ((total_power vs + 2) div 3 + 1 <
      total_power (filter (\<lambda>v. PubKeyBytes (val_PubKey v) \<in> PubKeyBytes ` set ks) vs))"
proof -
  let ?P = "\<lambda>v. PubKeyBytes (val_PubKey v) \<in> PubKeyBytes ` set ks"
  have tot: "unat (sum_list (map Power vs)) = total_power vs"
    using ok by (simp add: powers_ok_def unat_total_power)
  have "total_power (filter ?P vs) \<le> total_power vs"
    unfolding total_power_def by (rule sum_list_filter_le_nat)
  then have "unat (sum_list (map Power (filter ?P vs))) = total_power (filter ?P vs)"
    using ok by (simp add: powers_ok_def unat_total_power)
  moreover have "sum_list (map Power vs) \<noteq> 0" using ok tot by (auto simp: powers_ok_def)
  then obtain m where m: "ByzantineMinority (sum_list (map Power vs)) = Ret m"
    and "unat m = (total_power vs + 2) div 3"
    using ByzantineMinority_value tot by metis
  moreover have "unat (m + 1) = (total_power vs + 2) div 3 + 1"
  proof -
    have "total_power vs < 18446744073709551616" using ok by (simp add: powers_ok_def)
    then have "(total_power vs + 2) div 3 + 1 < 18446744073709551616" by linarith
    then show ?thesis using \<open>unat m = _\<close> by (simp add: unat_word_ariths)
  qed
  ultimately show ?thesis
    by (simp add: CanTrustValidators_def fold_trusted_power Let_def word_less_nat_alt)
qed

theorem CanTrustValidators_threshold_witness:
  "CanTrustValidators [\<lparr>val_PubKey = PubKey ''t'' ''a'', Power = 2\<rparr>, \<lparr>val_PubKey = PubKey ''t'' ''b'', Power = 4\<rparr>]
     [PubKey ''t'' ''a''] = Ret False"
  using CanTrustValidators_threshold[of "[\<lparr>val_PubKey = PubKey ''t'' ''a'', Power = 2\<rparr>,
      \<lparr>val_PubKey = PubKey ''t'' ''b'', Power = 4\<rparr>]" "[PubKey ''t'' ''a'']"]
  by (simp add: powers_ok_def total_power_def)

end
