(* ===== verification/SimpleProof.thy ===== *)
theory SimpleProof
  imports Gcrypto
begin

text \<open>
  Correctness of \<open>SimpleCommonMessageSignatureProof\<close>: its representation invariant, that every
  operation keeps it, the interpretation of the interface \<open>signature_proof\<close>, the exact effect and
  result of \<open>MergeSparse\<close>, and the round trip through the sparse form.
\<close>

section \<open>Key indexes\<close>

lemma keyIndexes_append:
  "keyIndexes (ks @ [k]) = (keyIndexes ks)(PubKeyBytes k \<mapsto> length ks)"
  by (simp add: keyIndexes_def enumerate_append_eq)

lemma keyIndexes_Some:
  "keyIndexes ks b = Some i \<Longrightarrow> i < length ks \<and> PubKeyBytes (ks ! i) = b"
proof (induction ks rule: rev_induct)
  case Nil
  then show ?case by (simp add: keyIndexes_def)
next
  case (snoc k ks)
  then show ?case
    by (auto simp: keyIndexes_append nth_append split: if_splits)
qed

lemma keyIndexes_nth:
  assumes "distinct (map PubKeyBytes ks)" and "i < length ks"
  shows "keyIndexes ks (PubKeyBytes (ks ! i)) = Some i"
  using assms
proof (induction ks rule: rev_induct)
  case Nil
  then show ?case by simp
next
  case (snoc k ks)
  show ?case
  proof (cases "i < length ks")
    case True
    moreover have "PubKeyBytes k \<notin> PubKeyBytes ` set ks" using snoc.prems(1) by auto
    ultimately have "PubKeyBytes (ks ! i) \<noteq> PubKeyBytes k" by (metis imageI nth_mem)
    with True snoc show ?thesis by (simp add: keyIndexes_append nth_append)
  next
    case False
    with snoc.prems(2) have "i = length ks" by simp
    then show ?thesis by (simp add: keyIndexes_append)
  qed
qed

lemma keyIndexes_dom: "b \<in> PubKeyBytes ` set ks \<longleftrightarrow> (\<exists>i. keyIndexes ks b = Some i)"
proof (induction ks rule: rev_induct)
  case Nil
  then show ?case by (simp add: keyIndexes_def)
next
  case (snoc k ks)
  then show ?case by (auto simp: keyIndexes_append)
qed

section \<open>The representation invariant\<close>

text \<open>
  Every stored signature verifies for its key and its key's bit is set; every set bit belongs to a
  candidate key for which a verified signature was seen.
\<close>

definition simple_inv :: "verifier \<Rightarrow> ('b \<Rightarrow> nat set) \<Rightarrow> 'b SimpleProof \<Rightarrow> bool" where
  "simple_inv V bits p \<longleftrightarrow>
     gomap_ok (sp_sigs p) \<and>
     sp_keyIdxs p = keyIndexes (sp_keys p) \<and>
     (\<forall>(sig, k) \<in> set (sp_sigs p). V k (sp_msg p) sig \<and>
        (\<exists>i \<in> bits (sp_bitset p). sp_keyIdxs p (PubKeyBytes k) = Some i)) \<and>
     (\<forall>i \<in> bits (sp_bitset p). \<exists>k sig. V k (sp_msg p) sig \<and> sp_keyIdxs p (PubKeyBytes k) = Some i)"

lemma simple_inv_bits:
  assumes "simple_inv V bits p" and "i \<in> bits (sp_bitset p)"
  shows "\<exists>k sig. i < length (sp_keys p) \<and> PubKeyBytes k = PubKeyBytes (sp_keys p ! i) \<and> V k (sp_msg p) sig"
proof -
  obtain k sig where "V k (sp_msg p) sig" and "keyIndexes (sp_keys p) (PubKeyBytes k) = Some i"
    using assms unfolding simple_inv_def by force
  then show ?thesis using keyIndexes_Some by metis
qed

lemma simple_inv_range: "simple_inv V bits p \<Longrightarrow> bits (sp_bitset p) \<subseteq> {..<length (sp_keys p)}"
  using simple_inv_bits by fastforce

text \<open>What \<open>AddSignature\<close> leaves alone.\<close>

lemma simple_AddSignature_frame:
  assumes "simple_AddSignature V B p sig k = Inr p'"
  shows "sp_msg p' = sp_msg p" and "sp_keys p' = sp_keys p" and "sp_keyIdxs p' = sp_keyIdxs p"
    and "sp_keyHash p' = sp_keyHash p"
  using assms by (auto simp: simple_AddSignature_def split: option.splits if_splits)

context bitset_lib
begin

lemma simple_inv_New:
  "NewSimpleCommonMessageSignatureProof B msg ks kh = Inr p \<Longrightarrow> simple_inv V bits p"
  by (auto simp: NewSimpleCommonMessageSignatureProof_def simple_inv_def bits_New)

lemma simple_inv_Derive: "simple_inv V bits p \<Longrightarrow> simple_inv V bits (simple_Derive B p)"
  by (simp add: simple_Derive_def simple_inv_def bits_New)

lemma simple_AddSignature_bits:
  assumes "simple_AddSignature V B p sig k = Inr p'"
  shows "\<exists>i. sp_keyIdxs p (PubKeyBytes k) = Some i \<and> V k (sp_msg p) sig \<and>
             bits (sp_bitset p') = insert i (bits (sp_bitset p)) \<and>
             sp_sigs p' = AList.update sig k (sp_sigs p)"
  using assms by (auto simp: simple_AddSignature_def bits_Set split: option.splits if_splits)

lemma simple_inv_AddSignature:
  assumes inv: "simple_inv V bits p" and add: "simple_AddSignature V B p sig k = Inr p'"
  shows "simple_inv V bits p'"
proof -
  obtain i where i: "sp_keyIdxs p (PubKeyBytes k) = Some i" and v: "V k (sp_msg p) sig"
    and b: "bits (sp_bitset p') = insert i (bits (sp_bitset p))"
    and s: "sp_sigs p' = AList.update sig k (sp_sigs p)"
    using simple_AddSignature_bits[OF add] by blast
  note frame = simple_AddSignature_frame[OF add]
  have sub: "set (sp_sigs p') \<subseteq> insert (sig, k) (set (sp_sigs p))"
    unfolding s by (rule set_AList_update)
  have "\<exists>j \<in> bits (sp_bitset p'). sp_keyIdxs p' (PubKeyBytes k') = Some j"
    if "(sig', k') \<in> set (sp_sigs p')" for sig' k'
    using that sub inv i b frame unfolding simple_inv_def by fastforce
  moreover have "V k' (sp_msg p') sig'" if "(sig', k') \<in> set (sp_sigs p')" for sig' k'
    using that sub inv v frame unfolding simple_inv_def by fastforce
  moreover have "\<exists>k sig. V k (sp_msg p') sig \<and> sp_keyIdxs p' (PubKeyBytes k) = Some j"
    if "j \<in> bits (sp_bitset p')" for j
    using that inv i v b frame unfolding simple_inv_def by auto
  ultimately show ?thesis
    using inv frame s unfolding simple_inv_def by auto
qed

end

section \<open>MergeSparse\<close>

text \<open>The candidate key that a sparse signature names, and whether the signature verifies for it.\<close>

definition sparse_index :: "SparseSignature \<Rightarrow> nat" where
  "sparse_index ss = (case Uint16 (KeyID ss) of Ret w \<Rightarrow> unat w | Panic _ \<Rightarrow> 0)"

definition sparse_valid :: "verifier \<Rightarrow> 'b SimpleProof \<Rightarrow> SparseSignature \<Rightarrow> bool" where
  "sparse_valid V p ss \<longleftrightarrow> sparse_index ss < length (sp_keys p) \<and>
     V (sp_keys p ! sparse_index ss) (sp_msg p) (Sig ss)"

lemma sparse_valid_frame:
  "sp_msg p' = sp_msg p \<Longrightarrow> sp_keys p' = sp_keys p \<Longrightarrow> sparse_valid V p' ss = sparse_valid V p ss"
  by (simp add: sparse_valid_def)

lemma simple_AddSignature_key:
  assumes "sp_keyIdxs p = keyIndexes (sp_keys p)" and "n < length (sp_keys p)"
  shows "(\<exists>p'. simple_AddSignature V B p sig (sp_keys p ! n) = Inr p') \<longleftrightarrow> V (sp_keys p ! n) (sp_msg p) sig"
proof -
  obtain i where "sp_keyIdxs p (PubKeyBytes (sp_keys p ! n)) = Some i"
    using assms keyIndexes_dom[of "PubKeyBytes (sp_keys p ! n)" "sp_keys p"] by auto
  then show ?thesis by (auto simp: simple_AddSignature_def)
qed

text \<open>A short key ID makes the loop panic, whatever the state it is reached in.\<close>

lemma simple_MergeSparse_step_panics:
  "length (KeyID ss) < 2 \<Longrightarrow> simple_MergeSparse_step V B ss st = Panic ''index out of range''"
  by (auto simp: simple_MergeSparse_step_def Uint16_def split: list.splits prod.splits)

lemma simple_MergeSparse_step_returns:
  assumes "2 \<le> length (KeyID ss)"
  shows "\<exists>st'. simple_MergeSparse_step V B ss st = Ret st'"
proof -
  obtain w where "Uint16 (KeyID ss) = Ret w" using assms by (rule Uint16_returnsE)
  then show ?thesis
    by (cases st) (auto simp: simple_MergeSparse_step_def Let_def split: sum.splits)
qed

lemma gofold_MergeSparse_panics:
  assumes "\<exists>ss \<in> set sigs. length (KeyID ss) < 2"
  shows "gofold (simple_MergeSparse_step V B) sigs st = Panic ''index out of range''"
  using assms
proof (induction sigs arbitrary: st)
  case Nil
  then show ?case by simp
next
  case (Cons ss sigs)
  show ?case
  proof (cases "length (KeyID ss) < 2")
    case True
    then show ?thesis by (simp add: simple_MergeSparse_step_panics)
  next
    case False
    then obtain st' where "simple_MergeSparse_step V B ss st = Ret st'"
      using simple_MergeSparse_step_returns by (metis not_less)
    with False Cons show ?thesis by auto
  qed
qed

context bitset_lib
begin

text \<open>One iteration: the invariant, the frame, the running flag and both bitsets.\<close>

lemma simple_MergeSparse_step_spec:
  assumes inv: "simple_inv V bits p"
    and step: "simple_MergeSparse_step V B ss (a, added, p) = Ret (a', added', p')"
  shows "simple_inv V bits p' \<and> sp_msg p' = sp_msg p \<and> sp_keys p' = sp_keys p \<and>
         sp_keyHash p' = sp_keyHash p \<and>
         a' = (a \<and> sparse_valid V p ss) \<and>
         bits added' = bits added \<union> (if sparse_valid V p ss then {sparse_index ss} else {}) \<and>
         bits (sp_bitset p') = bits (sp_bitset p) \<union>
           (if sparse_valid V p ss
            then {the (keyIndexes (sp_keys p) (PubKeyBytes (sp_keys p ! sparse_index ss)))} else {})"
proof -
  obtain w where w: "Uint16 (KeyID ss) = Ret w"
    using step by (auto simp: simple_MergeSparse_step_def)
  have idx: "sparse_index ss = unat w" using w by (simp add: sparse_index_def)
  have idxs: "sp_keyIdxs p = keyIndexes (sp_keys p)" using inv by (simp add: simple_inv_def)
  show ?thesis
  proof (cases "sparse_valid V p ss")
    case True
    then have n: "unat w < length (sp_keys p)" and v: "V (sp_keys p ! unat w) (sp_msg p) (Sig ss)"
      by (auto simp: sparse_valid_def idx)
    obtain q where q: "simple_AddSignature V B p (Sig ss) (sp_keys p ! unat w) = Inr q"
      using simple_AddSignature_key[OF idxs n] v by blast
    have res: "a' = a" "added' = bs_Set B added (unat w)" "p' = q"
      using step w n q by (auto simp: simple_MergeSparse_step_def Let_def)
    obtain i where "keyIndexes (sp_keys p) (PubKeyBytes (sp_keys p ! unat w)) = Some i"
      and "bits (sp_bitset q) = insert i (bits (sp_bitset p))"
      using simple_AddSignature_bits[OF q] unfolding idxs by blast
    then show ?thesis
      using True simple_inv_AddSignature[OF inv q] simple_AddSignature_frame[OF q]
      by (simp add: res idx bits_Set)
  next
    case False
    then have "simple_MergeSparse_step V B ss (a, added, p) = Ret (False, added, p)"
      using w simple_AddSignature_key[OF idxs, of "unat w" V B "Sig ss"]
      by (auto simp: simple_MergeSparse_step_def Let_def sparse_valid_def idx split: sum.splits)
    with step False inv show ?thesis by simp
  qed
qed

lemma gofold_MergeSparse_spec:
  assumes "simple_inv V bits p"
    and "gofold (simple_MergeSparse_step V B) sigs (a, added, p) = Ret (a', added', p')"
  shows "simple_inv V bits p' \<and> sp_msg p' = sp_msg p \<and> sp_keys p' = sp_keys p \<and>
         sp_keyHash p' = sp_keyHash p \<and>
         a' = (a \<and> (\<forall>ss\<in>set sigs. sparse_valid V p ss)) \<and>
         bits added' = bits added \<union> sparse_index ` {ss \<in> set sigs. sparse_valid V p ss} \<and>
         bits (sp_bitset p') = bits (sp_bitset p) \<union>
           (\<lambda>ss. the (keyIndexes (sp_keys p) (PubKeyBytes (sp_keys p ! sparse_index ss)))) `
             {ss \<in> set sigs. sparse_valid V p ss}"
  using assms
proof (induction sigs arbitrary: a added p)
  case Nil
  then show ?case by simp
next
  case (Cons ss sigs)
  obtain a1 added1 p1 where step: "simple_MergeSparse_step V B ss (a, added, p) = Ret (a1, added1, p1)"
    and rest: "gofold (simple_MergeSparse_step V B) sigs (a1, added1, p1) = Ret (a', added', p')"
    using Cons.prems(2) by auto
  note one = simple_MergeSparse_step_spec[OF Cons.prems(1) step]
  then have inv1: "simple_inv V bits p1" by blast
  have val: "sparse_valid V p1 = sparse_valid V p"
    using one by (auto simp: sparse_valid_def fun_eq_iff)
  show ?case
    using one Cons.IH[OF inv1 rest] unfolding val by auto
qed

lemma simple_MergeSparse_grows:
  assumes inv: "simple_inv V bits p" and m: "simple_MergeSparse V B p s = Ret (r, p')"
  shows "simple_inv V bits p' \<and> sp_keys p' = sp_keys p \<and> sp_keyHash p' = sp_keyHash p \<and>
         sp_msg p' = sp_msg p \<and>
         bits (sp_bitset p) \<subseteq> bits (sp_bitset p') \<and>
         (IncreasedSignatures r \<longleftrightarrow> bits (sp_bitset p) \<noteq> bits (sp_bitset p'))"
proof (cases "sp_keyHash p = ssp_PubKeyHash s")
  case False
  then show ?thesis using m inv by (auto simp: simple_MergeSparse_def)
next
  case True
  obtain a' added' where f: "gofold (simple_MergeSparse_step V B) (ssp_Signatures s)
      (True, bs_New B (length (sp_keys p)), p) = Ret (a', added', p')"
    and r: "IncreasedSignatures r \<longleftrightarrow> bs_Count B (sp_bitset p) < bs_Count B (sp_bitset p')"
    using m True by (auto simp: simple_MergeSparse_def Let_def split: prod.splits)
  note spec = gofold_MergeSparse_spec[OF inv f]
  then have sub: "bits (sp_bitset p) \<subseteq> bits (sp_bitset p')" by blast
  have "IncreasedSignatures r \<longleftrightarrow> card (bits (sp_bitset p)) < card (bits (sp_bitset p'))"
    using r by (simp add: Count_eq)
  also have "\<dots> \<longleftrightarrow> bits (sp_bitset p) \<noteq> bits (sp_bitset p')"
    using sub finite_bits by (metis card_mono card_subset_eq le_neq_implies_less less_irrefl)
  finally show ?thesis using spec sub by blast
qed

end

text \<open>The scheme \<open>SimpleCommonMessageSignatureProofScheme\<close> fulfils the interface, over any bitset
  library that behaves as documented.\<close>

sublocale bitset_lib \<subseteq> simple: signature_proof B bits "SimpleScheme V B" "simple_inv V bits"
  "\<lambda>p. length (sp_keys p)" for V
proof (unfold_locales, goal_cases)
  case (1 msg ks kh p)
  then show ?case
    using simple_inv_New[of msg ks kh p V]
    by (auto simp: NewSimpleCommonMessageSignatureProof_def bits_New)
next
  case (2 p)
  then show ?case using simple_inv_range by auto
next
  case (3 p sig k p')
  then show ?case
    using simple_inv_AddSignature simple_AddSignature_frame simple_AddSignature_bits
    by (metis SimpleScheme_sel(2,3,6) subset_insertI)
next
  case (4 p s r p')
  then show ?case using simple_MergeSparse_grows by auto
next
  case (5 p)
  then show ?case by (simp add: simple_Clone_def)
qed

text \<open>With the interpretation \<open>rbs\<close> of the reference bitset, the facts of \<open>signature_proof\<close> for the
  simple scheme are available under the qualifier \<open>rbs.simple\<close>.\<close>

section \<open>Round trip through the sparse form\<close>

text \<open>The bits of a proof are exactly the indexes of the keys it stores a signature for.\<close>

definition simple_exact :: "('b \<Rightarrow> nat set) \<Rightarrow> 'b SimpleProof \<Rightarrow> bool" where
  "simple_exact bits p \<longleftrightarrow>
     bits (sp_bitset p) = {i. \<exists>(sig, k) \<in> set (sp_sigs p). sp_keyIdxs p (PubKeyBytes k) = Some i} \<and>
     (\<forall>(sig, k) \<in> set (sp_sigs p). k \<in> set (sp_keys p))"

lemma map_of_fold_update:
  "map_of (fold (\<lambda>x m. AList.update (f x) (h x) m) xs m) =
   map_of m ++ map_of (rev (map (\<lambda>x. (f x, h x)) xs))"
proof (induction xs arbitrary: m)
  case Nil
  then show ?case by simp
next
  case (Cons x xs)
  have "map_of (AList.update (f x) (h x) m) = (map_of m)(f x \<mapsto> h x)"
    by (simp add: update_conv')
  with Cons show ?case by (simp add: map_add_def fun_eq_iff split: option.split)
qed

text \<open>When every signature is valid, the loop stores exactly the signatures it is given.\<close>

lemma gofold_MergeSparse_sigs:
  assumes "gofold (simple_MergeSparse_step V B) sigs (a, added, p) = Ret (a', added', p')" and "a'"
  shows "sp_sigs p' = fold (\<lambda>ss m. AList.update (Sig ss) (sp_keys p ! sparse_index ss) m) sigs (sp_sigs p)
         \<and> a"
  using assms
proof (induction sigs arbitrary: a added p)
  case Nil
  then show ?case by simp
next
  case (Cons ss sigs)
  obtain a1 added1 p1 where step: "simple_MergeSparse_step V B ss (a, added, p) = Ret (a1, added1, p1)"
    and rest: "gofold (simple_MergeSparse_step V B) sigs (a1, added1, p1) = Ret (a', added', p')"
    using Cons.prems(1) by auto
  note IH = Cons.IH[OF rest Cons.prems(2)]
  then have a1: "a1" by blast
  obtain w where w: "Uint16 (KeyID ss) = Ret w" using step by (auto simp: simple_MergeSparse_step_def)
  then have add: "simple_AddSignature V B p (Sig ss) (sp_keys p ! unat w) = Inr p1" and "a"
    using step a1 by (auto simp: simple_MergeSparse_step_def Let_def split: if_splits sum.splits)
  then have "sp_sigs p1 = AList.update (Sig ss) (sp_keys p ! unat w) (sp_sigs p)"
    by (auto simp: simple_AddSignature_def split: option.splits if_splits)
  then show ?case
    using IH w \<open>a\<close> simple_AddSignature_frame(2)[OF add] by (simp add: sparse_index_def)
qed

text \<open>The sparse entry of a stored signature names the index of its key.\<close>

definition sparse_entry :: "'b SimpleProof \<Rightarrow> bytes \<times> PubKey \<Rightarrow> SparseSignature" where
  "sparse_entry p e = \<lparr>KeyID = PutUint16 (word_of_nat (case sp_keyIdxs p (PubKeyBytes (snd e)) of
     None \<Rightarrow> 0 | Some i \<Rightarrow> i)), Sig = fst e\<rparr>"

lemma simple_AsSparse_entries:
  "simple_AsSparse p = \<lparr>ssp_PubKeyHash = sp_keyHash p,
     ssp_Signatures = sort_key KeyID (map (sparse_entry p) (sp_sigs p))\<rparr>"
  by (simp add: simple_AsSparse_def sparse_entry_def[abs_def] case_prod_unfold Let_def)

lemma sparse_entry_index:
  assumes "sp_keyIdxs p = keyIndexes (sp_keys p)" and "distinct (map PubKeyBytes (sp_keys p))"
    and "length (sp_keys p) \<le> 65536" and "k \<in> set (sp_keys p)"
  shows "sp_keyIdxs p (PubKeyBytes k) = Some (sparse_index (sparse_entry p (sig, k)))"
    and "sparse_index (sparse_entry p (sig, k)) < length (sp_keys p)"
    and "sp_keys p ! sparse_index (sparse_entry p (sig, k)) = k"
proof -
  obtain i where i: "i < length (sp_keys p)" "sp_keys p ! i = k"
    using assms(4) by (auto simp: in_set_conv_nth)
  then have idx: "sp_keyIdxs p (PubKeyBytes k) = Some i"
    using keyIndexes_nth[OF assms(2)] assms(1) by auto
  have "unat (word_of_nat i :: u16) = i"
    using i(1) assms(3) by (simp add: unat_of_nat take_bit_eq_mod)
  then have "sparse_index (sparse_entry p (sig, k)) = i"
    using idx by (simp add: sparse_index_def sparse_entry_def)
  then show "sp_keyIdxs p (PubKeyBytes k) = Some (sparse_index (sparse_entry p (sig, k)))"
    and "sparse_index (sparse_entry p (sig, k)) < length (sp_keys p)"
    and "sp_keys p ! sparse_index (sparse_entry p (sig, k)) = k"
    using i idx by auto
qed

text \<open>Storing the sparse entries again gives back the signature map.\<close>

lemma sparse_entries_map_of:
  assumes ok: "gomap_ok (sp_sigs p)"
    and keys: "\<And>e. e \<in> set (sp_sigs p) \<Longrightarrow> sp_keys p ! sparse_index (sparse_entry p e) = snd e"
  shows "map_of (fold (\<lambda>ss m. AList.update (Sig ss) (sp_keys p ! sparse_index ss) m)
           (ssp_Signatures (simple_AsSparse p)) []) = map_of (sp_sigs p)"
proof -
  let ?g = "\<lambda>ss. (Sig ss, sp_keys p ! sparse_index ss)"
  have undo: "?g (sparse_entry p e) = e" if "e \<in> set (sp_sigs p)" for e
    using keys[OF that] by (simp add: sparse_entry_def)
  have "mset (rev (map ?g (ssp_Signatures (simple_AsSparse p)))) =
        mset (map (\<lambda>e. ?g (sparse_entry p e)) (sp_sigs p))"
    by (simp add: simple_AsSparse_entries image_mset.compositionality comp_def)
  also have "map (\<lambda>e. ?g (sparse_entry p e)) (sp_sigs p) = sp_sigs p"
    by (rule map_idI) (rule undo)
  finally have "map_of (rev (map ?g (ssp_Signatures (simple_AsSparse p)))) = map_of (sp_sigs p)"
    by (rule gomap_perm(2)[OF ok])
  then show ?thesis
    using map_of_fold_update[of Sig "\<lambda>ss. sp_keys p ! sparse_index ss"] by simp
qed

section \<open>The round trip\<close>

lemma sparse_roundtrip_holds:
  assumes lib: "bitset_lib B bits"
    and inv: "simple_inv V bits p" and exact: "simple_exact bits p"
    and dist: "distinct (map PubKeyBytes (sp_keys p))" and len: "length (sp_keys p) \<le> 65536"
  shows "\<exists>r p'. simple_MergeSparse V B (simple_Derive B p) (simple_AsSparse p) = Ret (r, p') \<and>
     AllValidSignatures r \<and> bits (sp_bitset p') = bits (sp_bitset p) \<and>
     map_of (sp_sigs p') = map_of (sp_sigs p)"
proof -
  let ?d = "simple_Derive B p" and ?s = "simple_AsSparse p"
  have idxs: "sp_keyIdxs p = keyIndexes (sp_keys p)" and ok: "gomap_ok (sp_sigs p)"
    using inv by (auto simp: simple_inv_def)
  have d: "sp_keys ?d = sp_keys p" "sp_msg ?d = sp_msg p" "sp_sigs ?d = []" "bits (sp_bitset ?d) = {}"
    "sp_keyHash ?d = ssp_PubKeyHash ?s"
    using bitset_lib.bits_New[OF lib] by (simp_all add: simple_Derive_def simple_AsSparse_def)
  have set_s: "set (ssp_Signatures ?s) = sparse_entry p ` set (sp_sigs p)"
    by (simp add: simple_AsSparse_entries)
  have entry: "sparse_index (sparse_entry p e) < length (sp_keys p) \<and>
      sp_keys p ! sparse_index (sparse_entry p e) = snd e \<and> V (snd e) (sp_msg p) (fst e) \<and>
      sp_keyIdxs p (PubKeyBytes (snd e)) = Some (sparse_index (sparse_entry p e))"
    if "e \<in> set (sp_sigs p)" for e
    using that sparse_entry_index[OF idxs dist len, of "snd e" "fst e"] exact inv
    by (cases e) (auto simp: simple_exact_def simple_inv_def)
  have valid: "\<forall>ss\<in>set (ssp_Signatures ?s). sparse_valid V ?d ss"
    using entry by (auto simp: set_s sparse_valid_def d sparse_entry_def)
  have dinv: "simple_inv V bits ?d" by (rule bitset_lib.simple_inv_Derive[OF lib inv])
  have "\<forall>ss\<in>set (ssp_Signatures ?s). 2 \<le> length (KeyID ss)"
    by (auto simp: set_s sparse_entry_def)
  then have "\<exists>st'. gofold (simple_MergeSparse_step V B) (ssp_Signatures ?s)
      (True, bs_New B (length (sp_keys ?d)), ?d) = Ret st'"
    by (intro gofold_total simple_MergeSparse_step_returns) auto
  then obtain a added q where f: "gofold (simple_MergeSparse_step V B) (ssp_Signatures ?s)
      (True, bs_New B (length (sp_keys ?d)), ?d) = Ret (a, added, q)" by auto
  note spec = bitset_lib.gofold_MergeSparse_spec[OF lib dinv f]
  then have a: a using valid by blast
  define r where "r = \<lparr>AllValidSignatures = a,
    IncreasedSignatures = bs_Count B (sp_bitset ?d) < bs_Count B (sp_bitset q),
    WasStrictSuperset = bs_IsStrictSuperSet B added (sp_bitset ?d)\<rparr>"
  have "simple_MergeSparse V B ?d ?s = Ret (r, q)"
    using f d(5) by (simp add: simple_MergeSparse_def r_def Let_def)
  moreover have "bits (sp_bitset q) = bits (sp_bitset p)"
  proof -
    let ?idx = "\<lambda>ss. the (keyIndexes (sp_keys p) (PubKeyBytes (sp_keys p ! sparse_index ss)))"
    have all: "{ss \<in> set (ssp_Signatures ?s). sparse_valid V ?d ss} = sparse_entry p ` set (sp_sigs p)"
      using valid set_s by blast
    have "bits (sp_bitset q) = ?idx ` sparse_entry p ` set (sp_sigs p)"
      using spec unfolding all by (simp add: d)
    also have "\<dots> = (\<lambda>e. sparse_index (sparse_entry p e)) ` set (sp_sigs p)"
      unfolding image_image using entry idxs by (intro image_cong) simp_all
    also have "\<dots> = bits (sp_bitset p)"
      using entry exact unfolding simple_exact_def by fastforce
    finally show ?thesis .
  qed
  moreover have "map_of (sp_sigs q) = map_of (sp_sigs p)"
    using gofold_MergeSparse_sigs[OF f a] sparse_entries_map_of[OF ok] entry by (simp add: d)
  ultimately show ?thesis using a by (auto simp: r_def)
qed

lemma simple_MergeSparse_valid:
  assumes lib: "bitset_lib B bits"
    and inv: "simple_inv V bits p"
    and dist: "distinct (map PubKeyBytes (sp_keys p))"
    and hash: "sp_keyHash p = ssp_PubKeyHash s"
    and ids: "\<forall>ss\<in>set (ssp_Signatures s). 2 \<le> length (KeyID ss)"
  shows "\<exists>r p'. simple_MergeSparse V B p s = Ret (r, p') \<and> simple_inv V bits p' \<and>
     sp_msg p' = sp_msg p \<and> sp_keys p' = sp_keys p \<and> sp_keyHash p' = sp_keyHash p \<and>
     AllValidSignatures r = (\<forall>ss\<in>set (ssp_Signatures s). sparse_valid V p ss) \<and>
     bits (sp_bitset p') = bits (sp_bitset p) \<union>
       sparse_index ` {ss \<in> set (ssp_Signatures s). sparse_valid V p ss} \<and>
     IncreasedSignatures r = (bits (sp_bitset p') \<noteq> bits (sp_bitset p)) \<and>
     WasStrictSuperset r = (bits (sp_bitset p) \<subset>
       sparse_index ` {ss \<in> set (ssp_Signatures s). sparse_valid V p ss})"
proof -
  let ?f = "simple_MergeSparse_step V B" and ?st = "(True, bs_New B (length (sp_keys p)), p)"
  let ?idx = "\<lambda>ss. the (keyIndexes (sp_keys p) (PubKeyBytes (sp_keys p ! sparse_index ss)))"
  let ?ok = "{ss \<in> set (ssp_Signatures s). sparse_valid V p ss}"
  have "\<exists>st'. gofold ?f (ssp_Signatures s) ?st = Ret st'"
    using ids by (intro gofold_total simple_MergeSparse_step_returns) auto
  then obtain a q added where f: "gofold ?f (ssp_Signatures s) ?st = Ret (a, added, q)" by auto
  note spec = bitset_lib.gofold_MergeSparse_spec[OF lib inv f]
  define r where "r = \<lparr>AllValidSignatures = a,
    IncreasedSignatures = bs_Count B (sp_bitset p) < bs_Count B (sp_bitset q),
    WasStrictSuperset = bs_IsStrictSuperSet B added (sp_bitset p)\<rparr>"
  have m: "simple_MergeSparse V B p s = Ret (r, q)"
    using f hash by (simp add: simple_MergeSparse_def r_def Let_def)
  have same: "?idx ` ?ok = sparse_index ` ?ok"
    by (rule image_cong) (auto simp: sparse_valid_def keyIndexes_nth[OF dist])
  have "bits added = sparse_index ` ?ok"
    using spec bitset_lib.bits_New[OF lib] by simp
  then have "WasStrictSuperset r = (bits (sp_bitset p) \<subset> sparse_index ` ?ok)"
    by (simp add: r_def bitset_lib.StrictSuperSet_iff[OF lib])
  moreover have "IncreasedSignatures r = (bits (sp_bitset q) \<noteq> bits (sp_bitset p))"
    using bitset_lib.simple_MergeSparse_grows[OF lib inv m] by blast
  ultimately show ?thesis
    using m spec same by (auto simp: r_def)
qed

section \<open>Properties\<close>

text \<open>(C27) \<open>MergeSparse\<close> with the right key hash and well-formed key IDs always returns; it reports
  valid exactly when every signature verifies for the candidate key its ID names, sets exactly the
  bits of the signatures that verify (an invalid one never counts), keeps the proof's invariant,
  and reports whether bits were gained and whether the added bits strictly contain the old ones.\<close>

theorem simple_MergeSparse_exact:
  assumes lib: "bitset_lib B bits"
    and inv: "simple_inv V bits p"
    and dist: "distinct (map PubKeyBytes (sp_keys p))"
    and hash: "sp_keyHash p = ssp_PubKeyHash s"
    and ids: "\<forall>ss\<in>set (ssp_Signatures s). 2 \<le> length (KeyID ss)"
  shows "\<exists>r p'. simple_MergeSparse V B p s = Ret (r, p') \<and> simple_inv V bits p' \<and>
     AllValidSignatures r = (\<forall>ss\<in>set (ssp_Signatures s). sparse_valid V p ss) \<and>
     bits (sp_bitset p') = bits (sp_bitset p) \<union>
       sparse_index ` {ss \<in> set (ssp_Signatures s). sparse_valid V p ss} \<and>
     IncreasedSignatures r = (bits (sp_bitset p') \<noteq> bits (sp_bitset p)) \<and>
     WasStrictSuperset r = (bits (sp_bitset p) \<subset>
       sparse_index ` {ss \<in> set (ssp_Signatures s). sparse_valid V p ss})"
  using simple_MergeSparse_valid[OF assms] by (elim exE conjE) (intro exI conjI; assumption)

text \<open>A proof over two keys for the message \<open>m\<close>, on the reference bitset; the verifier accepts the
  signature that repeats the key's bytes.\<close>

definition ex_V :: verifier where
  "ex_V k msg sig \<longleftrightarrow> sig = PubKeyBytes k"

definition ex_proof :: "nat list SimpleProof" where
  "ex_proof = \<lparr>sp_msg = ''m'', sp_sigs = [(''b'', PubKey ''t'' ''b'')],
     sp_keys = [PubKey ''t'' ''a'', PubKey ''t'' ''b''],
     sp_keyIdxs = keyIndexes [PubKey ''t'' ''a'', PubKey ''t'' ''b''],
     sp_keyHash = ''h'', sp_bitset = [1]\<rparr>"

lemma ex_keyIndexes:
  "keyIndexes [PubKey ''t'' ''a'', PubKey ''t'' ''b''] = [''a'' \<mapsto> 0, ''b'' \<mapsto> 1]"
  by (simp add: keyIndexes_def numeral_2_eq_2)

lemma ex_proof_inv: "simple_inv ex_V set ex_proof"
  by (auto simp: simple_inv_def ex_proof_def ex_V_def gomap_ok_def ex_keyIndexes
      intro: exI[of _ "PubKey ''t'' ''b''"])

theorem simple_MergeSparse_exact_witness:
  "\<exists>r p'. simple_MergeSparse ex_V ref_bitset ex_proof
      \<lparr>ssp_PubKeyHash = ''h'', ssp_Signatures = [\<lparr>KeyID = PutUint16 0, Sig = ''a''\<rparr>]\<rparr> = Ret (r, p') \<and>
     simple_inv ex_V set p' \<and> IncreasedSignatures r = (set (sp_bitset p') \<noteq> set (sp_bitset ex_proof))"
proof -
  let ?s = "\<lparr>ssp_PubKeyHash = ''h'', ssp_Signatures = [\<lparr>KeyID = PutUint16 0, Sig = ''a''\<rparr>]\<rparr>"
  have "\<forall>ss\<in>set (ssp_Signatures ?s). 2 \<le> length (KeyID ss)" by simp
  then show ?thesis
    using simple_MergeSparse_exact[OF rbs.bitset_lib_axioms ex_proof_inv, of ?s]
    by (auto simp: ex_proof_def)
qed

text \<open>A key ID of fewer than two bytes in a sparse proof with the right key hash makes
  \<open>MergeSparse\<close> panic: unlike \<open>HasSparseKeyID\<close> it does not check the length first.\<close>

theorem simple_MergeSparse_short_key_panics:
  assumes "sp_keyHash p = ssp_PubKeyHash s"
    and "\<exists>ss\<in>set (ssp_Signatures s). length (KeyID ss) < 2"
  shows "\<exists>m. simple_MergeSparse V B p s = Panic m"
  using gofold_MergeSparse_panics[OF assms(2), of V B "(True, bs_New B (length (sp_keys p)), p)"] assms(1)
  by (simp add: simple_MergeSparse_def Let_def)

theorem simple_MergeSparse_short_key_panics_witness:
  "\<exists>m. simple_MergeSparse (\<lambda>k msg sig. True) ref_bitset
     \<lparr>sp_msg = ''m'', sp_sigs = [], sp_keys = [PubKey ''t'' ''k''], sp_keyIdxs = keyIndexes [PubKey ''t'' ''k''],
      sp_keyHash = ''h'', sp_bitset = []\<rparr>
     \<lparr>ssp_PubKeyHash = ''h'', ssp_Signatures = [\<lparr>KeyID = ''x'', Sig = ''s''\<rparr>]\<rparr> = Panic m"
  by (rule simple_MergeSparse_short_key_panics) simp_all

text \<open>Sending a proof in sparse form and merging it into an empty proof over the same candidate
  keys rebuilds it: every signature is accepted, and the signature map and the bits are those of
  the sender.\<close>

theorem simple_sparse_roundtrip:
  assumes lib: "bitset_lib B bits"
    and inv: "simple_inv V bits p" and exact: "simple_exact bits p"
    and dist: "distinct (map PubKeyBytes (sp_keys p))" and len: "length (sp_keys p) \<le> 65536"
  shows "\<exists>r p'. simple_MergeSparse V B (simple_Derive B p) (simple_AsSparse p) = Ret (r, p') \<and>
     AllValidSignatures r \<and> bits (sp_bitset p') = bits (sp_bitset p) \<and>
     map_of (sp_sigs p') = map_of (sp_sigs p)"
  using assms by (rule sparse_roundtrip_holds)

theorem simple_sparse_roundtrip_witness:
  "\<exists>r p'. simple_MergeSparse ex_V ref_bitset (simple_Derive ref_bitset ex_proof) (simple_AsSparse ex_proof) =
      Ret (r, p') \<and> AllValidSignatures r \<and> set (sp_bitset p') = {1}"
proof -
  have "simple_exact set ex_proof"
    by (auto simp: simple_exact_def ex_proof_def ex_keyIndexes)
  then show ?thesis
    using simple_sparse_roundtrip[OF rbs.bitset_lib_axioms ex_proof_inv]
    by (fastforce simp: ex_proof_def)
qed

end
