(* ===== verification/VoteSummary.thy ===== *)
theory VoteSummary
  imports Consensus SimpleProof
begin

text \<open>
  The vote summary of \<open>tmconsensus/votesummary.go\<close>: how much voting power stands behind each block
  hash of a round. The proofs of a vote type are a Go map from block hashes to signature proofs,
  given as an association list in iteration order; the empty hash is the nil block.
\<close>

section \<open>Definitions\<close>

record VoteSummary =
  AvailablePower :: u64
  TotalPrevotePower :: u64
  TotalPrecommitPower :: u64
  PrevoteBlockPower :: "(bytes, u64) gomap"
  PrecommitBlockPower :: "(bytes, u64) gomap"
  MostVotedPrevoteHash :: bytes
  MostVotedPrecommitHash :: bytes

definition NewVoteSummary :: VoteSummary where
  "NewVoteSummary = \<lparr>AvailablePower = 0, TotalPrevotePower = 0, TotalPrecommitPower = 0,
     PrevoteBlockPower = [], PrecommitBlockPower = [],
     MostVotedPrevoteHash = '''', MostVotedPrecommitHash = ''''\<rparr>"

definition VoteSummary_Clone :: "VoteSummary \<Rightarrow> VoteSummary" where
  "VoteSummary_Clone vs = \<lparr>
     AvailablePower = AvailablePower vs,
     TotalPrevotePower = TotalPrevotePower vs,
     TotalPrecommitPower = TotalPrecommitPower vs,
     PrevoteBlockPower = PrevoteBlockPower vs,
     PrecommitBlockPower = PrecommitBlockPower vs,
     MostVotedPrevoteHash = MostVotedPrevoteHash vs,
     MostVotedPrecommitHash = MostVotedPrecommitHash vs \<rparr>"

definition SetAvailablePower :: "Validator list \<Rightarrow> VoteSummary \<Rightarrow> VoteSummary" where
  "SetAvailablePower vals vs =
     fold (\<lambda>v s. s\<lparr>AvailablePower := AvailablePower s + Power v\<rparr>) vals (vs\<lparr>AvailablePower := 0\<rparr>)"

text \<open>The inner loop over the set bits, \<open>NextSet(0)\<close>, \<open>NextSet(i + 1)\<close>, while the index is in range.
  Every round moves past one validator index, so that a fuel above \<open>length vals\<close> is enough.\<close>

fun signedPower_loop ::
  "'b bitset_ops \<Rightarrow> 'b \<Rightarrow> Validator list \<Rightarrow> nat \<Rightarrow> nat \<Rightarrow> u64 \<times> u64 \<Rightarrow> u64 \<times> u64" where
  "signedPower_loop B bs vals 0 start acc = acc"
| "signedPower_loop B bs vals (Suc fuel) start (tot, blockPow) =
     (case bs_NextSet B bs start of
        None \<Rightarrow> (tot, blockPow)
      | Some i \<Rightarrow>
          if i < length vals
          then signedPower_loop B bs vals fuel (i + 1) (tot + Power (vals ! i), blockPow + Power (vals ! i))
          else (tot, blockPow))"

text \<open>One block hash of \<open>SetPrevotePowers\<close> and \<open>SetPrecommitPowers\<close>: the state is the total power,
  the block powers, \<open>maxHash\<close> and \<open>maxPow\<close>.\<close>

definition tally_step ::
  "('p, 'b) cmsp \<Rightarrow> 'b bitset_ops \<Rightarrow> Validator list \<Rightarrow> bytes \<times> 'p \<Rightarrow>
   u64 \<times> (bytes, u64) gomap \<times> bytes \<times> u64 \<Rightarrow> u64 \<times> (bytes, u64) gomap \<times> bytes \<times> u64" where
  "tally_step C B vals e st =
     (case (e, st) of ((blockHash, proof), (tot, powers, maxHash, maxPow)) \<Rightarrow>
        let (tot', blockPow) =
              signedPower_loop B (cm_SignatureBitSet C proof) vals (Suc (length vals)) 0 (tot, 0);
            powers' = AList.update blockHash blockPow powers
        in if blockPow = maxPow then (tot', powers', min maxHash blockHash, maxPow)
           else if maxPow < blockPow then (tot', powers', blockHash, blockPow)
           else (tot', powers', maxHash, maxPow))"

definition SetPrevotePowers ::
  "('p, 'b) cmsp \<Rightarrow> 'b bitset_ops \<Rightarrow> Validator list \<Rightarrow> (bytes, 'p) gomap \<Rightarrow> VoteSummary \<Rightarrow> VoteSummary" where
  "SetPrevotePowers C B vals prevotes vs =
     (case fold (tally_step C B vals) prevotes (0, [], '''', 0) of (tot, powers, maxHash, maxPow) \<Rightarrow>
        vs\<lparr>TotalPrevotePower := tot, PrevoteBlockPower := powers, MostVotedPrevoteHash := maxHash\<rparr>)"

definition SetPrecommitPowers ::
  "('p, 'b) cmsp \<Rightarrow> 'b bitset_ops \<Rightarrow> Validator list \<Rightarrow> (bytes, 'p) gomap \<Rightarrow> VoteSummary \<Rightarrow> VoteSummary" where
  "SetPrecommitPowers C B vals precommits vs =
     (case fold (tally_step C B vals) precommits (0, [], '''', 0) of (tot, powers, maxHash, maxPow) \<Rightarrow>
        vs\<lparr>TotalPrecommitPower := tot, PrecommitBlockPower := powers, MostVotedPrecommitHash := maxHash\<rparr>)"

definition SetVotePowers ::
  "('p, 'b) cmsp \<Rightarrow> 'b bitset_ops \<Rightarrow> Validator list \<Rightarrow> (bytes, 'p) gomap \<Rightarrow> (bytes, 'p) gomap \<Rightarrow>
   VoteSummary \<Rightarrow> VoteSummary" where
  "SetVotePowers C B vals prevotes precommits vs =
     SetPrecommitPowers C B vals precommits (SetPrevotePowers C B vals prevotes vs)"

definition VoteSummary_ResetForSameHeight :: "VoteSummary \<Rightarrow> VoteSummary" where
  "VoteSummary_ResetForSameHeight vs = vs\<lparr>
     TotalPrevotePower := 0, TotalPrecommitPower := 0,
     PrevoteBlockPower := [], PrecommitBlockPower := [],
     MostVotedPrevoteHash := '''', MostVotedPrecommitHash := ''''\<rparr>"

definition VoteSummary_Reset :: "VoteSummary \<Rightarrow> VoteSummary" where
  "VoteSummary_Reset vs = VoteSummary_ResetForSameHeight (vs\<lparr>AvailablePower := 0\<rparr>)"

section \<open>The tally\<close>

lemma VoteSummary_Clone_id [simp]: "VoteSummary_Clone vs = vs"
  by (simp add: VoteSummary_Clone_def)

lemma VoteSummary_Reset_New: "VoteSummary_Reset vs = NewVoteSummary"
  by (simp add: VoteSummary_Reset_def VoteSummary_ResetForSameHeight_def NewVoteSummary_def)

lemma fold_available_power:
  "fold (\<lambda>v s. s\<lparr>AvailablePower := AvailablePower s + Power v\<rparr>) vals vs =
   vs\<lparr>AvailablePower := AvailablePower vs + sum_list (map Power vals)\<rparr>"
  by (induction vals arbitrary: vs) (simp_all add: add.assoc)

lemma SetAvailablePower_eq: "SetAvailablePower vals vs = vs\<lparr>AvailablePower := sum_list (map Power vals)\<rparr>"
  by (simp add: SetAvailablePower_def fold_available_power)

text \<open>The 64-bit sum of the powers of the validators in a set of indices.\<close>

definition word_power :: "Validator list \<Rightarrow> nat set \<Rightarrow> u64" where
  "word_power vals S = (\<Sum>i \<in> S \<inter> {..<length vals}. Power (vals ! i))"

lemma unat_sum_word:
  fixes f :: "'i \<Rightarrow> u64"
  assumes "finite A" and "(\<Sum>i\<in>A. unat (f i)) < 2 ^ 64"
  shows "unat (\<Sum>i\<in>A. f i) = (\<Sum>i\<in>A. unat (f i))"
  using assms
proof (induction A rule: finite_induct)
  case empty
  then show ?case by simp
next
  case (insert a A)
  then show ?case by (simp add: unat_word_ariths)
qed

lemma unat_word_power: "powers_ok vals \<Longrightarrow> unat (word_power vals S) = set_power vals S"
  unfolding word_power_def set_power_def
  using set_power_le_total[of vals S] by (subst unat_sum_word) (auto simp: powers_ok_def set_power_def)

context bitset_lib
begin

lemma signedPower_loop_sum:
  "length vals < fuel + start \<Longrightarrow>
   signedPower_loop B bs vals fuel start (tot, pow) =
     (let w = \<Sum>i \<in> {i \<in> bits bs. start \<le> i \<and> i < length vals}. Power (vals ! i) in (tot + w, pow + w))"
proof (induction fuel arbitrary: start tot pow)
  case 0
  then have "{i \<in> bits bs. start \<le> i \<and> i < length vals} = {}" by auto
  then show ?case by (simp del: Collect_empty_eq)
next
  case (Suc fuel)
  let ?S = "\<lambda>k. {i \<in> bits bs. k \<le> i \<and> i < length vals}"
  show ?case
  proof (cases "bs_NextSet B bs start")
    case None
    then have "?S start = {}" using NextSet_None[OF None] by auto
    with None show ?thesis by (simp del: Collect_empty_eq)
  next
    case (Some j)
    note next_j = NextSet_Some[OF Some]
    show ?thesis
    proof (cases "j < length vals")
      case True
      then have S: "?S start = insert j (?S (j + 1))" using next_j by fastforce
      have "(\<Sum>i \<in> ?S start. Power (vals ! i)) = Power (vals ! j) + (\<Sum>i \<in> ?S (j + 1). Power (vals ! i))"
        unfolding S by (subst sum.insert) auto
      moreover have "length vals < fuel + (j + 1)" using Suc.prems next_j by simp
      ultimately show ?thesis
        using Some True Suc.IH by (simp add: Let_def add.assoc)
    next
      case False
      then have "?S start = {}" using next_j by fastforce
      with Some False show ?thesis by (simp del: Collect_empty_eq)
    qed
  qed
qed

lemma signedPower_loop_eq:
  "signedPower_loop B bs vals (Suc (length vals)) 0 (tot, 0) =
     (tot + word_power vals (bits bs), word_power vals (bits bs))"
proof -
  have "{i \<in> bits bs. i < length vals} = bits bs \<inter> {..<length vals}" by auto
  then show ?thesis by (subst signedPower_loop_sum) (simp_all add: word_power_def Let_def)
qed

end

text \<open>The winner: the empty hash when nothing has power, otherwise the lexicographically least hash
  among those with the most power.\<close>

definition most_voted :: "(bytes \<times> u64) list \<Rightarrow> bytes \<Rightarrow> bool" where
  "most_voted ps h \<longleftrightarrow>
     (if \<forall>(k, q) \<in> set ps. q = 0 then h = ''''
      else \<exists>p. (h, p) \<in> set ps \<and> p \<noteq> 0 \<and> (\<forall>(k, q) \<in> set ps. q < p \<or> q = p \<and> h \<le> k))"

lemma most_voted_unique: "most_voted ps h \<Longrightarrow> most_voted ps h' \<Longrightarrow> h = h'"
proof (cases "\<forall>(k, q) \<in> set ps. q = 0")
  case False
  assume "most_voted ps h" "most_voted ps h'"
  with False obtain p p' where "(h, p) \<in> set ps" "\<forall>(k, q) \<in> set ps. q < p \<or> q = p \<and> h \<le> k"
    and "(h', p') \<in> set ps" "\<forall>(k, q) \<in> set ps. q < p' \<or> q = p' \<and> h' \<le> k"
    unfolding most_voted_def if_not_P[OF False] by blast
  then have "p' < p \<or> p' = p \<and> h \<le> h'" "p < p' \<or> p = p' \<and> h' \<le> h" by blast+
  then show "h = h'" by (metis order.asym order.antisym less_irrefl)
qed (simp add: most_voted_def)

lemma most_voted_perm: "mset ps = mset ps' \<Longrightarrow> most_voted ps = most_voted ps'"
  using mset_eq_setD[of ps ps'] by (simp only: most_voted_def[abs_def])

definition max_step :: "bytes \<times> u64 \<Rightarrow> bytes \<times> u64 \<Rightarrow> bytes \<times> u64" where
  "max_step e st = (case (e, st) of ((h, p), (mh, mp)) \<Rightarrow>
     if p = mp then (min mh h, mp) else if mp < p then (h, p) else (mh, mp))"

text \<open>The running maximum: what the loop knows after the entries \<open>ps\<close>.\<close>

definition max_inv :: "(bytes \<times> u64) list \<Rightarrow> bytes \<times> u64 \<Rightarrow> bool" where
  "max_inv ps st = (case st of (mh, mp) \<Rightarrow>
     (\<forall>(k, q) \<in> set ps. q < mp \<or> q = mp \<and> mh \<le> k) \<and> (if mp = 0 then mh = '''' else (mh, mp) \<in> set ps))"

lemma max_inv_step:
  assumes "max_inv ps st"
  shows "max_inv (ps @ [e]) (max_step e st)"
proof -
  obtain h p mh mp where e: "e = (h, p)" "st = (mh, mp)" by (cases e, cases st)
  consider "p = mp" | "mp < p" | "p < mp" by (metis linorder_neqE)
  then show ?thesis
  proof cases
    case 1
    then show ?thesis using assms by (auto simp: e max_inv_def max_step_def min_def split: if_splits)
  next
    case 2
    then have "p \<noteq> mp" "p \<noteq> 0" by auto
    then show ?thesis using assms 2 by (fastforce simp: e max_inv_def max_step_def)
  next
    case 3
    then have "p \<noteq> mp" "\<not> mp < p" "mp \<noteq> 0" by auto
    then show ?thesis using assms 3 by (auto simp: e max_inv_def max_step_def)
  qed
qed

lemma max_inv_fold: "max_inv ps (fold max_step ps ('''', 0))"
proof (induction ps rule: rev_induct)
  case Nil
  then show ?case by (simp add: max_inv_def)
next
  case (snoc e ps)
  then show ?case by (simp add: max_inv_step)
qed

lemma max_inv_most_voted: "max_inv ps (mh, mp) \<Longrightarrow> most_voted ps mh"
  by (fastforce simp: max_inv_def most_voted_def word_gt_0 split: if_splits)

context signature_proof
begin

text \<open>The block powers of a map of proofs, hash by hash.\<close>

definition proof_powers :: "Validator list \<Rightarrow> (bytes, 'p) gomap \<Rightarrow> (bytes, u64) gomap" where
  "proof_powers vals proofs = map (\<lambda>(h, p). (h, word_power vals (signers p))) proofs"

lemma tally_fold:
  assumes "gomap_ok (qs @ proofs)"
  shows "fold (tally_step C B vals) proofs
      (t, proof_powers vals qs, mh, mp) =
    (let (mh', mp') = fold max_step (proof_powers vals proofs) (mh, mp) in
     (t + sum_list (map snd (proof_powers vals proofs)), proof_powers vals (qs @ proofs), mh', mp'))"
  using assms
proof (induction proofs arbitrary: qs t mh mp)
  case Nil
  then show ?case by (simp add: proof_powers_def)
next
  case (Cons e proofs)
  obtain h p where e: "e = (h, p)" by (cases e)
  let ?w = "word_power vals (signers p)"
  obtain mh1 mp1 where m1: "max_step (h, ?w) (mh, mp) = (mh1, mp1)" by (cases "max_step (h, ?w) (mh, mp)")
  have "h \<notin> fst ` set (proof_powers vals qs)"
    using Cons.prems by (auto simp: gomap_ok_def proof_powers_def e image_iff)
  then have upd: "AList.update h ?w (proof_powers vals qs) = proof_powers vals (qs @ [e])"
    by (simp add: AList_update_fresh proof_powers_def e)
  have loop: "signedPower_loop B (cm_SignatureBitSet C p) vals (Suc (length vals)) 0 (t, 0) = (t + ?w, ?w)"
    unfolding signers_def by (rule signedPower_loop_eq)
  have "tally_step C B vals e (t, proof_powers vals qs, mh, mp) =
        (t + ?w, proof_powers vals (qs @ [e]), mh1, mp1)"
    using m1 unfolding tally_step_def max_step_def e prod.case loop Let_def upd[unfolded e]
    by (auto split: if_splits)
  then show ?case
    using Cons.IH[of "qs @ [e]" "t + ?w" mh1 mp1] Cons.prems m1
    by (simp add: proof_powers_def e add.assoc)
qed

lemma tally_spec:
  assumes "gomap_ok proofs"
  shows "\<exists>mh mp. fold (tally_step C B vals) proofs (0, [], '''', 0) =
    (sum_list (map snd (proof_powers vals proofs)), proof_powers vals proofs, mh, mp) \<and>
    most_voted (proof_powers vals proofs) mh"
proof -
  obtain mh mp where m: "fold max_step (proof_powers vals proofs) ('''', 0) = (mh, mp)"
    by (cases "fold max_step (proof_powers vals proofs) ('''', 0)")
  have "most_voted (proof_powers vals proofs) mh"
    using max_inv_fold[of "proof_powers vals proofs"] max_inv_most_voted by (simp add: m)
  moreover have "proof_powers vals [] = []" by (simp add: proof_powers_def)
  ultimately show ?thesis
    using tally_fold[of "[]" proofs vals 0 "''''" 0] assms m by (simp add: Let_def)
qed

lemma SetPrecommitPowers_spec:
  assumes "gomap_ok pcs" and "vs' = SetPrecommitPowers C B vals pcs vs"
  shows "PrecommitBlockPower vs' = proof_powers vals pcs"
    and "TotalPrecommitPower vs' = sum_list (map snd (proof_powers vals pcs))"
    and "most_voted (proof_powers vals pcs) (MostVotedPrecommitHash vs')"
    and "AvailablePower vs' = AvailablePower vs"
  using tally_spec[OF assms(1), of vals] assms(2) by (auto simp: SetPrecommitPowers_def)

lemma SetPrevotePowers_spec:
  assumes "gomap_ok pvs" and "vs' = SetPrevotePowers C B vals pvs vs"
  shows "PrevoteBlockPower vs' = proof_powers vals pvs"
    and "TotalPrevotePower vs' = sum_list (map snd (proof_powers vals pvs))"
    and "most_voted (proof_powers vals pvs) (MostVotedPrevoteHash vs')"
    and "AvailablePower vs' = AvailablePower vs"
  using tally_spec[OF assms(1), of vals] assms(2) by (auto simp: SetPrevotePowers_def)

lemma map_of_proof_powers:
  "map_of (proof_powers vals proofs) h = map_option (\<lambda>p. word_power vals (signers p)) (map_of proofs h)"
  unfolding proof_powers_def by (rule map_of_map_snd)

end

section \<open>Properties\<close>

text \<open>(C28) \<open>SetVotePowers\<close> is exact for every iteration order of the two maps: the power of a hash
  is the sum of the powers of the validators whose bit is set in its proof, hashes without a proof
  have no entry, the total is the sum over the hashes, and the most voted hash is the
  lexicographically least one among those with the most power (the empty hash when none has any).\<close>

theorem SetVotePowers_exact:
  assumes lib: "signature_proof B bits C pinv nkeys"
    and ok: "gomap_ok prevotes" "gomap_ok precommits"
    and vs': "vs' = SetVotePowers C B vals prevotes precommits vs"
  shows "map_of (PrevoteBlockPower vs') = (\<lambda>h. map_option
           (\<lambda>p. word_power vals (bits (cm_SignatureBitSet C p))) (map_of prevotes h)) \<and>
         map_of (PrecommitBlockPower vs') = (\<lambda>h. map_option
           (\<lambda>p. word_power vals (bits (cm_SignatureBitSet C p))) (map_of precommits h)) \<and>
         TotalPrevotePower vs' = (\<Sum>(h, p)\<leftarrow>prevotes. word_power vals (bits (cm_SignatureBitSet C p))) \<and>
         TotalPrecommitPower vs' = (\<Sum>(h, p)\<leftarrow>precommits. word_power vals (bits (cm_SignatureBitSet C p))) \<and>
         most_voted (PrevoteBlockPower vs') (MostVotedPrevoteHash vs') \<and>
         most_voted (PrecommitBlockPower vs') (MostVotedPrecommitHash vs') \<and>
         AvailablePower vs' = AvailablePower vs"
proof -
  define mid where "mid = SetPrevotePowers C B vals prevotes vs"
  note pv = signature_proof.SetPrevotePowers_spec[OF lib ok(1) mid_def]
  have vs'_mid: "vs' = SetPrecommitPowers C B vals precommits mid"
    by (simp add: vs' mid_def SetVotePowers_def)
  note pc = signature_proof.SetPrecommitPowers_spec[OF lib ok(2) this]
  have same: "PrevoteBlockPower vs' = PrevoteBlockPower mid" "TotalPrevotePower vs' = TotalPrevotePower mid"
    "MostVotedPrevoteHash vs' = MostVotedPrevoteHash mid"
    using vs'_mid by (auto simp: SetPrecommitPowers_def split: prod.splits)
  have maps: "map_of (signature_proof.proof_powers bits C vals ps) = (\<lambda>h. map_option
      (\<lambda>p. word_power vals (bits (cm_SignatureBitSet C p))) (map_of ps h))" for ps
    using signature_proof.map_of_proof_powers[OF lib]
    by (simp add: signature_proof.signers_def[OF lib] fun_eq_iff)
  have sums: "sum_list (map snd (signature_proof.proof_powers bits C vals ps)) =
      (\<Sum>(h, p)\<leftarrow>ps. word_power vals (bits (cm_SignatureBitSet C p)))" for ps
    by (simp add: signature_proof.proof_powers_def[OF lib] signature_proof.signers_def[OF lib]
        case_prod_unfold comp_def)
  show ?thesis
    using pv pc unfolding same by (simp add: maps sums)
qed

text \<open>Two validators; both have prevoted for \<open>x\<close>, only the second has precommitted.\<close>

definition ex_vals :: "Validator list" where
  "ex_vals = [\<lparr>val_PubKey = PubKey ''t'' ''a'', Power = 3\<rparr>, \<lparr>val_PubKey = PubKey ''t'' ''b'', Power = 5\<rparr>]"

theorem SetVotePowers_exact_witness:
  "map_of (PrecommitBlockPower (SetVotePowers (SimpleScheme ex_V ref_bitset) ref_bitset ex_vals
      [(''x'', ex_proof\<lparr>sp_bitset := [0, 1]\<rparr>)] [(''x'', ex_proof)] NewVoteSummary)) ''x'' = Some 5"
proof -
  note * = SetVotePowers_exact[OF rbs.simple.signature_proof_axioms[of ex_V], where prevotes = "[(''x'', ex_proof\<lparr>sp_bitset := [0, 1]\<rparr>)]"
      and precommits = "[(''x'', ex_proof)]" and vs = NewVoteSummary and vals = ex_vals]
  have "{Suc 0} \<inter> {..<2} = {Suc 0}" by auto
  then show ?thesis
    using * by (simp add: gomap_ok_def word_power_def ex_vals_def ex_proof_def numeral_2_eq_2)
qed

text \<open>Agreement within a round: when the vote summary shows a Byzantine majority of the
  available power behind the precommits for two hashes, and the validators that signed both hold
  less than a third of the power, the two hashes are the same.\<close>

theorem precommit_majorities_agree:
  assumes lib: "signature_proof B bits C pinv nkeys"
    and pow: "powers_ok vals" and ok: "gomap_ok precommits"
    and vs: "vs = SetPrecommitPowers C B vals precommits (SetAvailablePower vals vs0)"
    and maj: "ByzantineMajority (AvailablePower vs) = Ret maj"
    and a: "map_of (PrecommitBlockPower vs) a = Some pa" "maj \<le> pa"
    and b: "map_of (PrecommitBlockPower vs) b = Some pb" "maj \<le> pb"
    and F: "below_third vals F"
    and honest: "\<forall>p q. map_of precommits a = Some p \<and> map_of precommits b = Some q \<and> a \<noteq> b \<longrightarrow>
        bits (cm_SignatureBitSet C p) \<inter> bits (cm_SignatureBitSet C q) \<subseteq> F"
  shows "a = b"
proof -
  let ?votes = "\<lambda>h. case map_of precommits h of None \<Rightarrow> {} | Some p \<Rightarrow> bits (cm_SignatureBitSet C p)"
  note spec = signature_proof.SetPrecommitPowers_spec[OF lib ok vs]
  have avail: "AvailablePower vs = sum_list (map Power vals)"
    using spec(4) by (simp add: SetAvailablePower_eq)
  have quorum: "has_majority vals (?votes h)"
    if h: "map_of (PrecommitBlockPower vs) h = Some p" "maj \<le> p" for h p
  proof -
    have "map_of (PrecommitBlockPower vs) h =
        map_option (\<lambda>p. word_power vals (bits (cm_SignatureBitSet C p))) (map_of precommits h)"
      using spec(1) signature_proof.map_of_proof_powers[OF lib]
      by (simp add: signature_proof.signers_def[OF lib])
    then obtain pf where "map_of precommits h = Some pf" "p = word_power vals (bits (cm_SignatureBitSet C pf))"
      using h(1) by (auto simp: map_option_case split: option.splits)
    then show ?thesis
      using maj h(2) pow unat_word_power[OF pow]
      by (simp add: has_majority_def avail word_le_nat_alt)
  qed
  show ?thesis
  proof (rule byz.quorum_agreement[where votes = ?votes, OF quorum[OF a] quorum[OF b] F])
    fix i assume "i \<in> ?votes a" "i \<in> ?votes b" "i \<notin> F"
    then show "a = b" using honest by (auto split: option.splits)
  qed
qed

theorem precommit_majorities_agree_witness:
  "\<exists>vs maj. vs = SetPrecommitPowers (SimpleScheme ex_V ref_bitset) ref_bitset ex_vals
       [(''x'', ex_proof\<lparr>sp_bitset := [0, 1]\<rparr>)] (SetAvailablePower ex_vals NewVoteSummary) \<and>
     ByzantineMajority (AvailablePower vs) = Ret maj \<and>
     (\<forall>h p. map_of (PrecommitBlockPower vs) h = Some p \<and> maj \<le> p \<longrightarrow> h = ''x'')"
proof -
  define vs where "vs = SetPrecommitPowers (SimpleScheme ex_V ref_bitset) ref_bitset ex_vals
       [(''x'', ex_proof\<lparr>sp_bitset := [0, 1]\<rparr>)] (SetAvailablePower ex_vals NewVoteSummary)"
  have pow: "powers_ok ex_vals" by (simp add: powers_ok_def total_power_def ex_vals_def)
  have ok: "gomap_ok [(''x'', ex_proof\<lparr>sp_bitset := [0, 1]\<rparr>)]" by (simp add: gomap_ok_def)
  note spec = rbs.simple.SetPrecommitPowers_spec[OF ok vs_def]
  have maj: "ByzantineMajority (AvailablePower vs) = Ret 6"
    unfolding spec(4) SetAvailablePower_eq by (simp add: ex_vals_def ByzantineMajority_def)
  have "word_power ex_vals {0, 1} = 8"
  proof -
    have "{0, 1} \<inter> {..<2} = {0, Suc 0}" by auto
    then show ?thesis by (simp add: word_power_def ex_vals_def numeral_2_eq_2)
  qed
  then have x: "map_of (PrecommitBlockPower vs) ''x'' = Some 8"
    by (simp add: spec(1) rbs.simple.proof_powers_def rbs.simple.signers_def)
  have F: "below_third ex_vals {}"
    by (simp add: below_third_def set_power_def total_power_def ex_vals_def)
  have "h = ''x''" if "map_of (PrecommitBlockPower vs) h = Some p" "6 \<le> p" for h p
    by (rule precommit_majorities_agree[OF rbs.simple.signature_proof_axioms[of ex_V] pow ok vs_def maj that x _ F])
       (auto simp: map_of_eq_None_iff)
  with maj show ?thesis unfolding vs_def by blast
qed

end
