(* ===== verification/RoundView.thy ===== *)
theory RoundView
  imports VoteSummary
begin

text \<open>
  The data that consensus works on: headers, commit proofs and proposed headers
  (\<open>tmconsensus/header.go\<close>), the interfaces \<open>HashScheme\<close> and \<open>SignatureScheme\<close>, and the round views
  of \<open>roundview.go\<close>. \<open>VersionedRoundView\<close> embeds \<open>RoundView\<close>, here a record extension.
\<close>

section \<open>Headers and proofs\<close>

record Annotations =
  User :: bytes
  Driver :: bytes

record CommitProof =
  cp_Round :: u32
  cp_PubKeyHash :: bytes
  cp_Proofs :: "(bytes, SparseSignature list) gomap"

record Header =
  Hash :: bytes
  PrevBlockHash :: bytes
  h_Height :: u64
  h_PrevCommitProof :: CommitProof
  h_ValidatorSet :: ValidatorSet
  NextValidatorSet :: ValidatorSet
  DataID :: bytes
  PrevAppStateHash :: bytes
  h_Annotations :: Annotations

record CommittedHeader =
  ch_Header :: Header
  ch_Proof :: CommitProof

text \<open>The proposer's key is an interface value that may be nil.\<close>

record ProposedHeader =
  ph_Header :: Header
  ph_Round :: u32
  ProposerPubKey :: "PubKey option"
  ph_Annotations :: Annotations
  Signature :: bytes

definition CommitProof_Clone :: "CommitProof \<Rightarrow> CommitProof" where
  "CommitProof_Clone p = \<lparr>
     cp_Round = cp_Round p,
     cp_PubKeyHash = cp_PubKeyHash p,
     cp_Proofs = map (\<lambda>(hash, sigs). (hash, map (\<lambda>sig. \<lparr>KeyID = KeyID sig, Sig = Sig sig\<rparr>) sigs)) (cp_Proofs p) \<rparr>"

text \<open>Go's zero values.\<close>

definition zeroAnnotations :: Annotations where
  "zeroAnnotations = \<lparr>User = [], Driver = []\<rparr>"

definition zeroCommitProof :: CommitProof where
  "zeroCommitProof = \<lparr>cp_Round = 0, cp_PubKeyHash = '''', cp_Proofs = []\<rparr>"

definition zeroValidatorSet :: ValidatorSet where
  "zeroValidatorSet = \<lparr>Validators = [], vs_PubKeyHash = [], VotePowerHash = []\<rparr>"

definition zeroHeader :: Header where
  "zeroHeader = \<lparr>Hash = [], PrevBlockHash = [], h_Height = 0, h_PrevCommitProof = zeroCommitProof,
     h_ValidatorSet = zeroValidatorSet, NextValidatorSet = zeroValidatorSet, DataID = [],
     PrevAppStateHash = [], h_Annotations = zeroAnnotations\<rparr>"

section \<open>Hash and signature schemes\<close>

text \<open>Both are interfaces whose implementations the engine is given. A signing scheme that writes to a
  buffer is a function to the bytes it wrote or an error.\<close>

record hash_scheme = validator_hashes +
  hs_Block :: "Header \<Rightarrow> go_error + bytes"

record VoteTarget =
  vt_Height :: u64
  vt_Round :: u32
  vt_BlockHash :: bytes

record signature_scheme =
  WriteProposalSigningContent :: "Header \<Rightarrow> u32 \<Rightarrow> Annotations \<Rightarrow> go_error + bytes"
  WritePrevoteSigningContent :: "VoteTarget \<Rightarrow> go_error + bytes"
  WritePrecommitSigningContent :: "VoteTarget \<Rightarrow> go_error + bytes"

definition ProposalSignBytes :: "Header \<Rightarrow> u32 \<Rightarrow> Annotations \<Rightarrow> signature_scheme \<Rightarrow> go_error + bytes" where
  "ProposalSignBytes h rnd pbAnnotations s = WriteProposalSigningContent s h rnd pbAnnotations"

definition PrevoteSignBytes :: "VoteTarget \<Rightarrow> signature_scheme \<Rightarrow> go_error + bytes" where
  "PrevoteSignBytes vt s = WritePrevoteSigningContent s vt"

definition PrecommitSignBytes :: "VoteTarget \<Rightarrow> signature_scheme \<Rightarrow> go_error + bytes" where
  "PrecommitSignBytes vt s = WritePrecommitSigningContent s vt"

record Genesis =
  ChainID :: string
  InitialHeight :: u64
  CurrentAppStateHash :: bytes
  g_ValidatorSet :: ValidatorSet

definition Genesis_Header :: "Genesis \<Rightarrow> hash_scheme \<Rightarrow> go_error + Header" where
  "Genesis_Header g hs =
     (let h = zeroHeader\<lparr>h_Height := InitialHeight g - 1, NextValidatorSet := g_ValidatorSet g\<rparr> in
      errbind (hs_Block hs h) (\<lambda>bh. Inr (h\<lparr>Hash := bh\<rparr>)))"

section \<open>Round views\<close>

record 'p RoundView =
  rv_Height :: u64
  rv_Round :: u32
  rv_ValidatorSet :: ValidatorSet
  rv_PrevCommitProof :: CommitProof
  ProposedHeaders :: "ProposedHeader list"
  PrevoteProofs :: "(bytes, 'p) gomap"
  PrecommitProofs :: "(bytes, 'p) gomap"
  rv_VoteSummary :: VoteSummary

record 'p VersionedRoundView = "'p RoundView" +
  Version :: u32
  PrevoteVersion :: u32
  PrecommitVersion :: u32
  PrevoteBlockVersions :: "(bytes, u32) gomap"
  PrecommitBlockVersions :: "(bytes, u32) gomap"

definition RoundView_Clone :: "('p, 'b) cmsp \<Rightarrow> ('p, 'm) RoundView_scheme \<Rightarrow> ('p, 'm) RoundView_scheme" where
  "RoundView_Clone C v = v\<lparr>
     rv_PrevCommitProof := CommitProof_Clone (rv_PrevCommitProof v),
     PrevoteProofs := map (\<lambda>(k, p). (k, cm_Clone C p)) (PrevoteProofs v),
     PrecommitProofs := map (\<lambda>(k, p). (k, cm_Clone C p)) (PrecommitProofs v),
     rv_VoteSummary := VoteSummary_Clone (rv_VoteSummary v) \<rparr>"

definition RoundView_ResetForSameHeight :: "('p, 'm) RoundView_scheme \<Rightarrow> ('p, 'm) RoundView_scheme" where
  "RoundView_ResetForSameHeight v = v\<lparr>
     rv_Round := 0, ProposedHeaders := [], PrevoteProofs := [], PrecommitProofs := [],
     rv_VoteSummary := VoteSummary_ResetForSameHeight (rv_VoteSummary v) \<rparr>"

definition RoundView_Reset :: "('p, 'm) RoundView_scheme \<Rightarrow> ('p, 'm) RoundView_scheme" where
  "RoundView_Reset v =
     (let v1 = v\<lparr>rv_Height := 0,
                 rv_PrevCommitProof := (rv_PrevCommitProof v)\<lparr>cp_Round := 0, cp_PubKeyHash := '''', cp_Proofs := []\<rparr>,
                 rv_ValidatorSet := zeroValidatorSet\<rparr>;
          v2 = RoundView_ResetForSameHeight v1
      in v2\<lparr>rv_VoteSummary := VoteSummary_Reset (rv_VoteSummary v2)\<rparr>)"

definition resetVersions :: "'p VersionedRoundView \<Rightarrow> 'p VersionedRoundView" where
  "resetVersions v = v\<lparr>Version := 0, PrevoteVersion := 0, PrecommitVersion := 0,
     PrevoteBlockVersions := [], PrecommitBlockVersions := []\<rparr>"

definition VRV_Clone :: "('p, 'b) cmsp \<Rightarrow> 'p VersionedRoundView \<Rightarrow> 'p VersionedRoundView" where
  "VRV_Clone C v = RoundView_Clone C v"

definition VRV_Reset :: "'p VersionedRoundView \<Rightarrow> 'p VersionedRoundView" where
  "VRV_Reset v = resetVersions (RoundView_Reset v)"

definition VRV_ResetForSameHeight :: "'p VersionedRoundView \<Rightarrow> 'p VersionedRoundView" where
  "VRV_ResetForSameHeight v = resetVersions (RoundView_ResetForSameHeight v)"

text \<open>The zero value of a view, as a Go variable declaration makes it.\<close>

definition zeroVRV :: "'p VersionedRoundView" where
  "zeroVRV = \<lparr>rv_Height = 0, rv_Round = 0, rv_ValidatorSet = zeroValidatorSet,
     rv_PrevCommitProof = zeroCommitProof, ProposedHeaders = [], PrevoteProofs = [], PrecommitProofs = [],
     rv_VoteSummary = NewVoteSummary, Version = 0, PrevoteVersion = 0, PrecommitVersion = 0,
     PrevoteBlockVersions = [], PrecommitBlockVersions = []\<rparr>"

section \<open>Lemmas\<close>

lemma CommitProof_Clone_id [simp]: "CommitProof_Clone p = p"
proof -
  have "map (\<lambda>sig. \<lparr>KeyID = KeyID sig, Sig = Sig sig\<rparr>) sigs = sigs" for sigs :: "SparseSignature list"
    by (simp add: map_idI)
  then show ?thesis by (simp add: CommitProof_Clone_def)
qed

context signature_proof
begin

lemma VRV_Clone_id [simp]: "VRV_Clone C v = v"
  by (simp add: VRV_Clone_def RoundView_Clone_def Clone_same)

end

lemma VRV_Reset_zero: "VRV_Reset v = zeroVRV"
  by (simp add: VRV_Reset_def RoundView_Reset_def RoundView_ResetForSameHeight_def resetVersions_def
      zeroVRV_def Let_def VoteSummary_Reset_New zeroCommitProof_def)

end
