(* ===== verification/ViewManagers.thy ===== *)
theory ViewManagers
  imports RoundView
begin

text \<open>
  The managers that decide what the mirror kernel sends next (\<open>tmi/view.go\<close>,
  \<open>gossipviewmanager.go\<close>, \<open>statemachineviewmanager.go\<close>, \<open>lag.go\<close>). A Go channel that the code
  compares with nil is an option or a flag: an output on a nil channel, which never fires in the
  kernel's select, is \<open>None\<close>. The channel the kernel closes to signal a committed height is a value
  of \<open>chan_state\<close>, because closing it twice would panic.
\<close>

section \<open>Outgoing views\<close>

record 'p OutgoingView =
  SentH :: u64
  SentR :: u32
  SentV :: u32
  ov_VRV :: "'p VersionedRoundView"

definition HasBeenSent :: "'p OutgoingView \<Rightarrow> bool" where
  "HasBeenSent v \<longleftrightarrow> SentH v = rv_Height (ov_VRV v) \<and> SentR v = rv_Round (ov_VRV v) \<and> SentV v = Version (ov_VRV v)"

definition OutgoingView_MarkSent :: "'p OutgoingView \<Rightarrow> 'p OutgoingView" where
  "OutgoingView_MarkSent v = v\<lparr>SentH := rv_Height (ov_VRV v), SentR := rv_Round (ov_VRV v), SentV := Version (ov_VRV v)\<rparr>"

definition zeroOutgoingView :: "'p OutgoingView" where
  "zeroOutgoingView = \<lparr>SentH = 0, SentR = 0, SentV = 0, ov_VRV = zeroVRV\<rparr>"

section \<open>The gossip view manager\<close>

record 'p gossipViewManager =
  NilVotedRound :: "'p VersionedRoundView option"
  gvm_Committing :: "'p OutgoingView"
  gvm_Voting :: "'p OutgoingView"
  gvm_NextRound :: "'p OutgoingView"

record 'p NetworkViewUpdate =
  nvu_Committing :: "'p VersionedRoundView option"
  nvu_Voting :: "'p VersionedRoundView option"
  nvu_NextRound :: "'p VersionedRoundView option"
  nvu_NilVotedRound :: "'p VersionedRoundView option"

definition newGossipViewManager :: "'p gossipViewManager" where
  "newGossipViewManager = \<lparr>NilVotedRound = None, gvm_Committing = zeroOutgoingView,
     gvm_Voting = zeroOutgoingView, gvm_NextRound = zeroOutgoingView\<rparr>"

definition outgoing_val :: "('p, 'b) cmsp \<Rightarrow> 'p OutgoingView \<Rightarrow> 'p VersionedRoundView option" where
  "outgoing_val C v = (if HasBeenSent v then None else Some (VRV_Clone C (ov_VRV v)))"

definition gossip_Output :: "('p, 'b) cmsp \<Rightarrow> 'p gossipViewManager \<Rightarrow> 'p NetworkViewUpdate option" where
  "gossip_Output C m =
     (let val = \<lparr>nvu_Committing = outgoing_val C (gvm_Committing m),
                 nvu_Voting = outgoing_val C (gvm_Voting m),
                 nvu_NextRound = outgoing_val C (gvm_NextRound m),
                 nvu_NilVotedRound = NilVotedRound m\<rparr>
      in if nvu_Committing val = None \<and> nvu_Voting val = None \<and> nvu_NextRound val = None \<and> nvu_NilVotedRound val = None
         then None else Some val)"

definition gossip_MarkSent :: "'p NetworkViewUpdate \<Rightarrow> 'p gossipViewManager \<Rightarrow> 'p gossipViewManager" where
  "gossip_MarkSent val m = m\<lparr>
     gvm_Committing := (if nvu_Committing val \<noteq> None then OutgoingView_MarkSent (gvm_Committing m) else gvm_Committing m),
     gvm_Voting := (if nvu_Voting val \<noteq> None then OutgoingView_MarkSent (gvm_Voting m) else gvm_Voting m),
     gvm_NextRound := (if nvu_NextRound val \<noteq> None then OutgoingView_MarkSent (gvm_NextRound m) else gvm_NextRound m),
     NilVotedRound := None\<rparr>"

section \<open>The state machine view manager\<close>

datatype chan_state = NilChan | OpenChan | ClosedChan

record StateMachineRoundEntrance =
  re_H :: u64
  re_R :: u32
  re_PubKey :: "PubKey option"
  re_Actions :: bool
  re_HeightCommitted :: chan_state

record 'p StateMachineRoundView =
  smrv_VRV :: "'p VersionedRoundView"
  smrv_JumpAhead :: "'p VersionedRoundView option"

record 'p stateMachineViewManager =
  roundEntrance :: StateMachineRoundEntrance
  lastSentVersion :: u32
  forceSend :: "'p VersionedRoundView option"
  jumpAhead :: "'p VersionedRoundView option"
  outgoingView :: "'p VersionedRoundView"

definition newStateMachineViewManager :: "'p stateMachineViewManager" where
  "newStateMachineViewManager = \<lparr>roundEntrance = \<lparr>re_H = 0, re_R = 0, re_PubKey = None, re_Actions = False,
       re_HeightCommitted = NilChan\<rparr>,
     lastSentVersion = 0, forceSend = None, jumpAhead = None, outgoingView = zeroVRV\<rparr>"

definition SetView :: "('p, 'b) cmsp \<Rightarrow> 'p VersionedRoundView \<Rightarrow> 'p stateMachineViewManager \<Rightarrow> 'p stateMachineViewManager" where
  "SetView C v m = m\<lparr>outgoingView := VRV_Clone C v\<rparr>"

definition JumpToRound :: "('p, 'b) cmsp \<Rightarrow> 'p VersionedRoundView \<Rightarrow> 'p stateMachineViewManager \<Rightarrow> 'p stateMachineViewManager" where
  "JumpToRound C v m = m\<lparr>jumpAhead := Some (VRV_Clone C v)\<rparr>"

definition smvm_H :: "'p stateMachineViewManager \<Rightarrow> u64" where
  "smvm_H m = re_H (roundEntrance m)"

definition smvm_R :: "'p stateMachineViewManager \<Rightarrow> u32" where
  "smvm_R m = re_R (roundEntrance m)"

text \<open>The value and the version to record when it is sent. The first branch is a forced send, the
  second an update of the state machine's own round, the third a jump ahead without a current view.\<close>

definition smvm_Output :: "('p, 'b) cmsp \<Rightarrow> 'p stateMachineViewManager \<Rightarrow> ('p StateMachineRoundView \<times> u32) option" where
  "smvm_Output C m =
     (case forceSend m of
        Some f \<Rightarrow> Some (\<lparr>smrv_VRV = f, smrv_JumpAhead = None\<rparr>, Version f)
      | None \<Rightarrow>
          (let rest = (case jumpAhead m of
                         None \<Rightarrow> None
                       | Some j \<Rightarrow>
                           if rv_Height j = smvm_H m \<and> smvm_R m < rv_Round j
                           then Some (\<lparr>smrv_VRV = zeroVRV, smrv_JumpAhead = Some j\<rparr>, lastSentVersion m)
                           else None)
           in if rv_Height (outgoingView m) = smvm_H m \<and> rv_Round (outgoingView m) = smvm_R m
              then let sent0 = (if jumpAhead m \<noteq> None then lastSentVersion m else 0);
                       newer = lastSentVersion m < Version (outgoingView m);
                       sent1 = (if newer then Version (outgoingView m) else sent0);
                       val = \<lparr>smrv_VRV = (if newer then VRV_Clone C (outgoingView m) else zeroVRV),
                              smrv_JumpAhead = jumpAhead m\<rparr>
                   in if 0 < sent1 then Some (val, sent1) else rest
              else rest))"

definition ForceSend :: "'p VersionedRoundView \<Rightarrow> 'p stateMachineViewManager \<Rightarrow> 'p stateMachineViewManager go" where
  "ForceSend vrv m =
     (if forceSend m \<noteq> None then Panic ''BUG: (*stateMachineViewManager).ForceSend called twice''
      else Ret (m\<lparr>forceSend := Some vrv\<rparr>))"

definition smvm_Reset :: "StateMachineRoundEntrance \<Rightarrow> 'p stateMachineViewManager \<Rightarrow> 'p stateMachineViewManager" where
  "smvm_Reset re m = m\<lparr>roundEntrance := re, lastSentVersion := 0, jumpAhead := None\<rparr>"

definition MarkFirstSentVersion :: "u32 \<Rightarrow> 'p stateMachineViewManager \<Rightarrow> 'p stateMachineViewManager go" where
  "MarkFirstSentVersion version m =
     (if lastSentVersion m \<noteq> 0 then Panic ''BUG: MarkFirstSentVersion must only be called with version == 0''
      else Ret (m\<lparr>lastSentVersion := version\<rparr>))"

definition smvm_MarkSent :: "u32 \<Rightarrow> 'p stateMachineViewManager \<Rightarrow> 'p stateMachineViewManager" where
  "smvm_MarkSent sentVersion m = m\<lparr>forceSend := None, jumpAhead := None, lastSentVersion := sentVersion\<rparr>"

section \<open>The lag manager\<close>

datatype LagStatus = LagStatusInitializing | LagStatusUpToDate | LagStatusAssumedBehind | LagStatusKnownMissing

record LagState =
  lag_Status :: LagStatus
  lag_CommittingHeight :: u64
  lag_NeedHeight :: u64

record lagManager =
  lag_outCh :: bool
  lag_state :: LagState
  lag_sent :: bool

definition newLagManager :: "bool \<Rightarrow> lagManager" where
  "newLagManager out = \<lparr>lag_outCh = out,
     lag_state = \<lparr>lag_Status = LagStatusInitializing, lag_CommittingHeight = 0, lag_NeedHeight = 0\<rparr>, lag_sent = False\<rparr>"

definition lag_SetState :: "LagStatus \<Rightarrow> u64 \<Rightarrow> u64 \<Rightarrow> lagManager \<Rightarrow> lagManager" where
  "lag_SetState st committingHeight needHeight m =
     (if \<not> lag_outCh m then m
      else m\<lparr>lag_state := \<lparr>lag_Status = st, lag_CommittingHeight = committingHeight, lag_NeedHeight = needHeight\<rparr>,
             lag_sent := (lag_sent m \<and> lag_Status (lag_state m) = st)\<rparr>)"

definition lag_Output :: "lagManager \<Rightarrow> LagState option" where
  "lag_Output m = (if \<not> lag_outCh m \<or> lag_sent m then None else Some (lag_state m))"

definition lag_MarkSent :: "lagManager \<Rightarrow> lagManager" where
  "lag_MarkSent m = m\<lparr>lag_sent := True\<rparr>"

section \<open>A single-slot outbox\<close>

text \<open>
  The contract the kernel's select relies on for each manager: a value is offered until it is
  marked sent, and then nothing is offered until the manager is updated again.
\<close>

locale outbox =
  fixes offer :: "'m \<Rightarrow> 'v option"
    and mark :: "'v \<Rightarrow> 'm \<Rightarrow> 'm"
    and ready :: "'m \<Rightarrow> bool"
  assumes quiet_after_mark: "ready m \<Longrightarrow> offer m = Some v \<Longrightarrow> offer (mark v m) = None"
    and ready_mark: "ready m \<Longrightarrow> offer m = Some v \<Longrightarrow> ready (mark v m)"
begin

text \<open>A run of the select loop that sends whenever something is offered, without updates.\<close>

primrec drain :: "nat \<Rightarrow> 'm \<Rightarrow> 'v list \<times> 'm" where
  "drain 0 m = ([], m)"
| "drain (Suc n) m = (case offer m of
     None \<Rightarrow> ([], m)
   | Some v \<Rightarrow> (case drain n (mark v m) of (vs, m') \<Rightarrow> (v # vs, m')))"

lemma drain_once: "ready m \<Longrightarrow> length (fst (drain n m)) \<le> 1"
proof (cases n)
  case (Suc k)
  assume r: "ready m"
  show ?thesis
  proof (cases "offer m")
    case (Some v)
    then have "offer (mark v m) = None" using quiet_after_mark r by blast
    then have "drain k (mark v m) = ([], mark v m)" by (cases k) simp_all
    then show ?thesis by (simp add: Suc Some)
  qed (simp add: Suc)
qed simp

end

lemma HasBeenSent_MarkSent [simp]: "HasBeenSent (OutgoingView_MarkSent v)"
  by (simp add: HasBeenSent_def OutgoingView_MarkSent_def)

lemma outgoing_val_None [simp]: "outgoing_val C v = None \<longleftrightarrow> HasBeenSent v"
  by (simp add: outgoing_val_def)

interpretation gossip_outbox: outbox "gossip_Output C" gossip_MarkSent "\<lambda>_. True" for C
  by unfold_locales (auto simp: gossip_Output_def gossip_MarkSent_def Let_def split: if_splits)

interpretation lag_outbox: outbox lag_Output "\<lambda>_. lag_MarkSent" "\<lambda>_. True"
  by unfold_locales (auto simp: lag_Output_def lag_MarkSent_def split: if_splits)

interpretation sm_outbox: outbox "smvm_Output C" "\<lambda>e. smvm_MarkSent (snd e)" "\<lambda>m. forceSend m = None" for C
proof (unfold_locales, goal_cases)
  case (1 m v)
  then show ?case
    by (cases "jumpAhead m")
       (auto simp: smvm_Output_def smvm_MarkSent_def smvm_H_def smvm_R_def Let_def split: if_splits)
qed (simp add: smvm_MarkSent_def)

section \<open>Properties\<close>

text \<open>What the state machine is sent: without a forced send, an offered value is either the view
  of the state machine's current height and round with a version above the last one sent, or a jump
  ahead without a view (or both); the recorded version never decreases, and once the value is
  marked sent nothing is offered until the manager is updated.\<close>

theorem state_machine_output_fresh:
  assumes "forceSend m = None" and "smvm_Output C m = Some (val, v)"
  shows "smvm_Output C (smvm_MarkSent v m) = None \<and> lastSentVersion m \<le> v \<and>
    (smrv_VRV val = zeroVRV \<and> v = lastSentVersion m \<and> smrv_JumpAhead val \<noteq> None \<or>
     smrv_VRV val = VRV_Clone C (outgoingView m) \<and> rv_Height (outgoingView m) = re_H (roundEntrance m) \<and>
     rv_Round (outgoingView m) = re_R (roundEntrance m) \<and> lastSentVersion m < v \<and> v = Version (outgoingView m))"
proof -
  have "smvm_Output C (smvm_MarkSent v m) = None"
    using sm_outbox.quiet_after_mark[OF assms] by simp
  moreover have "lastSentVersion m \<le> v \<and>
    (smrv_VRV val = zeroVRV \<and> v = lastSentVersion m \<and> smrv_JumpAhead val \<noteq> None \<or>
     smrv_VRV val = VRV_Clone C (outgoingView m) \<and> rv_Height (outgoingView m) = re_H (roundEntrance m) \<and>
     rv_Round (outgoingView m) = re_R (roundEntrance m) \<and> lastSentVersion m < v \<and> v = Version (outgoingView m))"
    using assms by (cases "jumpAhead m") (auto simp: smvm_Output_def smvm_H_def smvm_R_def Let_def split: if_splits)
  ultimately show ?thesis by blast
qed

definition ex_smvm :: "nat list SimpleProof stateMachineViewManager" where
  "ex_smvm = newStateMachineViewManager\<lparr>
     roundEntrance := \<lparr>re_H = 5, re_R = 1, re_PubKey = None, re_Actions = True, re_HeightCommitted = OpenChan\<rparr>,
     outgoingView := zeroVRV\<lparr>rv_Height := 5, rv_Round := 1, Version := 3\<rparr>\<rparr>"

theorem state_machine_output_fresh_witness:
  "\<exists>val v. smvm_Output (SimpleScheme ex_V ref_bitset) ex_smvm = Some (val, v) \<and> smvm_Output (SimpleScheme ex_V ref_bitset) (smvm_MarkSent v ex_smvm) = None \<and>
     v = Version (outgoingView ex_smvm)"
proof -
  obtain val v where out: "smvm_Output (SimpleScheme ex_V ref_bitset) ex_smvm = Some (val, v)"
    by (simp add: smvm_Output_def ex_smvm_def newStateMachineViewManager_def smvm_H_def smvm_R_def Let_def)
  have "forceSend ex_smvm = None" "jumpAhead ex_smvm = None"
    by (simp_all add: ex_smvm_def newStateMachineViewManager_def)
  with out have "smrv_JumpAhead val = None" by (auto simp: smvm_Output_def Let_def split: if_splits)
  with state_machine_output_fresh[OF \<open>forceSend ex_smvm = None\<close> out] out show ?thesis by blast
qed

end
