(* ===== verification/SparseVotes.thy ===== *)
theory SparseVotes
  imports RoundView
begin

text \<open>
  Votes on the wire and in the stores (\<open>prevote.go\<close>, \<open>precommit.go\<close>,
  \<open>sparsesignaturecollection.go\<close>): full proofs per block hash, their sparse form, and back. The
  prevote and precommit types have the same fields and share a record here.
\<close>

section \<open>Definitions\<close>

record 'p VoteProof =
  vp_Height :: u64
  vp_Round :: u32
  vp_Proofs :: "(bytes, 'p) gomap"

record SparseVoteProof =
  svp_Height :: u64
  svp_Round :: u32
  svp_PubKeyHash :: bytes
  svp_Proofs :: "(bytes, SparseSignature list) gomap"

type_synonym 'p PrevoteProof = "'p VoteProof"
type_synonym 'p PrecommitProof = "'p VoteProof"
type_synonym PrevoteSparseProof = SparseVoteProof
type_synonym PrecommitSparseProof = SparseVoteProof

text \<open>The key hash of an arbitrary entry: the first one the range loop meets.\<close>

definition firstPubKeyHash :: "('p, 'b) cmsp \<Rightarrow> (bytes, 'p) gomap \<Rightarrow> bytes" where
  "firstPubKeyHash C proofs = (case proofs of [] \<Rightarrow> '''' | (h, p) # _ \<Rightarrow> cm_PubKeyHash C p)"

definition PrevoteProof_AsSparse :: "('p, 'b) cmsp \<Rightarrow> 'p PrevoteProof \<Rightarrow> go_error + PrevoteSparseProof" where
  "PrevoteProof_AsSparse C p =
     (let pkh = firstPubKeyHash C (vp_Proofs p) in
      errbind (errfold (\<lambda>(blockHash, proof) m.
          if cm_PubKeyHash C proof \<noteq> pkh
          then Inl (OtherError ''public key hash mismatch when converting prevote proof to sparse'')
          else Inr (AList.update blockHash (ssp_Signatures (cm_AsSparse C proof)) m)) (vp_Proofs p) [])
        (\<lambda>m. Inr \<lparr>svp_Height = vp_Height p, svp_Round = vp_Round p, svp_PubKeyHash = pkh, svp_Proofs = m\<rparr>))"

definition PrecommitProof_AsSparse :: "('p, 'b) cmsp \<Rightarrow> 'p PrecommitProof \<Rightarrow> go_error + PrecommitSparseProof" where
  "PrecommitProof_AsSparse C p =
     (let pkh = firstPubKeyHash C (vp_Proofs p) in
      errbind (errfold (\<lambda>(blockHash, proof) m.
          if cm_PubKeyHash C proof \<noteq> pkh
          then Inl (OtherError ''public key hash mismatch when converting precommit proof to sparse'')
          else Inr (AList.update blockHash (ssp_Signatures (cm_AsSparse C proof)) m)) (vp_Proofs p) [])
        (\<lambda>m. Inr \<lparr>svp_Height = vp_Height p, svp_Round = vp_Round p, svp_PubKeyHash = pkh, svp_Proofs = m\<rparr>))"

text \<open>The loop of the two functions \<open>...SparseProofFromFullProof\<close>, which compares the key hash of the
  sparse form.\<close>

definition sparseFromFull_step ::
  "('p, 'b) cmsp \<Rightarrow> bytes \<Rightarrow> bytes \<times> 'p \<Rightarrow> (bytes, SparseSignature list) gomap \<Rightarrow>
   go_error + (bytes, SparseSignature list) gomap" where
  "sparseFromFull_step C pkh e m =
     (let s = cm_AsSparse C (snd e) in
      if ssp_PubKeyHash s \<noteq> pkh then Inl (OtherError ''public key hash mismatch'')
      else Inr (AList.update (fst e) (ssp_Signatures s) m))"

definition PrevoteSparseProofFromFullProof ::
  "('p, 'b) cmsp \<Rightarrow> u64 \<Rightarrow> u32 \<Rightarrow> (bytes, 'p) gomap \<Rightarrow> go_error + PrevoteSparseProof" where
  "PrevoteSparseProofFromFullProof C ht rnd fullProof =
     (let pkh = firstPubKeyHash C fullProof in
      errbind (errfold (sparseFromFull_step C pkh) fullProof [])
        (\<lambda>m. Inr \<lparr>svp_Height = ht, svp_Round = rnd, svp_PubKeyHash = pkh, svp_Proofs = m\<rparr>))"

definition PrecommitSparseProofFromFullProof ::
  "('p, 'b) cmsp \<Rightarrow> u64 \<Rightarrow> u32 \<Rightarrow> (bytes, 'p) gomap \<Rightarrow> go_error + PrecommitSparseProof" where
  "PrecommitSparseProofFromFullProof C ht rnd fullProof =
     (let pkh = firstPubKeyHash C fullProof in
      errbind (errfold (sparseFromFull_step C pkh) fullProof [])
        (\<lambda>m. Inr \<lparr>svp_Height = ht, svp_Round = rnd, svp_PubKeyHash = pkh, svp_Proofs = m\<rparr>))"

definition SparseVoteProof_Clone :: "SparseVoteProof \<Rightarrow> SparseVoteProof" where
  "SparseVoteProof_Clone p = \<lparr>svp_Height = svp_Height p, svp_Round = svp_Round p,
     svp_PubKeyHash = svp_PubKeyHash p, svp_Proofs = map (\<lambda>(k, v). (k, v)) (svp_Proofs p)\<rparr>"

text \<open>The loop body of the two \<open>ToFull\<close> methods: the result of \<open>MergeSparse\<close> is ignored.\<close>

definition toFull_step ::
  "('p, 'b) cmsp \<Rightarrow> (VoteTarget \<Rightarrow> go_error + bytes) \<Rightarrow> SparseVoteProof \<Rightarrow> PubKey list \<Rightarrow> bytes \<Rightarrow>
   bytes \<times> SparseSignature list \<Rightarrow> (bytes, 'p) gomap \<Rightarrow> (go_error + (bytes, 'p) gomap) go" where
  "toFull_step C signBytes p valPubKeys valPubKeyHash e out =
     (case signBytes \<lparr>vt_Height = svp_Height p, vt_Round = svp_Round p, vt_BlockHash = fst e\<rparr> of
        Inl err \<Rightarrow> Ret (Inl err)
      | Inr msg \<Rightarrow>
          (case cm_New C msg valPubKeys valPubKeyHash of
             Inl err \<Rightarrow> Ret (Inl err)
           | Inr prf0 \<Rightarrow>
               gobind (cm_MergeSparse C prf0 \<lparr>ssp_PubKeyHash = svp_PubKeyHash p, ssp_Signatures = snd e\<rparr>)
                 (\<lambda>(_, prf1). Ret (Inr (AList.update (fst e) prf1 out)))))"

definition PrevoteSparseProof_ToFull ::
  "('p, 'b) cmsp \<Rightarrow> signature_scheme \<Rightarrow> 'h validator_hashes_scheme \<Rightarrow> Validator list \<Rightarrow> PrevoteSparseProof \<Rightarrow>
   (go_error + 'p PrevoteProof) go" where
  "PrevoteSparseProof_ToFull C sigScheme hashScheme trustedVals p =
     (let valPubKeys = ValidatorsToPubKeys trustedVals in
      case hs_PubKeys hashScheme valPubKeys of
        Inl err \<Rightarrow> Ret (Inl err)
      | Inr valPubKeyHash \<Rightarrow>
          gotry (gotryfold (toFull_step C (\<lambda>vt. PrevoteSignBytes vt sigScheme) p valPubKeys valPubKeyHash)
                   (svp_Proofs p) [])
            (\<lambda>m. Ret (Inr \<lparr>vp_Height = svp_Height p, vp_Round = svp_Round p, vp_Proofs = m\<rparr>)))"

definition PrecommitSparseProof_ToFull ::
  "('p, 'b) cmsp \<Rightarrow> signature_scheme \<Rightarrow> 'h validator_hashes_scheme \<Rightarrow> Validator list \<Rightarrow> PrecommitSparseProof \<Rightarrow>
   (go_error + 'p PrecommitProof) go" where
  "PrecommitSparseProof_ToFull C sigScheme hashScheme trustedVals p =
     (let valPubKeys = ValidatorsToPubKeys trustedVals in
      case hs_PubKeys hashScheme valPubKeys of
        Inl err \<Rightarrow> Ret (Inl err)
      | Inr valPubKeyHash \<Rightarrow>
          gotry (gotryfold (toFull_step C (\<lambda>vt. PrecommitSignBytes vt sigScheme) p valPubKeys valPubKeyHash)
                   (svp_Proofs p) [])
            (\<lambda>m. Ret (Inr \<lparr>vp_Height = svp_Height p, vp_Round = svp_Round p, vp_Proofs = m\<rparr>)))"

record SparseSignatureCollection =
  ssc_PubKeyHash :: bytes
  BlockSignatures :: "(bytes, SparseSignature list) gomap"

text \<open>The loop body of \<open>toFullProofMap\<close>, with its two panics.\<close>

definition toFullProofMap_step ::
  "('p, 'b) cmsp \<Rightarrow> (VoteTarget \<Rightarrow> go_error + bytes) \<Rightarrow> u64 \<Rightarrow> u32 \<Rightarrow> PubKey list \<Rightarrow> bytes \<Rightarrow>
   bytes \<times> SparseSignature list \<Rightarrow> (bytes, 'p) gomap \<Rightarrow> (go_error + (bytes, 'p) gomap) go" where
  "toFullProofMap_step C signBytes ht rnd valPubKeys pubKeyHash e out =
     (case signBytes \<lparr>vt_Height = ht, vt_Round = rnd, vt_BlockHash = fst e\<rparr> of
        Inl err \<Rightarrow> Ret (Inl err)
      | Inr content \<Rightarrow>
          (case cm_New C content valPubKeys pubKeyHash of
             Inl err \<Rightarrow> Ret (Inl err)
           | Inr prf0 \<Rightarrow>
               if snd e = [] then Panic ''BUG: saw len(sparseSigs) == 0''
               else gobind (cm_MergeSparse C prf0 \<lparr>ssp_PubKeyHash = pubKeyHash, ssp_Signatures = snd e\<rparr>)
                      (\<lambda>(mergeRes, prf1).
                         if \<not> AllValidSignatures mergeRes \<or> \<not> IncreasedSignatures mergeRes
                         then Panic ''BUG: invalid result after merging signatures''
                         else Ret (Inr (AList.update (fst e) prf1 out)))))"

definition toFullProofMap ::
  "('p, 'b) cmsp \<Rightarrow> u64 \<Rightarrow> u32 \<Rightarrow> ValidatorSet \<Rightarrow> (VoteTarget \<Rightarrow> go_error + bytes) \<Rightarrow>
   SparseSignatureCollection \<Rightarrow> (go_error + (bytes, 'p) gomap) go" where
  "toFullProofMap C ht rnd valSet signBytes c =
     gotryfold (toFullProofMap_step C signBytes ht rnd (ValidatorsToPubKeys (Validators valSet)) (vs_PubKeyHash valSet))
       (BlockSignatures c) []"

definition ToFullPrevoteProofMap ::
  "('p, 'b) cmsp \<Rightarrow> signature_scheme \<Rightarrow> u64 \<Rightarrow> u32 \<Rightarrow> ValidatorSet \<Rightarrow> SparseSignatureCollection \<Rightarrow>
   (go_error + (bytes, 'p) gomap) go" where
  "ToFullPrevoteProofMap C sigScheme ht rnd valSet c =
     toFullProofMap C ht rnd valSet (\<lambda>vt. PrevoteSignBytes vt sigScheme) c"

definition ToFullPrecommitProofMap ::
  "('p, 'b) cmsp \<Rightarrow> signature_scheme \<Rightarrow> u64 \<Rightarrow> u32 \<Rightarrow> ValidatorSet \<Rightarrow> SparseSignatureCollection \<Rightarrow>
   (go_error + (bytes, 'p) gomap) go" where
  "ToFullPrecommitProofMap C sigScheme ht rnd valSet c =
     toFullProofMap C ht rnd valSet (\<lambda>vt. PrecommitSignBytes vt sigScheme) c"

section \<open>The simple scheme over the wire\<close>

text \<open>A full vote map as the engine builds it for one height, round and validator set: every proof is
  for the sign bytes of its block hash, over the validators' keys.\<close>

definition vote_map_ok ::
  "verifier \<Rightarrow> ('b \<Rightarrow> nat set) \<Rightarrow> (VoteTarget \<Rightarrow> go_error + bytes) \<Rightarrow> u64 \<Rightarrow> u32 \<Rightarrow> PubKey list \<Rightarrow> bytes \<Rightarrow>
   (bytes, 'b SimpleProof) gomap \<Rightarrow> bool" where
  "vote_map_ok V bits signBytes ht rnd keys pkh full \<longleftrightarrow>
     gomap_ok full \<and> distinct (map PubKeyBytes keys) \<and> length keys \<le> 65536 \<and>
     (\<forall>(h, p) \<in> set full. simple_inv V bits p \<and> simple_exact bits p \<and> sp_keys p = keys \<and> sp_keyHash p = pkh \<and>
        signBytes \<lparr>vt_Height = ht, vt_Round = rnd, vt_BlockHash = h\<rparr> = Inr (sp_msg p))"

lemma New_is_Derive:
  assumes "simple_inv V bits p"
  shows "NewSimpleCommonMessageSignatureProof B (sp_msg p) (sp_keys p) (sp_keyHash p) = Inr (simple_Derive B p)"
  using assms by (simp add: NewSimpleCommonMessageSignatureProof_def simple_Derive_def simple_inv_def)

lemma firstPubKeyHash_ok:
  "vote_map_ok V bits sb ht rnd keys pkh full \<Longrightarrow> full \<noteq> [] \<Longrightarrow>
   firstPubKeyHash (SimpleScheme V B) full = pkh"
  by (cases full) (auto simp: vote_map_ok_def firstPubKeyHash_def)

text \<open>The proof that arrives when \<open>p\<close> is sent.\<close>

definition received :: "verifier \<Rightarrow> 'b bitset_ops \<Rightarrow> 'b SimpleProof \<Rightarrow> 'b SimpleProof" where
  "received V B p = (case simple_MergeSparse V B (simple_Derive B p) (simple_AsSparse p) of
     Ret (r, p') \<Rightarrow> p' | Panic m \<Rightarrow> p)"

lemma received_spec:
  assumes "bitset_lib B bits" and "vote_map_ok V bits sb ht rnd keys pkh full" and "(h, p) \<in> set full"
  shows "\<exists>r. simple_MergeSparse V B (simple_Derive B p) (simple_AsSparse p) = Ret (r, received V B p)"
    and "bits (sp_bitset (received V B p)) = bits (sp_bitset p)"
    and "map_of (sp_sigs (received V B p)) = map_of (sp_sigs p)"
proof -
  obtain r p' where "simple_MergeSparse V B (simple_Derive B p) (simple_AsSparse p) = Ret (r, p')"
    and "bits (sp_bitset p') = bits (sp_bitset p)" and "map_of (sp_sigs p') = map_of (sp_sigs p)"
    using sparse_roundtrip_holds[OF assms(1), of V p] assms(2,3) by (fastforce simp: vote_map_ok_def)
  moreover from this have "received V B p = p'" by (simp add: received_def)
  ultimately show "\<exists>r. simple_MergeSparse V B (simple_Derive B p) (simple_AsSparse p) = Ret (r, received V B p)"
    and "bits (sp_bitset (received V B p)) = bits (sp_bitset p)"
    and "map_of (sp_sigs (received V B p)) = map_of (sp_sigs p)"
    by auto
qed

lemma sparseFromFull_ok:
  assumes "vote_map_ok V bits sb ht rnd keys pkh full"
  shows "errfold (sparseFromFull_step (SimpleScheme V B) (firstPubKeyHash (SimpleScheme V B) full)) full [] =
    Inr (map (\<lambda>e. (fst e, ssp_Signatures (simple_AsSparse (snd e)))) full)"
proof -
  have "sparseFromFull_step (SimpleScheme V B) (firstPubKeyHash (SimpleScheme V B) full) e m =
        Inr (AList.update (fst e) (ssp_Signatures (simple_AsSparse (snd e))) m)" if "e \<in> set full" for e m
    using assms that firstPubKeyHash_ok[OF assms]
    by (fastforce simp: sparseFromFull_step_def vote_map_ok_def simple_AsSparse_def Let_def)
  then show ?thesis
    using errfold_store[of "[]" full
        "sparseFromFull_step (SimpleScheme V B) (firstPubKeyHash (SimpleScheme V B) full)"
        "\<lambda>e. ssp_Signatures (simple_AsSparse (snd e))"] assms
    by (simp add: vote_map_ok_def gomap_ok_def)
qed

lemma toFull_ok:
  assumes lib: "bitset_lib B bits" and ok: "vote_map_ok V bits sb ht rnd keys pkh full"
    and sp: "svp_Height sp = ht" "svp_Round sp = rnd" "full \<noteq> [] \<Longrightarrow> svp_PubKeyHash sp = pkh"
  shows "gotryfold (toFull_step (SimpleScheme V B) sb sp keys pkh)
      (map (\<lambda>e. (fst e, ssp_Signatures (simple_AsSparse (snd e)))) full) [] =
    Ret (Inr (map (\<lambda>e. (fst e, received V B (snd e))) full))"
proof -
  let ?sparse = "\<lambda>e. (fst e, ssp_Signatures (simple_AsSparse (snd e)))"
  have step: "toFull_step (SimpleScheme V B) sb sp keys pkh (?sparse e) m =
      Ret (Inr (AList.update (fst e) (received V B (snd e)) m))" if e: "e \<in> set full" for e m
  proof -
    obtain h p where hp: "e = (h, p)" by (cases e)
    have p: "simple_inv V bits p" "sp_keys p = keys" "sp_keyHash p = pkh"
      "sb \<lparr>vt_Height = ht, vt_Round = rnd, vt_BlockHash = h\<rparr> = Inr (sp_msg p)"
      using ok e hp by (auto simp: vote_map_ok_def)
    have "svp_PubKeyHash sp = pkh" using sp(3) e by fastforce
    then have "\<lparr>ssp_PubKeyHash = svp_PubKeyHash sp, ssp_Signatures = ssp_Signatures (simple_AsSparse p)\<rparr> =
        simple_AsSparse p"
      using p(3) by (simp add: simple_AsSparse_def)
    moreover obtain r where "simple_MergeSparse V B (simple_Derive B p) (simple_AsSparse p) = Ret (r, received V B p)"
      using received_spec(1)[OF lib ok] e hp by blast
    ultimately show ?thesis
      using New_is_Derive[OF p(1), of B] p sp(1,2) by (simp add: toFull_step_def hp)
  qed
  have "gotryfold (\<lambda>e. toFull_step (SimpleScheme V B) sb sp keys pkh (?sparse e)) full [] =
      Ret (Inr (map (\<lambda>e. (fst e, received V B (snd e))) full))"
    using gotryfold_store[of "[]" full "\<lambda>e. toFull_step (SimpleScheme V B) sb sp keys pkh (?sparse e)"
        "\<lambda>e. received V B (snd e)"] step ok
    by (simp add: vote_map_ok_def gomap_ok_def)
  then show ?thesis by (simp add: gotryfold_map)
qed

section \<open>Properties\<close>

text \<open>Votes survive the wire: a full precommit map in sparse form, sent and expanded again by a
  receiver with the same validators and schemes, has the same height, round and block hashes, and
  for every hash the same signers and the same signatures. No step fails or panics.\<close>

theorem precommit_wire_roundtrip:
  assumes lib: "bitset_lib B bits"
    and keys: "hs_PubKeys hs (ValidatorsToPubKeys vals) = Inr pkh"
    and ok: "vote_map_ok V bits (\<lambda>vt. PrecommitSignBytes vt sigs) ht rnd (ValidatorsToPubKeys vals) pkh full"
  shows "\<exists>sp out. PrecommitSparseProofFromFullProof (SimpleScheme V B) ht rnd full = Inr sp \<and>
     PrecommitSparseProof_ToFull (SimpleScheme V B) sigs hs vals sp = Ret (Inr out) \<and>
     vp_Height out = ht \<and> vp_Round out = rnd \<and> map fst (vp_Proofs out) = map fst full \<and>
     (\<forall>h p. map_of full h = Some p \<longrightarrow> (\<exists>p'. map_of (vp_Proofs out) h = Some p' \<and>
        bits (sp_bitset p') = bits (sp_bitset p) \<and> map_of (sp_sigs p') = map_of (sp_sigs p)))"
proof -
  define sp where "sp = \<lparr>svp_Height = ht, svp_Round = rnd,
    svp_PubKeyHash = firstPubKeyHash (SimpleScheme V B) full,
    svp_Proofs = map (\<lambda>e. (fst e, ssp_Signatures (simple_AsSparse (snd e)))) full\<rparr>"
  define out where "out = \<lparr>vp_Height = ht, vp_Round = rnd,
    vp_Proofs = map (\<lambda>e. (fst e, received V B (snd e))) full\<rparr>"
  have "PrecommitSparseProofFromFullProof (SimpleScheme V B) ht rnd full = Inr sp"
    by (simp add: PrecommitSparseProofFromFullProof_def sparseFromFull_ok[OF ok] sp_def Let_def)
  moreover have "PrecommitSparseProof_ToFull (SimpleScheme V B) sigs hs vals sp = Ret (Inr out)"
    using toFull_ok[OF lib ok, of sp] firstPubKeyHash_ok[OF ok] keys
    by (simp add: PrecommitSparseProof_ToFull_def sp_def out_def)
  moreover have "map_of (vp_Proofs out) h = map_option (received V B) (map_of full h)" for h
    unfolding out_def using map_of_map_snd[of "\<lambda>k. received V B" full h] by (simp add: case_prod_unfold)
  moreover have "map fst (vp_Proofs out) = map fst full" by (simp add: out_def)
  ultimately show ?thesis
    using received_spec(2,3)[OF lib ok] map_of_SomeD[of full] by (force simp: out_def)
qed

definition ex_sigs :: signature_scheme where
  "ex_sigs = \<lparr>WriteProposalSigningContent = (\<lambda>h r a. Inr ''p''), WritePrevoteSigningContent = (\<lambda>vt. Inr ''v''),
     WritePrecommitSigningContent = (\<lambda>vt. Inr ''m'')\<rparr>"

definition ex_hashes :: validator_hashes where
  "ex_hashes = \<lparr>hs_PubKeys = (\<lambda>ks. Inr ''h''), hs_VotePowers = (\<lambda>ps. Inr ''p'')\<rparr>"

theorem precommit_wire_roundtrip_witness:
  "\<exists>sp out. PrecommitSparseProofFromFullProof (SimpleScheme ex_V ref_bitset) 7 2 [(''x'', ex_proof)] = Inr sp \<and>
     PrecommitSparseProof_ToFull (SimpleScheme ex_V ref_bitset) ex_sigs ex_hashes ex_vals sp = Ret (Inr out) \<and>
     map fst (vp_Proofs out) = [''x'']"
proof -
  have "simple_exact set ex_proof"
    by (auto simp: simple_exact_def ex_proof_def ex_keyIndexes)
  then have "vote_map_ok ex_V set (\<lambda>vt. PrecommitSignBytes vt ex_sigs) 7 2 (ValidatorsToPubKeys ex_vals) ''h''
      [(''x'', ex_proof)]"
    using ex_proof_inv
    by (simp add: vote_map_ok_def gomap_ok_def ValidatorsToPubKeys_def ex_vals_def ex_proof_def
        PrecommitSignBytes_def ex_sigs_def)
  then show ?thesis
    using precommit_wire_roundtrip[OF rbs.bitset_lib_axioms, of ex_hashes ex_vals "''h''" ex_V ex_sigs 7 2
        "[(''x'', ex_proof)]"]
    by (fastforce simp: ex_hashes_def)
qed

end
