(* ===== verification/MemStores.thy ===== *)
theory MemStores
  imports SparseVotes
begin

text \<open>
  The seven in-memory stores of \<open>tm/tmstore/tmmemstore\<close>. Each store is the record of its fields; a
  method takes the store and returns the new one. The mutex of a store makes each method atomic, so
  that concurrent use is a sequence of method calls. The locales \<open>height_store\<close> and
  \<open>write_once_store\<close> are the contracts of the stores keyed by height.
\<close>

section \<open>The action store\<close>

record RoundActions =
  ra_Height :: u64
  ra_Round :: u32
  ra_ProposedHeader :: ProposedHeader
  ra_PubKey :: "PubKey option"
  PrevoteTarget :: bytes
  PrevoteSignature :: bytes
  PrecommitTarget :: bytes
  PrecommitSignature :: bytes

definition zeroProposedHeader :: ProposedHeader where
  "zeroProposedHeader = \<lparr>ph_Header = zeroHeader, ph_Round = 0, ProposerPubKey = None,
     ph_Annotations = zeroAnnotations, Signature = []\<rparr>"

definition zeroRoundActions :: RoundActions where
  "zeroRoundActions = \<lparr>ra_Height = 0, ra_Round = 0, ra_ProposedHeader = zeroProposedHeader, ra_PubKey = None,
     PrevoteTarget = '''', PrevoteSignature = '''', PrecommitTarget = '''', PrecommitSignature = ''''\<rparr>"

type_synonym ActionStore = "u64 \<times> u32 \<rightharpoonup> RoundActions"

definition NewActionStore :: ActionStore where
  "NewActionStore = Map.empty"

text \<open>Reading a missing key of a Go map gives the zero value.\<close>

definition actions_at :: "ActionStore \<Rightarrow> u64 \<times> u32 \<Rightarrow> RoundActions" where
  "actions_at s hr = (case s hr of None \<Rightarrow> zeroRoundActions | Some ra \<Rightarrow> ra)"

definition SaveProposedHeaderAction :: "ActionStore \<Rightarrow> ProposedHeader \<Rightarrow> go_error + ActionStore" where
  "SaveProposedHeaderAction s ph =
     (let hr = (h_Height (ph_Header ph), ph_Round ph); ra = actions_at s hr in
      if s hr \<noteq> None \<and> h_Height (ph_Header (ra_ProposedHeader ra)) \<noteq> 0
      then Inl (DoubleActionError ''proposed block'')
      else Inr (s(hr \<mapsto> ra\<lparr>ra_Height := fst hr, ra_Round := snd hr, ra_ProposedHeader := ph\<rparr>)))"

definition SavePrevoteAction ::
  "ActionStore \<Rightarrow> PubKey \<Rightarrow> VoteTarget \<Rightarrow> bytes \<Rightarrow> go_error + ActionStore" where
  "SavePrevoteAction s pubKey vt sig =
     (let hr = (vt_Height vt, vt_Round vt); ra = actions_at s hr in
      if s hr \<noteq> None \<and> PrevoteSignature ra \<noteq> '''' then Inl (DoubleActionError ''prevote'')
      else if s hr \<noteq> None \<and> ra_PubKey ra \<noteq> None \<and> ra_PubKey ra \<noteq> Some pubKey
      then Inl (PubKeyChangedError ''prevote'' (PubKeyBytes (the (ra_PubKey ra))) (PubKeyBytes pubKey))
      else Inr (s(hr \<mapsto> ra\<lparr>ra_Height := fst hr, ra_Round := snd hr,
                 PrevoteTarget := vt_BlockHash vt, PrevoteSignature := sig, ra_PubKey := Some pubKey\<rparr>)))"

definition SavePrecommitAction ::
  "ActionStore \<Rightarrow> PubKey \<Rightarrow> VoteTarget \<Rightarrow> bytes \<Rightarrow> go_error + ActionStore" where
  "SavePrecommitAction s pubKey vt sig =
     (let hr = (vt_Height vt, vt_Round vt); ra = actions_at s hr in
      if s hr \<noteq> None \<and> PrecommitSignature ra \<noteq> '''' then Inl (DoubleActionError ''precommit'')
      else if s hr \<noteq> None \<and> ra_PubKey ra \<noteq> None \<and> ra_PubKey ra \<noteq> Some pubKey
      then Inl (PubKeyChangedError ''precommit'' (PubKeyBytes (the (ra_PubKey ra))) (PubKeyBytes pubKey))
      else Inr (s(hr \<mapsto> ra\<lparr>ra_Height := fst hr, ra_Round := snd hr,
                 PrecommitTarget := vt_BlockHash vt, PrecommitSignature := sig, ra_PubKey := Some pubKey\<rparr>)))"

definition LoadActions :: "ActionStore \<Rightarrow> u64 \<Rightarrow> u32 \<Rightarrow> go_error + RoundActions" where
  "LoadActions s ht rnd = (case s (ht, rnd) of None \<Rightarrow> Inl (RoundUnknownError ht rnd) | Some ra \<Rightarrow> Inr ra)"

section \<open>The committed header and finalization stores\<close>

type_synonym CommittedHeaderStore = "u64 \<rightharpoonup> CommittedHeader"

definition NewCommittedHeaderStore :: CommittedHeaderStore where
  "NewCommittedHeaderStore = Map.empty"

definition SaveCommittedHeader :: "CommittedHeaderStore \<Rightarrow> CommittedHeader \<Rightarrow> go_error + CommittedHeaderStore" where
  "SaveCommittedHeader s ch = Inr (s(h_Height (ch_Header ch) \<mapsto> ch))"

definition LoadCommittedHeader :: "CommittedHeaderStore \<Rightarrow> u64 \<Rightarrow> go_error + CommittedHeader" where
  "LoadCommittedHeader s ht = (case s ht of None \<Rightarrow> Inl (HeightUnknownError ht) | Some ch \<Rightarrow> Inr ch)"

record fin =
  fin_H :: u64
  fin_R :: u32
  fin_BlockHash :: bytes
  fin_ValSet :: ValidatorSet
  fin_AppStateHash :: bytes

type_synonym FinalizationStore = "u64 \<rightharpoonup> fin"

definition NewFinalizationStore :: FinalizationStore where
  "NewFinalizationStore = Map.empty"

definition SaveFinalization ::
  "FinalizationStore \<Rightarrow> u64 \<Rightarrow> u32 \<Rightarrow> bytes \<Rightarrow> ValidatorSet \<Rightarrow> bytes \<Rightarrow> go_error + FinalizationStore" where
  "SaveFinalization s ht rnd blockHash valSet appStateHash =
     (if s ht \<noteq> None then Inl (FinalizationOverwriteError ht)
      else Inr (s(ht \<mapsto> \<lparr>fin_H = ht, fin_R = rnd, fin_BlockHash = blockHash, fin_ValSet = valSet,
                         fin_AppStateHash = appStateHash\<rparr>)))"

definition LoadFinalizationByHeight ::
  "FinalizationStore \<Rightarrow> u64 \<Rightarrow> go_error + u32 \<times> bytes \<times> ValidatorSet \<times> bytes" where
  "LoadFinalizationByHeight s ht =
     (case s ht of
        None \<Rightarrow> Inl (HeightUnknownError ht)
      | Some f \<Rightarrow> Inr (fin_R f, fin_BlockHash f, fin_ValSet f, fin_AppStateHash f))"

section \<open>The mirror and state machine stores\<close>

record MirrorStore =
  ms_votingHeight :: u64
  ms_votingRound :: u32
  ms_committingHeight :: u64
  ms_committingRound :: u32

definition NewMirrorStore :: MirrorStore where
  "NewMirrorStore = \<lparr>ms_votingHeight = 0, ms_votingRound = 0, ms_committingHeight = 0, ms_committingRound = 0\<rparr>"

definition SetNetworkHeightRound ::
  "MirrorStore \<Rightarrow> u64 \<Rightarrow> u32 \<Rightarrow> u64 \<Rightarrow> u32 \<Rightarrow> go_error + MirrorStore" where
  "SetNetworkHeightRound s vh vr ch cr = Inr (s\<lparr>ms_votingHeight := vh, ms_votingRound := vr,
     ms_committingHeight := ch, ms_committingRound := cr\<rparr>)"

definition NetworkHeightRound :: "MirrorStore \<Rightarrow> go_error + u64 \<times> u32 \<times> u64 \<times> u32" where
  "NetworkHeightRound s =
     (if ms_votingHeight s = 0 then Inl ErrStoreUninitialized
      else Inr (ms_votingHeight s, ms_votingRound s, ms_committingHeight s, ms_committingRound s))"

record StateMachineStore =
  sms_h :: u64
  sms_r :: u32

definition NewStateMachineStore :: StateMachineStore where
  "NewStateMachineStore = \<lparr>sms_h = 0, sms_r = 0\<rparr>"

definition SetStateMachineHeightRound ::
  "StateMachineStore \<Rightarrow> u64 \<Rightarrow> u32 \<Rightarrow> go_error + StateMachineStore" where
  "SetStateMachineHeightRound s ht rnd = Inr (s\<lparr>sms_h := ht, sms_r := rnd\<rparr>)"

definition StateMachineHeightRound :: "StateMachineStore \<Rightarrow> go_error + u64 \<times> u32" where
  "StateMachineHeightRound s =
     (if sms_h s = 0 then Inl ErrStoreUninitialized else Inr (sms_h s, sms_r s))"

section \<open>The round store\<close>

record RoundStore =
  rs_phs :: "u64 \<rightharpoonup> (u32, (bytes, ProposedHeader list) gomap) gomap"
  rs_prevotes :: "u64 \<rightharpoonup> (u32 \<rightharpoonup> SparseSignatureCollection)"
  rs_precommits :: "u64 \<rightharpoonup> (u32 \<rightharpoonup> SparseSignatureCollection)"
  rs_replayedHeaders :: "u64 \<Rightarrow> Header list"

definition NewRoundStore :: RoundStore where
  "NewRoundStore = \<lparr>rs_phs = Map.empty, rs_prevotes = Map.empty, rs_precommits = Map.empty,
     rs_replayedHeaders = (\<lambda>_. [])\<rparr>"

text \<open>The check for a header by the same proposer; a method call on a nil key panics.\<close>

definition sameProposer :: "ProposedHeader \<Rightarrow> ProposedHeader list \<Rightarrow> bool go" where
  "sameProposer ph havePHs =
     (if havePHs = [] then Ret False
      else case ProposerPubKey ph of
             None \<Rightarrow> Panic ''nil pointer dereference''
           | Some k \<Rightarrow> Ret (list_ex (\<lambda>have. ProposerPubKey have = Some k) havePHs))"

text \<open>Only the hash map of the header's own height and round is changed; the maps for its height and
  round exist afterwards even when the header is refused.\<close>

definition SaveRoundProposedHeader :: "RoundStore \<Rightarrow> ProposedHeader \<Rightarrow> (go_error option \<times> RoundStore) go" where
  "SaveRoundProposedHeader s ph =
     (let ht = h_Height (ph_Header ph);
          byRound = (case rs_phs s ht of None \<Rightarrow> [] | Some m \<Rightarrow> m);
          byHash = (case map_of byRound (ph_Round ph) of None \<Rightarrow> [] | Some m \<Rightarrow> m);
          havePHs = (case map_of byHash (Hash (ph_Header ph)) of None \<Rightarrow> [] | Some l \<Rightarrow> l);
          store = (\<lambda>m. s\<lparr>rs_phs := (rs_phs s)(ht \<mapsto> AList.update (ph_Round ph) m byRound)\<rparr>)
      in gobind (sameProposer ph havePHs) (\<lambda>same.
           if same
           then Ret (Some (OverwriteError ''pubkey'' (PubKeyBytes (the (ProposerPubKey ph)))), store byHash)
           else Ret (None, store (AList.update (Hash (ph_Header ph)) (havePHs @ [ph]) byHash))))"

definition SaveRoundReplayedHeader :: "RoundStore \<Rightarrow> Header \<Rightarrow> go_error + RoundStore" where
  "SaveRoundReplayedHeader s h =
     (case rs_phs s (h_Height h) of
        Some byRound \<Rightarrow>
          if list_ex (\<lambda>(r, byHash). map_of byHash (Hash h) \<noteq> None) byRound
          then Inl (OverwriteError ''hash'' (Hash h))
          else Inr (s\<lparr>rs_replayedHeaders := (rs_replayedHeaders s)(h_Height h := rs_replayedHeaders s (h_Height h) @ [h])\<rparr>)
      | None \<Rightarrow> Inr (s\<lparr>rs_replayedHeaders := (rs_replayedHeaders s)(h_Height h := rs_replayedHeaders s (h_Height h) @ [h])\<rparr>))"

definition OverwriteRoundPrevoteProofs ::
  "RoundStore \<Rightarrow> u64 \<Rightarrow> u32 \<Rightarrow> SparseSignatureCollection \<Rightarrow> go_error + RoundStore" where
  "OverwriteRoundPrevoteProofs s ht rnd proofs =
     (let byRound = (case rs_prevotes s ht of None \<Rightarrow> Map.empty | Some m \<Rightarrow> m) in
      Inr (s\<lparr>rs_prevotes := (rs_prevotes s)(ht \<mapsto> byRound(rnd \<mapsto> proofs))\<rparr>))"

definition OverwriteRoundPrecommitProofs ::
  "RoundStore \<Rightarrow> u64 \<Rightarrow> u32 \<Rightarrow> SparseSignatureCollection \<Rightarrow> go_error + RoundStore" where
  "OverwriteRoundPrecommitProofs s ht rnd proofs =
     (let byRound = (case rs_precommits s ht of None \<Rightarrow> Map.empty | Some m \<Rightarrow> m) in
      Inr (s\<lparr>rs_precommits := (rs_precommits s)(ht \<mapsto> byRound(rnd \<mapsto> proofs))\<rparr>))"

definition zeroCollection :: SparseSignatureCollection where
  "zeroCollection = \<lparr>ssc_PubKeyHash = [], BlockSignatures = []\<rparr>"

definition LoadRoundState ::
  "RoundStore \<Rightarrow> u64 \<Rightarrow> u32 \<Rightarrow>
   go_error + ProposedHeader list \<times> SparseSignatureCollection \<times> SparseSignatureCollection" where
  "LoadRoundState s ht rnd =
     (let phs0 = (case rs_phs s ht of
                    None \<Rightarrow> []
                  | Some roundMap \<Rightarrow>
                      (case map_of roundMap rnd of None \<Rightarrow> [] | Some hashMap \<Rightarrow> concat (map snd hashMap)));
          prevotes = (case rs_prevotes s ht of
                        None \<Rightarrow> zeroCollection
                      | Some m \<Rightarrow> (case m rnd of None \<Rightarrow> zeroCollection | Some c \<Rightarrow> c));
          replayed = rs_replayedHeaders s ht;
          precommits = (case rs_precommits s ht of
                          None \<Rightarrow> zeroCollection
                        | Some m \<Rightarrow> (case m rnd of None \<Rightarrow> zeroCollection | Some c \<Rightarrow> c));
          phs = phs0 @ concat (map (\<lambda>(hash, sigs).
                  if hash = '''' then []
                  else map (\<lambda>rh. zeroProposedHeader\<lparr>ph_Header := rh\<rparr>) (filter (\<lambda>rh. hash = Hash rh) replayed))
                (BlockSignatures precommits))
      in if phs = [] \<and> BlockSignatures prevotes = [] \<and> BlockSignatures precommits = []
         then Inl (RoundUnknownError ht rnd)
         else Inr (phs, prevotes, precommits))"

section \<open>The validator store\<close>

record ValidatorStore =
  vst_keys :: "bytes \<rightharpoonup> PubKey list"
  vst_pows :: "bytes \<rightharpoonup> u64 list"

definition NewValidatorStore :: ValidatorStore where
  "NewValidatorStore = \<lparr>vst_keys = Map.empty, vst_pows = Map.empty\<rparr>"

text \<open>The save methods return the hash together with the error when the value is already there.\<close>

definition SavePubKeys ::
  "'h validator_hashes_scheme \<Rightarrow> ValidatorStore \<Rightarrow> PubKey list \<Rightarrow> (bytes \<times> go_error option) \<times> ValidatorStore" where
  "SavePubKeys hs s keys =
     (case hs_PubKeys hs keys of
        Inl e \<Rightarrow> (('''', Some e), s)
      | Inr sHash \<Rightarrow>
          if vst_keys s sHash \<noteq> None then ((sHash, Some (PubKeysAlreadyExistError sHash)), s)
          else ((sHash, None), s\<lparr>vst_keys := (vst_keys s)(sHash \<mapsto> keys)\<rparr>))"

definition SaveVotePowers ::
  "'h validator_hashes_scheme \<Rightarrow> ValidatorStore \<Rightarrow> u64 list \<Rightarrow> (bytes \<times> go_error option) \<times> ValidatorStore" where
  "SaveVotePowers hs s pows =
     (case hs_VotePowers hs pows of
        Inl e \<Rightarrow> (('''', Some e), s)
      | Inr sHash \<Rightarrow>
          if vst_pows s sHash \<noteq> None then ((sHash, Some (VotePowersAlreadyExistError sHash)), s)
          else ((sHash, None), s\<lparr>vst_pows := (vst_pows s)(sHash \<mapsto> pows)\<rparr>))"

definition LoadPubKeys :: "ValidatorStore \<Rightarrow> bytes \<Rightarrow> go_error + PubKey list" where
  "LoadPubKeys s hash = (case vst_keys s hash of None \<Rightarrow> Inl (NoPubKeyHashError hash) | Some ks \<Rightarrow> Inr ks)"

definition LoadVotePowers :: "ValidatorStore \<Rightarrow> bytes \<Rightarrow> go_error + u64 list" where
  "LoadVotePowers s hash = (case vst_pows s hash of None \<Rightarrow> Inl (NoVotePowerHashError hash) | Some ps \<Rightarrow> Inr ps)"

definition LoadValidators :: "ValidatorStore \<Rightarrow> bytes \<Rightarrow> bytes \<Rightarrow> go_error + Validator list" where
  "LoadValidators s keyHash powHash =
     (case (vst_keys s keyHash, vst_pows s powHash) of
        (None, None) \<Rightarrow> Inl (JoinedErrors (NoPubKeyHashError keyHash) (NoVotePowerHashError powHash))
      | (None, Some _) \<Rightarrow> Inl (NoPubKeyHashError keyHash)
      | (Some _, None) \<Rightarrow> Inl (NoVotePowerHashError powHash)
      | (Some keys, Some pows) \<Rightarrow>
          if length keys \<noteq> length pows then Inl (PubKeyPowerCountMismatchError (length keys) (length pows))
          else Inr (map (\<lambda>(k, p). \<lparr>val_PubKey = k, Power = p\<rparr>) (zip keys pows)))"

section \<open>Stores keyed by height\<close>

locale height_store =
  fixes save :: "'s \<Rightarrow> u64 \<Rightarrow> 'v \<Rightarrow> go_error + 's"
    and load :: "'s \<Rightarrow> u64 \<Rightarrow> go_error + 'v"
  assumes load_saved: "save s h v = Inr s' \<Longrightarrow> load s' h = Inr v"
    and load_other: "save s h v = Inr s' \<Longrightarrow> k \<noteq> h \<Longrightarrow> load s' k = load s k"
begin

text \<open>A history of save attempts; a refused save changes nothing.\<close>

definition attempt :: "u64 \<times> 'v \<Rightarrow> 's \<Rightarrow> 's" where
  "attempt e s = (case save s (fst e) (snd e) of Inl _ \<Rightarrow> s | Inr s' \<Rightarrow> s')"

lemma untouched: "\<forall>e \<in> set es. fst e \<noteq> k \<Longrightarrow> load (fold attempt es s) k = load s k"
proof (induction es arbitrary: s)
  case Nil
  then show ?case by simp
next
  case (Cons e es)
  have "load (attempt e s) k = load s k"
    using Cons.prems load_other[of s "fst e" "snd e"] by (auto simp: attempt_def split: sum.split)
  then show ?case using Cons by simp
qed

end

locale write_once_store = height_store +
  assumes refuses: "load s h = Inr v \<Longrightarrow> \<exists>e. save s h w = Inl e"
    and accepts: "load s h = Inl e \<Longrightarrow> \<exists>s'. save s h w = Inr s'"
begin

text \<open>Once a value is stored, no later history of saves changes it.\<close>

lemma permanent: "load s h = Inr v \<Longrightarrow> load (fold attempt es s) h = Inr v"
proof (induction es arbitrary: s)
  case Nil
  then show ?case by simp
next
  case (Cons e es)
  have "load (attempt e s) h = Inr v"
  proof (cases "fst e = h")
    case True
    with Cons.prems refuses[of s h v "snd e"] show ?thesis by (auto simp: attempt_def)
  next
    case False
    with Cons.prems load_other[of s "fst e" "snd e"] show ?thesis
      by (auto simp: attempt_def split: sum.split)
  qed
  then show ?case using Cons.IH by simp
qed

text \<open>The value a history leaves at a height is the first one it tried to save there.\<close>

lemma first_wins:
  assumes "load s h = Inl e" and "map_of es h = Some v"
  shows "load (fold attempt es s) h = Inr v"
  using assms
proof (induction es arbitrary: s e)
  case Nil
  then show ?case by simp
next
  case (Cons x es)
  show ?case
  proof (cases "fst x = h")
    case True
    then have "snd x = v" using Cons.prems(2) by (cases x) auto
    moreover obtain s' where "save s h (snd x) = Inr s'" using accepts Cons.prems(1) by blast
    ultimately have "load (attempt x s) h = Inr v"
      using True load_saved by (simp add: attempt_def)
    then show ?thesis using permanent by simp
  next
    case False
    then have "load (attempt x s) h = Inl e"
      using Cons.prems(1) load_other[of s "fst x" "snd x"] by (auto simp: attempt_def split: sum.split)
    moreover have "map_of es h = Some v" using Cons.prems(2) False by (cases x) auto
    ultimately show ?thesis using Cons.IH by simp
  qed
qed

end

interpretation finalizations: write_once_store
  "\<lambda>s h (r, bh, vs, ash). SaveFinalization s h r bh vs ash" LoadFinalizationByHeight
  by unfold_locales (auto simp: SaveFinalization_def LoadFinalizationByHeight_def split: if_splits option.splits)

interpretation committed: height_store
  "\<lambda>s h ch. if h_Height (ch_Header ch) = h then SaveCommittedHeader s ch else Inl (HeightUnknownError h)"
  LoadCommittedHeader
  by unfold_locales (auto simp: SaveCommittedHeader_def LoadCommittedHeader_def split: if_splits option.splits)

section \<open>Histories of actions\<close>

text \<open>What the state machine records before it sends a message, and what the store accepts of a
  history of such records (most recent first).\<close>

datatype action =
    ActProposedHeader ProposedHeader
  | ActPrevote PubKey VoteTarget bytes
  | ActPrecommit PubKey VoteTarget bytes

fun do_action :: "action \<Rightarrow> ActionStore \<Rightarrow> go_error + ActionStore" where
  "do_action (ActProposedHeader ph) s = SaveProposedHeaderAction s ph"
| "do_action (ActPrevote pk vt sig) s = SavePrevoteAction s pk vt sig"
| "do_action (ActPrecommit pk vt sig) s = SavePrecommitAction s pk vt sig"

definition record_action :: "action \<Rightarrow> action list \<times> ActionStore \<Rightarrow> action list \<times> ActionStore" where
  "record_action a st = (case do_action a (snd st) of Inl _ \<Rightarrow> st | Inr s' \<Rightarrow> (a # fst st, s'))"

text \<open>The slot an action takes: its kind, height and round.\<close>

fun action_slot :: "action \<Rightarrow> nat \<times> u64 \<times> u32" where
  "action_slot (ActProposedHeader ph) = (0, h_Height (ph_Header ph), ph_Round ph)"
| "action_slot (ActPrevote pk vt sig) = (1, vt_Height vt, vt_Round vt)"
| "action_slot (ActPrecommit pk vt sig) = (2, vt_Height vt, vt_Round vt)"

text \<open>Heights start at one and signatures are not empty.\<close>

fun action_ok :: "action \<Rightarrow> bool" where
  "action_ok (ActProposedHeader ph) = (h_Height (ph_Header ph) \<noteq> 0)"
| "action_ok (ActPrevote pk vt sig) = (sig \<noteq> [])"
| "action_ok (ActPrecommit pk vt sig) = (sig \<noteq> [])"

text \<open>The store remembers an accepted action.\<close>

fun remembered :: "ActionStore \<Rightarrow> action \<Rightarrow> bool" where
  "remembered s (ActProposedHeader ph) = (case s (h_Height (ph_Header ph), ph_Round ph) of
     None \<Rightarrow> False | Some ra \<Rightarrow> ra_ProposedHeader ra = ph)"
| "remembered s (ActPrevote pk vt sig) = (case s (vt_Height vt, vt_Round vt) of
     None \<Rightarrow> False
   | Some ra \<Rightarrow> PrevoteTarget ra = vt_BlockHash vt \<and> PrevoteSignature ra = sig \<and> ra_PubKey ra = Some pk)"
| "remembered s (ActPrecommit pk vt sig) = (case s (vt_Height vt, vt_Round vt) of
     None \<Rightarrow> False
   | Some ra \<Rightarrow> PrecommitTarget ra = vt_BlockHash vt \<and> PrecommitSignature ra = sig \<and> ra_PubKey ra = Some pk)"

lemmas action_defs = SaveProposedHeaderAction_def SavePrevoteAction_def SavePrecommitAction_def actions_at_def

lemma do_action_remembers: "do_action a s = Inr s' \<Longrightarrow> remembered s' a"
  by (cases a) (auto simp: action_defs Let_def split: if_splits option.splits)

lemma do_action_keeps:
  "do_action a s = Inr s' \<Longrightarrow> remembered s b \<Longrightarrow> action_ok b \<Longrightarrow> remembered s' b"
  by (cases a; cases b) (auto simp: action_defs Let_def split: if_splits option.splits)

lemma do_action_slot_free:
  "do_action a s = Inr s' \<Longrightarrow> remembered s b \<Longrightarrow> action_ok b \<Longrightarrow> action_slot a \<noteq> action_slot b"
  by (cases a; cases b) (auto simp: action_defs Let_def split: if_splits option.splits)

lemma record_action_inv:
  assumes "distinct (map action_slot acc)" and "\<forall>b\<in>set acc. remembered s b \<and> action_ok b"
    and "action_ok a" and "record_action a (acc, s) = (acc', s')"
  shows "distinct (map action_slot acc') \<and> (\<forall>b\<in>set acc'. remembered s' b \<and> action_ok b)"
proof (cases "do_action a s")
  case (Inl e)
  then show ?thesis using assms by (simp add: record_action_def)
next
  case (Inr t)
  then have eq: "acc' = a # acc" "s' = t" using assms(4) by (auto simp: record_action_def)
  have "\<forall>b\<in>set acc. action_slot a \<noteq> action_slot b"
    using do_action_slot_free[OF Inr] assms(2) by blast
  moreover have "\<forall>b\<in>set acc. remembered t b" using do_action_keeps[OF Inr] assms(2) by blast
  ultimately show ?thesis
    using assms do_action_remembers[OF Inr] by (auto simp: eq)
qed

lemma fold_record_inv:
  assumes "distinct (map action_slot acc)" and "\<forall>b\<in>set acc. remembered s b \<and> action_ok b"
    and "\<forall>a\<in>set as. action_ok a" and "fold record_action as (acc, s) = (acc', s')"
  shows "distinct (map action_slot acc') \<and> (\<forall>b\<in>set acc'. remembered s' b)"
  using assms
proof (induction as arbitrary: acc s)
  case Nil
  then show ?case by auto
next
  case (Cons a as)
  obtain acc1 s1 where one: "record_action a (acc, s) = (acc1, s1)" by fastforce
  have "distinct (map action_slot acc1) \<and> (\<forall>b\<in>set acc1. remembered s1 b \<and> action_ok b)"
    using record_action_inv[OF Cons.prems(1,2) _ one] Cons.prems(3) by simp
  then show ?case using Cons.IH[of acc1 s1] Cons.prems(3,4) one by simp
qed

section \<open>Loading a round\<close>

lemma mset_concat_update:
  "mset (concat (map snd (AList.update k (case_option [] id (map_of m k) @ [x]) m))) =
   add_mset x (mset (concat (map snd m)))"
  by (induction m) auto

text \<open>The proposed headers kept for one height and round.\<close>

definition stored_phs :: "RoundStore \<Rightarrow> u64 \<Rightarrow> u32 \<Rightarrow> ProposedHeader list" where
  "stored_phs s ht rnd = (case rs_phs s ht of
     None \<Rightarrow> [] | Some m \<Rightarrow> (case map_of m rnd of None \<Rightarrow> [] | Some hm \<Rightarrow> concat (map snd hm)))"

lemma SaveRoundProposedHeader_stored:
  assumes "SaveRoundProposedHeader s ph = Ret (None, s')"
  shows "mset (stored_phs s' (h_Height (ph_Header ph)) (ph_Round ph)) =
           add_mset ph (mset (stored_phs s (h_Height (ph_Header ph)) (ph_Round ph)))"
    and "(ht, rnd) \<noteq> (h_Height (ph_Header ph), ph_Round ph) \<Longrightarrow> stored_phs s' ht rnd = stored_phs s ht rnd"
    and "rs_prevotes s' = rs_prevotes s" "rs_precommits s' = rs_precommits s"
    and "rs_replayedHeaders s' = rs_replayedHeaders s"
proof -
  let ?ht = "h_Height (ph_Header ph)" and ?r = "ph_Round ph"
  define m where "m = (case rs_phs s ?ht of None \<Rightarrow> [] | Some m \<Rightarrow> m)"
  define hm where "hm = (case map_of m ?r of None \<Rightarrow> [] | Some m \<Rightarrow> m)"
  define l where "l = (case map_of hm (Hash (ph_Header ph)) of None \<Rightarrow> [] | Some l \<Rightarrow> l)"
  have s': "s' = s\<lparr>rs_phs := (rs_phs s)(?ht \<mapsto>
      AList.update ?r (AList.update (Hash (ph_Header ph)) (l @ [ph]) hm) m)\<rparr>"
    using assms unfolding SaveRoundProposedHeader_def m_def[symmetric] hm_def[symmetric] l_def[symmetric] Let_def
    by (auto simp: m_def hm_def l_def split: if_splits)
  have old: "stored_phs s ?ht ?r = concat (map snd hm)"
    by (auto simp: stored_phs_def hm_def m_def split: option.splits)
  have "stored_phs s' ?ht ?r = concat (map snd (AList.update (Hash (ph_Header ph)) (l @ [ph]) hm))"
    by (simp add: stored_phs_def s' update_conv')
  moreover have "l = case_option [] id (map_of hm (Hash (ph_Header ph)))"
    by (simp add: l_def split: option.split)
  ultimately show "mset (stored_phs s' ?ht ?r) = add_mset ph (mset (stored_phs s ?ht ?r))"
    using mset_concat_update old by metis
  show "stored_phs s' ht rnd = stored_phs s ht rnd" if "(ht, rnd) \<noteq> (?ht, ?r)"
    using that by (auto simp: stored_phs_def s' m_def update_conv' split: option.splits)
  show "rs_prevotes s' = rs_prevotes s" "rs_precommits s' = rs_precommits s"
    "rs_replayedHeaders s' = rs_replayedHeaders s" by (simp_all add: s')
qed

lemma SaveRoundProposedHeader_refused:
  assumes "SaveRoundProposedHeader s ph = Ret (res, s')" and "res \<noteq> None"
  shows "\<forall>ht rnd. LoadRoundState s' ht rnd = LoadRoundState s ht rnd"
proof -
  have "stored_phs s' ht rnd = stored_phs s ht rnd \<and> rs_prevotes s' = rs_prevotes s \<and>
      rs_precommits s' = rs_precommits s \<and> rs_replayedHeaders s' = rs_replayedHeaders s" for ht rnd
    using assms
    by (auto simp: SaveRoundProposedHeader_def stored_phs_def Let_def update_conv' split: if_splits option.splits)
  then show ?thesis unfolding LoadRoundState_def stored_phs_def[symmetric] by simp
qed

lemma SaveRoundProposedHeader_decides:
  assumes "SaveRoundProposedHeader s ph = Ret (res, s')"
  shows "(\<exists>m hm l have. rs_phs s (h_Height (ph_Header ph)) = Some m \<and> map_of m (ph_Round ph) = Some hm \<and>
      map_of hm (Hash (ph_Header ph)) = Some l \<and> have \<in> set l \<and> ProposerPubKey have = ProposerPubKey ph) =
    (res \<noteq> None)"
  using assms
  by (auto simp: SaveRoundProposedHeader_def sameProposer_def Let_def list_ex_iff split: if_splits option.splits)

section \<open>Properties\<close>

text \<open>The action store never lets a validator sign twice: whatever history of proposals, prevotes
  and precommits is recorded in a new store, the accepted ones have different slots (kind, height,
  round), and loading the actions of a round gives back the target, signature and key of every
  accepted vote, so that prevote and precommit of a round have the same key.\<close>

theorem action_store_never_double_signs:
  assumes ok: "\<forall>a\<in>set as. action_ok a"
    and run: "fold record_action as ([], NewActionStore) = (accepted, s)"
  shows "distinct (map action_slot accepted) \<and>
    (\<forall>ph. ActProposedHeader ph \<in> set accepted \<longrightarrow>
       (\<exists>ra. LoadActions s (h_Height (ph_Header ph)) (ph_Round ph) = Inr ra \<and> ra_ProposedHeader ra = ph)) \<and>
    (\<forall>pk vt sig. ActPrevote pk vt sig \<in> set accepted \<longrightarrow>
       (\<exists>ra. LoadActions s (vt_Height vt) (vt_Round vt) = Inr ra \<and> ra_PubKey ra = Some pk \<and>
          PrevoteTarget ra = vt_BlockHash vt \<and> PrevoteSignature ra = sig)) \<and>
    (\<forall>pk vt sig. ActPrecommit pk vt sig \<in> set accepted \<longrightarrow>
       (\<exists>ra. LoadActions s (vt_Height vt) (vt_Round vt) = Inr ra \<and> ra_PubKey ra = Some pk \<and>
          PrecommitTarget ra = vt_BlockHash vt \<and> PrecommitSignature ra = sig))"
proof -
  have inv: "distinct (map action_slot accepted)" "\<forall>b\<in>set accepted. remembered s b"
    using fold_record_inv[OF _ _ ok run] by simp_all
  have "remembered s (ActProposedHeader ph) \<Longrightarrow>
      \<exists>ra. LoadActions s (h_Height (ph_Header ph)) (ph_Round ph) = Inr ra \<and> ra_ProposedHeader ra = ph" for ph
    by (auto simp: LoadActions_def split: option.splits)
  moreover have "remembered s (ActPrevote pk vt sig) \<Longrightarrow>
      \<exists>ra. LoadActions s (vt_Height vt) (vt_Round vt) = Inr ra \<and> ra_PubKey ra = Some pk \<and>
        PrevoteTarget ra = vt_BlockHash vt \<and> PrevoteSignature ra = sig" for pk vt sig
    by (auto simp: LoadActions_def split: option.splits)
  moreover have "remembered s (ActPrecommit pk vt sig) \<Longrightarrow>
      \<exists>ra. LoadActions s (vt_Height vt) (vt_Round vt) = Inr ra \<and> ra_PubKey ra = Some pk \<and>
        PrecommitTarget ra = vt_BlockHash vt \<and> PrecommitSignature ra = sig" for pk vt sig
    by (auto simp: LoadActions_def split: option.splits)
  ultimately show ?thesis using inv by blast
qed

definition ex_target :: VoteTarget where
  "ex_target = \<lparr>vt_Height = 5, vt_Round = 1, vt_BlockHash = ''x''\<rparr>"

theorem action_store_never_double_signs_witness:
  "\<exists>accepted s. fold record_action
      [ActPrevote (PubKey ''t'' ''a'') ex_target ''s1'',
       ActPrevote (PubKey ''t'' ''a'') (ex_target\<lparr>vt_BlockHash := ''y''\<rparr>) ''s2''] ([], NewActionStore) = (accepted, s) \<and>
     distinct (map action_slot accepted)"
proof -
  let ?as = "[ActPrevote (PubKey ''t'' ''a'') ex_target ''s1'',
       ActPrevote (PubKey ''t'' ''a'') (ex_target\<lparr>vt_BlockHash := ''y''\<rparr>) ''s2'']"
  obtain accepted s where run: "fold record_action ?as ([], NewActionStore) = (accepted, s)"
    using prod.exhaust_sel by blast
  have "\<forall>a\<in>set ?as. action_ok a" by simp
  from action_store_never_double_signs[OF this run] run show ?thesis by blast
qed

text \<open>The finalization store is write-once: after any history of save attempts on a new store,
  the finalization loaded at a height is the first one that was saved there, and a height that was
  never saved is reported unknown.\<close>

theorem finalization_first_wins:
  shows "LoadFinalizationByHeight
     (fold (\<lambda>(h, r, bh, vs, ash) s. case SaveFinalization s h r bh vs ash of Inl _ \<Rightarrow> s | Inr s' \<Rightarrow> s')
        history NewFinalizationStore) ht =
     (case map_of history ht of None \<Rightarrow> Inl (HeightUnknownError ht) | Some v \<Rightarrow> Inr v)"
proof -
  have att: "(\<lambda>(h, r, bh, vs, ash) s. case SaveFinalization s h r bh vs ash of Inl _ \<Rightarrow> s | Inr s' \<Rightarrow> s') =
      finalizations.attempt"
    by (auto simp: fun_eq_iff finalizations.attempt_def split: prod.split)
  have new: "LoadFinalizationByHeight NewFinalizationStore ht = Inl (HeightUnknownError ht)"
    by (simp add: LoadFinalizationByHeight_def NewFinalizationStore_def)
  show ?thesis
  proof (cases "map_of history ht")
    case None
    then have "\<forall>e\<in>set history. fst e \<noteq> ht" by (auto simp: map_of_eq_None_iff)
    then show ?thesis using None new finalizations.untouched unfolding att by simp
  next
    case (Some v)
    then show ?thesis using finalizations.first_wins[OF new Some] unfolding att by simp
  qed
qed

text \<open>The round store accumulates: a proposed header that is accepted is loaded back with
  everything that was there, the votes of the round and every other round are unchanged; it is
  refused exactly when the same proposer already has a header with that hash in that round, and
  then no round changes.\<close>

theorem round_store_accumulates:
  assumes "SaveRoundProposedHeader s ph = Ret (res, s')"
  shows "(if \<exists>m hm l have. rs_phs s (h_Height (ph_Header ph)) = Some m \<and> map_of m (ph_Round ph) = Some hm \<and>
            map_of hm (Hash (ph_Header ph)) = Some l \<and> have \<in> set l \<and> ProposerPubKey have = ProposerPubKey ph
     then res \<noteq> None \<and> (\<forall>ht rnd. LoadRoundState s' ht rnd = LoadRoundState s ht rnd)
     else res = None \<and>
      (\<exists>phs pv pc. LoadRoundState s' (h_Height (ph_Header ph)) (ph_Round ph) = Inr (phs, pv, pc) \<and> ph \<in> set phs \<and>
        (\<forall>phs0 pv0 pc0. LoadRoundState s (h_Height (ph_Header ph)) (ph_Round ph) = Inr (phs0, pv0, pc0) \<longrightarrow>
           mset phs = add_mset ph (mset phs0) \<and> pv = pv0 \<and> pc = pc0)) \<and>
      (\<forall>ht rnd. (ht, rnd) \<noteq> (h_Height (ph_Header ph), ph_Round ph) \<longrightarrow>
         LoadRoundState s' ht rnd = LoadRoundState s ht rnd))"
proof (cases "res = None")
  case False
  then show ?thesis
    using SaveRoundProposedHeader_refused[OF assms] SaveRoundProposedHeader_decides[OF assms]
    by (simp only: if_True simp_thms)
next
  case True
  note stored = SaveRoundProposedHeader_stored[OF assms[unfolded True]]
  let ?ht = "h_Height (ph_Header ph)" and ?r = "ph_Round ph"
  have "ph \<in> set (stored_phs s' ?ht ?r)"
    using stored(1) by (metis set_mset_mset union_single_eq_member)
  then have "\<exists>phs pv pc. LoadRoundState s' ?ht ?r = Inr (phs, pv, pc) \<and> ph \<in> set phs \<and>
        (\<forall>phs0 pv0 pc0. LoadRoundState s ?ht ?r = Inr (phs0, pv0, pc0) \<longrightarrow>
           mset phs = add_mset ph (mset phs0) \<and> pv = pv0 \<and> pc = pc0)"
    using stored(1) unfolding LoadRoundState_def stored_phs_def[symmetric] stored(3,4,5) Let_def
    by auto
  moreover have "LoadRoundState s' ht rnd = LoadRoundState s ht rnd" if "(ht, rnd) \<noteq> (?ht, ?r)" for ht rnd
    using stored(2)[OF that] unfolding LoadRoundState_def stored_phs_def[symmetric] stored(3,4,5) by simp
  ultimately show ?thesis
    using True SaveRoundProposedHeader_decides[OF assms] by (simp only: if_False simp_thms) blast
qed

definition ex_ph :: ProposedHeader where
  "ex_ph = zeroProposedHeader\<lparr>ph_Header := zeroHeader\<lparr>Hash := ''x'', h_Height := 5\<rparr>,
     ProposerPubKey := Some (PubKey ''t'' ''a'')\<rparr>"

theorem round_store_accumulates_witness:
  "\<exists>s' phs pv pc. SaveRoundProposedHeader NewRoundStore ex_ph = Ret (None, s') \<and>
     LoadRoundState s' 5 0 = Inr (phs, pv, pc) \<and> ex_ph \<in> set phs"
proof -
  obtain s' where s': "SaveRoundProposedHeader NewRoundStore ex_ph = Ret (None, s')"
    by (simp add: SaveRoundProposedHeader_def NewRoundStore_def sameProposer_def Let_def)
  have "rs_phs NewRoundStore = Map.empty" by (simp add: NewRoundStore_def)
  moreover have "h_Height (ph_Header ex_ph) = 5" "ph_Round ex_ph = 0"
    by (simp_all add: ex_ph_def zeroProposedHeader_def)
  ultimately show ?thesis using round_store_accumulates[OF s'] s' by auto
qed

text \<open>Validators survive the validator store: after saving the keys and the powers of a validator
  list (each save either stores or reports that the hash exists) the list is loaded back from the
  two hashes, provided the store holds nothing else under those hashes.\<close>

theorem validator_store_roundtrip:
  assumes kh: "hs_PubKeys hs (ValidatorsToPubKeys vals) = Inr kh"
    and ph: "hs_VotePowers hs (ValidatorsToVotePowers vals) = Inr ph"
    and nocoll: "\<forall>ks. vst_keys s kh = Some ks \<longrightarrow> ks = ValidatorsToPubKeys vals"
      "\<forall>ps. vst_pows s ph = Some ps \<longrightarrow> ps = ValidatorsToVotePowers vals"
    and s2: "s2 = snd (SaveVotePowers hs (snd (SavePubKeys hs s (ValidatorsToPubKeys vals))) (ValidatorsToVotePowers vals))"
  shows "fst (fst (SavePubKeys hs s (ValidatorsToPubKeys vals))) = kh \<and>
     LoadPubKeys s2 kh = Inr (ValidatorsToPubKeys vals) \<and> LoadVotePowers s2 ph = Inr (ValidatorsToVotePowers vals) \<and>
     LoadValidators s2 kh ph = Inr vals"
proof -
  have k: "vst_keys s2 kh = Some (ValidatorsToPubKeys vals)"
    using nocoll(1) by (auto simp: s2 SavePubKeys_def SaveVotePowers_def kh ph)
  have p: "vst_pows s2 ph = Some (ValidatorsToVotePowers vals)"
    using nocoll(2) by (auto simp: s2 SavePubKeys_def SaveVotePowers_def kh ph)
  have "map (\<lambda>(k, p). \<lparr>val_PubKey = k, Power = p\<rparr>) (zip (map val_PubKey vals) (map Power vals)) = vals"
    by (induction vals) auto
  then show ?thesis
    using k p
    by (simp add: LoadPubKeys_def LoadVotePowers_def LoadValidators_def SavePubKeys_def
        kh[unfolded ValidatorsToPubKeys_def] ValidatorsToPubKeys_def ValidatorsToVotePowers_def)
qed

theorem validator_store_roundtrip_witness:
  "LoadValidators (snd (SaveVotePowers ex_hashes (snd (SavePubKeys ex_hashes NewValidatorStore
      (ValidatorsToPubKeys ex_vals))) (ValidatorsToVotePowers ex_vals))) ''h'' ''p'' = Inr ex_vals"
  using validator_store_roundtrip[where hs = ex_hashes and kh = "''h''" and ph = "''p''" and vals = ex_vals
      and s = NewValidatorStore]
  by (simp add: ex_hashes_def NewValidatorStore_def)

end
