(* ===== verification/KState.thy ===== *)
theory KState
  imports ViewManagers MemStores
begin

text \<open>
  The mutable state of the mirror kernel (\<open>tmi/kstate.go\<close>): the committing, voting and next-round
  views, and the moves between them. A pointer to one of the three views is its \<open>ViewID\<close>; the code
  reads and writes through \<open>kview\<close> and \<open>set_kview\<close>.
\<close>

section \<open>Definitions\<close>

datatype ViewID = ViewIDNotFound | ViewIDVoting | ViewIDCommitting | ViewIDNextRound | ViewIDNextHeight

datatype ViewLookupStatus = ViewFound | ViewBeforeCommitting | ViewWrongCommit | ViewOrphaned
  | ViewLaterVotingRound | ViewFuture

record 'p kState =
  ks_Committing :: "'p VersionedRoundView"
  ks_Voting :: "'p VersionedRoundView"
  ks_NextRound :: "'p VersionedRoundView"
  InFlightFetchPHs :: "bytes list"
  CommittingHeader :: Header
  ks_smvm :: "'p stateMachineViewManager"
  ks_gvm :: "'p gossipViewManager"
  ks_lag :: lagManager

definition FindView :: "'p kState \<Rightarrow> u64 \<Rightarrow> u32 \<Rightarrow> (ViewID \<times> ViewLookupStatus) go" where
  "FindView s h r =
     (let vh = rv_Height (ks_Voting s); vr = rv_Round (ks_Voting s);
          ch = rv_Height (ks_Committing s); cr = rv_Round (ks_Committing s) in
      if h = vh then
        if r = vr then Ret (ViewIDVoting, ViewFound)
        else if r = vr + 1 then Ret (ViewIDNextRound, ViewFound)
        else if r < vr then Ret (ViewIDNotFound, ViewOrphaned)
        else Ret (ViewIDNotFound, ViewLaterVotingRound)
      else if h = ch \<and> r = cr then Ret (ViewIDCommitting, ViewFound)
      else if h = ch \<and> r < cr then Ret (ViewIDNotFound, ViewBeforeCommitting)
      else if h < ch then Ret (ViewIDNotFound, ViewBeforeCommitting)
      else if vh < h then Ret (ViewIDNotFound, ViewFuture)
      else Panic ''TODO: unhandled attempt to find view'')"

definition kview :: "'p kState \<Rightarrow> ViewID \<Rightarrow> 'p VersionedRoundView" where
  "kview s vid = (case vid of
     ViewIDVoting \<Rightarrow> ks_Voting s
   | ViewIDCommitting \<Rightarrow> ks_Committing s
   | ViewIDNextRound \<Rightarrow> ks_NextRound s
   | _ \<Rightarrow> zeroVRV)"

definition set_kview :: "ViewID \<Rightarrow> 'p VersionedRoundView \<Rightarrow> 'p kState \<Rightarrow> 'p kState" where
  "set_kview vid v s = (case vid of
     ViewIDVoting \<Rightarrow> s\<lparr>ks_Voting := v\<rparr>
   | ViewIDCommitting \<Rightarrow> s\<lparr>ks_Committing := v\<rparr>
   | ViewIDNextRound \<Rightarrow> s\<lparr>ks_NextRound := v\<rparr>
   | _ \<Rightarrow> s)"

definition bump_version :: "'p VersionedRoundView \<Rightarrow> 'p VersionedRoundView" where
  "bump_version v = v\<lparr>Version := Version v + 1\<rparr>"

definition MarkCommittingViewUpdated :: "('p, 'b) cmsp \<Rightarrow> 'p kState \<Rightarrow> 'p kState" where
  "MarkCommittingViewUpdated C s =
     (let v = bump_version (ks_Committing s);
          gvm = (ks_gvm s)\<lparr>gvm_Committing := (gvm_Committing (ks_gvm s))\<lparr>ov_VRV := VRV_Clone C v\<rparr>\<rparr>;
          smh = smvm_H (ks_smvm s); smr = smvm_R (ks_smvm s);
          smvm = (if smh = rv_Height v \<and> smr = rv_Round v then SetView C v (ks_smvm s)
                  else if smh < rv_Height v \<or> (smh = rv_Height v \<and> smr < rv_Round v)
                  then JumpToRound C v (ks_smvm s)
                  else ks_smvm s)
      in s\<lparr>ks_Committing := v, ks_gvm := gvm, ks_smvm := smvm\<rparr>)"

definition MarkVotingViewUpdated :: "('p, 'b) cmsp \<Rightarrow> 'p kState \<Rightarrow> 'p kState" where
  "MarkVotingViewUpdated C s =
     (let v = bump_version (ks_Voting s);
          gvm = (ks_gvm s)\<lparr>gvm_Voting := (gvm_Voting (ks_gvm s))\<lparr>ov_VRV := VRV_Clone C v\<rparr>\<rparr>;
          smvm = (if smvm_H (ks_smvm s) = rv_Height v \<and> smvm_R (ks_smvm s) = rv_Round v
                  then SetView C v (ks_smvm s) else ks_smvm s)
      in s\<lparr>ks_Voting := v, ks_gvm := gvm, ks_smvm := smvm\<rparr>)"

definition MarkNextRoundViewUpdated :: "('p, 'b) cmsp \<Rightarrow> 'p kState \<Rightarrow> 'p kState" where
  "MarkNextRoundViewUpdated C s =
     (let v = bump_version (ks_NextRound s);
          gvm = (ks_gvm s)\<lparr>gvm_NextRound := (gvm_NextRound (ks_gvm s))\<lparr>ov_VRV := VRV_Clone C v\<rparr>\<rparr>
      in s\<lparr>ks_NextRound := v, ks_gvm := gvm\<rparr>)"

definition MarkViewUpdated :: "('p, 'b) cmsp \<Rightarrow> ViewID \<Rightarrow> 'p kState \<Rightarrow> 'p kState go" where
  "MarkViewUpdated C vid s = (case vid of
     ViewIDCommitting \<Rightarrow> Ret (MarkCommittingViewUpdated C s)
   | ViewIDVoting \<Rightarrow> Ret (MarkVotingViewUpdated C s)
   | ViewIDNextRound \<Rightarrow> Ret (MarkNextRoundViewUpdated C s)
   | _ \<Rightarrow> Panic ''TODO: MarkViewUpdated: handle id'')"

record nextHeightDetails =
  nhd_ValidatorSet :: ValidatorSet
  nhd_VotedHeader :: Header

text \<open>Closing a closed channel panics.\<close>

definition close_chan :: "chan_state \<Rightarrow> chan_state go" where
  "close_chan c = (case c of OpenChan \<Rightarrow> Ret ClosedChan | _ \<Rightarrow> Panic ''close of closed channel'')"

definition ShiftVotingToCommitting :: "('p, 'b) cmsp \<Rightarrow> nextHeightDetails \<Rightarrow> 'p kState \<Rightarrow> 'p kState go" where
  "ShiftVotingToCommitting C nhd s =
     (let re = roundEntrance (ks_smvm s);
          heightCommittedCh = (if re_H re \<noteq> rv_Height (ks_Committing s) then NilChan else re_HeightCommitted re);
          s1 = MarkCommittingViewUpdated C (s\<lparr>ks_Committing := ks_Voting s\<rparr>);
          newHeight = rv_Height (ks_Voting s1) + 1;
          commitProofs = map (\<lambda>(hash, p). (hash, ssp_Signatures (cm_AsSparse C p))) (PrecommitProofs (ks_Committing s1));
          voting = zeroVRV\<lparr>
            rv_Height := newHeight, rv_Round := 0, rv_ValidatorSet := nhd_ValidatorSet nhd,
            rv_PrevCommitProof := \<lparr>cp_Round = rv_Round (ks_Committing s1),
              cp_PubKeyHash = vs_PubKeyHash (rv_ValidatorSet (ks_Committing s1)), cp_Proofs = commitProofs\<rparr>,
            PrevoteProofs := [], PrecommitProofs := [],
            rv_VoteSummary := SetAvailablePower (Validators (nhd_ValidatorSet nhd)) NewVoteSummary,
            PrevoteVersion := 1, PrecommitVersion := 1\<rparr>;
          s2 = MarkVotingViewUpdated C (s1\<lparr>ks_Voting := voting\<rparr>);
          nr0 = VRV_Reset (ks_NextRound s2);
          nr = nr0\<lparr>rv_Height := newHeight, rv_Round := 1, rv_ValidatorSet := nhd_ValidatorSet nhd,
            rv_PrevCommitProof := CommitProof_Clone (rv_PrevCommitProof (ks_Voting s2)),
            PrevoteVersion := 1, PrecommitVersion := 1,
            rv_VoteSummary := (rv_VoteSummary nr0)\<lparr>AvailablePower := AvailablePower (rv_VoteSummary (ks_Voting s2))\<rparr>\<rparr>;
          s3 = MarkNextRoundViewUpdated C (s2\<lparr>ks_NextRound := nr\<rparr>);
          s4 = s3\<lparr>CommittingHeader := nhd_VotedHeader nhd\<rparr>
      in if heightCommittedCh = NilChan then Ret s4
         else gobind (close_chan heightCommittedCh) (\<lambda>c.
                Ret (s4\<lparr>ks_smvm := (ks_smvm s4)\<lparr>roundEntrance := (roundEntrance (ks_smvm s4))\<lparr>re_HeightCommitted := c\<rparr>\<rparr>\<rparr>)))"

definition incrementVotingRound :: "('p, 'b) cmsp \<Rightarrow> 'p kState \<Rightarrow> 'p kState" where
  "incrementVotingRound C s =
     (let s1 = MarkVotingViewUpdated C (s\<lparr>ks_Voting := ks_NextRound s, ks_NextRound := ks_Voting s\<rparr>);
          nr = (VRV_ResetForSameHeight (ks_NextRound s1))\<lparr>rv_Round := rv_Round (ks_Voting s1) + 1\<rparr>
      in MarkNextRoundViewUpdated C (s1\<lparr>ks_NextRound := nr\<rparr>))"

definition AdvanceVotingRound :: "('p, 'b) cmsp \<Rightarrow> 'p kState \<Rightarrow> 'p kState" where
  "AdvanceVotingRound C s =
     incrementVotingRound C (s\<lparr>ks_gvm := (ks_gvm s)\<lparr>NilVotedRound := Some (VRV_Clone C (ks_Voting s))\<rparr>\<rparr>)"

definition JumpVotingRound :: "('p, 'b) cmsp \<Rightarrow> 'p kState \<Rightarrow> 'p kState" where
  "JumpVotingRound C s =
     (let s1 = incrementVotingRound C s in
      if smvm_H (ks_smvm s1) = rv_Height (ks_Voting s1) \<and> smvm_R (ks_smvm s1) = rv_Round (ks_Voting s1) - 1
      then s1\<lparr>ks_smvm := JumpToRound C (ks_Voting s1) (ks_smvm s1)\<rparr>
      else s1)"

section \<open>Alignment of the views\<close>

text \<open>The vote summary of a view is the one that \<open>SetAvailablePower\<close> and \<open>SetVotePowers\<close> compute from
  its validators and proofs.\<close>

definition fresh_summary :: "('p, 'b) cmsp \<Rightarrow> 'b bitset_ops \<Rightarrow> 'p VersionedRoundView \<Rightarrow> VoteSummary" where
  "fresh_summary C B v =
     SetVotePowers C B (Validators (rv_ValidatorSet v)) (PrevoteProofs v) (PrecommitProofs v)
       (SetAvailablePower (Validators (rv_ValidatorSet v)) NewVoteSummary)"

definition summary_ok :: "('p, 'b) cmsp \<Rightarrow> 'b bitset_ops \<Rightarrow> 'p VersionedRoundView \<Rightarrow> bool" where
  "summary_ok C B v \<longleftrightarrow> gomap_ok (PrevoteProofs v) \<and> gomap_ok (PrecommitProofs v) \<and>
     rv_VoteSummary v = fresh_summary C B v"

text \<open>The next-round view is at the voting height, one round later, with the same validators and the
  same previous commit proof; both have a current vote summary.\<close>

definition aligned :: "('p, 'b) cmsp \<Rightarrow> 'b bitset_ops \<Rightarrow> 'p kState \<Rightarrow> bool" where
  "aligned C B s \<longleftrightarrow>
     rv_Height (ks_NextRound s) = rv_Height (ks_Voting s) \<and>
     rv_Round (ks_NextRound s) = rv_Round (ks_Voting s) + 1 \<and>
     rv_ValidatorSet (ks_NextRound s) = rv_ValidatorSet (ks_Voting s) \<and>
     rv_PrevCommitProof (ks_NextRound s) = rv_PrevCommitProof (ks_Voting s) \<and>
     summary_ok C B (ks_Voting s) \<and> summary_ok C B (ks_NextRound s)"

text \<open>The voting height follows the committing height, which is zero before the first commit.\<close>

definition heights_ok :: "'p kState \<Rightarrow> bool" where
  "heights_ok s \<longleftrightarrow> rv_Height (ks_Committing s) = 0 \<and> rv_Height (ks_Voting s) \<noteq> 0 \<or>
     rv_Height (ks_Voting s) = rv_Height (ks_Committing s) + 1"

lemma bump_version_simps [simp]:
  "rv_Height (bump_version v) = rv_Height v" "rv_Round (bump_version v) = rv_Round v"
  "rv_ValidatorSet (bump_version v) = rv_ValidatorSet v" "rv_PrevCommitProof (bump_version v) = rv_PrevCommitProof v"
  "ProposedHeaders (bump_version v) = ProposedHeaders v" "PrevoteProofs (bump_version v) = PrevoteProofs v"
  "PrecommitProofs (bump_version v) = PrecommitProofs v" "rv_VoteSummary (bump_version v) = rv_VoteSummary v"
  "Version (bump_version v) = Version v + 1"
  "PrevoteBlockVersions (bump_version v) = PrevoteBlockVersions v"
  "PrecommitBlockVersions (bump_version v) = PrecommitBlockVersions v"
  by (simp_all add: bump_version_def)

lemma summary_ok_bump [simp]: "summary_ok C B (bump_version v) = summary_ok C B v"
  by (simp add: summary_ok_def fresh_summary_def)

lemma Mark_views [simp]:
  "ks_Voting (MarkVotingViewUpdated C s) = bump_version (ks_Voting s)"
  "ks_NextRound (MarkVotingViewUpdated C s) = ks_NextRound s"
  "ks_Committing (MarkVotingViewUpdated C s) = ks_Committing s"
  "ks_Voting (MarkNextRoundViewUpdated C s) = ks_Voting s"
  "ks_NextRound (MarkNextRoundViewUpdated C s) = bump_version (ks_NextRound s)"
  "ks_Committing (MarkNextRoundViewUpdated C s) = ks_Committing s"
  "ks_Voting (MarkCommittingViewUpdated C s) = ks_Voting s"
  "ks_NextRound (MarkCommittingViewUpdated C s) = ks_NextRound s"
  "ks_Committing (MarkCommittingViewUpdated C s) = bump_version (ks_Committing s)"
  "CommittingHeader (MarkVotingViewUpdated C s) = CommittingHeader s"
  "CommittingHeader (MarkNextRoundViewUpdated C s) = CommittingHeader s"
  "CommittingHeader (MarkCommittingViewUpdated C s) = CommittingHeader s"
  "InFlightFetchPHs (MarkVotingViewUpdated C s) = InFlightFetchPHs s"
  "InFlightFetchPHs (MarkNextRoundViewUpdated C s) = InFlightFetchPHs s"
  "InFlightFetchPHs (MarkCommittingViewUpdated C s) = InFlightFetchPHs s"
  by (simp_all add: MarkVotingViewUpdated_def MarkNextRoundViewUpdated_def MarkCommittingViewUpdated_def Let_def)

text \<open>A summary without votes, and one whose votes of one kind are replaced.\<close>

lemma fresh_summary_empty:
  "PrevoteProofs v = [] \<Longrightarrow> PrecommitProofs v = [] \<Longrightarrow>
   fresh_summary C B v = SetAvailablePower (Validators (rv_ValidatorSet v)) NewVoteSummary"
  by (simp add: fresh_summary_def SetVotePowers_def SetPrevotePowers_def SetPrecommitPowers_def
      SetAvailablePower_eq NewVoteSummary_def)

lemma SetPrecommitPowers_overwrite:
  "SetPrecommitPowers C B vals pcs (SetVotePowers C B vals pvs pcs0 vs) = SetVotePowers C B vals pvs pcs vs"
  by (simp add: SetVotePowers_def SetPrecommitPowers_def split: prod.split)

lemma SetPrevotePowers_overwrite:
  "SetPrevotePowers C B vals pvs (SetVotePowers C B vals pvs0 pcs vs) = SetVotePowers C B vals pvs pcs vs"
  by (simp add: SetVotePowers_def SetPrevotePowers_def SetPrecommitPowers_def split: prod.split)

lemma summary_ok_set_prevotes:
  assumes "summary_ok C B v" and "gomap_ok pvs"
    and "v' = v\<lparr>PrevoteProofs := pvs, PrevoteBlockVersions := bv,
      rv_VoteSummary := SetPrevotePowers C B (Validators (rv_ValidatorSet v)) pvs (rv_VoteSummary v)\<rparr>"
  shows "summary_ok C B v'"
  using assms by (simp add: summary_ok_def fresh_summary_def SetPrevotePowers_overwrite)

lemma summary_ok_set_precommits:
  assumes "summary_ok C B v" and "gomap_ok pcs"
    and "v' = v\<lparr>PrecommitProofs := pcs, PrecommitBlockVersions := bv,
      rv_VoteSummary := SetPrecommitPowers C B (Validators (rv_ValidatorSet v)) pcs (rv_VoteSummary v)\<rparr>"
  shows "summary_ok C B v'"
  using assms by (simp add: summary_ok_def fresh_summary_def SetPrecommitPowers_overwrite)

lemma summary_ok_AvailablePower:
  "summary_ok C B v \<Longrightarrow> AvailablePower (rv_VoteSummary v) = sum_list (map Power (Validators (rv_ValidatorSet v)))"
  by (simp add: summary_ok_def fresh_summary_def SetVotePowers_def SetPrevotePowers_def SetPrecommitPowers_def
      SetAvailablePower_eq split: prod.split)

lemma summary_ok_reset_round:
  assumes "summary_ok C B v"
  shows "summary_ok C B ((VRV_ResetForSameHeight v)\<lparr>rv_Round := r\<rparr>)"
proof -
  let ?v = "(VRV_ResetForSameHeight v)\<lparr>rv_Round := r\<rparr>"
  have f: "rv_ValidatorSet ?v = rv_ValidatorSet v" "PrevoteProofs ?v = []" "PrecommitProofs ?v = []"
    "rv_VoteSummary ?v = VoteSummary_ResetForSameHeight (rv_VoteSummary v)"
    by (simp_all add: VRV_ResetForSameHeight_def resetVersions_def RoundView_ResetForSameHeight_def)
  have "VoteSummary_ResetForSameHeight (rv_VoteSummary v) =
      SetAvailablePower (Validators (rv_ValidatorSet v)) NewVoteSummary"
    using summary_ok_AvailablePower[OF assms]
    by (simp add: VoteSummary_ResetForSameHeight_def SetAvailablePower_eq NewVoteSummary_def)
  with f show ?thesis by (simp add: summary_ok_def fresh_summary_empty)
qed

section \<open>The moves keep the alignment\<close>

lemma incrementVotingRound_views:
  "ks_Voting (incrementVotingRound C s) = bump_version (ks_NextRound s)"
  "ks_NextRound (incrementVotingRound C s) =
     bump_version ((VRV_ResetForSameHeight (ks_Voting s))\<lparr>rv_Round := rv_Round (ks_NextRound s) + 1\<rparr>)"
  "ks_Committing (incrementVotingRound C s) = ks_Committing s"
  "CommittingHeader (incrementVotingRound C s) = CommittingHeader s"
  by (simp_all add: incrementVotingRound_def Let_def)

lemma VRV_ResetForSameHeight_frame [simp]:
  "rv_Height (VRV_ResetForSameHeight v) = rv_Height v"
  "rv_ValidatorSet (VRV_ResetForSameHeight v) = rv_ValidatorSet v"
  "rv_PrevCommitProof (VRV_ResetForSameHeight v) = rv_PrevCommitProof v"
  by (simp_all add: VRV_ResetForSameHeight_def resetVersions_def RoundView_ResetForSameHeight_def)

lemma aligned_increment: "aligned C B s \<Longrightarrow> aligned C B (incrementVotingRound C s)"
  by (simp add: aligned_def incrementVotingRound_views summary_ok_reset_round)

lemma Jump_Advance_views:
  "ks_Voting (JumpVotingRound C s) = ks_Voting (incrementVotingRound C s)"
  "ks_NextRound (JumpVotingRound C s) = ks_NextRound (incrementVotingRound C s)"
  "ks_Committing (JumpVotingRound C s) = ks_Committing s"
  "CommittingHeader (JumpVotingRound C s) = CommittingHeader s"
  "ks_Voting (AdvanceVotingRound C s) = ks_Voting (incrementVotingRound C s)"
  "ks_NextRound (AdvanceVotingRound C s) = ks_NextRound (incrementVotingRound C s)"
  "ks_Committing (AdvanceVotingRound C s) = ks_Committing s"
  "CommittingHeader (AdvanceVotingRound C s) = CommittingHeader s"
  by (simp_all add: JumpVotingRound_def AdvanceVotingRound_def incrementVotingRound_views Let_def)

lemma aligned_cong:
  "ks_Voting t = ks_Voting s \<Longrightarrow> ks_NextRound t = ks_NextRound s \<Longrightarrow> aligned C B t = aligned C B s"
  by (simp add: aligned_def)

lemma aligned_Jump: "aligned C B s \<Longrightarrow> aligned C B (JumpVotingRound C s)"
  using aligned_increment[of C B s] by (simp add: aligned_def Jump_Advance_views)

lemma aligned_Advance: "aligned C B s \<Longrightarrow> aligned C B (AdvanceVotingRound C s)"
  using aligned_increment[of C B s] by (simp add: aligned_def Jump_Advance_views)

text \<open>The commit shift, view by view.\<close>

lemma ShiftVotingToCommitting_views:
  assumes "ShiftVotingToCommitting C nhd s = Ret s'"
  shows "ks_Committing s' = bump_version (ks_Voting s)"
    and "rv_Height (ks_Voting s') = rv_Height (ks_Voting s) + 1" and "rv_Round (ks_Voting s') = 0"
    and "rv_ValidatorSet (ks_Voting s') = nhd_ValidatorSet nhd"
    and "rv_PrevCommitProof (ks_Voting s') = \<lparr>cp_Round = rv_Round (ks_Voting s),
           cp_PubKeyHash = vs_PubKeyHash (rv_ValidatorSet (ks_Voting s)),
           cp_Proofs = map (\<lambda>(hash, p). (hash, ssp_Signatures (cm_AsSparse C p))) (PrecommitProofs (ks_Voting s))\<rparr>"
    and "PrevoteProofs (ks_Voting s') = []" and "PrecommitProofs (ks_Voting s') = []"
    and "CommittingHeader s' = nhd_VotedHeader nhd"
    and "aligned C B s'"
  using assms
  by (auto simp: ShiftVotingToCommitting_def Let_def aligned_def summary_ok_def fresh_summary_empty
      VRV_Reset_zero zeroVRV_def SetAvailablePower_eq NewVoteSummary_def split: if_splits)

lemma heights_ok_Shift: "ShiftVotingToCommitting C nhd s = Ret s' \<Longrightarrow> heights_ok s'"
  using ShiftVotingToCommitting_views(1,2)[of C nhd s s'] by (simp add: heights_ok_def)
lemma heights_ok_Jump_Advance:
  assumes "aligned C B s" and "heights_ok s"
  shows "heights_ok (JumpVotingRound C s)" and "heights_ok (AdvanceVotingRound C s)"
  using assms by (auto simp: heights_ok_def aligned_def Jump_Advance_views incrementVotingRound_views)

lemma heights_ok_less:
  assumes "heights_ok s" and "rv_Height (ks_Voting s) \<noteq> 0"
  shows "rv_Height (ks_Committing s) < rv_Height (ks_Voting s)"
  using assms unatSuc[of "rv_Height (ks_Committing s)"]
  by (auto simp: heights_ok_def word_less_nat_alt add.commute unat_gt_0)

lemma FindView_panics_iff:
  assumes "heights_ok s" and "rv_Height (ks_Voting s) \<noteq> 0"
  shows "(\<exists>m. FindView s h r = Panic m) \<longleftrightarrow>
     h \<noteq> rv_Height (ks_Voting s) \<and>
     (h = rv_Height (ks_Committing s) \<and> rv_Round (ks_Committing s) < r \<or>
      rv_Height (ks_Committing s) < h \<and> h < rv_Height (ks_Voting s))"
proof -
  define vh ch cr where d: "vh = rv_Height (ks_Voting s)" "ch = rv_Height (ks_Committing s)"
    "cr = rv_Round (ks_Committing s)"
  have lt: "ch < vh" using heights_ok_less[OF assms] by (simp add: d)
  have "(\<exists>m. FindView s h r = Panic m) \<longleftrightarrow>
      h \<noteq> vh \<and> \<not> (h = ch \<and> r = cr) \<and> \<not> (h = ch \<and> r < cr) \<and> \<not> h < ch \<and> \<not> vh < h"
    by (simp add: FindView_def Let_def d)
  also have "\<dots> \<longleftrightarrow> h \<noteq> vh \<and> (h = ch \<and> cr < r \<or> ch < h \<and> h < vh)"
    using lt by auto
  finally show ?thesis by (simp add: d)
qed

section \<open>What observers see\<close>

text \<open>The heights and rounds that the mirror store keeps.\<close>

definition ids :: "'p kState \<Rightarrow> u64 \<times> u32 \<times> u64 \<times> u32" where
  "ids s = (rv_Height (ks_Voting s), rv_Round (ks_Voting s), rv_Height (ks_Committing s), rv_Round (ks_Committing s))"

text \<open>An outgoing view is at the height, round and version of the kernel's view.\<close>

definition same_version :: "'p OutgoingView \<Rightarrow> 'p VersionedRoundView \<Rightarrow> bool" where
  "same_version g v \<longleftrightarrow> rv_Height (ov_VRV g) = rv_Height v \<and> rv_Round (ov_VRV g) = rv_Round v \<and> Version (ov_VRV g) = Version v"

definition gossip_current :: "'p kState \<Rightarrow> bool" where
  "gossip_current s \<longleftrightarrow> same_version (gvm_Voting (ks_gvm s)) (ks_Voting s) \<and>
     same_version (gvm_NextRound (ks_gvm s)) (ks_NextRound s) \<and>
     same_version (gvm_Committing (ks_gvm s)) (ks_Committing s)"

lemma VRV_Clone_ids [simp]:
  "rv_Height (VRV_Clone C v) = rv_Height v" "rv_Round (VRV_Clone C v) = rv_Round v" "Version (VRV_Clone C v) = Version v"
  by (simp_all add: VRV_Clone_def RoundView_Clone_def)

lemma Mark_gvm [simp]:
  "ks_gvm (MarkVotingViewUpdated C s) = (ks_gvm s)\<lparr>gvm_Voting := (gvm_Voting (ks_gvm s))\<lparr>ov_VRV := VRV_Clone C (bump_version (ks_Voting s))\<rparr>\<rparr>"
  "ks_gvm (MarkNextRoundViewUpdated C s) = (ks_gvm s)\<lparr>gvm_NextRound := (gvm_NextRound (ks_gvm s))\<lparr>ov_VRV := VRV_Clone C (bump_version (ks_NextRound s))\<rparr>\<rparr>"
  "ks_gvm (MarkCommittingViewUpdated C s) = (ks_gvm s)\<lparr>gvm_Committing := (gvm_Committing (ks_gvm s))\<lparr>ov_VRV := VRV_Clone C (bump_version (ks_Committing s))\<rparr>\<rparr>"
  by (simp_all add: MarkVotingViewUpdated_def MarkNextRoundViewUpdated_def MarkCommittingViewUpdated_def Let_def)

lemma gossip_current_Mark:
  assumes "gossip_current s" and "MarkViewUpdated C vid (set_kview vid v s) = Ret s'"
  shows "gossip_current s'"
  using assms by (cases vid) (auto simp: MarkViewUpdated_def set_kview_def gossip_current_def same_version_def)

lemma gossip_current_moves:
  "gossip_current s \<Longrightarrow> gossip_current (incrementVotingRound C s)"
  "gossip_current s \<Longrightarrow> gossip_current (AdvanceVotingRound C s)"
  "gossip_current s \<Longrightarrow> gossip_current (JumpVotingRound C s)"
  by (simp_all add: gossip_current_def same_version_def AdvanceVotingRound_def JumpVotingRound_def incrementVotingRound_def Let_def)

lemma gossip_current_Shift:
  "gossip_current s \<Longrightarrow> ShiftVotingToCommitting C nhd s = Ret s' \<Longrightarrow> gossip_current s'"
  by (auto simp: gossip_current_def same_version_def ShiftVotingToCommitting_def Let_def split: if_splits)

text \<open>States that differ in what is neither an identity nor a version of a view.\<close>

definition same_ids :: "'p kState \<Rightarrow> 'p kState \<Rightarrow> bool" where
  "same_ids s s' \<longleftrightarrow> ids s' = ids s \<and> (gossip_current s \<longrightarrow> gossip_current s')"

lemma same_ids_refl [simp]: "same_ids s s"
  by (simp add: same_ids_def)

lemma same_ids_trans: "same_ids s t \<Longrightarrow> same_ids t u \<Longrightarrow> same_ids s u"
  by (simp add: same_ids_def)

lemma same_ids_Mark:
  assumes "MarkViewUpdated C vid (set_kview vid v s) = Ret s'"
    and "rv_Height v = rv_Height (kview s vid)" "rv_Round v = rv_Round (kview s vid)"
  shows "same_ids s s'"
  using assms gossip_current_Mark[OF _ assms(1)]
  by (cases vid) (auto simp: same_ids_def ids_def MarkViewUpdated_def set_kview_def kview_def)

lemma same_ids_cong:
  assumes "ids s' = ids s" "ks_gvm s' = ks_gvm s"
    "rv_Height (ks_NextRound s') = rv_Height (ks_NextRound s)" "rv_Round (ks_NextRound s') = rv_Round (ks_NextRound s)"
    "Version (ks_Voting s') = Version (ks_Voting s)" "Version (ks_NextRound s') = Version (ks_NextRound s)"
    "Version (ks_Committing s') = Version (ks_Committing s)"
  shows "same_ids s s'"
  using assms by (auto simp: same_ids_def gossip_current_def same_version_def ids_def)

section \<open>Properties\<close>

text \<open>A view lookup finds a view exactly when one of the three views has the requested height and
  round, and then the view it names is at that height and round; the not-found statuses are the
  orphaned rounds, the rounds beyond the next one, and the heights before and after the views. It
  panics exactly for the committing height with a round after the committing round and, before the
  first commit, for heights below the voting height.\<close>

theorem FindView_classifies:
  assumes al: "aligned C B s" and hs: "heights_ok s" "rv_Height (ks_Voting s) \<noteq> 0"
  shows "(\<forall>vid. FindView s h r = Ret (vid, ViewFound) \<longrightarrow>
        vid \<noteq> ViewIDNotFound \<and> rv_Height (kview s vid) = h \<and> rv_Round (kview s vid) = r) \<and>
     ((\<exists>vid. FindView s h r = Ret (vid, ViewFound)) \<longleftrightarrow>
        (h, r) \<in> {(rv_Height (ks_Voting s), rv_Round (ks_Voting s)),
                   (rv_Height (ks_NextRound s), rv_Round (ks_NextRound s)),
                   (rv_Height (ks_Committing s), rv_Round (ks_Committing s))}) \<and>
     ((\<exists>m. FindView s h r = Panic m) \<longleftrightarrow>
        h \<noteq> rv_Height (ks_Voting s) \<and>
        (h = rv_Height (ks_Committing s) \<and> rv_Round (ks_Committing s) < r \<or>
         rv_Height (ks_Committing s) < h \<and> h < rv_Height (ks_Voting s)))"
proof -
  have nr: "rv_Height (ks_NextRound s) = rv_Height (ks_Voting s)"
    "rv_Round (ks_NextRound s) = rv_Round (ks_Voting s) + 1"
    using al by (auto simp: aligned_def)
  have ne: "rv_Height (ks_Committing s) \<noteq> rv_Height (ks_Voting s)"
    using hs(1) by (auto simp: heights_ok_def)
  have "vid \<noteq> ViewIDNotFound \<and> rv_Height (kview s vid) = h \<and> rv_Round (kview s vid) = r"
    if "FindView s h r = Ret (vid, ViewFound)" for vid
    using that by (simp add: FindView_def Let_def kview_def nr split: if_splits)
  moreover have "(\<exists>vid. FindView s h r = Ret (vid, ViewFound)) \<longleftrightarrow>
        (h, r) \<in> {(rv_Height (ks_Voting s), rv_Round (ks_Voting s)),
                   (rv_Height (ks_NextRound s), rv_Round (ks_NextRound s)),
                   (rv_Height (ks_Committing s), rv_Round (ks_Committing s))}"
    using ne by (simp add: FindView_def Let_def nr)
  moreover have "(\<exists>m. FindView s h r = Panic m) \<longleftrightarrow>
        h \<noteq> rv_Height (ks_Voting s) \<and>
        (h = rv_Height (ks_Committing s) \<and> rv_Round (ks_Committing s) < r \<or>
         rv_Height (ks_Committing s) < h \<and> h < rv_Height (ks_Voting s))"
    by (rule FindView_panics_iff[OF hs])
  ultimately show ?thesis by blast
qed

text \<open>A kernel that commits height 4 and votes on height 5, round 2.\<close>

definition ex_view :: "u64 \<Rightarrow> u32 \<Rightarrow> nat list SimpleProof VersionedRoundView" where
  "ex_view h r = zeroVRV\<lparr>rv_Height := h, rv_Round := r,
     rv_ValidatorSet := \<lparr>Validators = ex_vals, vs_PubKeyHash = ''h'', VotePowerHash = ''p''\<rparr>,
     rv_VoteSummary := NewVoteSummary\<lparr>AvailablePower := 8\<rparr>, Version := 1\<rparr>"

definition ex_kstate :: "nat list SimpleProof kState" where
  "ex_kstate = \<lparr>ks_Committing = ex_view 4 0, ks_Voting = ex_view 5 2, ks_NextRound = ex_view 5 3,
     InFlightFetchPHs = [], CommittingHeader = zeroHeader, ks_smvm = newStateMachineViewManager,
     ks_gvm = newGossipViewManager, ks_lag = newLagManager False\<rparr>"

lemma ex_view_summary: "summary_ok C B (ex_view h r)"
proof -
  have "PrevoteProofs (ex_view h r) = []" "PrecommitProofs (ex_view h r) = []"
    by (simp_all add: ex_view_def zeroVRV_def)
  then show ?thesis
    by (simp add: summary_ok_def fresh_summary_empty) (simp add: ex_view_def SetAvailablePower_eq ex_vals_def)
qed

lemma ex_kstate_ok: "aligned C B ex_kstate" "heights_ok ex_kstate"
  by (simp_all add: aligned_def ex_kstate_def ex_view_summary heights_ok_def) (simp_all add: ex_view_def zeroVRV_def)

theorem FindView_classifies_witness:
  "\<exists>m. FindView ex_kstate 4 1 = Panic m"
  using FindView_classifies[OF ex_kstate_ok(1) ex_kstate_ok(2), of 4 1]
  by (simp add: ex_kstate_def ex_view_def)

end
