(* ===== verification/Kernel.thy ===== *)
theory Kernel
  imports KState
begin

text \<open>
  The mirror kernel (\<open>tmi/kernel.go\<close>), handler by handler. The kernel owns its state and handles one
  request at a time, so a handler is a function from the world (the kernel state, the stores and the
  fetch-request channel) to the response and the next world, or a panic.

  The four stores are interfaces: \<open>kernel_stores\<close> is the record of the methods the kernel calls, over
  an abstract store state. The channel of fetch requests is buffered and written without blocking:
  \<open>w_fetchFree\<close> is the room it has. Logging, tracing, metrics and cancellation are not modelled.
\<close>

section \<open>The kernel's environment\<close>

record 's kernel_stores =
  st_SetNetworkHeightRound :: "u64 \<Rightarrow> u32 \<Rightarrow> u64 \<Rightarrow> u32 \<Rightarrow> 's \<Rightarrow> go_error option \<times> 's"
  st_NetworkHeightRound :: "'s \<Rightarrow> go_error + u64 \<times> u32 \<times> u64 \<times> u32"
  st_SaveCommittedHeader :: "CommittedHeader \<Rightarrow> 's \<Rightarrow> go_error option \<times> 's"
  st_LoadCommittedHeader :: "'s \<Rightarrow> u64 \<Rightarrow> go_error + CommittedHeader"
  st_SaveRoundProposedHeader :: "ProposedHeader \<Rightarrow> 's \<Rightarrow> (go_error option \<times> 's) go"
  st_SaveRoundReplayedHeader :: "Header \<Rightarrow> 's \<Rightarrow> go_error option \<times> 's"
  st_OverwriteRoundPrevoteProofs :: "u64 \<Rightarrow> u32 \<Rightarrow> SparseSignatureCollection \<Rightarrow> 's \<Rightarrow> go_error option \<times> 's"
  st_OverwriteRoundPrecommitProofs :: "u64 \<Rightarrow> u32 \<Rightarrow> SparseSignatureCollection \<Rightarrow> 's \<Rightarrow> go_error option \<times> 's"
  st_LoadRoundState :: "'s \<Rightarrow> u64 \<Rightarrow> u32 \<Rightarrow>
     go_error + ProposedHeader list \<times> SparseSignatureCollection \<times> SparseSignatureCollection"
  st_SavePubKeys :: "PubKey list \<Rightarrow> 's \<Rightarrow> (bytes \<times> go_error option) \<times> 's"
  st_SaveVotePowers :: "u64 list \<Rightarrow> 's \<Rightarrow> (bytes \<times> go_error option) \<times> 's"

record ('p, 'b, 's) Kernel =
  k_stores :: "'s kernel_stores"
  k_hashScheme :: hash_scheme
  k_sigScheme :: signature_scheme
  k_cmspScheme :: "('p, 'b) cmsp"
  k_bitset :: "'b bitset_ops"
  k_initialHeight :: u64
  k_initialValSet :: ValidatorSet

record ('p, 's) world =
  w_state :: "'p kState"
  w_stores :: 's
  w_fetchFree :: nat
  w_fetchRequests :: "(u64 \<times> bytes) list"

section \<open>Requests and responses\<close>

record 'p VoteUpdate =
  vu_Proof :: 'p
  vu_PrevVersion :: u32

record 'p AddVoteRequest =
  av_H :: u64
  av_R :: u32
  av_Updates :: "(bytes, 'p VoteUpdate) gomap"

datatype AddVoteResult = AddVoteAccepted | AddVoteConflict | AddVoteOutOfDate

record ScopedSignature =
  TargetHash :: bytes
  SignContent :: bytes
  ss_Sig :: bytes

record StateMachineRoundAction =
  act_PH :: ProposedHeader
  act_Prevote :: ScopedSignature
  act_Precommit :: ScopedSignature

datatype 'p RoundEntranceResponse = RespVRV "'p VersionedRoundView" | RespCH CommittedHeader

datatype PHCheckStatus = PHCheckInvalid | PHCheckAcceptable | PHCheckNextHeight
  | PHCheckAlreadyHaveSignature | PHCheckSignerUnrecognized | PHCheckRoundTooOld | PHCheckRoundTooFarInFuture

record 'p PHCheckResponse =
  pcr_Status :: PHCheckStatus
  pcr_ProposerPubKey :: "PubKey option"
  pcr_PrevBlockHash :: bytes
  pcr_PrevValidatorSet :: ValidatorSet
  pcr_VotingRoundView :: "'p VersionedRoundView option"

datatype replay_error =
    ReplayedHeaderOutOfSyncError u64 u64
  | ReplayedHeaderValidationError go_error
  | ReplayedHeaderInternalError go_error

datatype RVField = RVValidators | RVProposedBlocks | RVPrevotes | RVPrecommits | RVVoteSummary | RVPrevCommitProof

type_synonym RVFieldFlags = "RVField list"

section \<open>Vote distribution and sparse collections\<close>

record voteDistribution =
  AvailableVotePower :: u64
  VotePowerPresent :: u64
  BlockVotePower :: "(bytes, u64) gomap"

definition lookup0 :: "('k, 'v::zero) gomap \<Rightarrow> 'k \<Rightarrow> 'v" where
  "lookup0 m k = (case map_of m k of None \<Rightarrow> 0 | Some v \<Rightarrow> v)"

fun distribution_loop ::
  "'b bitset_ops \<Rightarrow> 'b \<Rightarrow> Validator list \<Rightarrow> bytes \<Rightarrow> nat \<Rightarrow> nat \<Rightarrow> voteDistribution \<Rightarrow> voteDistribution" where
  "distribution_loop B bs vals blockHash 0 start d = d"
| "distribution_loop B bs vals blockHash (Suc fuel) start d =
     (case bs_NextSet B bs start of
        None \<Rightarrow> d
      | Some i \<Rightarrow>
          if i < length vals
          then distribution_loop B bs vals blockHash fuel (i + 1)
                 (d\<lparr>BlockVotePower := AList.update blockHash (lookup0 (BlockVotePower d) blockHash + Power (vals ! i)) (BlockVotePower d),
                    VotePowerPresent := VotePowerPresent d + Power (vals ! i)\<rparr>)
          else d)"

definition newVoteDistribution ::
  "('p, 'b) cmsp \<Rightarrow> 'b bitset_ops \<Rightarrow> (bytes, 'p) gomap \<Rightarrow> Validator list \<Rightarrow> voteDistribution" where
  "newVoteDistribution C B proofs vals =
     fold (\<lambda>(blockHash, p) d. distribution_loop B (cm_SignatureBitSet C p) vals blockHash (Suc (length vals)) 0 d) proofs
       \<lparr>AvailableVotePower = fold (\<lambda>v acc. acc + Power v) vals 0, VotePowerPresent = 0, BlockVotePower = []\<rparr>"

definition mapToSparseSignatureCollection ::
  "('p, 'b) cmsp \<Rightarrow> (bytes, 'p) gomap \<Rightarrow> SparseSignatureCollection go" where
  "mapToSparseSignatureCollection C proofs =
     (let pkh = firstPubKeyHash C proofs in
      gofold (\<lambda>(hash, p) out.
          if cm_PubKeyHash C p \<noteq> pkh then Panic ''public key hash mismatch in signature proofs''
          else Ret (out\<lparr>BlockSignatures := AList.update hash
                 ((case map_of (BlockSignatures out) hash of None \<Rightarrow> [] | Some l \<Rightarrow> l) @ ssp_Signatures (cm_AsSparse C p))
                 (BlockSignatures out)\<rparr>)) proofs
        \<lparr>ssc_PubKeyHash = pkh, BlockSignatures = []\<rparr>)"

section \<open>Shared steps\<close>

definition updateObservers :: "('p, 'b, 's) Kernel \<Rightarrow> ('p, 's) world \<Rightarrow> go_error option \<times> ('p, 's) world" where
  "updateObservers K w =
     (let s = w_state w;
          (err, st) = st_SetNetworkHeightRound (k_stores K) (rv_Height (ks_Voting s)) (rv_Round (ks_Voting s))
                        (rv_Height (ks_Committing s)) (rv_Round (ks_Committing s)) (w_stores w)
      in (err, w\<lparr>w_stores := st\<rparr>))"

definition advanceVotingRound :: "('p, 'b, 's) Kernel \<Rightarrow> ('p, 's) world \<Rightarrow> go_error option \<times> ('p, 's) world" where
  "advanceVotingRound K w = updateObservers K (w\<lparr>w_state := AdvanceVotingRound (k_cmspScheme K) (w_state w)\<rparr>)"

text \<open>The parameter \<open>newRound\<close> of the Go method is not used in its body.\<close>

definition jumpVotingRound :: "('p, 'b, 's) Kernel \<Rightarrow> u32 \<Rightarrow> ('p, 's) world \<Rightarrow> go_error option \<times> ('p, 's) world" where
  "jumpVotingRound K newRound w = updateObservers K (w\<lparr>w_state := JumpVotingRound (k_cmspScheme K) (w_state w)\<rparr>)"

definition saveCurrentCommittingHeader :: "('p, 'b, 's) Kernel \<Rightarrow> ('p, 's) world \<Rightarrow> go_error option \<times> ('p, 's) world" where
  "saveCurrentCommittingHeader K w =
     (let ch = \<lparr>ch_Header = CommittingHeader (w_state w), ch_Proof = rv_PrevCommitProof (ks_Voting (w_state w))\<rparr>;
          (err, st) = st_SaveCommittedHeader (k_stores K) ch (w_stores w)
      in (err, w\<lparr>w_stores := st\<rparr>))"

definition checkVotingPrecommitViewShift ::
  "('p, 'b, 's) Kernel \<Rightarrow> ('p, 's) world \<Rightarrow> (go_error option \<times> ('p, 's) world) go" where
  "checkVotingPrecommitViewShift K w =
     (let s = w_state w; vrv = ks_Voting s; vs = rv_VoteSummary vrv in
      gobind (ByzantineMajority (AvailablePower vs)) (\<lambda>maj.
        let committingHash = MostVotedPrecommitHash vs;
            highestPow = lookup0 (PrecommitBlockPower vs) committingHash in
        if highestPow < maj then
          if TotalPrecommitPower vs = AvailablePower vs then Ret (advanceVotingRound K w) else Ret (None, w)
        else if committingHash = [] then Ret (advanceVotingRound K w)
        else case find (\<lambda>ph. Hash (ph_Header ph) = committingHash) (ProposedHeaders vrv) of
               None \<Rightarrow> Ret (None, w)
             | Some ph \<Rightarrow>
                 let votedHeader = ph_Header ph in
                 if Hash votedHeader = [] then Panic ''BUG: missed update; needed to fetch missing proposed block''
                 else
                   gobind (ShiftVotingToCommitting (k_cmspScheme K)
                             \<lparr>nhd_ValidatorSet = NextValidatorSet votedHeader, nhd_VotedHeader = votedHeader\<rparr> s)
                     (\<lambda>s'. case saveCurrentCommittingHeader K (w\<lparr>w_state := s'\<rparr>) of
                             (Some e, w1) \<Rightarrow> Ret (Some e, w1)
                           | (None, w1) \<Rightarrow> Ret (updateObservers K w1))))"

text \<open>\<open>checkMissingPHs\<close>: \<open>make\<close> with the capacity \<open>len(proofs)-1\<close> panics on an empty map. Fetch requests
  that find the channel full are dropped.\<close>

definition requestFetch :: "bytes \<Rightarrow> ('p, 's) world \<Rightarrow> ('p, 's) world" where
  "requestFetch missingHash w =
     (if w_fetchFree w = 0 then w
      else w\<lparr>w_fetchFree := w_fetchFree w - 1,
             w_fetchRequests := w_fetchRequests w @ [(rv_Height (ks_Voting (w_state w)), missingHash)],
             w_state := (w_state w)\<lparr>InFlightFetchPHs := missingHash # InFlightFetchPHs (w_state w)\<rparr>\<rparr>)"

definition checkMissingPHs ::
  "('p, 'b, 's) Kernel \<Rightarrow> (bytes, 'p) gomap \<Rightarrow> ('p, 's) world \<Rightarrow> ('p, 's) world go" where
  "checkMissingPHs K proofs w =
     (let s = w_state w; havePHHashes = map (\<lambda>ph. Hash (ph_Header ph)) (ProposedHeaders (ks_Voting s)) in
      if proofs = [] then Panic ''makeslice: cap out of range''
      else
        let missing0 = filter (\<lambda>h. h \<noteq> [] \<and> h \<notin> set havePHHashes) (map fst proofs);
            missing = filter (\<lambda>h. h \<notin> set (InFlightFetchPHs s)) missing0 in
        if missing = [] then Ret w
        else
          let dist = newVoteDistribution (k_cmspScheme K) (k_bitset K) proofs (Validators (rv_ValidatorSet (ks_Voting s))) in
          gobind (ByzantineMinority (AvailableVotePower dist)) (\<lambda>min.
            Ret (fold (\<lambda>h w'. if lookup0 (BlockVotePower dist) h < min then w' else requestFetch h w') missing w)))"

definition checkNextRoundPrecommitViewShift ::
  "('p, 'b, 's) Kernel \<Rightarrow> ('p, 's) world \<Rightarrow> (go_error option \<times> ('p, 's) world) go" where
  "checkNextRoundPrecommitViewShift K w =
     (let s = w_state w; vs = rv_VoteSummary (ks_NextRound s) in
      gobind (ByzantineMinority (AvailablePower vs)) (\<lambda>min.
        if TotalPrecommitPower vs < min then Ret (None, w)
        else case jumpVotingRound K (rv_Round (ks_NextRound s) + 1) w of
               (Some e, w1) \<Rightarrow> Ret (Some e, w1)
             | (None, w1) \<Rightarrow>
                 gobind (ByzantineMajority (AvailablePower vs)) (\<lambda>maj.
                   let maxPow = lookup0 (PrecommitBlockPower vs) (MostVotedPrecommitHash vs) in
                   if maj \<le> maxPow then Panic ''TODO: handle a majority precommit for NextRound''
                   else if min \<le> maxPow
                   then gobind (checkMissingPHs K (PrecommitProofs (ks_Voting (w_state w1))) w1) (\<lambda>w2. Ret (None, w2))
                   else Ret (None, w1))))"

definition checkPrevoteViewShift ::
  "('p, 'b, 's) Kernel \<Rightarrow> ViewID \<Rightarrow> ('p, 's) world \<Rightarrow> (go_error option \<times> ('p, 's) world) go" where
  "checkPrevoteViewShift K vid w =
     (if vid \<noteq> ViewIDNextRound then Panic ''BUG: unhandled view ID in checkPrecommitViewShift''
      else
        let s = w_state w; vs = rv_VoteSummary (ks_NextRound s) in
        gobind (ByzantineMinority (AvailablePower vs)) (\<lambda>min.
          if TotalPrevotePower vs < min then Ret (None, w)
          else case jumpVotingRound K (rv_Round (ks_NextRound s) + 1) w of
                 (Some e, w1) \<Rightarrow> Ret (Some e, w1)
               | (None, w1) \<Rightarrow>
                   if min \<le> lookup0 (PrevoteBlockPower vs) (MostVotedPrevoteHash vs)
                   then gobind (checkMissingPHs K (PrevoteProofs (ks_Voting (w_state w1))) w1) (\<lambda>w2. Ret (None, w2))
                   else Ret (None, w1)))"

section \<open>Proposed headers\<close>

text \<open>One block hash of the backfill loop: the later proof is merged into the committing view's
  precommits; the state is \<open>mergedAny\<close> and those precommits.\<close>

definition backfill_step ::
  "('p, 'b) cmsp \<Rightarrow> bytes \<Rightarrow> bytes \<times> SparseSignature list \<Rightarrow> bool \<times> (bytes, 'p) gomap \<Rightarrow> (bool \<times> (bytes, 'p) gomap) go" where
  "backfill_step C pkh e st =
     (case map_of (snd st) (fst e) of
        None \<Rightarrow> Panic ''TODO: backfill unknown block precommit''
      | Some target \<Rightarrow>
          gobind (cm_MergeSparse C target \<lparr>ssp_PubKeyHash = pkh, ssp_Signatures = snd e\<rparr>)
            (\<lambda>(res, target'). Ret (fst st \<or> IncreasedSignatures res, AList.update (fst e) target' (snd st))))"

definition backfillCommit :: "('p, 'b, 's) Kernel \<Rightarrow> ProposedHeader \<Rightarrow> ('p, 's) world \<Rightarrow> ('p, 's) world go" where
  "backfillCommit K ph w =
     (let C = k_cmspScheme K; s = w_state w; pcp = h_PrevCommitProof (ph_Header ph) in
      gobind (gofold (backfill_step C (cp_PubKeyHash pcp)) (cp_Proofs pcp) (False, PrecommitProofs (ks_Committing s)))
        (\<lambda>(mergedAny, proofs).
           let s1 = s\<lparr>ks_Committing := (ks_Committing s)\<lparr>PrecommitProofs := proofs\<rparr>\<rparr> in
           if \<not> mergedAny then Ret (w\<lparr>w_state := s1\<rparr>)
           else gobind (mapToSparseSignatureCollection C proofs) (\<lambda>coll.
                  let (err, st) = st_OverwriteRoundPrecommitProofs (k_stores K) (h_Height (ph_Header ph) - 1) (cp_Round pcp)
                                    coll (w_stores w)
                  in Ret (w\<lparr>w_stores := st, w_state := MarkCommittingViewUpdated C s1\<rparr>))))"

text \<open>The end of \<open>addProposedHeader\<close>, once the header is in the view \<open>vid\<close> and the view is marked.\<close>

definition afterProposedHeader ::
  "('p, 'b, 's) Kernel \<Rightarrow> ProposedHeader \<Rightarrow> ViewID \<Rightarrow> ('p, 's) world \<Rightarrow> ('p, 's) world go" where
  "afterProposedHeader K ph vid w =
     (if vid \<noteq> ViewIDVoting \<and> vid \<noteq> ViewIDNextRound then Ret w
      else
        let s = w_state w;
            s' = s\<lparr>ks_lag := lag_SetState LagStatusUpToDate (rv_Height (ks_Committing s)) 0 (ks_lag s)\<rparr> in
        gobind (backfillCommit K ph (w\<lparr>w_state := s'\<rparr>)) (\<lambda>w1.
          if vid = ViewIDVoting \<and> map_of (PrecommitProofs (ks_Voting (w_state w1))) (Hash (ph_Header ph)) \<noteq> None
          then gobind (checkVotingPrecommitViewShift K w1) (\<lambda>(err, w2). Ret w2)
          else Ret w1))"

definition addProposedHeader :: "('p, 'b, 's) Kernel \<Rightarrow> ProposedHeader \<Rightarrow> ('p, 's) world \<Rightarrow> ('p, 's) world go" where
  "addProposedHeader K ph w =
     (let C = k_cmspScheme K; h = ph_Header ph;
          s0 = (w_state w)\<lparr>InFlightFetchPHs := removeAll (Hash h) (InFlightFetchPHs (w_state w))\<rparr>;
          w0 = w\<lparr>w_state := s0\<rparr> in
      gobind (FindView s0 (h_Height h) (ph_Round ph)) (\<lambda>(vid, status).
        if vid = ViewIDNotFound then Ret w0
        else
          let v = kview s0 vid in
          if list_ex (\<lambda>have. Signature have = Signature ph) (ProposedHeaders v) then Ret w0
          else
            let s1 = set_kview vid (v\<lparr>ProposedHeaders := ProposedHeaders v @ [ph]\<rparr>) s0 in
            gobind (st_SaveRoundProposedHeader (k_stores K) ph (w_stores w)) (\<lambda>(err, st).
              if (case err of Some (OverwriteError f _) \<Rightarrow> f = ''pubkey'' | _ \<Rightarrow> False) \<and>
                 smvm_H (ks_smvm s1) = h_Height h \<and> smvm_R (ks_smvm s1) = ph_Round ph \<and> ProposerPubKey ph = None
              then Panic ''nil pointer dereference''
              else
                gobind (MarkViewUpdated C vid s1) (\<lambda>s2.
                  afterProposedHeader K ph vid (w\<lparr>w_state := s2, w_stores := st\<rparr>)))))"

section \<open>Votes\<close>

text \<open>The loop over the updates of a request: proofs, block versions, \<open>allAccepted\<close>, \<open>anyAdded\<close>.\<close>

definition applyUpdate ::
  "bytes \<times> 'p VoteUpdate \<Rightarrow> (bytes, 'p) gomap \<times> (bytes, u32) gomap \<times> bool \<times> bool \<Rightarrow>
   (bytes, 'p) gomap \<times> (bytes, u32) gomap \<times> bool \<times> bool" where
  "applyUpdate e st = (case (e, st) of ((blockHash, u), (proofs, versions, allAccepted, anyAdded)) \<Rightarrow>
     if vu_PrevVersion u = lookup0 versions blockHash
     then (AList.update blockHash (vu_Proof u) proofs,
           AList.update blockHash (lookup0 versions blockHash + 1) versions, allAccepted, True)
     else (proofs, versions, False, anyAdded))"

text \<open>The bookkeeping of \<open>addPrevote\<close> when any update was applied.\<close>

definition prevoteBookkeeping ::
  "('p, 'b, 's) Kernel \<Rightarrow> ViewID \<Rightarrow> 'p AddVoteRequest \<Rightarrow> (bytes, 'p) gomap \<Rightarrow> (bytes, u32) gomap \<Rightarrow> ('p, 's) world \<Rightarrow>
   ('p, 's) world go" where
  "prevoteBookkeeping K vid req proofs versions w =
     (let C = k_cmspScheme K; s = w_state w; v = kview s vid;
          v' = v\<lparr>PrevoteProofs := proofs, PrevoteBlockVersions := versions,
                  rv_VoteSummary := SetPrevotePowers C (k_bitset K) (Validators (rv_ValidatorSet v)) proofs (rv_VoteSummary v)\<rparr> in
      gobind (MarkViewUpdated C vid (set_kview vid v' s)) (\<lambda>s'.
      gobind (mapToSparseSignatureCollection C proofs) (\<lambda>coll.
        Ret (w\<lparr>w_state := s',
               w_stores := snd (st_OverwriteRoundPrevoteProofs (k_stores K) (av_H req) (av_R req) coll (w_stores w))\<rparr>))))"

text \<open>The view shift that ends \<open>addPrevote\<close>.\<close>

definition prevoteShift ::
  "('p, 'b, 's) Kernel \<Rightarrow> ViewID \<Rightarrow> AddVoteResult \<Rightarrow> ('p, 's) world \<Rightarrow> (AddVoteResult \<times> ('p, 's) world) go" where
  "prevoteShift K vid res w =
     (if res = AddVoteAccepted \<and> vid = ViewIDNextRound
      then gobind (checkPrevoteViewShift K vid w) (\<lambda>(err, w'). Ret (res, w'))
      else Ret (res, w))"

definition addPrevote ::
  "('p, 'b, 's) Kernel \<Rightarrow> 'p AddVoteRequest \<Rightarrow> ('p, 's) world \<Rightarrow> (AddVoteResult \<times> ('p, 's) world) go" where
  "addPrevote K req w =
     (let C = k_cmspScheme K; s = w_state w in
      gobind (FindView s (av_H req) (av_R req)) (\<lambda>(vid, status).
        if status \<in> {ViewBeforeCommitting, ViewOrphaned, ViewWrongCommit} then Ret (AddVoteOutOfDate, w)
        else if status \<noteq> ViewFound then Panic ''TODO: handle unexpected view status when looking up view to add prevote''
        else
          let v = kview s vid;
              (proofs, versions, allAccepted, anyAdded) = fold applyUpdate (av_Updates req)
                 (PrevoteProofs v, PrevoteBlockVersions v, True, False);
              res = (if allAccepted then AddVoteAccepted else AddVoteConflict) in
          gobind (if anyAdded then prevoteBookkeeping K vid req proofs versions w else Ret w)
            (\<lambda>w1. gobind (checkMissingPHs K (PrevoteProofs (kview (w_state w1) vid)) w1) (\<lambda>w2.
               prevoteShift K vid res w2))))"

text \<open>The bookkeeping of \<open>addPrecommit\<close> when any update was applied.\<close>

definition precommitBookkeeping ::
  "('p, 'b, 's) Kernel \<Rightarrow> ViewID \<Rightarrow> 'p AddVoteRequest \<Rightarrow> (bytes, 'p) gomap \<Rightarrow> (bytes, u32) gomap \<Rightarrow> ('p, 's) world \<Rightarrow>
   ('p, 's) world go" where
  "precommitBookkeeping K vid req proofs versions w =
     (let C = k_cmspScheme K; s = w_state w; v = kview s vid;
          v' = v\<lparr>PrecommitProofs := proofs, PrecommitBlockVersions := versions,
                  rv_VoteSummary := SetPrecommitPowers C (k_bitset K) (Validators (rv_ValidatorSet v)) proofs (rv_VoteSummary v)\<rparr> in
      gobind (MarkViewUpdated C vid (set_kview vid v' s)) (\<lambda>s'.
      gobind (mapToSparseSignatureCollection C proofs) (\<lambda>coll.
        Ret (w\<lparr>w_state := s',
               w_stores := snd (st_OverwriteRoundPrecommitProofs (k_stores K) (av_H req) (av_R req) coll (w_stores w))\<rparr>))))"

text \<open>The view shift that ends \<open>addPrecommit\<close>.\<close>

definition precommitShift ::
  "('p, 'b, 's) Kernel \<Rightarrow> ViewID \<Rightarrow> AddVoteResult \<Rightarrow> ('p, 's) world \<Rightarrow> (AddVoteResult \<times> ('p, 's) world) go" where
  "precommitShift K vid res w =
     (if res \<noteq> AddVoteAccepted then Ret (res, w)
      else case vid of
             ViewIDVoting \<Rightarrow> gobind (checkVotingPrecommitViewShift K w) (\<lambda>(err, w'). Ret (res, w'))
           | ViewIDNextRound \<Rightarrow> gobind (checkNextRoundPrecommitViewShift K w) (\<lambda>(err, w'). Ret (res, w'))
           | ViewIDCommitting \<Rightarrow> Ret (res, w)
           | _ \<Rightarrow> Panic ''BUG: unhandled view ID in addPrecommit'')"

definition addPrecommit ::
  "('p, 'b, 's) Kernel \<Rightarrow> 'p AddVoteRequest \<Rightarrow> ('p, 's) world \<Rightarrow> (AddVoteResult \<times> ('p, 's) world) go" where
  "addPrecommit K req w =
     (let C = k_cmspScheme K; s = w_state w in
      gobind (FindView s (av_H req) (av_R req)) (\<lambda>(vid, status).
        if status \<in> {ViewBeforeCommitting, ViewOrphaned, ViewWrongCommit} then Ret (AddVoteOutOfDate, w)
        else if status \<noteq> ViewFound then Panic ''TODO: handle unexpected view status when looking up view to add precommit''
        else
          let v = kview s vid;
              (proofs, versions, allAccepted, anyAdded) = fold applyUpdate (av_Updates req)
                 (PrecommitProofs v, PrecommitBlockVersions v, True, False);
              res = (if allAccepted then AddVoteAccepted else AddVoteConflict) in
          gobind (if anyAdded then precommitBookkeeping K vid req proofs versions w else Ret w)
            (\<lambda>w1. gobind (checkMissingPHs K (PrecommitProofs (kview (w_state w1) vid)) w1) (\<lambda>w2.
               precommitShift K vid res w2))))"

section \<open>Queries\<close>

definition copySnapshotView ::
  "('p, 'b) cmsp \<Rightarrow> 'p VersionedRoundView \<Rightarrow> RVFieldFlags \<Rightarrow> 'p VersionedRoundView \<Rightarrow> 'p VersionedRoundView" where
  "copySnapshotView C src flags dst =
     dst\<lparr>rv_Height := rv_Height src, rv_Round := rv_Round src, Version := Version src,
         rv_ValidatorSet := (if RVValidators \<in> set flags then rv_ValidatorSet src else zeroValidatorSet),
         ProposedHeaders := (if RVProposedBlocks \<in> set flags then ProposedHeaders src else []),
         rv_PrevCommitProof := (if RVPrevCommitProof \<in> set flags
            then CommitProof_Clone (rv_PrevCommitProof src) else rv_PrevCommitProof dst),
         PrevoteProofs := (if RVPrevotes \<in> set flags then map (\<lambda>(k, p). (k, cm_Clone C p)) (PrevoteProofs src) else []),
         PrevoteBlockVersions := (if RVPrevotes \<in> set flags then PrevoteBlockVersions src else []),
         PrecommitProofs := (if RVPrecommits \<in> set flags then map (\<lambda>(k, p). (k, cm_Clone C p)) (PrecommitProofs src) else []),
         PrecommitBlockVersions := (if RVPrecommits \<in> set flags then PrecommitBlockVersions src else []),
         rv_VoteSummary := (if RVVoteSummary \<in> set flags then VoteSummary_Clone (rv_VoteSummary src)
                            else VoteSummary_Reset (rv_VoteSummary dst))\<rparr>"

definition sendSnapshotResponse ::
  "('p, 'b, 's) Kernel \<Rightarrow> 'p kState \<Rightarrow> RVFieldFlags \<Rightarrow> 'p VersionedRoundView option \<times> 'p VersionedRoundView option \<Rightarrow>
   'p VersionedRoundView option \<times> 'p VersionedRoundView option" where
  "sendSnapshotResponse K s flags dst =
     (map_option (copySnapshotView (k_cmspScheme K) (ks_Voting s) flags) (fst dst),
      map_option (copySnapshotView (k_cmspScheme K) (ks_Committing s) flags) (snd dst))"

definition sendViewLookupResponse ::
  "('p, 'b, 's) Kernel \<Rightarrow> 'p kState \<Rightarrow> u64 \<Rightarrow> u32 \<Rightarrow> string \<Rightarrow> RVFieldFlags \<Rightarrow> 'p VersionedRoundView \<Rightarrow>
   (ViewID \<times> ViewLookupStatus \<times> 'p VersionedRoundView) go" where
  "sendViewLookupResponse K s h r reason flags dst =
     (if reason = [] then Panic ''BUG: ViewLookupRequest.Reason must not be empty''
      else gobind (FindView s h r) (\<lambda>(vid, status).
        Ret (vid, status,
             if vid = ViewIDNotFound then dst else copySnapshotView (k_cmspScheme K) (kview s vid) flags dst)))"

definition setPHCheckStatus ::
  "('p, 'b, 's) Kernel \<Rightarrow> 'p kState \<Rightarrow> ProposedHeader \<Rightarrow> 'p VersionedRoundView \<Rightarrow> ViewID \<Rightarrow> 'p PHCheckResponse go" where
  "setPHCheckStatus K s ph vrv vid =
     (let resp = \<lparr>pcr_Status = PHCheckInvalid, pcr_ProposerPubKey = None, pcr_PrevBlockHash = [],
                  pcr_PrevValidatorSet = zeroValidatorSet, pcr_VotingRoundView = None\<rparr> in
      if list_ex (\<lambda>havePH. Signature havePH = Signature ph) (ProposedHeaders vrv)
      then Ret (resp\<lparr>pcr_Status := PHCheckAlreadyHaveSignature\<rparr>)
      else if Validators (rv_ValidatorSet vrv) \<noteq> [] \<and> ProposerPubKey ph = None then Panic ''nil pointer dereference''
      else case find (\<lambda>val. ProposerPubKey ph = Some (val_PubKey val)) (Validators (rv_ValidatorSet vrv)) of
             None \<Rightarrow> Ret (resp\<lparr>pcr_Status := PHCheckSignerUnrecognized\<rparr>)
           | Some val \<Rightarrow>
               let ok = resp\<lparr>pcr_Status := PHCheckAcceptable, pcr_ProposerPubKey := Some (val_PubKey val)\<rparr> in
               if h_Height (ph_Header ph) = k_initialHeight K then Ret ok
               else case vid of
                      ViewIDCommitting \<Rightarrow> Ret (ok\<lparr>pcr_PrevBlockHash := PrevBlockHash (CommittingHeader s)\<rparr>)
                    | ViewIDVoting \<Rightarrow> Ret (ok\<lparr>pcr_PrevBlockHash := Hash (CommittingHeader s),
                                              pcr_PrevValidatorSet := h_ValidatorSet (CommittingHeader s)\<rparr>)
                    | ViewIDNextRound \<Rightarrow> Ret (ok\<lparr>pcr_PrevBlockHash := Hash (CommittingHeader s),
                                                 pcr_PrevValidatorSet := h_ValidatorSet (CommittingHeader s)\<rparr>)
                    | _ \<Rightarrow> Panic ''BUG: setPHCheckStatus called with invalid view ID'')"

definition sendPHCheckResponse ::
  "('p, 'b, 's) Kernel \<Rightarrow> 'p kState \<Rightarrow> ProposedHeader \<Rightarrow> 'p PHCheckResponse go" where
  "sendPHCheckResponse K s ph =
     (let pbHeight = h_Height (ph_Header ph); pbRound = ph_Round ph;
          vh = rv_Height (ks_Voting s); vr = rv_Round (ks_Voting s);
          ch = rv_Height (ks_Committing s); cr = rv_Round (ks_Committing s);
          status = (\<lambda>st. Ret \<lparr>pcr_Status = st, pcr_ProposerPubKey = None, pcr_PrevBlockHash = [],
                          pcr_PrevValidatorSet = zeroValidatorSet, pcr_VotingRoundView = None\<rparr>) in
      if pbHeight < ch then status PHCheckRoundTooOld
      else if pbHeight = ch then
        if pbRound < cr then status PHCheckRoundTooOld
        else if pbRound = cr then setPHCheckStatus K s ph (ks_Committing s) ViewIDCommitting
        else Panic ''TODO: handle proposed block with round beyond committing round''
      else if pbHeight = vh then
        if pbRound < vr then status PHCheckRoundTooOld
        else if pbRound = vr then setPHCheckStatus K s ph (ks_Voting s) ViewIDVoting
        else if pbRound = vr + 1 then setPHCheckStatus K s ph (ks_NextRound s) ViewIDNextRound
        else Panic ''TODO: handle proposed block with round beyond voting round''
      else if pbHeight = vh + 1 then
        Ret \<lparr>pcr_Status = PHCheckNextHeight, pcr_ProposerPubKey = None, pcr_PrevBlockHash = [],
             pcr_PrevValidatorSet = zeroValidatorSet, pcr_VotingRoundView = Some (VRV_Clone (k_cmspScheme K) (ks_Voting s))\<rparr>
      else status PHCheckRoundTooFarInFuture)"

section \<open>The state machine\<close>

definition handleStateMachineRoundEntrance ::
  "('p, 'b, 's) Kernel \<Rightarrow> StateMachineRoundEntrance \<Rightarrow> ('p, 's) world \<Rightarrow> ('p RoundEntranceResponse \<times> ('p, 's) world) go" where
  "handleStateMachineRoundEntrance K re w =
     (let s = (w_state w)\<lparr>ks_smvm := smvm_Reset re (ks_smvm (w_state w))\<rparr> in
      gobind (FindView s (re_H re) (re_R re)) (\<lambda>(vid, status).
        if vid = ViewIDNotFound then
          if status = ViewBeforeCommitting then
            case st_LoadCommittedHeader (k_stores K) (w_stores w) (re_H re) of
              Inl e \<Rightarrow> Panic ''failed to load block from block store for state machine''
            | Inr ch \<Rightarrow> Ret (RespCH ch, w\<lparr>w_state := s\<rparr>)
          else Panic ''TODO: handle view not found when responding to state machine round update''
        else
          let v = VRV_Clone (k_cmspScheme K) (kview s vid) in
          gobind (MarkFirstSentVersion (Version v) (ks_smvm s)) (\<lambda>m.
            Ret (RespVRV v, w\<lparr>w_state := s\<lparr>ks_smvm := m\<rparr>\<rparr>))))"

text \<open>The proof that a vote of the state machine yields: a new or cloned proof with its signature. A
  failure is logged and the vote dropped (\<open>None\<close>).\<close>

definition stateMachineVote ::
  "('p, 'b, 's) Kernel \<Rightarrow> 'p kState \<Rightarrow> 'p option \<Rightarrow> ScopedSignature \<Rightarrow> 'p option go" where
  "stateMachineVote K s existingVote sc =
     (let C = k_cmspScheme K; vset = rv_ValidatorSet (ks_Voting s);
          start = (case existingVote of
                     Some p \<Rightarrow> Inr (cm_Clone C p)
                   | None \<Rightarrow> cm_New C (SignContent sc) (ValidatorsToPubKeys (Validators vset)) (vs_PubKeyHash vset))
      in case start of
           Inl e \<Rightarrow> Ret None
         | Inr p \<Rightarrow>
             (case re_PubKey (roundEntrance (ks_smvm s)) of
                None \<Rightarrow> Panic ''nil pointer dereference''
              | Some pk \<Rightarrow>
                  (case cm_AddSignature C p (ss_Sig sc) pk of Inl e \<Rightarrow> Ret None | Inr p' \<Rightarrow> Ret (Some p'))))"

definition handleStateMachineAction ::
  "('p, 'b, 's) Kernel \<Rightarrow> StateMachineRoundAction \<Rightarrow> ('p, 's) world \<Rightarrow> ('p, 's) world go" where
  "handleStateMachineAction K act w =
     (let hasPH = Hash (ph_Header (act_PH act)) \<noteq> [];
          hasPrevote = ss_Sig (act_Prevote act) \<noteq> []; hasPrecommit = ss_Sig (act_Precommit act) \<noteq> [];
          s = w_state w; h = smvm_H (ks_smvm s); r = smvm_R (ks_smvm s) in
      if \<not> (hasPH \<or> hasPrevote \<or> hasPrecommit) then Panic ''BUG: no state machine action present''
      else if hasPH then
        if hasPrevote \<or> hasPrecommit then Panic ''BUG: multiple state machine actions present when exactly one required''
        else addProposedHeader K (act_PH act) w
      else gobind (FindView s h r) (\<lambda>(vid, status).
        if vid \<noteq> ViewIDVoting \<and> vid \<noteq> ViewIDCommitting then Ret w
        else
          let vrv = kview s vid in
          if hasPrevote then
            if hasPrecommit then Panic ''BUG: multiple state machine actions present when exactly one required''
            else
              let sc = act_Prevote act; hash = TargetHash sc in
              gobind (stateMachineVote K s (map_of (PrevoteProofs vrv) hash) sc) (\<lambda>vote.
                case vote of
                  None \<Rightarrow> Ret w
                | Some p \<Rightarrow>
                    gobind (addPrevote K \<lparr>av_H = h, av_R = r,
                       av_Updates = [(hash, \<lparr>vu_Proof = p, vu_PrevVersion = lookup0 (PrevoteBlockVersions vrv) hash\<rparr>)]\<rparr> w)
                      (\<lambda>(res, w'). Ret w'))
          else
            let sc = act_Precommit act; hash = TargetHash sc in
            gobind (stateMachineVote K s (map_of (PrecommitProofs vrv) hash) sc) (\<lambda>vote.
              case vote of
                None \<Rightarrow> Ret w
              | Some p \<Rightarrow>
                  gobind (addPrecommit K \<lparr>av_H = h, av_R = r,
                     av_Updates = [(hash, \<lparr>vu_Proof = p, vu_PrevVersion = lookup0 (PrecommitBlockVersions vrv) hash\<rparr>)]\<rparr> w)
                    (\<lambda>(res, w'). Ret w'))))"

section \<open>Replayed headers\<close>

text \<open>One hash of the replayed proof: a clone of the local precommit proof, or a new one, into which
  the replayed signatures are merged.\<close>

definition replayProof_step ::
  "('p, 'b, 's) Kernel \<Rightarrow> 'p kState \<Rightarrow> Header \<Rightarrow> u32 \<Rightarrow> bytes \<times> SparseSignature list \<Rightarrow> (bytes, 'p) gomap \<Rightarrow>
   (replay_error + (bytes, 'p) gomap) go" where
  "replayProof_step K s header r e tempProofs =
     (let C = k_cmspScheme K; hash = fst e; vset = h_ValidatorSet header in
      gotry
        (case map_of (PrecommitProofs (ks_Voting s)) hash of
           Some p \<Rightarrow> Ret (Inr (cm_Clone C p))
         | None \<Rightarrow>
             (case PrecommitSignBytes \<lparr>vt_Height = h_Height header, vt_Round = r, vt_BlockHash = hash\<rparr> (k_sigScheme K) of
                Inl err \<Rightarrow> Ret (Inl (ReplayedHeaderInternalError err))
              | Inr content \<Rightarrow>
                  if Validators vset = [] then Panic ''TODO: ValidatorSet must be populated on replayed headers''
                  else (case cm_New C content (ValidatorsToPubKeys (Validators vset)) (vs_PubKeyHash vset) of
                          Inl err \<Rightarrow> Ret (Inl (ReplayedHeaderInternalError err))
                        | Inr p \<Rightarrow> Ret (Inr p))))
        (\<lambda>haveProof.
           gobind (cm_MergeSparse C haveProof \<lparr>ssp_PubKeyHash = vs_PubKeyHash vset, ssp_Signatures = snd e\<rparr>)
             (\<lambda>(mergeRes, p').
                if \<not> AllValidSignatures mergeRes
                then Ret (Inl (ReplayedHeaderValidationError (OtherError ''invalid signature received for block hash'')))
                else Ret (Inr (AList.update hash p' tempProofs)))))"

text \<open>The end of \<open>handleReplayedHeader\<close>: the power behind the header, the update of the voting view and
  the check that commits. A header whose hash has no proof dereferences a nil interface.\<close>

definition commitReplayedHeader ::
  "('p, 'b, 's) Kernel \<Rightarrow> Header \<Rightarrow> CommitProof \<Rightarrow> (bytes, 'p) gomap \<Rightarrow> ('p, 's) world \<Rightarrow>
   (replay_error option \<times> ('p, 's) world) go" where
  "commitReplayedHeader K header pf tempProofs w =
     (let C = k_cmspScheme K; s = w_state w; v = ks_Voting s; vals = Validators (h_ValidatorSet header) in
      case map_of tempProofs (Hash header) of
        None \<Rightarrow> Panic ''nil pointer dereference''
      | Some p \<Rightarrow>
          let blockPow = snd (signedPower_loop (k_bitset K) (cm_SignatureBitSet C p) vals (Suc (length vals)) 0 (0, 0)) in
          gobind (ByzantineMajority (AvailablePower (rv_VoteSummary v))) (\<lambda>maj.
            if blockPow < maj
            then Ret (Some (ReplayedHeaderValidationError (OtherError ''insufficient vote power'')), w)
            else
              let proofs = fold (\<lambda>(hash, p) m. AList.update hash p m) tempProofs (PrecommitProofs v);
                  s' = s\<lparr>ks_Voting := v\<lparr>PrecommitProofs := proofs,
                         rv_VoteSummary := SetPrecommitPowers C (k_bitset K) (Validators (rv_ValidatorSet v)) proofs (rv_VoteSummary v)\<rparr>\<rparr> in
              gobind (mapToSparseSignatureCollection C proofs) (\<lambda>coll.
                case st_OverwriteRoundPrecommitProofs (k_stores K) (h_Height header) (cp_Round pf) coll (w_stores w) of
                  (Some e, st') \<Rightarrow> Ret (Some (ReplayedHeaderInternalError e), w\<lparr>w_state := s', w_stores := st'\<rparr>)
                | (None, st') \<Rightarrow>
                    gobind (checkVotingPrecommitViewShift K (w\<lparr>w_state := s', w_stores := st'\<rparr>))
                      (\<lambda>(err, w2). Ret (map_option ReplayedHeaderInternalError err, w2)))))"

text \<open>The part of \<open>handleReplayedHeader\<close> after the round has been adjusted. The replayed header is
  appended to the voting view before its voting power is checked.\<close>

definition applyReplayedHeader ::
  "('p, 'b, 's) Kernel \<Rightarrow> Header \<Rightarrow> CommitProof \<Rightarrow> ('p, 's) world \<Rightarrow> (replay_error option \<times> ('p, 's) world) go" where
  "applyReplayedHeader K header pf w =
     (let C = k_cmspScheme K; r = cp_Round pf; s = w_state w in
      case hs_Block (k_hashScheme K) header of
        Inl e \<Rightarrow> Ret (Some (ReplayedHeaderValidationError e), w)
      | Inr expHash \<Rightarrow>
          if expHash \<noteq> Hash header
          then Ret (Some (ReplayedHeaderValidationError (OtherError ''reported block hash different from expected'')), w)
          else gobind (gotryfold (replayProof_step K s header r) (cp_Proofs pf) []) (\<lambda>temp. case temp of
            Inl e \<Rightarrow> Ret (Some e, w)
          | Inr tempProofs \<Rightarrow>
              (let have = list_ex (\<lambda>ph. Hash (ph_Header ph) = Hash header) (ProposedHeaders (ks_Voting s));
                   (err, st) = (if have then (None, w_stores w) else st_SaveRoundReplayedHeader (k_stores K) header (w_stores w));
                   fakePH = zeroProposedHeader\<lparr>ph_Header := header, ph_Round := cp_Round pf\<rparr>;
                   s1 = (if have then s else s\<lparr>ks_Voting := (ks_Voting s)\<lparr>ProposedHeaders := ProposedHeaders (ks_Voting s) @ [fakePH]\<rparr>\<rparr>);
                   w1 = w\<lparr>w_state := s1, w_stores := st\<rparr>
               in case err of
                    Some e \<Rightarrow> Ret (Some (ReplayedHeaderInternalError e), w\<lparr>w_stores := st\<rparr>)
                  | None \<Rightarrow> commitReplayedHeader K header pf tempProofs w1)))"

definition handleReplayedHeader ::
  "('p, 'b, 's) Kernel \<Rightarrow> Header \<Rightarrow> CommitProof \<Rightarrow> ('p, 's) world \<Rightarrow> (replay_error option \<times> ('p, 's) world) go" where
  "handleReplayedHeader K header pf w =
     (let s = w_state w in
      if h_Height header \<noteq> rv_Height (ks_Voting s)
      then Ret (Some (ReplayedHeaderOutOfSyncError (rv_Height (ks_Voting s)) (h_Height header)), w)
      else if cp_Round pf < rv_Round (ks_Voting s) then Panic ''TODO: handle replay for earlier round''
      else if rv_Round (ks_Voting s) < cp_Round pf then
        (case jumpVotingRound K (cp_Round pf) w of
           (Some e, w1) \<Rightarrow> Ret (Some (ReplayedHeaderInternalError e), w1)
         | (None, w1) \<Rightarrow> applyReplayedHeader K header pf w1)
      else applyReplayedHeader K header pf w)"

section \<open>Initialisation\<close>

text \<open>\<open>loadInitialView\<close>; the versions of the embedding view are still zero.\<close>

definition loadInitialView ::
  "('p, 'b, 's) Kernel \<Rightarrow> u64 \<Rightarrow> u32 \<Rightarrow> ValidatorSet \<Rightarrow> 's \<Rightarrow> (go_error + 'p VersionedRoundView \<times> 's) go" where
  "loadInitialView K h r vset st =
     (let C = k_cmspScheme K; vals = Validators vset in
      case (case st_LoadRoundState (k_stores K) st h r of
              Inr x \<Rightarrow> Inr x
            | Inl e \<Rightarrow> if e = RoundUnknownError h r then Inr ([], zeroCollection, zeroCollection) else Inl e) of
        Inl e \<Rightarrow> Ret (Inl e)
      | Inr (phs, sparsePrevotes, sparsePrecommits) \<Rightarrow>
          (case st_SavePubKeys (k_stores K) (ValidatorsToPubKeys vals) st of ((_, err1), st1) \<Rightarrow>
             if (case err1 of None \<Rightarrow> False | Some (PubKeysAlreadyExistError _) \<Rightarrow> False | _ \<Rightarrow> True) then Ret (Inl (the err1))
             else (case st_SaveVotePowers (k_stores K) (ValidatorsToVotePowers vals) st1 of ((_, err2), st2) \<Rightarrow>
               if (case err2 of None \<Rightarrow> False | Some (VotePowersAlreadyExistError _) \<Rightarrow> False | _ \<Rightarrow> True) then Ret (Inl (the err2))
               else gotry (ToFullPrevoteProofMap C (k_sigScheme K) h r vset sparsePrevotes) (\<lambda>pvs.
                    gotry (ToFullPrecommitProofMap C (k_sigScheme K) h r vset sparsePrecommits) (\<lambda>pcs.
                      Ret (Inr (zeroVRV\<lparr>rv_Height := h, rv_Round := r, rv_ValidatorSet := vset, ProposedHeaders := phs,
                        PrevoteProofs := pvs, PrecommitProofs := pcs,
                        rv_VoteSummary := SetPrecommitPowers C (k_bitset K) vals pcs
                          (SetPrevotePowers C (k_bitset K) vals pvs (SetAvailablePower vals NewVoteSummary))\<rparr>, st2)))))))"

text \<open>The committing header: the proposed header of the hash with the most precommit power.\<close>

definition determineCommittingHeader ::
  "('p, 'b, 's) Kernel \<Rightarrow> 'p VersionedRoundView \<Rightarrow> 'p kState \<Rightarrow> 'p kState go" where
  "determineCommittingHeader K rv s =
     (let dist = newVoteDistribution (k_cmspScheme K) (k_bitset K) (PrecommitProofs rv) (Validators (rv_ValidatorSet rv));
          (maxPower, committingHash) = fold (\<lambda>(blockHash, pow) (m, c). if m < pow then (pow, blockHash) else (m, c))
            (BlockVotePower dist) (0, []);
          header = (case find (\<lambda>ph. Hash (ph_Header ph) = committingHash) (ProposedHeaders rv) of
                      None \<Rightarrow> CommittingHeader s | Some ph \<Rightarrow> ph_Header ph)
      in if Hash header = [] then Panic ''BUG: failed to determine committing block''
         else Ret (s\<lparr>CommittingHeader := header\<rparr>))"

definition loadInitialCommittingView ::
  "('p, 'b, 's) Kernel \<Rightarrow> 'p kState \<Rightarrow> 's \<Rightarrow> (go_error + 'p kState \<times> 's) go" where
  "loadInitialCommittingView K s st =
     (let C = k_cmspScheme K; h = rv_Height (ks_Committing s); r = rv_Round (ks_Committing s); ih = k_initialHeight K in
      gobind (if h = ih \<or> h = ih + 1 then Ret (k_initialValSet K)
              else case st_LoadCommittedHeader (k_stores K) st (h - 1) of
                     Inl e \<Rightarrow> Panic ''failed to load committed header'' | Inr ch \<Rightarrow> Ret (NextValidatorSet (ch_Header ch)))
        (\<lambda>vset. gotry (loadInitialView K h r vset st) (\<lambda>(rv, st1).
           let s1 = MarkCommittingViewUpdated C (s\<lparr>ks_Committing := rv\<lparr>PrevoteVersion := 1, PrecommitVersion := 1\<rparr>\<rparr>) in
           if PrecommitProofs rv = [] then Panic ''BUG: loading commit view from disk without any precommits''
           else
             gotry (if ih < h then
                      (case st_LoadCommittedHeader (k_stores K) st1 (h - 1) of
                         Inl e \<Rightarrow> Ret (Inl e)
                       | Inr ch \<Rightarrow> Ret (Inr (s1\<lparr>ks_Committing := (ks_Committing s1)\<lparr>rv_PrevCommitProof := ch_Proof ch\<rparr>\<rparr>)))
                    else Ret (Inr s1))
               (\<lambda>s2. gobind (determineCommittingHeader K rv s2) (\<lambda>s3. Ret (Inr (s3, st1)))))))"

definition loadInitialVotingView ::
  "('p, 'b, 's) Kernel \<Rightarrow> 'p kState \<Rightarrow> 's \<Rightarrow> (go_error + 'p kState \<times> 's) go" where
  "loadInitialVotingView K s st =
     (let C = k_cmspScheme K; h = rv_Height (ks_Voting s); r = rv_Round (ks_Voting s); ih = k_initialHeight K;
          vset = (if h = ih \<or> h = ih + 1 then k_initialValSet K else h_ValidatorSet (CommittingHeader s)) in
      if Validators vset = [] then Panic ''BUG: no validators available when loading initial Voting View''
      else
        gotry (loadInitialView K h r vset st) (\<lambda>(rv, st1).
        gotry (loadInitialView K h (r + 1) vset st1) (\<lambda>(nrrv, st2).
          let s1 = MarkVotingViewUpdated C (s\<lparr>ks_Voting := rv\<lparr>PrevoteVersion := 1, PrecommitVersion := 1\<rparr>\<rparr>);
              s2 = MarkNextRoundViewUpdated C (s1\<lparr>ks_NextRound := nrrv\<lparr>PrevoteVersion := 1, PrecommitVersion := 1\<rparr>\<rparr>)
          in Ret (Inr (s2, st2)))))"

text \<open>The heights and rounds to start from: the stored ones, or the initial ones, which are then stored.\<close>

definition loadNetworkHeightRound ::
  "('p, 'b, 's) Kernel \<Rightarrow> 's \<Rightarrow> go_error + (u64 \<times> u32 \<times> u64 \<times> u32) \<times> 's" where
  "loadNetworkHeightRound K st =
     (case st_NetworkHeightRound (k_stores K) st of
        Inr nhr \<Rightarrow> Inr (nhr, st)
      | Inl e \<Rightarrow>
          if e \<noteq> ErrStoreUninitialized then Inl e
          else (case st_SetNetworkHeightRound (k_stores K) (k_initialHeight K) 0 0 0 st of
                  (Some e, st') \<Rightarrow> Inl e
                | (None, st') \<Rightarrow> Inr ((k_initialHeight K, 0, 0, 0), st')))"

text \<open>The commit proof of the committing round, for the voting view.\<close>

definition loadCommittingProof :: "('p, 'b, 's) Kernel \<Rightarrow> u64 \<Rightarrow> u32 \<Rightarrow> 's \<Rightarrow> go_error + CommitProof" where
  "loadCommittingProof K ch cr st =
     (case st_LoadRoundState (k_stores K) st ch cr of
        Inr (_, _, precommits) \<Rightarrow>
          Inr \<lparr>cp_Round = cr, cp_PubKeyHash = ssc_PubKeyHash precommits, cp_Proofs = BlockSignatures precommits\<rparr>
      | Inl (RoundUnknownError _ _) \<Rightarrow> Inr zeroCommitProof
      | Inl e \<Rightarrow> Inl e)"

text \<open>The seed of the state: the heights and rounds of the committing and voting views.\<close>

definition initState :: "bool \<Rightarrow> u64 \<times> u32 \<times> u64 \<times> u32 \<Rightarrow> 'p kState" where
  "initState lagOut nhr = (case nhr of (vh, vr, ch, cr) \<Rightarrow>
     \<lparr>ks_Committing = zeroVRV\<lparr>rv_Height := ch, rv_Round := cr\<rparr>, ks_Voting = zeroVRV\<lparr>rv_Height := vh, rv_Round := vr\<rparr>,
      ks_NextRound = zeroVRV, InFlightFetchPHs = [], CommittingHeader = zeroHeader,
      ks_smvm = newStateMachineViewManager, ks_gvm = newGossipViewManager, ks_lag = newLagManager lagOut\<rparr>)"

text \<open>\<open>NewKernel\<close> up to the start of the main loop. The voting and the next round view get equal previous commit proofs; that the code gives them
  the same map is not modelled.\<close>

definition NewKernel ::
  "('p, 'b, 's) Kernel \<Rightarrow> bool \<Rightarrow> nat \<Rightarrow> 's \<Rightarrow> (go_error + ('p, 's) world) go" where
  "NewKernel K lagOut fetchCap st =
     (if Validators (k_initialValSet K) = [] then Panic ''BUG: initial validator set is empty''
      else
        gotry (Ret (loadNetworkHeightRound K st)) (\<lambda>((vh, vr, ch, cr), st0).
        gotry (Ret (loadCommittingProof K ch cr st0)) (\<lambda>committingProof.
        let init = initState lagOut (vh, vr, ch, cr) in
        gotry (if k_initialHeight K \<le> ch then loadInitialCommittingView K init st0 else Ret (Inr (init, st0))) (\<lambda>(s1, st1).
        gotry (loadInitialVotingView K s1 st1) (\<lambda>(s2, st2).
          let s3 = s2\<lparr>ks_Voting := (ks_Voting s2)\<lparr>rv_PrevCommitProof := committingProof\<rparr>,
                      ks_NextRound := (ks_NextRound s2)\<lparr>rv_PrevCommitProof := committingProof\<rparr>\<rparr>
          in case updateObservers K \<lparr>w_state = s3, w_stores = st2, w_fetchFree = fetchCap, w_fetchRequests = []\<rparr> of
               (Some e, w) \<Rightarrow> Ret (Inl e)
             | (None, w) \<Rightarrow> Ret (Inr w))))))"

end
