(* ===== verification/KernelInv.thy ===== *)
theory KernelInv
  imports Kernel
begin

text \<open>
  The invariant of the mirror kernel and what a commit needs. \<open>kinv\<close> says that the views are aligned
  and carry current vote summaries; \<open>kpost\<close> says what one handler may do to the committing view:
  leave its height alone, or commit the voting height, justified by a majority of precommits. Every
  handler is shown to satisfy \<open>kpost\<close>; the main loop is a step relation, and the invariant holds in
  every state it reaches from \<open>NewKernel\<close>.
\<close>

section \<open>Invariant and postcondition\<close>

definition kinv :: "('p, 'b, 's) Kernel \<Rightarrow> ('p, 's) world \<Rightarrow> bool" where
  "kinv K w \<longleftrightarrow> aligned (k_cmspScheme K) (k_bitset K) (w_state w) \<and> heights_ok (w_state w)"

text \<open>The header being committed was proposed in the round that is being committed, and its hash is not
  nil and has a Byzantine majority of the precommit power of that round.\<close>

definition commit_justified :: "('p, 'b) cmsp \<Rightarrow> 'b bitset_ops \<Rightarrow> 'p kState \<Rightarrow> bool" where
  "commit_justified C B s \<longleftrightarrow>
     summary_ok C B (ks_Committing s) \<and> Hash (CommittingHeader s) \<noteq> [] \<and>
     (\<exists>ph \<in> set (ProposedHeaders (ks_Committing s)). ph_Header ph = CommittingHeader s) \<and>
     (\<exists>maj. ByzantineMajority (AvailablePower (rv_VoteSummary (ks_Committing s))) = Ret maj \<and>
        maj \<le> lookup0 (PrecommitBlockPower (rv_VoteSummary (ks_Committing s))) (Hash (CommittingHeader s))) \<and>
     rv_Height (ks_Voting s) = rv_Height (ks_Committing s) + 1 \<and> rv_Round (ks_Voting s) = 0 \<and>
     rv_ValidatorSet (ks_Voting s) = NextValidatorSet (CommittingHeader s)"

definition kpost :: "('p, 'b, 's) Kernel \<Rightarrow> ('p, 's) world \<Rightarrow> ('p, 's) world \<Rightarrow> bool" where
  "kpost K w w' \<longleftrightarrow> kinv K w' \<and>
     (rv_Height (ks_Committing (w_state w')) = rv_Height (ks_Committing (w_state w)) \<and>
      CommittingHeader (w_state w') = CommittingHeader (w_state w) \<and>
      rv_Height (ks_Voting (w_state w')) = rv_Height (ks_Voting (w_state w)) \<and>
      rv_ValidatorSet (ks_Voting (w_state w')) = rv_ValidatorSet (ks_Voting (w_state w)) \<or>
      commit_justified (k_cmspScheme K) (k_bitset K) (w_state w') \<and>
      rv_Height (ks_Committing (w_state w')) = rv_Height (ks_Voting (w_state w)) \<and>
      rv_ValidatorSet (ks_Committing (w_state w')) = rv_ValidatorSet (ks_Voting (w_state w)))"

text \<open>Worlds with the same heights and committing header, as far as \<open>kpost\<close> reads the earlier one.\<close>

definition same_heights :: "('p, 's) world \<Rightarrow> ('p, 's) world \<Rightarrow> bool" where
  "same_heights w w1 \<longleftrightarrow>
     rv_Height (ks_Committing (w_state w1)) = rv_Height (ks_Committing (w_state w)) \<and>
     CommittingHeader (w_state w1) = CommittingHeader (w_state w) \<and>
     rv_Height (ks_Voting (w_state w1)) = rv_Height (ks_Voting (w_state w)) \<and>
     rv_ValidatorSet (ks_Voting (w_state w1)) = rv_ValidatorSet (ks_Voting (w_state w))"

lemma kpost_refl: "kinv K w' \<Longrightarrow> same_heights w w' \<Longrightarrow> kpost K w w'"
  by (simp add: kpost_def same_heights_def)

lemma kpost_trans: "same_heights w w1 \<Longrightarrow> kpost K w1 w2 \<Longrightarrow> kpost K w w2"
  by (auto simp: kpost_def same_heights_def)

lemma go_post_kpost_trans:
  "same_heights w w1 \<Longrightarrow> go_post (\<lambda>(r, w'). kpost K w1 w') m \<Longrightarrow> go_post (\<lambda>(r, w'). kpost K w w') m"
  by (erule go_post_mono) (auto intro: kpost_trans)

lemma kinv_cong:
  assumes "ks_Voting (w_state w') = ks_Voting (w_state w)" "ks_NextRound (w_state w') = ks_NextRound (w_state w)"
    and "rv_Height (ks_Committing (w_state w')) = rv_Height (ks_Committing (w_state w))"
  shows "kinv K w' = kinv K w"
  using assms by (simp add: kinv_def aligned_def heights_ok_def)

section \<open>Steps that the handlers share\<close>

lemma updateObservers_state [simp]: "w_state (snd (updateObservers K w)) = w_state w"
  by (simp add: updateObservers_def Let_def split: prod.split)

lemma updateObservers_state' [simp]: "updateObservers K w = (e, w') \<Longrightarrow> w_state w' = w_state w"
  by (metis snd_conv updateObservers_state)

lemma saveCurrentCommittingHeader_state:
  "saveCurrentCommittingHeader K w = (e, w') \<Longrightarrow> w_state w' = w_state w"
  by (auto simp: saveCurrentCommittingHeader_def Let_def split: prod.splits)

lemma advanceVotingRound_post:
  assumes "kinv K w"
  shows "kpost K w (snd (advanceVotingRound K w))"
proof (rule kpost_refl)
  have al: "aligned (k_cmspScheme K) (k_bitset K) (w_state w)" and hs: "heights_ok (w_state w)"
    using assms by (auto simp: kinv_def)
  show "kinv K (snd (advanceVotingRound K w))"
    using aligned_Advance[OF al] heights_ok_Jump_Advance(2)[OF al hs]
    by (simp add: advanceVotingRound_def kinv_def)
  show "same_heights w (snd (advanceVotingRound K w))"
    using al by (simp add: advanceVotingRound_def same_heights_def Jump_Advance_views
        incrementVotingRound_views aligned_def)
qed

lemma jumpVotingRound_post:
  assumes "kinv K w" and "jumpVotingRound K r w = (e, w1)"
  shows "kinv K w1" and "same_heights w w1"
proof -
  have al: "aligned (k_cmspScheme K) (k_bitset K) (w_state w)" and hs: "heights_ok (w_state w)"
    using assms by (auto simp: kinv_def)
  have st: "w_state w1 = JumpVotingRound (k_cmspScheme K) (w_state w)"
    using assms(2) by (auto simp: jumpVotingRound_def dest: updateObservers_state')
  show "kinv K w1"
    using aligned_Jump[OF al] heights_ok_Jump_Advance(1)[OF al hs] by (simp add: kinv_def st)
  show "same_heights w w1"
    using al by (simp add: same_heights_def st Jump_Advance_views incrementVotingRound_views aligned_def)
qed

lemma requestFetch_views [simp]:
  "ks_Voting (w_state (requestFetch h w)) = ks_Voting (w_state w)"
  "ks_NextRound (w_state (requestFetch h w)) = ks_NextRound (w_state w)"
  "ks_Committing (w_state (requestFetch h w)) = ks_Committing (w_state w)"
  "CommittingHeader (w_state (requestFetch h w)) = CommittingHeader (w_state w)"
  by (simp_all add: requestFetch_def)

lemma fold_requestFetch_views:
  fixes hs :: "bytes list" and w :: "('p, 's) world" and P :: "bytes \<Rightarrow> bool"
  defines "g \<equiv> fold (\<lambda>h w'. if P h then w' else requestFetch h w') hs w"
  shows "ks_Voting (w_state g) = ks_Voting (w_state w)"
    and "ks_NextRound (w_state g) = ks_NextRound (w_state w)"
    and "ks_Committing (w_state g) = ks_Committing (w_state w)"
    and "CommittingHeader (w_state g) = CommittingHeader (w_state w)"
  unfolding g_def by (induction hs arbitrary: w) auto

lemma checkMissingPHs_views:
  assumes "checkMissingPHs K proofs w = Ret w'"
  shows "ks_Voting (w_state w') = ks_Voting (w_state w)"
    and "ks_NextRound (w_state w') = ks_NextRound (w_state w)"
    and "ks_Committing (w_state w') = ks_Committing (w_state w)"
    and "CommittingHeader (w_state w') = CommittingHeader (w_state w)"
  using assms by (auto simp: checkMissingPHs_def Let_def fold_requestFetch_views split: if_splits)

lemma checkMissingPHs_post:
  assumes "kinv K w" and "checkMissingPHs K proofs w = Ret w'"
  shows "kinv K w'" and "same_heights w w'"
  using assms checkMissingPHs_views[OF assms(2)] kinv_cong[of w' w K] by (auto simp: same_heights_def)

text \<open>A successful shift from the voting view, as the precommit check performs it.\<close>

lemma shift_justified:
  assumes "kinv K w" and "w_state w' = s'"
    and maj: "ByzantineMajority (AvailablePower (rv_VoteSummary (ks_Voting (w_state w)))) = Ret maj"
      "maj \<le> lookup0 (PrecommitBlockPower (rv_VoteSummary (ks_Voting (w_state w)))) (Hash (ph_Header ph))"
      "Hash (ph_Header ph) \<noteq> []"
    and ph: "ph \<in> set (ProposedHeaders (ks_Voting (w_state w)))"
    and sh: "ShiftVotingToCommitting (k_cmspScheme K)
        \<lparr>nhd_ValidatorSet = NextValidatorSet (ph_Header ph), nhd_VotedHeader = ph_Header ph\<rparr> (w_state w) = Ret s'"
  shows "kpost K w w'"
proof -
  note v = ShiftVotingToCommitting_views[OF sh]
  have "summary_ok (k_cmspScheme K) (k_bitset K) (ks_Voting (w_state w))"
    using assms(1) by (simp add: kinv_def aligned_def)
  then have "commit_justified (k_cmspScheme K) (k_bitset K) s'"
    using v maj ph unfolding commit_justified_def by auto
  then show ?thesis
    using v(1,9) heights_ok_Shift[OF sh] by (simp add: kpost_def kinv_def assms(2))
qed

lemma checkVotingPrecommitViewShift_post:
  assumes inv: "kinv K w" and run: "checkVotingPrecommitViewShift K w = Ret (e, w')"
  shows "kpost K w w'"
proof -
  let ?v = "ks_Voting (w_state w)"
  let ?vs = "rv_VoteSummary ?v"
  let ?hash = "MostVotedPrecommitHash ?vs"
  have adv: "kpost K w w'" if "advanceVotingRound K w = (e, w')"
    using advanceVotingRound_post[OF inv] that by simp
  have stay: "kpost K w w" using inv by (simp add: kpost_refl same_heights_def)
  obtain maj where maj: "ByzantineMajority (AvailablePower ?vs) = Ret maj"
    using run by (auto simp: checkVotingPrecommitViewShift_def Let_def)
  note eqs = run[unfolded checkVotingPrecommitViewShift_def Let_def maj gobind.simps]
  show ?thesis
  proof (cases "lookup0 (PrecommitBlockPower ?vs) ?hash < maj \<or> ?hash = []")
    case True
    then show ?thesis using eqs adv stay by (auto split: if_splits)
  next
    case False
    show ?thesis
    proof (cases "find (\<lambda>ph. Hash (ph_Header ph) = ?hash) (ProposedHeaders ?v)")
      case None
      then show ?thesis using eqs False stay by simp
    next
      case (Some ph)
      then have ph: "ph \<in> set (ProposedHeaders ?v)" "Hash (ph_Header ph) = ?hash"
        by (auto simp: find_Some_iff)
      obtain s' where sh: "ShiftVotingToCommitting (k_cmspScheme K)
          \<lparr>nhd_ValidatorSet = NextValidatorSet (ph_Header ph), nhd_VotedHeader = ph_Header ph\<rparr> (w_state w) = Ret s'"
        and rest: "(case saveCurrentCommittingHeader K (w\<lparr>w_state := s'\<rparr>) of
            (Some e, w1) \<Rightarrow> Ret (Some e, w1) | (None, w1) \<Rightarrow> Ret (updateObservers K w1)) = Ret (e, w')"
        using eqs False Some ph(2) by auto
      obtain e1 w1 where sv: "saveCurrentCommittingHeader K (w\<lparr>w_state := s'\<rparr>) = (e1, w1)" by fastforce
      have w': "w' = w1 \<or> updateObservers K w1 = (e, w')"
        using rest unfolding sv by (cases e1) auto
      have "w_state w' = s'"
        using w' saveCurrentCommittingHeader_state[OF sv] by (auto dest: updateObservers_state')
      then show ?thesis
        using shift_justified[OF inv _ maj, of w' s' ph] False ph sh by (simp add: not_less)
    qed
  qed
qed

lemma checkNextRoundPrecommitViewShift_post:
  assumes inv: "kinv K w" and run: "checkNextRoundPrecommitViewShift K w = Ret (e, w')"
  shows "kpost K w w'"
proof -
  obtain e1 w1 where j: "jumpVotingRound K (rv_Round (ks_NextRound (w_state w)) + 1) w = (e1, w1)" by fastforce
  note jp = jumpVotingRound_post[OF inv j]
  have "w' = w \<or> w' = w1 \<or> (\<exists>proofs. checkMissingPHs K proofs w1 = Ret w')"
    using run unfolding checkNextRoundPrecommitViewShift_def Let_def j
    by (cases e1) (auto split: if_splits)
  then show ?thesis
    using inv jp checkMissingPHs_post[OF jp(1)]
    by (auto intro!: kpost_refl simp: same_heights_def)
qed

lemma checkPrevoteViewShift_post:
  assumes inv: "kinv K w" and run: "checkPrevoteViewShift K vid w = Ret (e, w')"
  shows "kpost K w w'"
proof -
  obtain e1 w1 where j: "jumpVotingRound K (rv_Round (ks_NextRound (w_state w)) + 1) w = (e1, w1)" by fastforce
  note jp = jumpVotingRound_post[OF inv j]
  have "w' = w \<or> w' = w1 \<or> (\<exists>proofs. checkMissingPHs K proofs w1 = Ret w')"
    using run unfolding checkPrevoteViewShift_def Let_def j
    by (cases e1) (auto split: if_splits)
  then show ?thesis
    using inv jp checkMissingPHs_post[OF jp(1)]
    by (auto intro!: kpost_refl simp: same_heights_def)
qed

section \<open>Updating one view\<close>

text \<open>A new value for a view that keeps its height, round, validators and previous commit proof, and
  whose vote summary is current when the old one was.\<close>

definition view_update :: "('p, 'b) cmsp \<Rightarrow> 'b bitset_ops \<Rightarrow> 'p VersionedRoundView \<Rightarrow> 'p VersionedRoundView \<Rightarrow> bool" where
  "view_update C B v v' \<longleftrightarrow> rv_Height v' = rv_Height v \<and> rv_Round v' = rv_Round v \<and>
     rv_ValidatorSet v' = rv_ValidatorSet v \<and> rv_PrevCommitProof v' = rv_PrevCommitProof v \<and>
     (summary_ok C B v \<longrightarrow> summary_ok C B v')"

text \<open>Every view of \<open>s'\<close> is an update of the view of \<open>s\<close>; the committing header is the same.\<close>

definition state_update :: "('p, 'b) cmsp \<Rightarrow> 'b bitset_ops \<Rightarrow> 'p kState \<Rightarrow> 'p kState \<Rightarrow> bool" where
  "state_update C B s s' \<longleftrightarrow> view_update C B (ks_Voting s) (ks_Voting s') \<and>
     view_update C B (ks_NextRound s) (ks_NextRound s') \<and>
     rv_Height (ks_Committing s') = rv_Height (ks_Committing s) \<and> CommittingHeader s' = CommittingHeader s"

lemma view_update_refl [simp]: "view_update C B v v"
  by (simp add: view_update_def)

lemma view_update_bump [simp]: "view_update C B v (bump_version v)"
  by (simp add: view_update_def)

lemma view_update_trans: "view_update C B u v \<Longrightarrow> view_update C B v v' \<Longrightarrow> view_update C B u v'"
  by (simp add: view_update_def)

lemma state_update_refl [simp]: "state_update C B s s"
  by (simp add: state_update_def)

lemma state_update_trans: "state_update C B s t \<Longrightarrow> state_update C B t u \<Longrightarrow> state_update C B s u"
  by (auto simp: state_update_def intro: view_update_trans)

lemma state_update_kinv:
  assumes "kinv K w" and "state_update (k_cmspScheme K) (k_bitset K) (w_state w) (w_state w')"
  shows "kinv K w'" and "same_heights w w'"
  using assms by (auto simp: kinv_def state_update_def view_update_def aligned_def heights_ok_def same_heights_def)

lemma state_update_set_kview:
  "view_update C B (kview s vid) v' \<Longrightarrow> state_update C B s (set_kview vid v' s)"
  by (cases vid) (auto simp: state_update_def kview_def set_kview_def view_update_def)

lemma state_update_Mark: "MarkViewUpdated C vid s = Ret s' \<Longrightarrow> state_update C B s s'"
  by (cases vid) (auto simp: MarkViewUpdated_def state_update_def)

lemma state_update_MarkCommitting: "state_update C B s (MarkCommittingViewUpdated C s)"
  by (simp add: state_update_def)

lemma summary_ok_headers [simp]: "summary_ok C B (v\<lparr>ProposedHeaders := phs\<rparr>) = summary_ok C B v"
  by (simp add: summary_ok_def fresh_summary_def)

lemma view_update_headers [simp]: "view_update C B v (v\<lparr>ProposedHeaders := phs\<rparr>)"
  by (simp add: view_update_def)

lemma view_update_prevotes:
  "(gomap_ok (PrevoteProofs v) \<Longrightarrow> gomap_ok pvs) \<Longrightarrow> view_update C B v (v\<lparr>PrevoteProofs := pvs, PrevoteBlockVersions := bv,
      rv_VoteSummary := SetPrevotePowers C B (Validators (rv_ValidatorSet v)) pvs (rv_VoteSummary v)\<rparr>)"
  using summary_ok_set_prevotes[of C B v pvs] by (simp add: view_update_def summary_ok_def)

lemma view_update_precommits:
  "(gomap_ok (PrecommitProofs v) \<Longrightarrow> gomap_ok pcs) \<Longrightarrow> view_update C B v (v\<lparr>PrecommitProofs := pcs, PrecommitBlockVersions := bv,
      rv_VoteSummary := SetPrecommitPowers C B (Validators (rv_ValidatorSet v)) pcs (rv_VoteSummary v)\<rparr>)"
  using summary_ok_set_precommits[of C B v pcs] by (simp add: view_update_def summary_ok_def)

section \<open>Proposed headers\<close>

lemma backfillCommit_update:
  assumes "backfillCommit K ph w = Ret w'"
  shows "state_update (k_cmspScheme K) (k_bitset K) (w_state w) (w_state w')"
  using assms by (auto simp: backfillCommit_def Let_def state_update_def case_prod_unfold split: if_splits)

lemma state_update_post:
  assumes inv: "kinv K w" and up: "state_update (k_cmspScheme K) (k_bitset K) (w_state w) (w_state w1)"
  shows "kpost K w w1" and "kpost K w1 w' \<Longrightarrow> kpost K w w'"
  using state_update_kinv[OF assms] kpost_refl kpost_trans by blast+

lemma afterProposedHeader_post:
  assumes inv: "kinv K w" and run: "afterProposedHeader K ph vid w = Ret w'"
  shows "kpost K w w'"
proof (cases "vid = ViewIDVoting \<or> vid = ViewIDNextRound")
  case False
  then show ?thesis using run inv by (auto simp: afterProposedHeader_def kpost_refl same_heights_def)
next
  case True
  let ?s = "w_state w"
  let ?w0 = "w\<lparr>w_state := ?s\<lparr>ks_lag := lag_SetState LagStatusUpToDate (rv_Height (ks_Committing ?s)) 0 (ks_lag ?s)\<rparr>\<rparr>"
  obtain w1 where bf: "backfillCommit K ph ?w0 = Ret w1"
    and w': "w' = w1 \<or> (\<exists>e. checkVotingPrecommitViewShift K w1 = Ret (e, w'))"
    using run True by (auto simp: afterProposedHeader_def Let_def split: if_splits)
  have up: "state_update (k_cmspScheme K) (k_bitset K) (w_state w) (w_state w1)"
    using backfillCommit_update[OF bf] by (simp add: state_update_def)
  show ?thesis
    using w' state_update_post[OF inv up] state_update_kinv(1)[OF inv up] checkVotingPrecommitViewShift_post by blast
qed

lemma addProposedHeader_post:
  assumes inv: "kinv K w" and run: "addProposedHeader K ph w = Ret w'"
  shows "kpost K w w'"
proof -
  let ?C = "k_cmspScheme K" and ?B = "k_bitset K"
  let ?s0 = "(w_state w)\<lparr>InFlightFetchPHs := removeAll (Hash (ph_Header ph)) (InFlightFetchPHs (w_state w))\<rparr>"
  have base: "state_update ?C ?B (w_state w) ?s0" by (simp add: state_update_def)
  obtain vid status where fv: "FindView ?s0 (h_Height (ph_Header ph)) (ph_Round ph) = Ret (vid, status)"
    using run by (auto simp: addProposedHeader_def Let_def)
  let ?v = "kview ?s0 vid"
  let ?s1 = "set_kview vid (?v\<lparr>ProposedHeaders := ProposedHeaders ?v @ [ph]\<rparr>) ?s0"
  note eqs = run[unfolded addProposedHeader_def Let_def fv gobind.simps prod.case]
  have s1: "state_update ?C ?B (w_state w) ?s1"
    using state_update_trans[OF base state_update_set_kview] by simp
  show ?thesis
  proof (cases "vid = ViewIDNotFound \<or> list_ex (\<lambda>have. Signature have = Signature ph) (ProposedHeaders ?v)")
    case True
    then have "w_state w' = ?s0" using eqs by (auto split: if_splits)
    then show ?thesis using state_update_post(1)[OF inv, of w'] base by simp
  next
    case False
    obtain s2 st where s2: "MarkViewUpdated ?C vid ?s1 = Ret s2"
      and rest: "afterProposedHeader K ph vid (w\<lparr>w_state := s2, w_stores := st\<rparr>) = Ret w'"
      using eqs False by (auto split: if_splits)
    have up: "state_update ?C ?B (w_state w) (w_state (w\<lparr>w_state := s2, w_stores := st\<rparr>))"
      using state_update_trans[OF s1 state_update_Mark[OF s2]] by simp
    show ?thesis
      using state_update_post(2)[OF inv up] afterProposedHeader_post[OF state_update_kinv(1)[OF inv up] rest] by blast
  qed
qed

section \<open>Votes\<close>

lemma applyUpdate_gomap_ok:
  "fold applyUpdate us (ps, vs, a, b) = (ps', vs', a', b') \<Longrightarrow> gomap_ok ps \<Longrightarrow> gomap_ok ps'"
proof (induction us arbitrary: ps vs a b)
  case Nil
  then show ?case by simp
next
  case (Cons u us)
  obtain ps1 vs1 a1 b1 where one: "applyUpdate u (ps, vs, a, b) = (ps1, vs1, a1, b1)" by (metis prod.exhaust)
  then have "gomap_ok ps1" using Cons.prems(2)
    by (cases u) (auto simp: applyUpdate_def split: if_splits)
  then show ?case using Cons.IH[of ps1 vs1 a1 b1] Cons.prems(1) one by simp
qed

lemma FindView_outdated_or_found:
  "FindView s h r = Ret (vid, ViewFound) \<Longrightarrow> vid \<in> {ViewIDVoting, ViewIDNextRound, ViewIDCommitting}"
  by (auto simp: FindView_def Let_def split: if_splits)

lemma prevoteBookkeeping_update:
  assumes "prevoteBookkeeping K vid req pvs bvs w = Ret w1"
    and "gomap_ok (PrevoteProofs (kview (w_state w) vid)) \<Longrightarrow> gomap_ok pvs"
  shows "state_update (k_cmspScheme K) (k_bitset K) (w_state w) (w_state w1)"
proof -
  let ?C = "k_cmspScheme K" and ?B = "k_bitset K" and ?v = "kview (w_state w) vid"
  let ?v' = "?v\<lparr>PrevoteProofs := pvs, PrevoteBlockVersions := bvs,
    rv_VoteSummary := SetPrevotePowers ?C ?B (Validators (rv_ValidatorSet ?v)) pvs (rv_VoteSummary ?v)\<rparr>"
  have "MarkViewUpdated ?C vid (set_kview vid ?v' (w_state w)) = Ret (w_state w1)"
    using assms(1) by (auto simp: prevoteBookkeeping_def Let_def)
  moreover have "view_update ?C ?B ?v ?v'" using assms(2) by (intro view_update_prevotes)
  ultimately show ?thesis
    using state_update_set_kview[of ?C ?B "w_state w" vid ?v'] state_update_Mark state_update_trans by blast
qed

lemma prevoteShift_post:
  assumes inv: "kinv K w" and run: "prevoteShift K vid res w = Ret (res', w')"
  shows "kpost K w w'"
  using run inv checkPrevoteViewShift_post[OF inv]
  by (auto simp: prevoteShift_def kpost_refl same_heights_def split: if_splits)

lemma addPrevote_post:
  assumes inv: "kinv K w" and run: "addPrevote K req w = Ret (res, w')"
  shows "kpost K w w'"
proof -
  let ?C = "k_cmspScheme K" and ?B = "k_bitset K" and ?s = "w_state w"
  obtain vid status where fv: "FindView ?s (av_H req) (av_R req) = Ret (vid, status)"
    using run by (auto simp: addPrevote_def Let_def)
  let ?v = "kview ?s vid"
  obtain pvs bvs a b where f: "fold applyUpdate (av_Updates req) (PrevoteProofs ?v, PrevoteBlockVersions ?v, True, False) = (pvs, bvs, a, b)"
    by (metis prod.exhaust)
  note eqs = run[unfolded addPrevote_def Let_def fv gobind.simps prod.case f]
  have stay: "kpost K w w" using inv by (simp add: kpost_refl same_heights_def)
  show ?thesis
  proof (cases "status = ViewFound")
    case False
    then show ?thesis using eqs stay by (auto split: if_splits)
  next
    case True
    obtain w1 w2 where head: "(if b then prevoteBookkeeping K vid req pvs bvs w else Ret w) = Ret w1"
      and w2: "checkMissingPHs K (PrevoteProofs (kview (w_state w1) vid)) w1 = Ret w2"
      and w': "prevoteShift K vid (if a then AddVoteAccepted else AddVoteConflict) w2 = Ret (res, w')"
      using eqs True by auto
    have up: "state_update ?C ?B ?s (w_state w1)"
      using head prevoteBookkeeping_update[of K vid req pvs bvs w w1] applyUpdate_gomap_ok[OF f]
      by (auto split: if_splits)
    note i1 = state_update_kinv(1)[OF inv up]
    note m = checkMissingPHs_post[OF i1 w2]
    have "kpost K w1 w'" using kpost_trans[OF m(2) prevoteShift_post[OF m(1) w']] .
    then show ?thesis by (rule state_update_post(2)[OF inv up])
  qed
qed

lemma precommitBookkeeping_update:
  assumes "precommitBookkeeping K vid req pcs bvs w = Ret w1"
    and "gomap_ok (PrecommitProofs (kview (w_state w) vid)) \<Longrightarrow> gomap_ok pcs"
  shows "state_update (k_cmspScheme K) (k_bitset K) (w_state w) (w_state w1)"
proof -
  let ?C = "k_cmspScheme K" and ?B = "k_bitset K" and ?v = "kview (w_state w) vid"
  let ?v' = "?v\<lparr>PrecommitProofs := pcs, PrecommitBlockVersions := bvs,
    rv_VoteSummary := SetPrecommitPowers ?C ?B (Validators (rv_ValidatorSet ?v)) pcs (rv_VoteSummary ?v)\<rparr>"
  have "MarkViewUpdated ?C vid (set_kview vid ?v' (w_state w)) = Ret (w_state w1)"
    using assms(1) by (auto simp: precommitBookkeeping_def Let_def)
  moreover have "view_update ?C ?B ?v ?v'" using assms(2) by (intro view_update_precommits)
  ultimately show ?thesis
    using state_update_set_kview[of ?C ?B "w_state w" vid ?v'] state_update_Mark state_update_trans by blast
qed

lemma precommitShift_post:
  assumes inv: "kinv K w" and run: "precommitShift K vid res w = Ret (res', w')"
  shows "kpost K w w'"
  using run inv checkVotingPrecommitViewShift_post[OF inv] checkNextRoundPrecommitViewShift_post[OF inv]
  by (cases vid) (auto simp: precommitShift_def kpost_refl same_heights_def split: if_splits)

lemma addPrecommit_post:
  assumes inv: "kinv K w" and run: "addPrecommit K req w = Ret (res, w')"
  shows "kpost K w w'"
proof -
  let ?C = "k_cmspScheme K" and ?B = "k_bitset K" and ?s = "w_state w"
  obtain vid status where fv: "FindView ?s (av_H req) (av_R req) = Ret (vid, status)"
    using run by (auto simp: addPrecommit_def Let_def)
  let ?v = "kview ?s vid"
  obtain pcs bvs a b where f: "fold applyUpdate (av_Updates req) (PrecommitProofs ?v, PrecommitBlockVersions ?v, True, False) = (pcs, bvs, a, b)"
    by (metis prod.exhaust)
  note eqs = run[unfolded addPrecommit_def Let_def fv gobind.simps prod.case f]
  have stay: "kpost K w w" using inv by (simp add: kpost_refl same_heights_def)
  show ?thesis
  proof (cases "status = ViewFound")
    case False
    then show ?thesis using eqs stay by (auto split: if_splits)
  next
    case True
    obtain w1 w2 where head: "(if b then precommitBookkeeping K vid req pcs bvs w else Ret w) = Ret w1"
      and w2: "checkMissingPHs K (PrecommitProofs (kview (w_state w1) vid)) w1 = Ret w2"
      and w': "precommitShift K vid (if a then AddVoteAccepted else AddVoteConflict) w2 = Ret (res, w')"
      using eqs True by auto
    have up: "state_update ?C ?B ?s (w_state w1)"
      using head precommitBookkeeping_update[of K vid req pcs bvs w w1] applyUpdate_gomap_ok[OF f]
      by (auto split: if_splits)
    note i1 = state_update_kinv(1)[OF inv up]
    note m = checkMissingPHs_post[OF i1 w2]
    have "kpost K w1 w'" using kpost_trans[OF m(2) precommitShift_post[OF m(1) w']] .
    then show ?thesis by (rule state_update_post(2)[OF inv up])
  qed
qed

section \<open>The state machine's requests\<close>

lemma handleStateMachineRoundEntrance_post:
  assumes inv: "kinv K w" and run: "handleStateMachineRoundEntrance K re w = Ret (resp, w')"
  shows "kpost K w w'"
proof -
  have "state_update (k_cmspScheme K) (k_bitset K) (w_state w) (w_state w')"
    using run by (auto simp: handleStateMachineRoundEntrance_def Let_def state_update_def split: if_splits sum.splits)
  then show ?thesis by (rule state_update_post(1)[OF inv])
qed

lemma handleStateMachineAction_post:
  assumes inv: "kinv K w" and run: "handleStateMachineAction K act w = Ret w'"
  shows "kpost K w w'"
proof -
  have "w' = w \<or> (\<exists>ph. addProposedHeader K ph w = Ret w') \<or> (\<exists>req res. addPrevote K req w = Ret (res, w')) \<or>
      (\<exists>req res. addPrecommit K req w = Ret (res, w'))"
    using run by (auto simp: handleStateMachineAction_def Let_def split: if_splits option.splits)
  then show ?thesis
    using inv addProposedHeader_post[OF inv] addPrevote_post[OF inv] addPrecommit_post[OF inv]
    by (auto simp: kpost_refl same_heights_def)
qed

section \<open>Replayed headers\<close>

lemma gomap_ok_fold_update: "gomap_ok m \<Longrightarrow> gomap_ok (fold (\<lambda>(hash, p) m. AList.update hash p m) xs m)"
  by (induction xs arbitrary: m) auto

lemma commitReplayedHeader_post:
  assumes inv: "kinv K w" and run: "commitReplayedHeader K header pf temp w = Ret (e, w')"
  shows "kpost K w w'"
proof -
  let ?C = "k_cmspScheme K" and ?B = "k_bitset K" and ?v = "ks_Voting (w_state w)"
  let ?proofs = "fold (\<lambda>(hash, p) m. AList.update hash p m) temp (PrecommitProofs ?v)"
  let ?v' = "?v\<lparr>PrecommitProofs := ?proofs,
    rv_VoteSummary := SetPrecommitPowers ?C ?B (Validators (rv_ValidatorSet ?v)) ?proofs (rv_VoteSummary ?v)\<rparr>"
  have "view_update ?C ?B ?v (?v\<lparr>PrecommitProofs := ?proofs, PrecommitBlockVersions := PrecommitBlockVersions ?v,
    rv_VoteSummary := SetPrecommitPowers ?C ?B (Validators (rv_ValidatorSet ?v)) ?proofs (rv_VoteSummary ?v)\<rparr>)"
    by (intro view_update_precommits gomap_ok_fold_update)
  then have up: "state_update ?C ?B (w_state w) ((w_state w)\<lparr>ks_Voting := ?v'\<rparr>)"
    by (simp add: state_update_def)
  have "w' = w \<or> w_state w' = (w_state w)\<lparr>ks_Voting := ?v'\<rparr> \<or>
      (\<exists>w1 e. w_state w1 = (w_state w)\<lparr>ks_Voting := ?v'\<rparr> \<and> checkVotingPrecommitViewShift K w1 = Ret (e, w'))"
  proof -
    obtain p maj where p: "map_of temp (Hash header) = Some p"
      and maj: "ByzantineMajority (AvailablePower (rv_VoteSummary ?v)) = Ret maj"
      using run by (auto simp: commitReplayedHeader_def Let_def split: option.splits)
    note eqs = run[unfolded commitReplayedHeader_def Let_def p maj option.case gobind.simps]
    show ?thesis
    proof (cases "snd (signedPower_loop ?B (cm_SignatureBitSet ?C p) (Validators (h_ValidatorSet header))
        (Suc (length (Validators (h_ValidatorSet header)))) 0 (0, 0)) < maj")
      case True
      then show ?thesis using eqs by simp
    next
      case False
      obtain coll where coll: "mapToSparseSignatureCollection ?C ?proofs = Ret coll"
        using eqs False by auto
      obtain err st where es: "st_OverwriteRoundPrecommitProofs (k_stores K) (h_Height header) (cp_Round pf) coll (w_stores w) = (err, st)"
        by fastforce
      from eqs False show ?thesis
        unfolding coll gobind.simps es by (cases err) fastforce+
    qed
  qed
  then show ?thesis
    using inv up state_update_post[OF inv] state_update_kinv(1)[OF inv] checkVotingPrecommitViewShift_post
      kpost_refl[OF inv]
    unfolding same_heights_def by metis
qed

lemma applyReplayedHeader_cases:
  assumes run: "applyReplayedHeader K header pf w = Ret (e, w')"
  obtains (unchanged) "w_state w' = w_state w"
  | (commit) w1 temp where "state_update (k_cmspScheme K) (k_bitset K) (w_state w) (w_state w1)"
      and "commitReplayedHeader K header pf temp w1 = Ret (e, w')"
proof (cases "hs_Block (k_hashScheme K) header")
  case (Inl x)
  then show ?thesis using run that(1) by (simp add: applyReplayedHeader_def)
next
  case (Inr h)
  show ?thesis
  proof (cases "h = Hash header")
    case False
    then show ?thesis using run Inr that(1) by (simp add: applyReplayedHeader_def)
  next
    case True
    note hb = Inr[unfolded True]
    obtain t where t: "gotryfold (replayProof_step K (w_state w) header (cp_Round pf)) (cp_Proofs pf) [] = Ret t"
      using run hb by (auto simp: applyReplayedHeader_def Let_def)
    let ?have = "list_ex (\<lambda>ph. Hash (ph_Header ph) = Hash header) (ProposedHeaders (ks_Voting (w_state w)))"
    obtain err st where es: "(if ?have then (None, w_stores w)
        else st_SaveRoundReplayedHeader (k_stores K) header (w_stores w)) = (err, st)" by fastforce
    note eqs = run[unfolded applyReplayedHeader_def Let_def hb t sum.case gobind.simps es prod.case]
    show ?thesis
    proof (cases t)
      case (Inl x)
      then show ?thesis using eqs that(1) by simp
    next
      case (Inr temp)
      show ?thesis
      proof (cases err)
        case None
        from eqs[unfolded Inr None] have "commitReplayedHeader K header pf temp
            (w\<lparr>w_state := if ?have then w_state w else (w_state w)\<lparr>ks_Voting := (ks_Voting (w_state w))\<lparr>ProposedHeaders :=
               ProposedHeaders (ks_Voting (w_state w)) @ [zeroProposedHeader\<lparr>ph_Header := header, ph_Round := cp_Round pf\<rparr>]\<rparr>\<rparr>,
               w_stores := st\<rparr>) = Ret (e, w')" by simp
        then show ?thesis by (rule that(2)[rotated]) (simp add: state_update_def)
      next
        case (Some x)
        then show ?thesis using eqs Inr that(1) by auto
      qed
    qed
  qed
qed

lemma applyReplayedHeader_post:
  assumes inv: "kinv K w" and run: "applyReplayedHeader K header pf w = Ret (e, w')"
  shows "kpost K w w'"
  using run
proof (cases rule: applyReplayedHeader_cases)
  case unchanged
  then show ?thesis using state_update_post(1)[OF inv, of w'] by simp
next
  case (commit w1 temp)
  note up = commit(1)
  show ?thesis
    using commit(2) commitReplayedHeader_post[OF state_update_kinv(1)[OF inv up]] state_update_post(2)[OF inv up] by blast
qed

lemma handleReplayedHeader_post:
  assumes inv: "kinv K w" and run: "handleReplayedHeader K header pf w = Ret (e, w')"
  shows "kpost K w w'"
proof -
  obtain e1 w1 where j: "jumpVotingRound K (cp_Round pf) w = (e1, w1)" by fastforce
  note jp = jumpVotingRound_post[OF inv j]
  have "w' = w \<or> w' = w1 \<or> applyReplayedHeader K header pf w = Ret (e, w') \<or> applyReplayedHeader K header pf w1 = Ret (e, w')"
    using run unfolding handleReplayedHeader_def Let_def j by (cases e1) (auto split: if_splits)
  then show ?thesis
    using kpost_refl[OF inv] kpost_refl[OF jp] kpost_trans[OF jp(2)] applyReplayedHeader_post[OF inv]
      applyReplayedHeader_post[OF jp(1)]
    unfolding same_heights_def by blast
qed

end
