(* ===== verification/KernelLoop.thy ===== *)
theory KernelLoop
  imports KernelInv
begin

text \<open>
  The kernel as a running system: the in-memory stores as an instance of the store interface, the
  cases of \<open>mainLoop\<close>'s select as a step relation, and the states it reaches from \<open>NewKernel\<close>. A
  handler that panics has no successor state: the panic ends the process.
\<close>

section \<open>The in-memory stores behind the kernel\<close>

record mem_stores =
  mk_mirror :: MirrorStore
  mk_headers :: CommittedHeaderStore
  mk_rounds :: RoundStore
  mk_validators :: ValidatorStore

text \<open>A store method that returns \<open>error + state\<close> in the shape of the interface.\<close>

definition stored :: "('s \<Rightarrow> 'm \<Rightarrow> 'm) \<Rightarrow> 'm \<Rightarrow> go_error + 's \<Rightarrow> go_error option \<times> 'm" where
  "stored put m r = (case r of Inl e \<Rightarrow> (Some e, m) | Inr s \<Rightarrow> (None, put s m))"

definition MemKernelStores :: "'h validator_hashes_scheme \<Rightarrow> mem_stores kernel_stores" where
  "MemKernelStores hs = \<lparr>
     st_SetNetworkHeightRound = (\<lambda>vh vr ch cr m. stored (\<lambda>s. mk_mirror_update (\<lambda>_. s)) m (SetNetworkHeightRound (mk_mirror m) vh vr ch cr)),
     st_NetworkHeightRound = (\<lambda>m. NetworkHeightRound (mk_mirror m)),
     st_SaveCommittedHeader = (\<lambda>ch m. stored (\<lambda>s. mk_headers_update (\<lambda>_. s)) m (SaveCommittedHeader (mk_headers m) ch)),
     st_LoadCommittedHeader = (\<lambda>m. LoadCommittedHeader (mk_headers m)),
     st_SaveRoundProposedHeader = (\<lambda>ph m. gobind (SaveRoundProposedHeader (mk_rounds m) ph) (\<lambda>(e, s). Ret (e, m\<lparr>mk_rounds := s\<rparr>))),
     st_SaveRoundReplayedHeader = (\<lambda>h m. stored (\<lambda>s. mk_rounds_update (\<lambda>_. s)) m (SaveRoundReplayedHeader (mk_rounds m) h)),
     st_OverwriteRoundPrevoteProofs = (\<lambda>h r c m. stored (\<lambda>s. mk_rounds_update (\<lambda>_. s)) m (OverwriteRoundPrevoteProofs (mk_rounds m) h r c)),
     st_OverwriteRoundPrecommitProofs = (\<lambda>h r c m. stored (\<lambda>s. mk_rounds_update (\<lambda>_. s)) m (OverwriteRoundPrecommitProofs (mk_rounds m) h r c)),
     st_LoadRoundState = (\<lambda>m. LoadRoundState (mk_rounds m)),
     st_SavePubKeys = (\<lambda>ks m. case SavePubKeys hs (mk_validators m) ks of (r, s) \<Rightarrow> (r, m\<lparr>mk_validators := s\<rparr>)),
     st_SaveVotePowers = (\<lambda>ps m. case SaveVotePowers hs (mk_validators m) ps of (r, s) \<Rightarrow> (r, m\<lparr>mk_validators := s\<rparr>))\<rparr>"

definition NewMemStores :: mem_stores where
  "NewMemStores = \<lparr>mk_mirror = NewMirrorStore, mk_headers = NewCommittedHeaderStore, mk_rounds = NewRoundStore,
     mk_validators = NewValidatorStore\<rparr>"

section \<open>The main loop\<close>

text \<open>One iteration of the select in \<open>mainLoop\<close>, a rule per case, and the fetcher that takes a request
  from the buffered channel. The outputs are offered only when the managers have something to send;
  actions arrive only while the round entrance has an action channel; an internal error of a
  replayed header panics.\<close>

inductive kstep :: "('p, 'b, 's) Kernel \<Rightarrow> ('p, 's) world \<Rightarrow> ('p, 's) world \<Rightarrow> bool" for K where
  snapshot: "sendSnapshotResponse K (w_state w) flags dst = out \<Longrightarrow> kstep K w w"
| viewLookup: "sendViewLookupResponse K (w_state w) h r reason flags v = Ret out \<Longrightarrow> kstep K w w"
| phCheck: "sendPHCheckResponse K (w_state w) ph = Ret out \<Longrightarrow> kstep K w w"
| addPH: "addProposedHeader K ph w = Ret w' \<Longrightarrow> kstep K w w'"
| prevote: "addPrevote K req w = Ret (res, w') \<Longrightarrow> kstep K w w'"
| precommit: "addPrecommit K req w = Ret (res, w') \<Longrightarrow> kstep K w w'"
| gossip: "gossip_Output (k_cmspScheme K) (ks_gvm (w_state w)) = Some nvu \<Longrightarrow>
    kstep K w (w\<lparr>w_state := (w_state w)\<lparr>ks_gvm := gossip_MarkSent nvu (ks_gvm (w_state w))\<rparr>\<rparr>)"
| stateMachine: "smvm_Output (k_cmspScheme K) (ks_smvm (w_state w)) = Some (smrv, ver) \<Longrightarrow>
    kstep K w (w\<lparr>w_state := (w_state w)\<lparr>ks_smvm := smvm_MarkSent ver (ks_smvm (w_state w))\<rparr>\<rparr>)"
| lag: "lag_Output (ks_lag (w_state w)) = Some ls \<Longrightarrow>
    kstep K w (w\<lparr>w_state := (w_state w)\<lparr>ks_lag := lag_MarkSent (ks_lag (w_state w))\<rparr>\<rparr>)"
| entrance: "handleStateMachineRoundEntrance K re w = Ret (resp, w') \<Longrightarrow> kstep K w w'"
| action: "re_Actions (roundEntrance (ks_smvm (w_state w))) \<Longrightarrow> handleStateMachineAction K act w = Ret w' \<Longrightarrow> kstep K w w'"
| replay: "handleReplayedHeader K header pf w = Ret (err, w') \<Longrightarrow>
    \<forall>e. err \<noteq> Some (ReplayedHeaderInternalError e) \<Longrightarrow> kstep K w w'"
| fetcher: "w_fetchRequests w = fetchReq # rest \<Longrightarrow>
    kstep K w (w\<lparr>w_fetchRequests := rest, w_fetchFree := w_fetchFree w + 1\<rparr>)"

text \<open>A run of the kernel: what \<open>NewKernel\<close> returns, followed by steps.\<close>

inductive krun :: "('p, 'b, 's) Kernel \<Rightarrow> 's \<Rightarrow> ('p, 's) world \<Rightarrow> bool" for K st0 where
  start: "NewKernel K lagOut fetchCap st0 = Ret (Inr w) \<Longrightarrow> krun K st0 w"
| step: "krun K st0 w \<Longrightarrow> kstep K w w' \<Longrightarrow> krun K st0 w'"

section \<open>Every step keeps the invariant\<close>

lemma kpost_same_views:
  assumes "kinv K w" and "ks_Voting (w_state w') = ks_Voting (w_state w)"
    "ks_NextRound (w_state w') = ks_NextRound (w_state w)" "ks_Committing (w_state w') = ks_Committing (w_state w)"
    "CommittingHeader (w_state w') = CommittingHeader (w_state w)"
  shows "kpost K w w'"
  using assms kinv_cong[of w' w K] by (simp add: kpost_def)

lemma kstep_post:
  assumes "kstep K w w'" and inv: "kinv K w"
  shows "kpost K w w'"
  using assms(1)
proof cases
  case addPH then show ?thesis using addProposedHeader_post[OF inv] by blast
next
  case prevote then show ?thesis using addPrevote_post[OF inv] by blast
next
  case precommit then show ?thesis using addPrecommit_post[OF inv] by blast
next
  case entrance then show ?thesis using handleStateMachineRoundEntrance_post[OF inv] by blast
next
  case action then show ?thesis using handleStateMachineAction_post[OF inv] by blast
next
  case replay then show ?thesis using handleReplayedHeader_post[OF inv] by blast
qed (simp_all add: kpost_same_views[OF inv])

section \<open>The initial state\<close>

lemma toFullProofMap_ok:
  assumes "toFullProofMap C h r vset sb c = Ret (Inr m)"
  shows "gomap_ok m"
proof -
  let ?f = "toFullProofMap_step C sb h r (ValidatorsToPubKeys (Validators vset)) (vs_PubKeyHash vset)"
  have step: "gomap_ok m'" if "?f e a = Ret (Inr m')" "gomap_ok a" for e a m'
    using that by (auto simp: toFullProofMap_step_def split: sum.splits if_splits)
  have "gotryfold ?f xs a = Ret (Inr m) \<Longrightarrow> gomap_ok a \<Longrightarrow> gomap_ok m" for xs a
    by (induction xs arbitrary: a) (auto dest: step)
  then show ?thesis using assms by (auto simp: toFullProofMap_def)
qed

lemma loadInitialView_ok:
  assumes "loadInitialView K h r vset st = Ret (Inr (v, st'))"
  shows "rv_Height v = h" and "rv_Round v = r" and "rv_ValidatorSet v = vset"
    and "summary_ok (k_cmspScheme K) (k_bitset K) v"
proof -
  obtain phs pv pc pvs pcs where
    pvs: "toFullProofMap (k_cmspScheme K) h r vset (\<lambda>vt. PrevoteSignBytes vt (k_sigScheme K)) pv = Ret (Inr pvs)"
    and pcs: "toFullProofMap (k_cmspScheme K) h r vset (\<lambda>vt. PrecommitSignBytes vt (k_sigScheme K)) pc = Ret (Inr pcs)"
    and v: "v = zeroVRV\<lparr>rv_Height := h, rv_Round := r, rv_ValidatorSet := vset, ProposedHeaders := phs,
       PrevoteProofs := pvs, PrecommitProofs := pcs,
       rv_VoteSummary := SetPrecommitPowers (k_cmspScheme K) (k_bitset K) (Validators vset) pcs
         (SetPrevotePowers (k_cmspScheme K) (k_bitset K) (Validators vset) pvs (SetAvailablePower (Validators vset) NewVoteSummary))\<rparr>"
    using assms unfolding loadInitialView_def Let_def ToFullPrevoteProofMap_def ToFullPrecommitProofMap_def
    by (auto split: sum.splits prod.splits if_splits)
  show "rv_Height v = h" "rv_Round v = r" "rv_ValidatorSet v = vset" by (simp_all add: v)
  show "summary_ok (k_cmspScheme K) (k_bitset K) v"
    using toFullProofMap_ok[OF pvs] toFullProofMap_ok[OF pcs]
    by (simp add: v summary_ok_def fresh_summary_def SetVotePowers_def)
qed

lemma summary_ok_versions [simp]:
  "summary_ok C B (v\<lparr>PrevoteVersion := a, PrecommitVersion := b\<rparr>) = summary_ok C B v"
  "summary_ok C B (v\<lparr>rv_PrevCommitProof := cp\<rparr>) = summary_ok C B v"
  by (simp_all add: summary_ok_def fresh_summary_def)

lemma loadInitialCommittingView_views:
  assumes "loadInitialCommittingView K s st = Ret (Inr (s', st'))"
  shows "rv_Height (ks_Committing s') = rv_Height (ks_Committing s)" and "rv_Round (ks_Committing s') = rv_Round (ks_Committing s)"
    and "ks_Voting s' = ks_Voting s"
    and "same_version (gvm_Committing (ks_gvm s')) (ks_Committing s')"
proof -
  let ?C = "k_cmspScheme K"
  obtain vset rv st1 s2 where load: "loadInitialView K (rv_Height (ks_Committing s)) (rv_Round (ks_Committing s)) vset st = Ret (Inr (rv, st1))"
    and s2: "(if k_initialHeight K < rv_Height (ks_Committing s) then
          (case st_LoadCommittedHeader (k_stores K) st1 (rv_Height (ks_Committing s) - 1) of
             Inl e \<Rightarrow> Ret (Inl e)
           | Inr ch \<Rightarrow> Ret (Inr ((MarkCommittingViewUpdated ?C (s\<lparr>ks_Committing := rv\<lparr>PrevoteVersion := 1, PrecommitVersion := 1\<rparr>\<rparr>))
               \<lparr>ks_Committing := (ks_Committing (MarkCommittingViewUpdated ?C (s\<lparr>ks_Committing := rv\<lparr>PrevoteVersion := 1, PrecommitVersion := 1\<rparr>\<rparr>)))
                  \<lparr>rv_PrevCommitProof := ch_Proof ch\<rparr>\<rparr>)))
        else Ret (Inr (MarkCommittingViewUpdated ?C (s\<lparr>ks_Committing := rv\<lparr>PrevoteVersion := 1, PrecommitVersion := 1\<rparr>\<rparr>)))) = Ret (Inr s2)"
    and det: "determineCommittingHeader K rv s2 = Ret s'"
    using assms unfolding loadInitialCommittingView_def Let_def
    by (cases "PrecommitProofs (ks_Committing s) = []") (auto simp del: Mark_views split: if_split_asm)
  have "ks_Committing s' = ks_Committing s2" "ks_Voting s' = ks_Voting s2" "ks_gvm s' = ks_gvm s2"
    using det by (auto simp: determineCommittingHeader_def Let_def case_prod_unfold split: if_splits)
  moreover have "rv_Height (ks_Committing s2) = rv_Height rv" "rv_Round (ks_Committing s2) = rv_Round rv" "ks_Voting s2 = ks_Voting s"
    "same_version (gvm_Committing (ks_gvm s2)) (ks_Committing s2)"
    using s2 by (auto simp: same_version_def split: if_splits sum.splits)
  ultimately have s': "rv_Height (ks_Committing s') = rv_Height rv" "rv_Round (ks_Committing s') = rv_Round rv" "ks_Voting s' = ks_Voting s"
    "same_version (gvm_Committing (ks_gvm s')) (ks_Committing s')"
    by simp_all
  show "rv_Height (ks_Committing s') = rv_Height (ks_Committing s)" "rv_Round (ks_Committing s') = rv_Round (ks_Committing s)"
    "ks_Voting s' = ks_Voting s" "same_version (gvm_Committing (ks_gvm s')) (ks_Committing s')"
    using s' loadInitialView_ok(1,2)[OF load] by simp_all
qed

lemma loadInitialVotingView_views:
  assumes "loadInitialVotingView K s st = Ret (Inr (s', st'))"
  shows "rv_Height (ks_Voting s') = rv_Height (ks_Voting s)" "rv_Round (ks_Voting s') = rv_Round (ks_Voting s)"
    "ks_Committing s' = ks_Committing s"
    "rv_Height (ks_NextRound s') = rv_Height (ks_Voting s)" "rv_Round (ks_NextRound s') = rv_Round (ks_Voting s) + 1"
    "rv_ValidatorSet (ks_NextRound s') = rv_ValidatorSet (ks_Voting s')"
    "summary_ok (k_cmspScheme K) (k_bitset K) (ks_Voting s')" "summary_ok (k_cmspScheme K) (k_bitset K) (ks_NextRound s')"
    "same_version (gvm_Voting (ks_gvm s')) (ks_Voting s')" "same_version (gvm_NextRound (ks_gvm s')) (ks_NextRound s')"
    "gvm_Committing (ks_gvm s') = gvm_Committing (ks_gvm s)" "CommittingHeader s' = CommittingHeader s"
    "rv_ValidatorSet (ks_Voting s') = (if rv_Height (ks_Voting s) = k_initialHeight K \<or> rv_Height (ks_Voting s) = k_initialHeight K + 1
       then k_initialValSet K else h_ValidatorSet (CommittingHeader s))"
proof -
  define vset where "vset = (if rv_Height (ks_Voting s) = k_initialHeight K \<or> rv_Height (ks_Voting s) = k_initialHeight K + 1
       then k_initialValSet K else h_ValidatorSet (CommittingHeader s))"
  obtain rv st1 nr st2 where
    l: "loadInitialView K (rv_Height (ks_Voting s)) (rv_Round (ks_Voting s)) vset st = Ret (Inr (rv, st1))"
       "loadInitialView K (rv_Height (ks_Voting s)) (rv_Round (ks_Voting s) + 1) vset st1 = Ret (Inr (nr, st2))"
    and s': "s' = MarkNextRoundViewUpdated (k_cmspScheme K)
       ((MarkVotingViewUpdated (k_cmspScheme K) (s\<lparr>ks_Voting := rv\<lparr>PrevoteVersion := 1, PrecommitVersion := 1\<rparr>\<rparr>))
         \<lparr>ks_NextRound := nr\<lparr>PrevoteVersion := 1, PrecommitVersion := 1\<rparr>\<rparr>)"
    using assms unfolding loadInitialVotingView_def Let_def vset_def[symmetric] by (auto split: if_splits)
  note ok = loadInitialView_ok[OF l(1)] loadInitialView_ok[OF l(2)]
  show "rv_Height (ks_Voting s') = rv_Height (ks_Voting s)" "rv_Round (ks_Voting s') = rv_Round (ks_Voting s)"
    "ks_Committing s' = ks_Committing s"
    "rv_Height (ks_NextRound s') = rv_Height (ks_Voting s)" "rv_Round (ks_NextRound s') = rv_Round (ks_Voting s) + 1"
    "rv_ValidatorSet (ks_NextRound s') = rv_ValidatorSet (ks_Voting s')"
    "summary_ok (k_cmspScheme K) (k_bitset K) (ks_Voting s')" "summary_ok (k_cmspScheme K) (k_bitset K) (ks_NextRound s')"
    "same_version (gvm_Voting (ks_gvm s')) (ks_Voting s')" "same_version (gvm_NextRound (ks_gvm s')) (ks_NextRound s')"
    "gvm_Committing (ks_gvm s') = gvm_Committing (ks_gvm s)" "CommittingHeader s' = CommittingHeader s"
    "rv_ValidatorSet (ks_Voting s') = (if rv_Height (ks_Voting s) = k_initialHeight K \<or> rv_Height (ks_Voting s) = k_initialHeight K + 1
       then k_initialValSet K else h_ValidatorSet (CommittingHeader s))"
    using ok by (simp_all add: s' same_version_def vset_def)
qed

text \<open>The heights a mirror store may hold when the kernel starts: none, or those of an earlier run.\<close>

definition stored_heights_ok :: "'s kernel_stores \<Rightarrow> 's \<Rightarrow> bool" where
  "stored_heights_ok S st \<longleftrightarrow> (case st_NetworkHeightRound S st of
     Inl _ \<Rightarrow> True
   | Inr (vh, vr, ch, cr) \<Rightarrow> ch = 0 \<and> vh \<noteq> 0 \<or> vh = ch + 1)"

lemma observed_iff:
  "(case m of (Some e, w) \<Rightarrow> Ret (Inl e) | (None, w) \<Rightarrow> Ret (Inr w)) = Ret (Inr w') \<longleftrightarrow> m = (None, w')"
  by (cases m; cases "fst m") auto

text \<open>A kernel that starts has taken its heights from the store or the configuration, loaded its views
  and stored its heights.\<close>

lemma NewKernel_cases:
  fixes K :: "('p, 'b, 's) Kernel"
  assumes "NewKernel K lagOut fetchCap st = Ret (Inr w)"
  obtains vh vr ch cr cp s1 st0 st1 s2 st3 where
    "st_NetworkHeightRound (k_stores K) st = Inr (vh, vr, ch, cr) \<or>
     st_NetworkHeightRound (k_stores K) st = Inl ErrStoreUninitialized \<and> (vh, vr, ch, cr) = (k_initialHeight K, 0, 0, 0)"
    "(if k_initialHeight K \<le> ch then loadInitialCommittingView K (initState lagOut (vh, vr, ch, cr)) st0
      else Ret (Inr (initState lagOut (vh, vr, ch, cr), st0))) = Ret (Inr (s1, st1))"
    "loadInitialVotingView K s1 st1 = Ret (Inr (s2, st3))"
    "updateObservers K \<lparr>w_state = s2\<lparr>ks_Voting := (ks_Voting s2)\<lparr>rv_PrevCommitProof := cp\<rparr>,
        ks_NextRound := (ks_NextRound s2)\<lparr>rv_PrevCommitProof := cp\<rparr>\<rparr>, w_stores = st3, w_fetchFree = fetchCap, w_fetchRequests = []\<rparr>
        = (None, w)"
proof -
  let ?S = "k_stores K"
  obtain vh vr ch cr st0 where nhr: "loadNetworkHeightRound K st = Inr ((vh, vr, ch, cr), st0)"
    using assms unfolding NewKernel_def by (auto split: if_splits)
  have first: "st_NetworkHeightRound ?S st = Inr (vh, vr, ch, cr) \<or>
     st_NetworkHeightRound ?S st = Inl ErrStoreUninitialized \<and> (vh, vr, ch, cr) = (k_initialHeight K, 0, 0, 0)"
    using nhr by (auto simp: loadNetworkHeightRound_def split: sum.splits if_splits prod.splits option.splits)
  obtain cp s1 st1 s2 st3 where
    "(if k_initialHeight K \<le> ch then loadInitialCommittingView K (initState lagOut (vh, vr, ch, cr)) st0
      else Ret (Inr (initState lagOut (vh, vr, ch, cr), st0))) = Ret (Inr (s1, st1))"
    "loadInitialVotingView K s1 st1 = Ret (Inr (s2, st3))"
    "updateObservers K \<lparr>w_state = s2\<lparr>ks_Voting := (ks_Voting s2)\<lparr>rv_PrevCommitProof := cp\<rparr>,
        ks_NextRound := (ks_NextRound s2)\<lparr>rv_PrevCommitProof := cp\<rparr>\<rparr>, w_stores = st3, w_fetchFree = fetchCap, w_fetchRequests = []\<rparr>
        = (None, w)"
    using assms unfolding NewKernel_def nhr gotry_simps prod.case Let_def
    by (auto simp: observed_iff split: if_splits)
  then show ?thesis using first that by blast
qed

lemma initState_simps [simp]:
  "ks_Committing (initState lagOut (vh, vr, ch, cr)) = zeroVRV\<lparr>rv_Height := ch, rv_Round := cr\<rparr>"
  "ks_Voting (initState lagOut (vh, vr, ch, cr)) = zeroVRV\<lparr>rv_Height := vh, rv_Round := vr\<rparr>"
  "CommittingHeader (initState lagOut nhr) = zeroHeader"
  "ks_gvm (initState lagOut nhr) = newGossipViewManager"
  by (simp_all add: initState_def split: prod.split)

lemma NewKernel_kinv:
  assumes run: "NewKernel K lagOut fetchCap st = Ret (Inr w)"
    and "k_initialHeight K \<noteq> 0" and "stored_heights_ok (k_stores K) st"
  shows "kinv K w"
  using run
proof (rule NewKernel_cases)
  fix vh vr ch cr cp s1 st0 st1 s2 st3
  assume nhr: "st_NetworkHeightRound (k_stores K) st = Inr (vh, vr, ch, cr) \<or>
     st_NetworkHeightRound (k_stores K) st = Inl ErrStoreUninitialized \<and> (vh, vr, ch, cr) = (k_initialHeight K, 0, 0, 0)"
    and c: "(if k_initialHeight K \<le> ch then loadInitialCommittingView K (initState lagOut (vh, vr, ch, cr)) st0
      else Ret (Inr (initState lagOut (vh, vr, ch, cr), st0))) = Ret (Inr (s1, st1))"
    and v: "loadInitialVotingView K s1 st1 = Ret (Inr (s2, st3))"
    and u: "updateObservers K \<lparr>w_state = s2\<lparr>ks_Voting := (ks_Voting s2)\<lparr>rv_PrevCommitProof := cp\<rparr>,
        ks_NextRound := (ks_NextRound s2)\<lparr>rv_PrevCommitProof := cp\<rparr>\<rparr>, w_stores = st3, w_fetchFree = fetchCap, w_fetchRequests = []\<rparr>
        = (None, w)"
  have "ch = 0 \<and> vh \<noteq> 0 \<or> vh = ch + 1"
    using nhr assms(2,3) by (auto simp: stored_heights_ok_def)
  moreover have "rv_Height (ks_Committing s1) = ch" "rv_Height (ks_Voting s1) = vh"
    using c loadInitialCommittingView_views[of K _ st0 s1 st1] by (auto split: if_splits)
  ultimately show ?thesis
    using loadInitialVotingView_views[OF v] updateObservers_state'[OF u] by (simp add: kinv_def aligned_def heights_ok_def)
qed

lemma krun_kinv:
  assumes "krun K st0 w" and "k_initialHeight K \<noteq> 0" and "stored_heights_ok (k_stores K) st0"
  shows "kinv K w"
  using assms(1)
proof induction
  case (start lagOut fetchCap w)
  show ?case by (rule NewKernel_kinv[OF start.hyps assms(2,3)])
next
  case (step w w')
  then show ?case using kstep_post by (auto simp: kpost_def)
qed

section \<open>What a commit rests on\<close>

text \<open>The committing height or header is another one after the step.\<close>

definition commits :: "('p, 's) world \<Rightarrow> ('p, 's) world \<Rightarrow> bool" where
  "commits w w' \<longleftrightarrow> rv_Height (ks_Committing (w_state w')) \<noteq> rv_Height (ks_Committing (w_state w)) \<or>
     CommittingHeader (w_state w') \<noteq> CommittingHeader (w_state w)"

lemma kpost_commits:
  assumes "kpost K w w'" and "commits w w'"
  shows "commit_justified (k_cmspScheme K) (k_bitset K) (w_state w')"
    and "rv_Height (ks_Committing (w_state w')) = rv_Height (ks_Voting (w_state w))"
    and "rv_ValidatorSet (ks_Committing (w_state w')) = rv_ValidatorSet (ks_Voting (w_state w))"
  using assms by (auto simp: kpost_def commits_def)



text \<open>The majority in the vote summary is a majority of the validators whose signatures are in the proof.\<close>

lemma commit_signers:
  assumes lib: "signature_proof B bits C pinv nkeys" and cj: "commit_justified C B s"
    and pow: "powers_ok (Validators (rv_ValidatorSet (ks_Committing s)))"
  shows "\<exists>p. map_of (PrecommitProofs (ks_Committing s)) (Hash (CommittingHeader s)) = Some p \<and>
    has_majority (Validators (rv_ValidatorSet (ks_Committing s))) (bits (cm_SignatureBitSet C p))"
proof -
  let ?v = "ks_Committing s" and ?h = "Hash (CommittingHeader s)"
  let ?vals = "Validators (rv_ValidatorSet ?v)"
  obtain maj where ok: "summary_ok C B ?v" and maj: "ByzantineMajority (AvailablePower (rv_VoteSummary ?v)) = Ret maj"
    "maj \<le> lookup0 (PrecommitBlockPower (rv_VoteSummary ?v)) ?h"
    using cj by (auto simp: commit_justified_def)
  have av: "AvailablePower (rv_VoteSummary ?v) = sum_list (map Power ?vals)"
    by (rule summary_ok_AvailablePower[OF ok])
  have pos: "maj \<noteq> 0" using ByzantineMajority_pos[OF maj(1)] by auto
  have bp: "PrecommitBlockPower (rv_VoteSummary ?v) = signature_proof.proof_powers bits C ?vals (PrecommitProofs ?v)"
    using ok signature_proof.SetPrecommitPowers_spec(1)[OF lib, of "PrecommitProofs ?v" "rv_VoteSummary ?v" ?vals]
    by (simp add: summary_ok_def fresh_summary_def SetVotePowers_def)
  have lk: "map_of (PrecommitBlockPower (rv_VoteSummary ?v)) ?h =
      map_option (\<lambda>p. word_power ?vals (bits (cm_SignatureBitSet C p))) (map_of (PrecommitProofs ?v) ?h)"
    unfolding bp signature_proof.map_of_proof_powers[OF lib] signature_proof.signers_def[OF lib] ..
  obtain p where p: "map_of (PrecommitProofs ?v) ?h = Some p"
    using maj(2) pos lk by (cases "map_of (PrecommitProofs ?v) ?h") (auto simp: lookup0_def)
  then have "unat maj \<le> set_power ?vals (bits (cm_SignatureBitSet C p))"
    using maj(2) lk unat_word_power[OF pow] by (simp add: lookup0_def word_le_nat_alt)
  then show ?thesis using p pow maj(1) av by (simp add: has_majority_def)
qed

section \<open>A run\<close>

text \<open>A kernel with two validators of power 3 and 5 on empty in-memory stores: it starts at height 1,
  receives a proposed header and then a precommit of both validators for it, and commits it.\<close>

definition ex_valset :: ValidatorSet where
  "ex_valset = \<lparr>Validators = ex_vals, vs_PubKeyHash = ''h'', VotePowerHash = ''p''\<rparr>"

definition ex_kernel :: "(nat list SimpleProof, nat list, mem_stores) Kernel" where
  "ex_kernel = \<lparr>k_stores = MemKernelStores ex_hashes,
     k_hashScheme = \<lparr>hs_PubKeys = hs_PubKeys ex_hashes, hs_VotePowers = hs_VotePowers ex_hashes, hs_Block = (\<lambda>h. Inr (Hash h))\<rparr>,
     k_sigScheme = ex_sigs, k_cmspScheme = SimpleScheme ex_V ref_bitset, k_bitset = ref_bitset,
     k_initialHeight = 1, k_initialValSet = ex_valset\<rparr>"

definition ex_world :: "(nat list SimpleProof, mem_stores) world" where
  "ex_world = \<lparr>w_state = ex_kstate, w_stores = NewMemStores, w_fetchFree = 4, w_fetchRequests = []\<rparr>"

definition ex_start :: "(nat list SimpleProof, mem_stores) world" where
  "ex_start = (case NewKernel ex_kernel True 4 NewMemStores of Ret (Inr w) \<Rightarrow> w | _ \<Rightarrow> ex_world)"

definition ex_header :: Header where
  "ex_header = zeroHeader\<lparr>Hash := ''x'', h_Height := 1, h_ValidatorSet := ex_valset, NextValidatorSet := ex_valset\<rparr>"

definition ex_proposal :: ProposedHeader where
  "ex_proposal = zeroProposedHeader\<lparr>ph_Header := ex_header, ProposerPubKey := Some (PubKey ''t'' ''a''), Signature := ''s''\<rparr>"

definition ex_proposed :: "(nat list SimpleProof, mem_stores) world" where
  "ex_proposed = (case addProposedHeader ex_kernel ex_proposal ex_start of Ret w \<Rightarrow> w | _ \<Rightarrow> ex_world)"

definition ex_both :: "nat list SimpleProof" where
  "ex_both = ex_proof\<lparr>sp_sigs := [(''a'', PubKey ''t'' ''a''), (''b'', PubKey ''t'' ''b'')], sp_bitset := [0, 1]\<rparr>"

definition ex_request :: "nat list SimpleProof AddVoteRequest" where
  "ex_request = \<lparr>av_H = 1, av_R = 0, av_Updates = [(''x'', \<lparr>vu_Proof = ex_both, vu_PrevVersion = 0\<rparr>)]\<rparr>"

definition ex_committed :: "(nat list SimpleProof, mem_stores) world" where
  "ex_committed = (case addPrecommit ex_kernel ex_request ex_proposed of Ret (r, w) \<Rightarrow> w | _ \<Rightarrow> ex_world)"

lemma ex_start_run: "NewKernel ex_kernel True 4 NewMemStores = Ret (Inr ex_start)"
proof -
  have "case NewKernel ex_kernel True 4 NewMemStores of Ret (Inr w) \<Rightarrow> True | _ \<Rightarrow> False" by code_simp
  then show ?thesis unfolding ex_start_def by (auto split: go.splits sum.splits)
qed

lemma ex_proposed_run: "addProposedHeader ex_kernel ex_proposal ex_start = Ret ex_proposed"
proof -
  have "case addProposedHeader ex_kernel ex_proposal ex_start of Ret w \<Rightarrow> True | _ \<Rightarrow> False" by code_simp
  then show ?thesis unfolding ex_proposed_def by (auto split: go.splits)
qed

lemma ex_committed_run: "addPrecommit ex_kernel ex_request ex_proposed = Ret (AddVoteAccepted, ex_committed)"
proof -
  have "case addPrecommit ex_kernel ex_request ex_proposed of Ret (r, w) \<Rightarrow> r = AddVoteAccepted | _ \<Rightarrow> False" by code_simp
  then show ?thesis unfolding ex_committed_def by (auto split: go.splits)
qed

text \<open>The same header reaches another kernel as a replayed header with its commit proof.\<close>

definition ex_commit_proof :: CommitProof where
  "ex_commit_proof = \<lparr>cp_Round = 0, cp_PubKeyHash = ''h'',
     cp_Proofs = [(''x'', [\<lparr>KeyID = PutUint16 0, Sig = ''a''\<rparr>, \<lparr>KeyID = PutUint16 1, Sig = ''b''\<rparr>])]\<rparr>"

definition ex_replayed :: "(nat list SimpleProof, mem_stores) world" where
  "ex_replayed = (case handleReplayedHeader ex_kernel ex_header ex_commit_proof ex_start of Ret (e, w) \<Rightarrow> w | _ \<Rightarrow> ex_world)"

lemma ex_replayed_run: "handleReplayedHeader ex_kernel ex_header ex_commit_proof ex_start = Ret (None, ex_replayed)"
proof -
  have "case handleReplayedHeader ex_kernel ex_header ex_commit_proof ex_start of Ret (e, w) \<Rightarrow> e = None | _ \<Rightarrow> False" by code_simp
  then show ?thesis unfolding ex_replayed_def by (auto split: go.splits)
qed

lemma ex_replay_step: "kstep ex_kernel ex_start ex_replayed"
  by (rule kstep.replay[OF ex_replayed_run]) simp

lemma ex_replay_commits: "commits ex_start ex_replayed"
proof -
  have "rv_Height (ks_Committing (w_state ex_start)) = 0" "rv_Height (ks_Committing (w_state ex_replayed)) = 1"
    by code_simp+
  then show ?thesis by (simp add: commits_def)
qed

lemma ex_proposed_krun: "krun ex_kernel NewMemStores ex_proposed"
  by (rule krun.step[OF krun.start[OF ex_start_run] kstep.addPH[OF ex_proposed_run]])

lemma ex_commit_step: "kstep ex_kernel ex_proposed ex_committed"
  by (rule kstep.precommit[OF ex_committed_run])

lemma ex_commits: "commits ex_proposed ex_committed"
proof -
  have "rv_Height (ks_Committing (w_state ex_proposed)) = 0" "rv_Height (ks_Committing (w_state ex_committed)) = 1"
    by code_simp+
  then show ?thesis by (simp add: commits_def)
qed

lemma ex_kernel_ok: "k_initialHeight ex_kernel \<noteq> 0" "stored_heights_ok (k_stores ex_kernel) NewMemStores"
  by code_simp+

lemma ex_kernel_lib: "signature_proof (k_bitset ex_kernel) set (k_cmspScheme ex_kernel) (simple_inv ex_V set) (\<lambda>p. length (sp_keys p))"
  using rbs.simple.signature_proof_axioms[of ex_V] by (simp add: ex_kernel_def)

lemma ex_powers_ok: "powers_ok ex_vals"
  by (simp add: powers_ok_def total_power_def ex_vals_def)

section \<open>Properties\<close>

text \<open>(C5) Invariant of the running kernel: in every state reached from \<open>NewKernel\<close> by any sequence of
  requests, outputs, fetches, actions and replayed headers, the next-round view is at the voting
  height and one round later with the same validators and previous commit proof; the vote summaries
  of both views are those recomputed from their proofs; and the voting height follows the committing
  height, which is zero before the first commit.\<close>

theorem kernel_invariant:
  assumes "krun K st0 w" and "k_initialHeight K \<noteq> 0" and "stored_heights_ok (k_stores K) st0"
  shows "rv_Height (ks_NextRound (w_state w)) = rv_Height (ks_Voting (w_state w)) \<and>
    rv_Round (ks_NextRound (w_state w)) = rv_Round (ks_Voting (w_state w)) + 1 \<and>
    rv_ValidatorSet (ks_NextRound (w_state w)) = rv_ValidatorSet (ks_Voting (w_state w)) \<and>
    rv_PrevCommitProof (ks_NextRound (w_state w)) = rv_PrevCommitProof (ks_Voting (w_state w)) \<and>
    rv_VoteSummary (ks_Voting (w_state w)) = fresh_summary (k_cmspScheme K) (k_bitset K) (ks_Voting (w_state w)) \<and>
    rv_VoteSummary (ks_NextRound (w_state w)) = fresh_summary (k_cmspScheme K) (k_bitset K) (ks_NextRound (w_state w)) \<and>
    (rv_Height (ks_Committing (w_state w)) = 0 \<and> rv_Height (ks_Voting (w_state w)) \<noteq> 0 \<or>
     rv_Height (ks_Voting (w_state w)) = rv_Height (ks_Committing (w_state w)) + 1)"
  using krun_kinv[OF assms] by (auto simp: kinv_def aligned_def heights_ok_def summary_ok_def)

theorem kernel_invariant_witness:
  "rv_Round (ks_NextRound (w_state ex_committed)) = rv_Round (ks_Voting (w_state ex_committed)) + 1 \<and>
   rv_Height (ks_Committing (w_state ex_committed)) = 1"
proof -
  have "rv_Height (ks_Committing (w_state ex_committed)) = 1" by code_simp
  then show ?thesis
    using kernel_invariant[OF krun.step[OF ex_proposed_krun ex_commit_step] ex_kernel_ok] by blast
qed

text \<open>(C1) Every commit is justified. When a step of a running kernel changes the committing height or
  header, the new committing height is the height that was being voted on, voting continues at the
  next height at round zero with the validators the header names, the header was proposed in the
  committed round with a non-empty hash, and the validators whose precommit signatures for that hash
  the view holds have more than two thirds of the power.\<close>

theorem commits_are_justified:
  assumes lib: "signature_proof (k_bitset K) bits (k_cmspScheme K) pinv nkeys"
    and run: "krun K st0 w" "k_initialHeight K \<noteq> 0" "stored_heights_ok (k_stores K) st0"
    and step: "kstep K w w'" "commits w w'"
    and vals: "vals = Validators (rv_ValidatorSet (ks_Voting (w_state w)))" "powers_ok vals"
  shows "rv_Height (ks_Committing (w_state w')) = rv_Height (ks_Voting (w_state w)) \<and>
    rv_Height (ks_Voting (w_state w')) = rv_Height (ks_Voting (w_state w)) + 1 \<and>
    rv_Round (ks_Voting (w_state w')) = 0 \<and>
    rv_ValidatorSet (ks_Voting (w_state w')) = NextValidatorSet (CommittingHeader (w_state w')) \<and>
    (\<exists>ph \<in> set (ProposedHeaders (ks_Committing (w_state w'))). ph_Header ph = CommittingHeader (w_state w')) \<and>
    Hash (CommittingHeader (w_state w')) \<noteq> [] \<and>
    (\<exists>p. map_of (PrecommitProofs (ks_Committing (w_state w'))) (Hash (CommittingHeader (w_state w'))) = Some p \<and>
       2 * total_power vals < 3 * set_power vals (bits (cm_SignatureBitSet (k_cmspScheme K) p)))"
proof -
  note c = kpost_commits[OF kstep_post[OF step(1) krun_kinv[OF run]] step(2)]
  have "powers_ok (Validators (rv_ValidatorSet (ks_Committing (w_state w'))))" using vals c(3) by simp
  from commit_signers[OF lib c(1) this] show ?thesis
    using c by (auto simp: commit_justified_def has_majority_iff vals(1))
qed

theorem commits_are_justified_witness:
  "rv_Height (ks_Committing (w_state ex_committed)) = rv_Height (ks_Voting (w_state ex_proposed)) \<and>
   (\<exists>p. map_of (PrecommitProofs (ks_Committing (w_state ex_committed))) (Hash (CommittingHeader (w_state ex_committed))) = Some p \<and>
     2 * total_power ex_vals < 3 * set_power ex_vals (set (cm_SignatureBitSet (k_cmspScheme ex_kernel) p)))"
proof -
  have "ex_vals = Validators (rv_ValidatorSet (ks_Voting (w_state ex_proposed)))" by code_simp
  from commits_are_justified[OF ex_kernel_lib ex_proposed_krun ex_kernel_ok ex_commit_step ex_commits this ex_powers_ok]
  show ?thesis by blast
qed

text \<open>(C2) Agreement of two mirrors: when two running kernels commit in the same height and round with
  the same validators, and the validators that appear in precommit proofs of different hashes on the
  two sides all belong to a set with less than a third of the power, both commit the same hash.\<close>

theorem mirrors_agree:
  assumes lib: "signature_proof (k_bitset K) bits (k_cmspScheme K) pinv nkeys"
      "signature_proof (k_bitset K2) bits2 (k_cmspScheme K2) pinv2 nkeys2"
    and run: "krun K st0 w" "k_initialHeight K \<noteq> 0" "stored_heights_ok (k_stores K) st0"
      "krun K2 st02 v" "k_initialHeight K2 \<noteq> 0" "stored_heights_ok (k_stores K2) st02"
    and step: "kstep K w w'" "commits w w'" "kstep K2 v v'" "commits v v'"
    and same: "rv_ValidatorSet (ks_Committing (w_state w')) = rv_ValidatorSet (ks_Committing (w_state v'))"
    and vals: "vals = Validators (rv_ValidatorSet (ks_Committing (w_state w')))" "powers_ok vals"
    and F: "below_third vals F"
    and honest: "\<forall>a b p q. map_of (PrecommitProofs (ks_Committing (w_state w'))) a = Some p \<and>
        map_of (PrecommitProofs (ks_Committing (w_state v'))) b = Some q \<and> a \<noteq> b \<longrightarrow>
        bits (cm_SignatureBitSet (k_cmspScheme K) p) \<inter> bits2 (cm_SignatureBitSet (k_cmspScheme K2) q) \<subseteq> F"
  shows "Hash (CommittingHeader (w_state w')) = Hash (CommittingHeader (w_state v'))"
proof (rule ccontr)
  assume ne: "Hash (CommittingHeader (w_state w')) \<noteq> Hash (CommittingHeader (w_state v'))"
  note c1 = kpost_commits(1)[OF kstep_post[OF step(1) krun_kinv[OF run(1-3)]] step(2)]
  note c2 = kpost_commits(1)[OF kstep_post[OF step(3) krun_kinv[OF run(4-6)]] step(4)]
  obtain p where p: "map_of (PrecommitProofs (ks_Committing (w_state w'))) (Hash (CommittingHeader (w_state w'))) = Some p"
    "has_majority vals (bits (cm_SignatureBitSet (k_cmspScheme K) p))"
    using commit_signers[OF lib(1) c1] vals by auto
  obtain q where q: "map_of (PrecommitProofs (ks_Committing (w_state v'))) (Hash (CommittingHeader (w_state v'))) = Some q"
    "has_majority vals (bits2 (cm_SignatureBitSet (k_cmspScheme K2) q))"
    using commit_signers[OF lib(2) c2] vals same by auto
  have "bits (cm_SignatureBitSet (k_cmspScheme K) p) \<inter> bits2 (cm_SignatureBitSet (k_cmspScheme K2) q) \<subseteq> F"
    using honest p(1) q(1) ne by blast
  then show False
    using byz.tolerated_anti[OF F] byz.quorum_overlap[OF p(2) q(2)] by blast
qed

theorem mirrors_agree_witness:
  "Hash (CommittingHeader (w_state ex_committed)) = Hash (CommittingHeader (w_state ex_replayed))"
proof -
  have pc: "map fst (PrecommitProofs (ks_Committing (w_state ex_committed))) = [''x'']"
    "map fst (PrecommitProofs (ks_Committing (w_state ex_replayed))) = [''x'']" by code_simp+
  have vals: "ex_vals = Validators (rv_ValidatorSet (ks_Committing (w_state ex_committed)))"
    "rv_ValidatorSet (ks_Committing (w_state ex_committed)) = rv_ValidatorSet (ks_Committing (w_state ex_replayed))"
    by code_simp+
  have F: "below_third ex_vals {}" by (simp add: below_third_def set_power_def total_power_def ex_vals_def)
  have one: "a = ''x''" if "map_of m a = Some p" "map fst m = [''x'']" for m :: "(bytes, nat list SimpleProof) gomap" and a p
  proof -
    have "a \<in> set (map fst m)" using map_of_SomeD[OF that(1)] by force
    then show ?thesis unfolding that(2) by simp
  qed
  from mirrors_agree[OF ex_kernel_lib ex_kernel_lib ex_proposed_krun ex_kernel_ok krun.start[OF ex_start_run] ex_kernel_ok
      ex_commit_step ex_commits ex_replay_step ex_replay_commits vals(2) vals(1) ex_powers_ok F]
  show ?thesis using one pc by metis
qed

end
