(* ===== verification/KernelProps.thy ===== *)
theory KernelProps
  imports KernelLoop
begin

text \<open>
  What the kernel's handlers compute: the vote distribution behind the fetch requests, the fetch
  requests themselves, the optimistic application of votes, and the decision the precommit check
  takes.
\<close>

section \<open>The vote distribution\<close>

lemma lookup0_update: "lookup0 (AList.update k v m) k' = (if k' = k then v else lookup0 m k')"
  by (simp add: lookup0_def update_conv')

lemma distribution_loop_power:
  "VotePowerPresent (distribution_loop B bs vals h fuel start d) =
     fst (signedPower_loop B bs vals fuel start (VotePowerPresent d, lookup0 (BlockVotePower d) h)) \<and>
   lookup0 (BlockVotePower (distribution_loop B bs vals h fuel start d)) k =
     (if k = h then snd (signedPower_loop B bs vals fuel start (VotePowerPresent d, lookup0 (BlockVotePower d) h))
      else lookup0 (BlockVotePower d) k) \<and>
   AvailableVotePower (distribution_loop B bs vals h fuel start d) = AvailableVotePower d"
proof (induction B bs vals h fuel start d rule: distribution_loop.induct)
  case (2 B bs vals h fuel start d)
  show ?case
  proof (cases "bs_NextSet B bs start")
    case (Some i)
    then show ?thesis using 2 by (cases "i < length vals") (simp_all add: lookup0_update)
  qed simp
qed simp

context signature_proof
begin

lemma distribution_fold:
  fixes proofs :: "(bytes, 'p) gomap" and vals :: "Validator list" and d :: voteDistribution
  assumes "gomap_ok proofs" and "\<And>k. k \<in> fst ` set proofs \<Longrightarrow> lookup0 (BlockVotePower d) k = 0"
  defines "g \<equiv> fold (\<lambda>(h, p) d. distribution_loop B (cm_SignatureBitSet C p) vals h (Suc (length vals)) 0 d) proofs d"
  shows "VotePowerPresent g = VotePowerPresent d + sum_list (map snd (proof_powers vals proofs)) \<and>
    lookup0 (BlockVotePower g) k = (case map_of proofs k of None \<Rightarrow> lookup0 (BlockVotePower d) k
       | Some p \<Rightarrow> word_power vals (signers p)) \<and>
    AvailableVotePower g = AvailableVotePower d"
  using assms(1,2) unfolding g_def
proof (induction proofs arbitrary: d)
  case Nil
  then show ?case by (simp add: proof_powers_def)
next
  case (Cons e proofs)
  obtain h p where e: "e = (h, p)" by (cases e)
  let ?d = "distribution_loop B (cm_SignatureBitSet C p) vals h (Suc (length vals)) 0 d"
  have z: "lookup0 (BlockVotePower d) h = 0" using Cons.prems(2)[of h] by (simp add: e)
  have d: "VotePowerPresent ?d = VotePowerPresent d + word_power vals (signers p)"
    "lookup0 (BlockVotePower ?d) k = (if k = h then word_power vals (signers p) else lookup0 (BlockVotePower d) k)"
    "AvailableVotePower ?d = AvailableVotePower d" for k
    using distribution_loop_power[of B "cm_SignatureBitSet C p" vals h "Suc (length vals)" 0 d]
    by (simp_all only: z signedPower_loop_eq fst_conv snd_conv signers_def)
  have fresh: "h \<notin> fst ` set proofs" and ok: "gomap_ok proofs"
    using Cons.prems(1) by (auto simp: gomap_ok_def e)
  then have "lookup0 (BlockVotePower ?d) k = 0" if "k \<in> fst ` set proofs" for k
    using that Cons.prems(2)[of k] by (auto simp: d(2) simp del: distribution_loop.simps)
  note ih = Cons.IH[OF ok this]
  have "map_of proofs h = None" using fresh by (simp add: map_of_eq_None_iff)
  with ih show ?case by (simp add: e d proof_powers_def add.assoc split: option.split del: distribution_loop.simps)
qed

lemma newVoteDistribution_spec:
  assumes "gomap_ok proofs"
  shows "AvailableVotePower (newVoteDistribution C B proofs vals) = sum_list (map Power vals)"
    and "VotePowerPresent (newVoteDistribution C B proofs vals) = sum_list (map snd (proof_powers vals proofs))"
    and "lookup0 (BlockVotePower (newVoteDistribution C B proofs vals)) k = lookup0 (proof_powers vals proofs) k"
proof -
  have av: "fold (\<lambda>v acc. acc + Power v) vals a = a + sum_list (map Power vals)" for a
    by (induction vals arbitrary: a) (simp_all add: add.assoc)
  let ?d = "\<lparr>AvailableVotePower = fold (\<lambda>v acc. acc + Power v) vals 0, VotePowerPresent = 0, BlockVotePower = []\<rparr>"
  note f = distribution_fold[OF assms, of ?d vals k]
  show "AvailableVotePower (newVoteDistribution C B proofs vals) = sum_list (map Power vals)"
    "VotePowerPresent (newVoteDistribution C B proofs vals) = sum_list (map snd (proof_powers vals proofs))"
    "lookup0 (BlockVotePower (newVoteDistribution C B proofs vals)) k = lookup0 (proof_powers vals proofs) k"
    using f av[of 0] by (simp_all add: newVoteDistribution_def lookup0_def map_of_proof_powers split: option.split)
qed

end

section \<open>Fetching missing headers\<close>

text \<open>Requests go out in order until the channel is full; the accepted ones are in flight.\<close>

lemma fold_requestFetch:
  "fold (\<lambda>h w'. if P h then w' else requestFetch h w') hs w =
     (let sent = take (w_fetchFree w) (filter (\<lambda>h. \<not> P h) hs) in
      w\<lparr>w_fetchFree := w_fetchFree w - length sent,
        w_fetchRequests := w_fetchRequests w @ map (Pair (rv_Height (ks_Voting (w_state w)))) sent,
        w_state := (w_state w)\<lparr>InFlightFetchPHs := rev sent @ InFlightFetchPHs (w_state w)\<rparr>\<rparr>)"
proof (induction hs arbitrary: w)
  case (Cons h hs)
  show ?case
  proof (cases "w_fetchFree w")
    case 0
    then show ?thesis using Cons.IH[of w] by (simp add: requestFetch_def Let_def)
  next
    case (Suc n)
    then show ?thesis
      using Cons.IH[of w] Cons.IH[of "requestFetch h w"] by (simp add: requestFetch_def Let_def)
  qed
qed (simp add: Let_def)

text \<open>The hashes to fetch: voted for by at least the Byzantine minority, not nil, without a known
  proposed header and not being fetched.\<close>

definition to_fetch :: "('b \<Rightarrow> nat set) \<Rightarrow> ('p, 'b) cmsp \<Rightarrow> 'p kState \<Rightarrow> (bytes, 'p) gomap \<Rightarrow> bytes \<Rightarrow> bool" where
  "to_fetch bits C s proofs h \<longleftrightarrow>
     (\<exists>p. map_of proofs h = Some p \<and> h \<noteq> [] \<and>
       h \<notin> (\<lambda>ph. Hash (ph_Header ph)) ` set (ProposedHeaders (ks_Voting s)) \<and> h \<notin> set (InFlightFetchPHs s) \<and>
       total_power (Validators (rv_ValidatorSet (ks_Voting s))) \<le>
         3 * set_power (Validators (rv_ValidatorSet (ks_Voting s))) (bits (cm_SignatureBitSet C p)))"

lemma powers_ok_nonzero: "powers_ok vals \<Longrightarrow> sum_list (map Power vals) \<noteq> 0 \<and> unat (sum_list (map Power vals)) = total_power vals"
  using unat_total_power[of vals] by (auto simp: powers_ok_def)

lemma checkMissingPHs_spec:
  assumes lib: "signature_proof (k_bitset K) bits (k_cmspScheme K) pinv nkeys"
    and pow: "powers_ok (Validators (rv_ValidatorSet (ks_Voting (w_state w))))"
    and ok: "gomap_ok proofs" "proofs \<noteq> []"
    and sent: "sent = take (w_fetchFree w) (filter (to_fetch bits (k_cmspScheme K) (w_state w) proofs) (map fst proofs))"
  shows "checkMissingPHs K proofs w = Ret (w\<lparr>w_fetchFree := w_fetchFree w - length sent,
      w_fetchRequests := w_fetchRequests w @ map (Pair (rv_Height (ks_Voting (w_state w)))) sent,
      w_state := (w_state w)\<lparr>InFlightFetchPHs := rev sent @ InFlightFetchPHs (w_state w)\<rparr>\<rparr>)"
proof -
  let ?C = "k_cmspScheme K" and ?B = "k_bitset K" and ?s = "w_state w"
  let ?vals = "Validators (rv_ValidatorSet (ks_Voting ?s))"
  let ?dist = "newVoteDistribution ?C ?B proofs ?vals"
  let ?missing = "filter (\<lambda>h. h \<notin> set (InFlightFetchPHs ?s)) (filter (\<lambda>h. h \<noteq> [] \<and>
     h \<notin> set (map (\<lambda>ph. Hash (ph_Header ph)) (ProposedHeaders (ks_Voting ?s)))) (map fst proofs))"
  note dist = signature_proof.newVoteDistribution_spec[OF lib ok(1), of ?vals]
  note av = powers_ok_nonzero[OF pow]
  obtain min where min: "ByzantineMinority (AvailableVotePower ?dist) = Ret min"
    using ByzantineMinority_value av dist(1) by metis
  have few: "\<not> lookup0 (BlockVotePower ?dist) h < min \<longleftrightarrow>
      total_power ?vals \<le> 3 * set_power ?vals (bits (cm_SignatureBitSet ?C p))" if "map_of proofs h = Some p" for h p
  proof -
    have "lookup0 (BlockVotePower ?dist) h = word_power ?vals (bits (cm_SignatureBitSet ?C p))"
      using dist(3)[of h] that
      by (simp add: lookup0_def signature_proof.map_of_proof_powers[OF lib] signature_proof.signers_def[OF lib])
    then show ?thesis
      using ByzantineMinority_iff[OF min] unat_word_power[OF pow] av by (simp add: not_less dist(1))
  qed
  have key: "\<exists>p. map_of proofs h = Some p" if "h \<in> set (map fst proofs)" for h
    using that weak_map_of_SomeI by fastforce
  have filt: "filter (\<lambda>h. \<not> lookup0 (BlockVotePower ?dist) h < min) ?missing =
      filter (to_fetch bits ?C ?s proofs) (map fst proofs)"
    unfolding filter_filter by (rule filter_cong[OF refl]) (use few key in \<open>fastforce simp: to_fetch_def\<close>)
  show ?thesis
  proof (cases "?missing = []")
    case True
    then have "sent = []" using filt sent by simp
    then show ?thesis using True ok by (simp add: checkMissingPHs_def Let_def)
  next
    case False
    then have "checkMissingPHs K proofs w =
        Ret (fold (\<lambda>h w'. if lookup0 (BlockVotePower ?dist) h < min then w' else requestFetch h w') ?missing w)"
      unfolding checkMissingPHs_def Let_def min gobind.simps using ok(2) by (simp only: if_False)
    then show ?thesis unfolding fold_requestFetch filt Let_def sent .
  qed
qed

section \<open>Applying vote updates\<close>

text \<open>The update of a hash is current when it was computed from the version the view has.\<close>

definition current_update :: "(bytes, u32) gomap \<Rightarrow> bytes \<Rightarrow> 'p VoteUpdate \<Rightarrow> bool" where
  "current_update versions h u \<longleftrightarrow> vu_PrevVersion u = lookup0 versions h"

definition all_current :: "(bytes, u32) gomap \<Rightarrow> (bytes, 'p VoteUpdate) gomap \<Rightarrow> bool" where
  "all_current versions ups \<longleftrightarrow> (\<forall>(h, u) \<in> set ups. current_update versions h u)"

definition any_current :: "(bytes, u32) gomap \<Rightarrow> (bytes, 'p VoteUpdate) gomap \<Rightarrow> bool" where
  "any_current versions ups \<longleftrightarrow> (\<exists>(h, u) \<in> set ups. current_update versions h u)"

text \<open>What the view holds for a hash afterwards.\<close>

definition updated_proof :: "(bytes, u32) gomap \<Rightarrow> (bytes, 'p VoteUpdate) gomap \<Rightarrow> (bytes, 'p) gomap \<Rightarrow> bytes \<Rightarrow> 'p option" where
  "updated_proof versions ups proofs h = (case map_of ups h of
     None \<Rightarrow> map_of proofs h
   | Some u \<Rightarrow> if current_update versions h u then Some (vu_Proof u) else map_of proofs h)"

definition updated_version :: "(bytes, u32) gomap \<Rightarrow> (bytes, 'p VoteUpdate) gomap \<Rightarrow> bytes \<Rightarrow> u32" where
  "updated_version versions ups h = (case map_of ups h of
     None \<Rightarrow> lookup0 versions h
   | Some u \<Rightarrow> if current_update versions h u then lookup0 versions h + 1 else lookup0 versions h)"

lemma applyUpdate_fold:
  assumes "gomap_ok ups"
  shows "\<exists>proofs' versions'. fold applyUpdate ups (proofs, versions, aa, an) =
     (proofs', versions', aa \<and> all_current versions ups, an \<or> any_current versions ups) \<and>
     (\<forall>h. map_of proofs' h = updated_proof versions ups proofs h) \<and>
     (\<forall>h. lookup0 versions' h = updated_version versions ups h) \<and>
     (gomap_ok proofs \<longrightarrow> gomap_ok proofs')"
  using assms
proof (induction ups arbitrary: proofs versions aa an)
  case Nil
  then show ?case by (simp add: all_current_def any_current_def updated_proof_def updated_version_def)
next
  case (Cons e ups)
  obtain h u where e: "e = (h, u)" by (cases e)
  have fresh: "h \<notin> fst ` set ups" and ok: "gomap_ok ups" using Cons.prems by (auto simp: gomap_ok_def e)
  then have none: "map_of ups h = None" by (simp add: map_of_eq_None_iff)
  show ?case
  proof (cases "current_update versions h u")
    case True
    let ?v = "AList.update h (lookup0 versions h + 1) versions"
    have step: "applyUpdate e (proofs, versions, aa, an) = (AList.update h (vu_Proof u) proofs, ?v, aa, True)"
      using True by (simp add: applyUpdate_def e current_update_def)
    have cur: "current_update ?v k x = current_update versions k x" if "(k, x) \<in> set ups" for k x
      using that fresh by (force simp: current_update_def lookup0_update)
    have cur': "current_update ?v k x = current_update versions k x" if "map_of ups k = Some x" for k x
      using cur map_of_SomeD[OF that] by blast
    show ?thesis
      using Cons.IH[OF ok, of "AList.update h (vu_Proof u) proofs" ?v aa True]
      unfolding fold_simps step comp_def
      by (elim ex_forward)
         (use True none cur cur' in \<open>auto simp: e all_current_def any_current_def updated_proof_def updated_version_def
           update_conv' lookup0_update split: option.splits\<close>)
  next
    case False
    then have step: "applyUpdate e (proofs, versions, aa, an) = (proofs, versions, False, an)"
      by (simp add: applyUpdate_def e current_update_def)
    show ?thesis
      using Cons.IH[OF ok, of proofs versions False an] unfolding fold_simps step comp_def
      by (elim ex_forward)
         (use False none in \<open>auto simp: e all_current_def any_current_def updated_proof_def updated_version_def split: option.splits\<close>)
  qed
qed

lemma mapToSparse_spec:
  assumes "gomap_ok proofs" and "\<forall>(h, p) \<in> set proofs. cm_PubKeyHash C p = pkh"
  shows "mapToSparseSignatureCollection C proofs = Ret \<lparr>ssc_PubKeyHash = firstPubKeyHash C proofs,
     BlockSignatures = map (\<lambda>(h, p). (h, ssp_Signatures (cm_AsSparse C p))) proofs\<rparr>"
proof -
  let ?sig = "\<lambda>(h, p). (h, ssp_Signatures (cm_AsSparse C p))"
  let ?pk = "firstPubKeyHash C proofs"
  have pk: "\<forall>(h, p) \<in> set proofs. cm_PubKeyHash C p = ?pk"
    using assms(2) by (cases proofs) (auto simp: firstPubKeyHash_def)
  have "gofold (\<lambda>(hash, p) out.
          if cm_PubKeyHash C p \<noteq> ?pk then Panic ''public key hash mismatch in signature proofs''
          else Ret (out\<lparr>BlockSignatures := AList.update hash
                 ((case map_of (BlockSignatures out) hash of None \<Rightarrow> [] | Some l \<Rightarrow> l) @ ssp_Signatures (cm_AsSparse C p))
                 (BlockSignatures out)\<rparr>)) xs \<lparr>ssc_PubKeyHash = ?pk, BlockSignatures = map ?sig acc\<rparr> =
        Ret \<lparr>ssc_PubKeyHash = ?pk, BlockSignatures = map ?sig (acc @ xs)\<rparr>"
    if "gomap_ok (acc @ xs)" "\<forall>(h, p) \<in> set xs. cm_PubKeyHash C p = ?pk" for acc xs
    using that
  proof (induction xs arbitrary: acc)
    case (Cons e xs)
    obtain h p where e: "e = (h, p)" by (cases e)
    have "h \<notin> fst ` set (map ?sig acc)" using Cons.prems(1) by (auto simp: gomap_ok_def e image_iff)
    moreover from this have "map_of (map ?sig acc) h = None" by (simp add: map_of_eq_None_iff)
    ultimately show ?case
      using Cons.IH[of "acc @ [e]"] Cons.prems by (simp add: e AList_update_fresh)
  qed simp
  from this[of "[]" proofs] assms(1) pk show ?thesis
    by (simp add: mapToSparseSignatureCollection_def Let_def)
qed

text \<open>The proofs of one round are all over the same keys.\<close>

definition one_key_set :: "('p, 'b) cmsp \<Rightarrow> bytes \<Rightarrow> (bytes, 'p) gomap \<Rightarrow> (bytes, 'p VoteUpdate) gomap \<Rightarrow> bool" where
  "one_key_set C pkh proofs ups \<longleftrightarrow> (\<forall>(h, p) \<in> set proofs. cm_PubKeyHash C p = pkh) \<and>
     (\<forall>(h, u) \<in> set ups. cm_PubKeyHash C (vu_Proof u) = pkh)"

lemma updated_one_key_set:
  assumes "one_key_set C pkh proofs ups" and "gomap_ok proofs'"
    and "\<forall>h. map_of proofs' h = updated_proof versions ups proofs h"
  shows "\<forall>(h, p) \<in> set proofs'. cm_PubKeyHash C p = pkh"
proof clarify
  fix h p assume "(h, p) \<in> set proofs'"
  then have "updated_proof versions ups proofs h = Some p"
    using assms(2,3) by (metis gomap_ok_def map_of_is_SomeI)
  then show "cm_PubKeyHash C p = pkh"
    using assms(1) map_of_SomeD[of ups h] map_of_SomeD[of proofs h p]
    by (fastforce simp: updated_proof_def one_key_set_def split: option.splits if_splits)
qed

lemma updated_not_empty:
  assumes "any_current versions ups \<or> proofs \<noteq> []" and "gomap_ok ups"
    and "\<forall>h. map_of proofs' h = updated_proof versions ups proofs h"
  shows "proofs' \<noteq> []"
proof (rule ccontr)
  assume "\<not> proofs' \<noteq> []"
  then have none: "updated_proof versions ups proofs h = None" for h using assms(3) by (metis map_of.simps(1))
  from assms(1) show False
  proof
    assume "any_current versions ups"
    then obtain h u where "(h, u) \<in> set ups" "current_update versions h u" by (auto simp: any_current_def)
    then have "map_of ups h = Some u" using assms(2) by (simp add: gomap_ok_def)
    with \<open>current_update versions h u\<close> none[of h] show False by (simp add: updated_proof_def)
  next
    assume "proofs \<noteq> []"
    then obtain h p xs where "proofs = (h, p) # xs" by (cases proofs) auto
    then have "map_of proofs h = Some p" by simp
    with none[of h] show False by (simp add: updated_proof_def split: option.splits if_splits)
  qed
qed

lemma not_current_same:
  "\<not> any_current versions ups \<Longrightarrow> updated_proof versions ups proofs = map_of proofs \<and> updated_version versions ups = lookup0 versions"
  by (fastforce simp: updated_proof_def updated_version_def any_current_def fun_eq_iff dest: map_of_SomeD split: option.split)

lemma FindView_voting:
  "FindView s (rv_Height (ks_Voting s)) (rv_Round (ks_Voting s)) = Ret (ViewIDVoting, ViewFound)"
  by (simp add: FindView_def Let_def)

lemma addPrevote_voting_spec:
  assumes lib: "signature_proof (k_bitset K) bits (k_cmspScheme K) pinv nkeys" and "kinv K w"
    and v: "v = ks_Voting (w_state w)" "av_H req = rv_Height v" "av_R req = rv_Round v"
    and pow: "powers_ok (Validators (rv_ValidatorSet v))"
    and ups: "gomap_ok (av_Updates req)" "one_key_set (k_cmspScheme K) pkh (PrevoteProofs v) (av_Updates req)"
      "any_current (PrevoteBlockVersions v) (av_Updates req) \<or> PrevoteProofs v \<noteq> []"
  shows "\<exists>w'. addPrevote K req w =
       Ret (if all_current (PrevoteBlockVersions v) (av_Updates req) then AddVoteAccepted else AddVoteConflict, w') \<and>
     (\<forall>h. map_of (PrevoteProofs (ks_Voting (w_state w'))) h =
        updated_proof (PrevoteBlockVersions v) (av_Updates req) (PrevoteProofs v) h) \<and>
     (\<forall>h. lookup0 (PrevoteBlockVersions (ks_Voting (w_state w'))) h =
        updated_version (PrevoteBlockVersions v) (av_Updates req) h) \<and>
     Version (ks_Voting (w_state w')) =
        Version v + (if any_current (PrevoteBlockVersions v) (av_Updates req) then 1 else 0) \<and>
     rv_VoteSummary (ks_Voting (w_state w')) = fresh_summary (k_cmspScheme K) (k_bitset K) (ks_Voting (w_state w')) \<and>
     ks_Committing (w_state w') = ks_Committing (w_state w) \<and> ks_NextRound (w_state w') = ks_NextRound (w_state w)"
proof -
  let ?C = "k_cmspScheme K" and ?B = "k_bitset K" and ?ups = "av_Updates req" and ?vers = "PrevoteBlockVersions v"
  let ?any = "any_current ?vers ?ups"
  have sum: "summary_ok ?C ?B v" using assms(2) v(1) by (simp add: kinv_def aligned_def)
  obtain proofs versions where f: "fold applyUpdate ?ups (PrevoteProofs v, ?vers, True, False) =
      (proofs, versions, all_current ?vers ?ups, ?any)"
    and up: "\<forall>h. map_of proofs h = updated_proof ?vers ?ups (PrevoteProofs v) h"
      "\<forall>h. lookup0 versions h = updated_version ?vers ?ups h"
    and ok: "gomap_ok proofs"
    using applyUpdate_fold[OF ups(1), of "PrevoteProofs v" ?vers True False] sum by (auto simp: summary_ok_def)
  note keys = updated_one_key_set[OF ups(2) ok up(1)]
  define v1 where "v1 = v\<lparr>PrevoteProofs := proofs, PrevoteBlockVersions := versions,
      rv_VoteSummary := SetPrevotePowers ?C ?B (Validators (rv_ValidatorSet v)) proofs (rv_VoteSummary v)\<rparr>"
  obtain w1 where w1: "(if ?any then prevoteBookkeeping K ViewIDVoting req proofs versions w else Ret w) = Ret w1"
    and views: "ks_Voting (w_state w1) = (if ?any then bump_version v1 else v)"
      "ks_Committing (w_state w1) = ks_Committing (w_state w)" "ks_NextRound (w_state w1) = ks_NextRound (w_state w)"
    using mapToSparse_spec[OF ok keys]
    by (cases ?any) (auto simp: prevoteBookkeeping_def Let_def kview_def set_kview_def MarkViewUpdated_def v(1) v1_def)
  have pf: "\<forall>h. map_of (PrevoteProofs (ks_Voting (w_state w1))) h = updated_proof ?vers ?ups (PrevoteProofs v) h"
    "\<forall>h. lookup0 (PrevoteBlockVersions (ks_Voting (w_state w1))) h = updated_version ?vers ?ups h"
    using up not_current_same[of ?vers ?ups "PrevoteProofs v"] by (auto simp: views(1) v1_def)
  have sum1: "summary_ok ?C ?B (ks_Voting (w_state w1))"
    using sum summary_ok_set_prevotes[OF sum ok v1_def] by (simp add: views(1))
  have "rv_ValidatorSet (ks_Voting (w_state w1)) = rv_ValidatorSet v" by (simp add: views(1) v1_def)
  with pow have pow1: "powers_ok (Validators (rv_ValidatorSet (ks_Voting (w_state w1))))" by simp
  obtain w2 where w2: "checkMissingPHs K (PrevoteProofs (ks_Voting (w_state w1))) w1 = Ret w2"
    using checkMissingPHs_spec[OF lib pow1 _ updated_not_empty[OF ups(3) ups(1) pf(1)] refl] sum1
    by (auto simp: summary_ok_def)
  note same = checkMissingPHs_views[OF w2]
  have "addPrevote K req w = Ret (if all_current ?vers ?ups then AddVoteAccepted else AddVoteConflict, w2)"
    using FindView_voting[of "w_state w"] f w1 w2 v
    by (simp add: addPrevote_def Let_def kview_def prevoteShift_def)
  moreover have "Version (ks_Voting (w_state w1)) = Version v + (if ?any then 1 else 0)"
    by (simp add: views(1) v1_def)
  ultimately show ?thesis
    using pf sum1 views(2,3) by (intro exI[of _ w2]) (simp add: same summary_ok_def)
qed

text \<open>Adding prevotes is optimistic: for a request at the voting height and round, \<open>addPrevote\<close>
  returns, accepts exactly when every update was computed from the version the view still has,
  applies exactly the updates that were (and keeps the old proof of every other hash), raises the
  version of exactly those hashes by one, raises the version of the view when any was applied, and
  leaves the vote summary current and the other views alone.\<close>

theorem addPrevote_voting_exact:
  assumes lib: "signature_proof (k_bitset K) bits (k_cmspScheme K) pinv nkeys" and "kinv K w"
    and v: "v = ks_Voting (w_state w)" "av_H req = rv_Height v" "av_R req = rv_Round v"
    and pow: "powers_ok (Validators (rv_ValidatorSet v))"
    and ups: "gomap_ok (av_Updates req)" "one_key_set (k_cmspScheme K) pkh (PrevoteProofs v) (av_Updates req)"
      "any_current (PrevoteBlockVersions v) (av_Updates req) \<or> PrevoteProofs v \<noteq> []"
  shows "\<exists>w'. addPrevote K req w =
       Ret (if all_current (PrevoteBlockVersions v) (av_Updates req) then AddVoteAccepted else AddVoteConflict, w') \<and>
     (\<forall>h. map_of (PrevoteProofs (ks_Voting (w_state w'))) h =
        updated_proof (PrevoteBlockVersions v) (av_Updates req) (PrevoteProofs v) h) \<and>
     (\<forall>h. lookup0 (PrevoteBlockVersions (ks_Voting (w_state w'))) h =
        updated_version (PrevoteBlockVersions v) (av_Updates req) h) \<and>
     Version (ks_Voting (w_state w')) =
        Version v + (if any_current (PrevoteBlockVersions v) (av_Updates req) then 1 else 0) \<and>
     rv_VoteSummary (ks_Voting (w_state w')) = fresh_summary (k_cmspScheme K) (k_bitset K) (ks_Voting (w_state w')) \<and>
     ks_Committing (w_state w') = ks_Committing (w_state w) \<and> ks_NextRound (w_state w') = ks_NextRound (w_state w)"
  using assms by (rule addPrevote_voting_spec)

definition ex_prevote_request :: "nat list SimpleProof AddVoteRequest" where
  "ex_prevote_request = \<lparr>av_H = 1, av_R = 0, av_Updates = [(''x'', \<lparr>vu_Proof = ex_proof, vu_PrevVersion = 0\<rparr>),
     (''y'', \<lparr>vu_Proof = ex_proof, vu_PrevVersion = 7\<rparr>)]\<rparr>"

lemma ex_proposed_kinv: "kinv ex_kernel ex_proposed"
  by (rule krun_kinv[OF ex_proposed_krun ex_kernel_ok])

lemma ex_proposed_voting:
  "rv_Height (ks_Voting (w_state ex_proposed)) = 1" "rv_Round (ks_Voting (w_state ex_proposed)) = 0"
  "Validators (rv_ValidatorSet (ks_Voting (w_state ex_proposed))) = ex_vals"
  "PrevoteProofs (ks_Voting (w_state ex_proposed)) = []" "PrevoteBlockVersions (ks_Voting (w_state ex_proposed)) = []"
  by code_simp+

theorem addPrevote_voting_exact_witness:
  "\<exists>w'. addPrevote ex_kernel ex_prevote_request ex_proposed = Ret (AddVoteConflict, w') \<and>
     map_of (PrevoteProofs (ks_Voting (w_state w'))) ''x'' = Some ex_proof \<and>
     map_of (PrevoteProofs (ks_Voting (w_state w'))) ''y'' = None"
proof -
  let ?v = "ks_Voting (w_state ex_proposed)"
  have "av_H ex_prevote_request = rv_Height ?v" "av_R ex_prevote_request = rv_Round ?v"
    "powers_ok (Validators (rv_ValidatorSet ?v))" "gomap_ok (av_Updates ex_prevote_request)"
    by (simp_all add: ex_prevote_request_def ex_proposed_voting ex_powers_ok gomap_ok_def)
  moreover have "one_key_set (k_cmspScheme ex_kernel) ''h'' (PrevoteProofs ?v) (av_Updates ex_prevote_request)"
    by (simp add: one_key_set_def ex_proposed_voting ex_prevote_request_def ex_kernel_def ex_proof_def)
  moreover have cur: "any_current [] (av_Updates ex_prevote_request)" "\<not> all_current [] (av_Updates ex_prevote_request)"
    by (simp_all add: any_current_def all_current_def current_update_def lookup0_def ex_prevote_request_def)
  ultimately obtain w' where "addPrevote ex_kernel ex_prevote_request ex_proposed = Ret (AddVoteConflict, w')"
    and "\<forall>h. map_of (PrevoteProofs (ks_Voting (w_state w'))) h = updated_proof [] (av_Updates ex_prevote_request) [] h"
    using addPrevote_voting_exact[OF ex_kernel_lib ex_proposed_kinv refl, of ex_prevote_request "''h''"]
    by (auto simp: ex_proposed_voting)
  then show ?thesis
    by (auto simp: updated_proof_def current_update_def lookup0_def ex_prevote_request_def)
qed

section \<open>The precommit check\<close>

text \<open>No other hash of the view shares a third of the power with the signers \<open>S\<close> of \<open>h\<close>.\<close>

definition no_rival :: "('b \<Rightarrow> nat set) \<Rightarrow> ('p, 'b) cmsp \<Rightarrow> Validator list \<Rightarrow> (bytes, 'p) gomap \<Rightarrow> bytes \<Rightarrow> nat set \<Rightarrow> bool" where
  "no_rival bits C vals proofs h S \<longleftrightarrow>
     (\<forall>a q. map_of proofs a = Some q \<and> a \<noteq> h \<longrightarrow> below_third vals (S \<inter> bits (cm_SignatureBitSet C q)))"

lemma majority_is_most_voted:
  assumes lib: "signature_proof B bits C pinv nkeys" and ok: "summary_ok C B v"
    and vals: "vals = Validators (rv_ValidatorSet v)" "powers_ok vals"
    and p: "map_of (PrecommitProofs v) h = Some p" "has_majority vals (bits (cm_SignatureBitSet C p))"
    and rival: "no_rival bits C vals (PrecommitProofs v) h (bits (cm_SignatureBitSet C p))"
  shows "MostVotedPrecommitHash (rv_VoteSummary v) = h"
    and "\<exists>maj. ByzantineMajority (AvailablePower (rv_VoteSummary v)) = Ret maj \<and>
       maj \<le> lookup0 (PrecommitBlockPower (rv_VoteSummary v)) h"
proof -
  let ?pw = "signature_proof.proof_powers bits C vals (PrecommitProofs v)"
  let ?mh = "MostVotedPrecommitHash (rv_VoteSummary v)"
  have gm: "gomap_ok (PrecommitProofs v)" using ok by (simp add: summary_ok_def)
  note spec = signature_proof.SetPrecommitPowers_spec[OF lib gm, of "rv_VoteSummary v" vals]
  have pw: "PrecommitBlockPower (rv_VoteSummary v) = ?pw" and mv: "most_voted ?pw ?mh"
    using ok spec(1,3) by (auto simp: summary_ok_def fresh_summary_def SetVotePowers_def vals(1))
  have lk: "map_of ?pw a = map_option (\<lambda>p. word_power vals (bits (cm_SignatureBitSet C p))) (map_of (PrecommitProofs v) a)" for a
    by (simp add: signature_proof.map_of_proof_powers[OF lib] signature_proof.signers_def[OF lib])
  have av: "AvailablePower (rv_VoteSummary v) = sum_list (map Power vals)"
    using summary_ok_AvailablePower[OF ok] vals(1) by simp
  obtain maj where maj: "ByzantineMajority (sum_list (map Power vals)) = Ret maj"
    and ge: "unat maj \<le> set_power vals (bits (cm_SignatureBitSet C p))"
    using p(2) by (auto simp: has_majority_def split: go.splits)
  have hp: "map_of ?pw h = Some (word_power vals (bits (cm_SignatureBitSet C p)))" by (simp add: lk p(1))
  have big: "maj \<le> word_power vals (bits (cm_SignatureBitSet C p))"
    using ge by (simp add: word_le_nat_alt unat_word_power[OF vals(2)])
  then show "\<exists>maj. ByzantineMajority (AvailablePower (rv_VoteSummary v)) = Ret maj \<and>
       maj \<le> lookup0 (PrecommitBlockPower (rv_VoteSummary v)) h"
    using maj hp by (simp add: av pw lookup0_def)
  have "0 < unat maj" by (rule ByzantineMajority_pos[OF maj])
  with big have "word_power vals (bits (cm_SignatureBitSet C p)) \<noteq> 0" by (auto simp: word_le_nat_alt)
  with map_of_SomeD[OF hp] mv obtain m where m: "(?mh, m) \<in> set ?pw"
    and top: "word_power vals (bits (cm_SignatureBitSet C p)) \<le> m"
    by (force simp: most_voted_def split: if_splits)
  have "distinct (map fst ?pw)"
    using gm by (simp add: signature_proof.proof_powers_def[OF lib] gomap_ok_def case_prod_unfold comp_def)
  with m have mh: "map_of ?pw ?mh = Some m" by simp
  then obtain q where q: "map_of (PrecommitProofs v) ?mh = Some q" "m = word_power vals (bits (cm_SignatureBitSet C q))"
    using lk[of ?mh] by (auto simp: map_option_case split: option.splits)
  have "has_majority vals (bits (cm_SignatureBitSet C q))"
    using maj big top q(2) vals(2) unat_word_power[OF vals(2)] by (simp add: has_majority_def word_le_nat_alt)
  then show "?mh = h"
    using byz.quorum_overlap[OF p(2)] rival q(1) by (auto simp: no_rival_def)
qed
text \<open>Stores that never fail, as the in-memory ones.\<close>

definition reliable_stores :: "'s kernel_stores \<Rightarrow> bool" where
  "reliable_stores S \<longleftrightarrow> (\<forall>ch st. fst (st_SaveCommittedHeader S ch st) = None) \<and>
     (\<forall>vh vr ch cr st. fst (st_SetNetworkHeightRound S vh vr ch cr st) = None)"

lemma MemKernelStores_sel:
  "st_SaveCommittedHeader (MemKernelStores hs) = (\<lambda>ch m. stored (\<lambda>s. mk_headers_update (\<lambda>_. s)) m (SaveCommittedHeader (mk_headers m) ch))"
  "st_SetNetworkHeightRound (MemKernelStores hs) =
     (\<lambda>vh vr ch cr m. stored (\<lambda>s. mk_mirror_update (\<lambda>_. s)) m (SetNetworkHeightRound (mk_mirror m) vh vr ch cr))"
  "st_SaveRoundProposedHeader (MemKernelStores hs) =
     (\<lambda>ph m. gobind (SaveRoundProposedHeader (mk_rounds m) ph) (\<lambda>(e, s). Ret (e, m\<lparr>mk_rounds := s\<rparr>)))"
  "st_SaveRoundReplayedHeader (MemKernelStores hs) = (\<lambda>h m. stored (\<lambda>s. mk_rounds_update (\<lambda>_. s)) m (SaveRoundReplayedHeader (mk_rounds m) h))"
  "st_OverwriteRoundPrevoteProofs (MemKernelStores hs) =
     (\<lambda>h r c m. stored (\<lambda>s. mk_rounds_update (\<lambda>_. s)) m (OverwriteRoundPrevoteProofs (mk_rounds m) h r c))"
  "st_OverwriteRoundPrecommitProofs (MemKernelStores hs) =
     (\<lambda>h r c m. stored (\<lambda>s. mk_rounds_update (\<lambda>_. s)) m (OverwriteRoundPrecommitProofs (mk_rounds m) h r c))"
  "st_NetworkHeightRound (MemKernelStores hs) = (\<lambda>m. NetworkHeightRound (mk_mirror m))"
  "st_LoadCommittedHeader (MemKernelStores hs) = (\<lambda>m. LoadCommittedHeader (mk_headers m))"
  unfolding MemKernelStores_def by (rule kernel_stores.select_convs)+

lemma reliable_mem: "reliable_stores (MemKernelStores hs)"
proof -
  have "fst (st_SaveCommittedHeader (MemKernelStores hs) ch st) = None"
    "fst (st_SetNetworkHeightRound (MemKernelStores hs) vh vr h cr st) = None" for ch st vh vr h cr
    unfolding MemKernelStores_sel by (simp_all add: stored_def SaveCommittedHeader_def SetNetworkHeightRound_def)
  then show ?thesis unfolding reliable_stores_def by blast
qed

lemma updateObservers_reliable:
  assumes "reliable_stores (k_stores K)"
  shows "\<exists>w'. updateObservers K w = (None, w')"
proof -
  have "fst (updateObservers K w) = None"
    using assms unfolding updateObservers_def Let_def reliable_stores_def by (simp split: prod.split) (metis fst_conv)
  then show ?thesis by (metis prod.collapse)
qed

lemma saveCurrentCommittingHeader_reliable:
  assumes "reliable_stores (k_stores K)"
  shows "\<exists>w'. saveCurrentCommittingHeader K w = (None, w')"
proof -
  have "fst (saveCurrentCommittingHeader K w) = None"
    using assms unfolding saveCurrentCommittingHeader_def Let_def reliable_stores_def by (simp split: prod.split) (metis fst_conv)
  then show ?thesis by (metis prod.collapse)
qed

text \<open>The state machine's channel for committed heights can be closed: it is not for the committing
  height or has not been closed yet.\<close>

definition can_signal :: "'p kState \<Rightarrow> bool" where
  "can_signal s \<longleftrightarrow> re_H (roundEntrance (ks_smvm s)) \<noteq> rv_Height (ks_Committing s) \<or>
     re_HeightCommitted (roundEntrance (ks_smvm s)) \<noteq> ClosedChan"

lemma ShiftVotingToCommitting_returns: "can_signal s \<Longrightarrow> \<exists>s'. ShiftVotingToCommitting C nhd s = Ret s'"
  by (auto simp: ShiftVotingToCommitting_def can_signal_def Let_def close_chan_def split: chan_state.split)

text \<open>(C23) The precommit check makes progress: when validators with more than two thirds of the power
  have precommitted one hash in the voting view, and no other hash shares a third of the power with
  them, the check returns without error; for the nil hash it moves to the next round of the same
  height, and for the hash of a proposed header it commits that header and moves to the next height.\<close>

theorem precommit_majority_decides:
  assumes lib: "signature_proof (k_bitset K) bits (k_cmspScheme K) pinv nkeys" and inv: "kinv K w"
    and v: "v = ks_Voting (w_state w)" "vals = Validators (rv_ValidatorSet v)" "powers_ok vals"
    and p: "map_of (PrecommitProofs v) h = Some p" "has_majority vals (bits (cm_SignatureBitSet (k_cmspScheme K) p))"
      "no_rival bits (k_cmspScheme K) vals (PrecommitProofs v) h (bits (cm_SignatureBitSet (k_cmspScheme K) p))"
    and ph: "h \<noteq> [] \<longrightarrow> (\<exists>ph \<in> set (ProposedHeaders v). Hash (ph_Header ph) = h)"
    and env: "reliable_stores (k_stores K)" "can_signal (w_state w)"
  shows "\<exists>w'. checkVotingPrecommitViewShift K w = Ret (None, w') \<and>
    (if h = [] then rv_Height (ks_Voting (w_state w')) = rv_Height v \<and> rv_Round (ks_Voting (w_state w')) = rv_Round v + 1 \<and>
         CommittingHeader (w_state w') = CommittingHeader (w_state w)
     else Hash (CommittingHeader (w_state w')) = h \<and> rv_Height (ks_Committing (w_state w')) = rv_Height v \<and>
         rv_Height (ks_Voting (w_state w')) = rv_Height v + 1 \<and> rv_Round (ks_Voting (w_state w')) = 0)"
proof -
  have al: "aligned (k_cmspScheme K) (k_bitset K) (w_state w)" using inv by (simp add: kinv_def)
  then have ok: "summary_ok (k_cmspScheme K) (k_bitset K) v" by (simp add: aligned_def v(1))
  note top = majority_is_most_voted[OF lib ok v(2,3) p]
  obtain maj where maj: "ByzantineMajority (AvailablePower (rv_VoteSummary v)) = Ret maj"
    and enough: "\<not> lookup0 (PrecommitBlockPower (rv_VoteSummary v)) h < maj"
    using top(2) by (auto simp: not_less)
  show ?thesis
  proof (cases "h = []")
    case True
    obtain w' where w': "advanceVotingRound K w = (None, w')"
      unfolding advanceVotingRound_def using updateObservers_reliable[OF env(1)] by blast
    have "w_state w' = AdvanceVotingRound (k_cmspScheme K) (w_state w)"
      using w' by (auto simp: advanceVotingRound_def dest: updateObservers_state')
    moreover have "checkVotingPrecommitViewShift K w = Ret (None, w')"
      unfolding checkVotingPrecommitViewShift_def Let_def v(1)[symmetric] maj gobind.simps top(1) using True enough w' by simp
    ultimately show ?thesis
      using True al by (simp add: Jump_Advance_views incrementVotingRound_views aligned_def v(1))
  next
    case False
    then obtain ph where found: "find (\<lambda>ph. Hash (ph_Header ph) = h) (ProposedHeaders v) = Some ph"
      using ph find_None_iff[of "\<lambda>ph. Hash (ph_Header ph) = h" "ProposedHeaders v"] by fastforce
    then have hash: "Hash (ph_Header ph) = h" by (auto simp: find_Some_iff)
    obtain s' where s': "ShiftVotingToCommitting (k_cmspScheme K)
        \<lparr>nhd_ValidatorSet = NextValidatorSet (ph_Header ph), nhd_VotedHeader = ph_Header ph\<rparr> (w_state w) = Ret s'"
      using ShiftVotingToCommitting_returns[OF env(2)] by blast
    obtain w1 where w1: "saveCurrentCommittingHeader K (w\<lparr>w_state := s'\<rparr>) = (None, w1)"
      using saveCurrentCommittingHeader_reliable[OF env(1)] by blast
    obtain w2 where w2: "updateObservers K w1 = (None, w2)" using updateObservers_reliable[OF env(1)] by blast
    have "w_state w2 = s'" using saveCurrentCommittingHeader_state[OF w1] updateObservers_state'[OF w2] by simp
    moreover have "checkVotingPrecommitViewShift K w = Ret (None, w2)"
      unfolding checkVotingPrecommitViewShift_def Let_def v(1)[symmetric] maj gobind.simps top(1)
      using False enough found hash s' w1 w2 by simp
    ultimately show ?thesis
      using False hash ShiftVotingToCommitting_views[OF s'] by (simp add: v(1))
  qed
qed


text \<open>Both validators have precommitted \<open>x\<close>; the check is still to be made.\<close>

definition ex_voted :: "(nat list SimpleProof, mem_stores) world" where
  "ex_voted = (case precommitBookkeeping ex_kernel ViewIDVoting ex_request [(''x'', ex_both)] [(''x'', 1)] ex_proposed of
     Ret w \<Rightarrow> w | Panic m \<Rightarrow> ex_world)"

lemma ex_voted_kinv: "kinv ex_kernel ex_voted"
proof -
  have "case precommitBookkeeping ex_kernel ViewIDVoting ex_request [(''x'', ex_both)] [(''x'', 1)] ex_proposed of
      Ret w \<Rightarrow> True | Panic m \<Rightarrow> False" by code_simp
  then have "precommitBookkeeping ex_kernel ViewIDVoting ex_request [(''x'', ex_both)] [(''x'', 1)] ex_proposed = Ret ex_voted"
    unfolding ex_voted_def by (auto split: go.splits)
  then have "state_update (k_cmspScheme ex_kernel) (k_bitset ex_kernel) (w_state ex_proposed) (w_state ex_voted)"
    by (rule precommitBookkeeping_update) (simp add: gomap_ok_def)
  then show ?thesis by (rule state_update_kinv(1)[OF ex_proposed_kinv])
qed

lemma ex_voted_view:
  "Validators (rv_ValidatorSet (ks_Voting (w_state ex_voted))) = ex_vals"
  "map fst (PrecommitProofs (ks_Voting (w_state ex_voted))) = [''x'']"
  "map (\<lambda>e. sp_bitset (snd e)) (PrecommitProofs (ks_Voting (w_state ex_voted))) = [[0, 1]]"
  "map (\<lambda>ph. Hash (ph_Header ph)) (ProposedHeaders (ks_Voting (w_state ex_voted))) = [''x'']"
  "re_HeightCommitted (roundEntrance (ks_smvm (w_state ex_voted))) = NilChan"
  by code_simp+

lemma ex_power: "total_power ex_vals = 8" "set_power ex_vals {0, Suc 0} = 8" "set_power ex_vals {Suc 0} = 5"
proof -
  have "{..<length ex_vals} = {0, Suc 0}" by (auto simp: ex_vals_def)
  then show "set_power ex_vals {0, Suc 0} = 8" "set_power ex_vals {Suc 0} = 5"
    by (simp_all add: set_power_def ex_vals_def)
qed (simp add: total_power_def ex_vals_def)

theorem precommit_majority_decides_witness:
  "\<exists>w'. checkVotingPrecommitViewShift ex_kernel ex_voted = Ret (None, w') \<and> Hash (CommittingHeader (w_state w')) = ''x''"
proof -
  let ?pcs = "PrecommitProofs (ks_Voting (w_state ex_voted))"
  obtain p where pcs: "?pcs = [(''x'', p)]" and p: "sp_bitset p = [0, 1]" using ex_voted_view(2,3) by auto
  obtain ph where ph: "ph \<in> set (ProposedHeaders (ks_Voting (w_state ex_voted)))" "Hash (ph_Header ph) = ''x''"
    using ex_voted_view(4) by auto
  have cm: "cm_SignatureBitSet (k_cmspScheme ex_kernel) p = [0, 1]" by (simp add: ex_kernel_def p)
  have maj: "has_majority ex_vals (set (cm_SignatureBitSet (k_cmspScheme ex_kernel) p))"
    unfolding has_majority_iff cm by (simp add: ex_powers_ok ex_power)
  have riv: "no_rival set (k_cmspScheme ex_kernel) ex_vals ?pcs ''x'' (set (cm_SignatureBitSet (k_cmspScheme ex_kernel) p))"
    by (simp add: no_rival_def pcs)
  have rel: "reliable_stores (k_stores ex_kernel)" using reliable_mem by (simp add: ex_kernel_def)
  have sig: "can_signal (w_state ex_voted)" by (simp add: can_signal_def ex_voted_view)
  have mp: "map_of ?pcs ''x'' = Some p" by (simp add: pcs)
  have "''x'' \<noteq> [] \<longrightarrow> (\<exists>ph \<in> set (ProposedHeaders (ks_Voting (w_state ex_voted))). Hash (ph_Header ph) = ''x'')"
    using ph by blast
  from precommit_majority_decides[OF ex_kernel_lib ex_voted_kinv refl ex_voted_view(1)[symmetric] ex_powers_ok mp maj riv this rel sig]
  show ?thesis by (elim ex_forward) simp
qed

section \<open>Fetch requests\<close>

text \<open>Fetch requests are exact: for the votes of a round over validators with a positive total power
  the check returns, and sends in order exactly the hashes that at least a third of the power voted
  for, that are not nil, have no known proposed header and are not being fetched, as many as the
  channel has room for; each is for the voting height and is then in flight, so that the next check
  of the same votes does not send it again.\<close>

theorem missing_headers_fetched:
  assumes lib: "signature_proof (k_bitset K) bits (k_cmspScheme K) pinv nkeys"
    and pow: "powers_ok (Validators (rv_ValidatorSet (ks_Voting (w_state w))))"
    and ok: "gomap_ok proofs" "proofs \<noteq> []"
    and sent: "sent = take (w_fetchFree w) (filter (to_fetch bits (k_cmspScheme K) (w_state w) proofs) (map fst proofs))"
  shows "\<exists>w'. checkMissingPHs K proofs w = Ret w' \<and>
     w_fetchRequests w' = w_fetchRequests w @ map (Pair (rv_Height (ks_Voting (w_state w)))) sent \<and>
     w_fetchFree w' = w_fetchFree w - length sent \<and>
     set (InFlightFetchPHs (w_state w')) = set sent \<union> set (InFlightFetchPHs (w_state w)) \<and>
     ks_Voting (w_state w') = ks_Voting (w_state w) \<and>
     (\<forall>h \<in> set sent. \<not> to_fetch bits (k_cmspScheme K) (w_state w') proofs h)"
  using checkMissingPHs_spec[OF assms] by (auto simp: to_fetch_def)

theorem missing_headers_fetched_witness:
  "\<exists>w'. checkMissingPHs ex_kernel [(''y'', ex_proof)] ex_proposed = Ret w' \<and> w_fetchRequests w' = [(1, ''y'')]"
proof -
  have s: "map (\<lambda>ph. Hash (ph_Header ph)) (ProposedHeaders (ks_Voting (w_state ex_proposed))) = [''x'']"
    "InFlightFetchPHs (w_state ex_proposed) = []" "w_fetchFree ex_proposed = 4" "w_fetchRequests ex_proposed = []"
    by code_simp+
  then have known: "(\<lambda>ph. Hash (ph_Header ph)) ` set (ProposedHeaders (ks_Voting (w_state ex_proposed))) = {''x''}"
    by (metis list.set_map list.simps(15) empty_set)
  have "to_fetch set (k_cmspScheme ex_kernel) (w_state ex_proposed) [(''y'', ex_proof)] ''y''"
    unfolding to_fetch_def known ex_proposed_voting(3)
    by (simp add: s ex_kernel_def ex_proof_def ex_power)
  then show ?thesis
    using missing_headers_fetched[OF ex_kernel_lib, of ex_proposed "[(''y'', ex_proof)]", OF _ _ _ refl]
    by (auto simp: ex_proposed_voting ex_powers_ok gomap_ok_def s)
qed

end
