(* ===== verification/KernelDurable.thy ===== *)
theory KernelDurable
  imports KernelProps
begin

text \<open>
  What the kernel keeps for its observers and for its next start. In every reachable state the mirror
  store holds the heights and rounds of the voting and committing views, and the views offered to the
  gossip strategy are at the versions of the kernel's views. The stores enter as the locale
  \<open>height_round_log\<close>, which the in-memory stores satisfy.
\<close>

section \<open>Handlers that keep the identities\<close>

lemma checkMissingPHs_ids:
  assumes "checkMissingPHs K proofs w = Ret w'"
  shows "same_ids (w_state w) (w_state w')" and "w_stores w' = w_stores w"
proof -
  have f: "w_stores (fold (\<lambda>h w'. if P h then w' else requestFetch h w') hs u) = w_stores u \<and>
      ks_gvm (w_state (fold (\<lambda>h w'. if P h then w' else requestFetch h w') hs u)) = ks_gvm (w_state u)" for P hs and u :: "('a, 's) world"
    by (simp add: fold_requestFetch Let_def)
  have "w_stores w' = w_stores w \<and> ks_gvm (w_state w') = ks_gvm (w_state w)"
    using assms by (auto simp: checkMissingPHs_def Let_def f split: if_splits)
  then show "same_ids (w_state w) (w_state w')" and "w_stores w' = w_stores w"
    using checkMissingPHs_views[OF assms] by (auto intro!: same_ids_cong simp: ids_def)
qed

text \<open>What an update of one view does to the identities, for the handlers that update one.\<close>

lemma set_kview_ids:
  assumes "rv_Height v = rv_Height (kview s vid)" "rv_Round v = rv_Round (kview s vid)" "Version v = Version (kview s vid)"
  shows "same_ids s (set_kview vid v s)"
  using assms by (cases vid) (auto intro!: same_ids_cong simp: set_kview_def kview_def ids_def)

lemma prevoteBookkeeping_ids:
  assumes "prevoteBookkeeping K vid req pvs bvs w = Ret w1"
  shows "same_ids (w_state w) (w_state w1)"
    and "\<exists>coll. w_stores w1 = snd (st_OverwriteRoundPrevoteProofs (k_stores K) (av_H req) (av_R req) coll (w_stores w))"
  using assms by (auto simp: prevoteBookkeeping_def Let_def intro!: same_ids_Mark)

lemma precommitBookkeeping_ids:
  assumes "precommitBookkeeping K vid req pvs bvs w = Ret w1"
  shows "same_ids (w_state w) (w_state w1)"
    and "\<exists>coll. w_stores w1 = snd (st_OverwriteRoundPrecommitProofs (k_stores K) (av_H req) (av_R req) coll (w_stores w))"
  using assms by (auto simp: precommitBookkeeping_def Let_def intro!: same_ids_Mark)

lemma backfillCommit_ids:
  assumes "backfillCommit K ph w = Ret w1"
  shows "same_ids (w_state w) (w_state w1)"
    and "w_stores w1 = w_stores w \<or>
      (\<exists>h r coll. w_stores w1 = snd (st_OverwriteRoundPrecommitProofs (k_stores K) h r coll (w_stores w)))"
proof -
  let ?s = "w_state w"
  obtain merged proofs where "w1 = w\<lparr>w_state := ?s\<lparr>ks_Committing := (ks_Committing ?s)\<lparr>PrecommitProofs := proofs\<rparr>\<rparr>\<rparr> \<or>
      (\<exists>h r coll. w1 = w\<lparr>w_stores := snd (st_OverwriteRoundPrecommitProofs (k_stores K) h r coll (w_stores w)),
         w_state := MarkCommittingViewUpdated (k_cmspScheme K) (?s\<lparr>ks_Committing := (ks_Committing ?s)\<lparr>PrecommitProofs := proofs\<rparr>\<rparr>)\<rparr>)"
    using assms by (fastforce simp: backfillCommit_def Let_def case_prod_unfold split: if_splits)
  note w1 = this
  have plain: "same_ids ?s (?s\<lparr>ks_Committing := (ks_Committing ?s)\<lparr>PrecommitProofs := proofs\<rparr>\<rparr>)"
    by (rule same_ids_cong) (simp_all add: ids_def)
  have marked: "same_ids ?s (MarkCommittingViewUpdated (k_cmspScheme K) (?s\<lparr>ks_Committing := (ks_Committing ?s)\<lparr>PrecommitProofs := proofs\<rparr>\<rparr>))"
    by (rule same_ids_Mark[where vid = ViewIDCommitting and v = "(ks_Committing ?s)\<lparr>PrecommitProofs := proofs\<rparr>"])
       (simp_all add: MarkViewUpdated_def set_kview_def kview_def)
  show "same_ids (w_state w) (w_state w1)"
    using w1 by (elim disjE exE) (simp_all add: plain marked)
  show "w_stores w1 = w_stores w \<or>
      (\<exists>h r coll. w_stores w1 = snd (st_OverwriteRoundPrecommitProofs (k_stores K) h r coll (w_stores w)))"
    using w1 by (elim disjE exE) (simp, rule disjI2, intro exI, simp)
qed

text \<open>The three outcomes of the precommit check.\<close>

lemma checkVotingPrecommitViewShift_cases:
  assumes run: "checkVotingPrecommitViewShift K w = Ret (e, w')"
  obtains (same) "w' = w"
  | (advance) "advanceVotingRound K w = (e, w')"
  | (shift) nhd s' e1 w1 where "ShiftVotingToCommitting (k_cmspScheme K) nhd (w_state w) = Ret s'"
      "saveCurrentCommittingHeader K (w\<lparr>w_state := s'\<rparr>) = (e1, w1)"
      "e1 \<noteq> None \<and> w' = w1 \<or> e1 = None \<and> updateObservers K w1 = (e, w')"
proof -
  let ?v = "ks_Voting (w_state w)"
  let ?hash = "MostVotedPrecommitHash (rv_VoteSummary ?v)"
  obtain maj where maj: "ByzantineMajority (AvailablePower (rv_VoteSummary ?v)) = Ret maj"
    using run by (auto simp: checkVotingPrecommitViewShift_def Let_def)
  note eqs = run[unfolded checkVotingPrecommitViewShift_def Let_def maj gobind.simps]
  consider (no) "lookup0 (PrecommitBlockPower (rv_VoteSummary ?v)) ?hash < maj \<or> ?hash = []"
    | (find) ph where "\<not> lookup0 (PrecommitBlockPower (rv_VoteSummary ?v)) ?hash < maj" "?hash \<noteq> []"
        "find (\<lambda>ph. Hash (ph_Header ph) = ?hash) (ProposedHeaders ?v) = Some ph"
    | (miss) "\<not> lookup0 (PrecommitBlockPower (rv_VoteSummary ?v)) ?hash < maj" "?hash \<noteq> []"
        "find (\<lambda>ph. Hash (ph_Header ph) = ?hash) (ProposedHeaders ?v) = None"
    by fastforce
  then show thesis
  proof cases
    case no
    then show ?thesis using eqs that(1,2) by (auto split: if_splits)
  next
    case (find ph)
    let ?nhd = "\<lparr>nhd_ValidatorSet = NextValidatorSet (ph_Header ph), nhd_VotedHeader = ph_Header ph\<rparr>"
    obtain s' where sh: "ShiftVotingToCommitting (k_cmspScheme K) ?nhd (w_state w) = Ret s'"
      and rest: "(case saveCurrentCommittingHeader K (w\<lparr>w_state := s'\<rparr>) of
          (Some e, w1) \<Rightarrow> Ret (Some e, w1) | (None, w1) \<Rightarrow> Ret (updateObservers K w1)) = Ret (e, w')"
      using eqs find by (auto split: if_splits)
    obtain e1 w1 where sv: "saveCurrentCommittingHeader K (w\<lparr>w_state := s'\<rparr>) = (e1, w1)" by fastforce
    have "e1 \<noteq> None \<and> w' = w1 \<or> e1 = None \<and> updateObservers K w1 = (e, w')"
      using rest unfolding sv by (cases e1) auto
    then show ?thesis by (rule that(3)[OF sh sv])
  next
    case miss
    then show ?thesis using eqs that(1) by simp
  qed
qed

section \<open>A store that keeps the heights and rounds\<close>

text \<open>
  What the kernel relies on to find its place after a restart: the mirror store returns the heights
  and rounds last set, and the other store operations leave them alone.
\<close>

locale height_round_log =
  fixes S :: "'s kernel_stores"
    and nhr :: "'s \<Rightarrow> u64 \<times> u32 \<times> u64 \<times> u32"
  assumes set_nhr: "st_SetNetworkHeightRound S vh vr ch cr st = (e, st') \<Longrightarrow> nhr st' = (vh, vr, ch, cr)"
    and save_header: "st_SaveCommittedHeader S chd st = (e, st') \<Longrightarrow> e = None \<and> nhr st' = nhr st"
    and keep_ph: "st_SaveRoundProposedHeader S ph st = Ret (e, st') \<Longrightarrow> nhr st' = nhr st"
    and keep_replayed: "nhr (snd (st_SaveRoundReplayedHeader S hdr st)) = nhr st"
    and keep_prevotes: "nhr (snd (st_OverwriteRoundPrevoteProofs S h r c st)) = nhr st"
    and keep_precommits: "nhr (snd (st_OverwriteRoundPrecommitProofs S h r c st)) = nhr st"
    and get_nhr: "nhr st = (vh, vr, ch, cr) \<Longrightarrow> vh \<noteq> 0 \<Longrightarrow> st_NetworkHeightRound S st = Inr (vh, vr, ch, cr)"
begin

definition synced :: "('p, 's) world \<Rightarrow> bool" where
  "synced w \<longleftrightarrow> nhr (w_stores w) = ids (w_state w) \<and> gossip_current (w_state w)"

lemma synced_keep:
  "synced w \<Longrightarrow> same_ids (w_state w) (w_state w') \<Longrightarrow> nhr (w_stores w') = nhr (w_stores w) \<Longrightarrow> synced w'"
  by (simp add: synced_def same_ids_def)

lemma synced_observers:
  assumes "k_stores K = S" and "gossip_current (w_state w)" and "updateObservers K w = (e, w')"
  shows "synced w'"
proof -
  obtain e1 st where st: "st_SetNetworkHeightRound S (rv_Height (ks_Voting (w_state w))) (rv_Round (ks_Voting (w_state w)))
      (rv_Height (ks_Committing (w_state w))) (rv_Round (ks_Committing (w_state w))) (w_stores w) = (e1, st)"
    by fastforce
  have w': "w' = w\<lparr>w_stores := st\<rparr>" using assms(3) unfolding updateObservers_def Let_def assms(1) st by simp
  show ?thesis using set_nhr[OF st] assms(2) by (simp add: synced_def w' ids_def)
qed

lemma synced_advance: "k_stores K = S \<Longrightarrow> synced w \<Longrightarrow> advanceVotingRound K w = (e, w') \<Longrightarrow> synced w'"
  by (rule synced_observers) (auto simp: advanceVotingRound_def synced_def gossip_current_moves)

lemma synced_jump: "k_stores K = S \<Longrightarrow> synced w \<Longrightarrow> jumpVotingRound K r w = (e, w') \<Longrightarrow> synced w'"
  by (rule synced_observers) (auto simp: jumpVotingRound_def synced_def gossip_current_moves)

lemma synced_missing: "synced w \<Longrightarrow> checkMissingPHs K proofs w = Ret w' \<Longrightarrow> synced w'"
  using checkMissingPHs_ids[of K proofs w w'] by (auto intro: synced_keep)

lemma synced_precommit_check:
  assumes K: "k_stores K = S" and "synced w" and run: "checkVotingPrecommitViewShift K w = Ret (e, w')"
  shows "synced w'"
  using run
proof (cases rule: checkVotingPrecommitViewShift_cases)
  case same
  then show ?thesis using assms(2) by simp
next
  case advance
  then show ?thesis using synced_advance[OF K assms(2)] by blast
next
  case (shift nhd s' e1 w1)
  obtain e2 st where sv: "st_SaveCommittedHeader S \<lparr>ch_Header = CommittingHeader s', ch_Proof = rv_PrevCommitProof (ks_Voting s')\<rparr>
      (w_stores w) = (e2, st)" by fastforce
  have "e1 = None"
    using shift(2) save_header[OF sv] unfolding saveCurrentCommittingHeader_def Let_def K by (simp add: sv)
  then have "updateObservers K w1 = (e, w')" using shift(3) by simp
  moreover have "gossip_current (w_state w1)"
    using gossip_current_Shift[OF _ shift(1)] assms(2) saveCurrentCommittingHeader_state[OF shift(2)]
    by (simp add: synced_def)
  ultimately show ?thesis by (rule synced_observers[OF K, rotated])
qed

lemma synced_next_round_checks:
  assumes K: "k_stores K = S" and "synced w"
  shows "checkNextRoundPrecommitViewShift K w = Ret (e, w') \<Longrightarrow> synced w'"
    and "checkPrevoteViewShift K vid w = Ret (e, w') \<Longrightarrow> synced w'"
proof -
  obtain e1 w1 where j: "jumpVotingRound K (rv_Round (ks_NextRound (w_state w)) + 1) w = (e1, w1)" by fastforce
  note jp = synced_jump[OF K assms(2) j]
  have "w' = w \<or> w' = w1 \<or> (\<exists>proofs. checkMissingPHs K proofs w1 = Ret w')"
    if "checkNextRoundPrecommitViewShift K w = Ret (e, w')"
    using that unfolding checkNextRoundPrecommitViewShift_def Let_def j by (cases e1) (auto split: if_splits)
  then show "checkNextRoundPrecommitViewShift K w = Ret (e, w') \<Longrightarrow> synced w'"
    using assms(2) jp synced_missing[OF jp] by blast
  have "w' = w \<or> w' = w1 \<or> (\<exists>proofs. checkMissingPHs K proofs w1 = Ret w')"
    if "checkPrevoteViewShift K vid w = Ret (e, w')"
    using that unfolding checkPrevoteViewShift_def Let_def j by (cases e1) (auto split: if_splits)
  then show "checkPrevoteViewShift K vid w = Ret (e, w') \<Longrightarrow> synced w'"
    using assms(2) jp synced_missing[OF jp] by blast
qed

lemma synced_shifts:
  assumes K: "k_stores K = S" and "synced w"
  shows "prevoteShift K vid res w = Ret (res', w') \<Longrightarrow> synced w'"
    and "precommitShift K vid res w = Ret (res', w') \<Longrightarrow> synced w'"
  using assms synced_next_round_checks[OF assms] synced_precommit_check[OF assms]
  by (auto simp: prevoteShift_def precommitShift_def split: if_splits ViewID.splits)


lemma synced_backfill: "k_stores K = S \<Longrightarrow> synced w \<Longrightarrow> backfillCommit K ph w = Ret w' \<Longrightarrow> synced w'"
  using backfillCommit_ids[of K ph w w'] keep_precommits synced_keep[of w w'] by auto

lemma synced_addProposedHeader:
  assumes K: "k_stores K = S" and inv: "synced w" and run: "addProposedHeader K ph w = Ret w'"
  shows "synced w'"
proof -
  let ?C = "k_cmspScheme K"
  let ?s0 = "(w_state w)\<lparr>InFlightFetchPHs := removeAll (Hash (ph_Header ph)) (InFlightFetchPHs (w_state w))\<rparr>"
  have base: "same_ids (w_state w) ?s0" by (rule same_ids_cong) (simp_all add: ids_def)
  obtain vid status where fv: "FindView ?s0 (h_Height (ph_Header ph)) (ph_Round ph) = Ret (vid, status)"
    using run by (auto simp: addProposedHeader_def Let_def)
  let ?v = "kview ?s0 vid"
  let ?s1 = "set_kview vid (?v\<lparr>ProposedHeaders := ProposedHeaders ?v @ [ph]\<rparr>) ?s0"
  note eqs = run[unfolded addProposedHeader_def Let_def fv gobind.simps prod.case K]
  show ?thesis
  proof (cases "vid = ViewIDNotFound \<or> list_ex (\<lambda>have. Signature have = Signature ph) (ProposedHeaders ?v)")
    case True
    then have "w' = w\<lparr>w_state := ?s0\<rparr>" using eqs by (auto split: if_splits)
    then show ?thesis using synced_keep[OF inv, of w'] base by simp
  next
    case False
    obtain s2 e st where s2: "MarkViewUpdated ?C vid ?s1 = Ret s2" and st: "st_SaveRoundProposedHeader S ph (w_stores w) = Ret (e, st)"
      and rest: "afterProposedHeader K ph vid (w\<lparr>w_state := s2, w_stores := st\<rparr>) = Ret w'"
      using eqs False by (auto split: if_splits)
    let ?w2 = "w\<lparr>w_state := s2, w_stores := st\<rparr>"
    let ?w3 = "?w2\<lparr>w_state := s2\<lparr>ks_lag := lag_SetState LagStatusUpToDate (rv_Height (ks_Committing s2)) 0 (ks_lag s2)\<rparr>\<rparr>"
    have "same_ids ?s0 s2" by (rule same_ids_Mark[OF s2]) simp_all
    then have i2: "synced ?w2" using synced_keep[OF inv, of ?w2] same_ids_trans[OF base] keep_ph[OF st] by simp
    have i3: "synced ?w3" by (rule synced_keep[OF i2]) (auto intro!: same_ids_cong simp: ids_def)
    have "w' = ?w2 \<or> (\<exists>w1. backfillCommit K ph ?w3 = Ret w1 \<and>
        (w' = w1 \<or> (\<exists>e. checkVotingPrecommitViewShift K w1 = Ret (e, w'))))"
      using rest by (auto simp: afterProposedHeader_def Let_def split: if_splits)
    then show ?thesis using i2 synced_backfill[OF K i3] synced_precommit_check[OF K] by blast
  qed
qed

lemma synced_addPrevote:
  assumes K: "k_stores K = S" and inv: "synced w" and run: "addPrevote K req w = Ret (res, w')"
  shows "synced w'"
proof -
  obtain vid status where fv: "FindView (w_state w) (av_H req) (av_R req) = Ret (vid, status)"
    using run by (auto simp: addPrevote_def Let_def)
  let ?v = "kview (w_state w) vid"
  obtain pvs bvs a b where f: "fold applyUpdate (av_Updates req) (PrevoteProofs ?v, PrevoteBlockVersions ?v, True, False) = (pvs, bvs, a, b)"
    by (metis prod.exhaust)
  note eqs = run[unfolded addPrevote_def Let_def fv gobind.simps prod.case f]
  show ?thesis
  proof (cases "status = ViewFound")
    case False
    then show ?thesis using eqs inv by (auto split: if_splits)
  next
    case True
    obtain w1 w2 where head: "(if b then prevoteBookkeeping K vid req pvs bvs w else Ret w) = Ret w1"
      and w2: "checkMissingPHs K (PrevoteProofs (kview (w_state w1) vid)) w1 = Ret w2"
      and w': "prevoteShift K vid (if a then AddVoteAccepted else AddVoteConflict) w2 = Ret (res, w')"
      using eqs True by auto
    have "synced w1"
    proof (cases b)
      case True
      with head have "prevoteBookkeeping K vid req pvs bvs w = Ret w1" by simp
      from prevoteBookkeeping_ids[OF this] show ?thesis using synced_keep[OF inv, of w1] keep_prevotes K by auto
    qed (use head inv in simp)
    then show ?thesis using synced_shifts(1)[OF K synced_missing[OF _ w2] w'] by blast
  qed
qed

lemma synced_addPrecommit:
  assumes K: "k_stores K = S" and inv: "synced w" and run: "addPrecommit K req w = Ret (res, w')"
  shows "synced w'"
proof -
  obtain vid status where fv: "FindView (w_state w) (av_H req) (av_R req) = Ret (vid, status)"
    using run by (auto simp: addPrecommit_def Let_def)
  let ?v = "kview (w_state w) vid"
  obtain pvs bvs a b where f: "fold applyUpdate (av_Updates req) (PrecommitProofs ?v, PrecommitBlockVersions ?v, True, False) = (pvs, bvs, a, b)"
    by (metis prod.exhaust)
  note eqs = run[unfolded addPrecommit_def Let_def fv gobind.simps prod.case f]
  show ?thesis
  proof (cases "status = ViewFound")
    case False
    then show ?thesis using eqs inv by (auto split: if_splits)
  next
    case True
    obtain w1 w2 where head: "(if b then precommitBookkeeping K vid req pvs bvs w else Ret w) = Ret w1"
      and w2: "checkMissingPHs K (PrecommitProofs (kview (w_state w1) vid)) w1 = Ret w2"
      and w': "precommitShift K vid (if a then AddVoteAccepted else AddVoteConflict) w2 = Ret (res, w')"
      using eqs True by auto
    have "synced w1"
    proof (cases b)
      case True
      with head have "precommitBookkeeping K vid req pvs bvs w = Ret w1" by simp
      from precommitBookkeeping_ids[OF this] show ?thesis using synced_keep[OF inv, of w1] keep_precommits K by auto
    qed (use head inv in simp)
    then show ?thesis using synced_shifts(2)[OF K synced_missing[OF _ w2] w'] by blast
  qed
qed

lemma synced_entrance:
  assumes "synced w" and "handleStateMachineRoundEntrance K re w = Ret (resp, w')"
  shows "synced w'"
proof -
  have "w_stores w' = w_stores w \<and> same_ids (w_state w) (w_state w')"
    using assms(2) by (auto simp: handleStateMachineRoundEntrance_def Let_def ids_def intro!: same_ids_cong split: if_splits sum.splits)
  then show ?thesis using synced_keep[OF assms(1), of w'] by simp
qed

lemma synced_action:
  assumes K: "k_stores K = S" and inv: "synced w" and run: "handleStateMachineAction K act w = Ret w'"
  shows "synced w'"
proof -
  have "w' = w \<or> (\<exists>ph. addProposedHeader K ph w = Ret w') \<or> (\<exists>req res. addPrevote K req w = Ret (res, w')) \<or>
      (\<exists>req res. addPrecommit K req w = Ret (res, w'))"
    using run by (auto simp: handleStateMachineAction_def Let_def split: if_splits option.splits)
  then show ?thesis
    using inv synced_addProposedHeader[OF K inv] synced_addPrevote[OF K inv] synced_addPrecommit[OF K inv] by blast
qed


lemma synced_commitReplayed:
  assumes K: "k_stores K = S" and inv: "synced w" and run: "commitReplayedHeader K header pf temp w = Ret (e, w')"
  shows "synced w'"
proof -
  let ?v = "ks_Voting (w_state w)" and ?C = "k_cmspScheme K"
  let ?proofs = "fold (\<lambda>(hash, p) m. AList.update hash p m) temp (PrecommitProofs ?v)"
  let ?s' = "(w_state w)\<lparr>ks_Voting := ?v\<lparr>PrecommitProofs := ?proofs,
    rv_VoteSummary := SetPrecommitPowers ?C (k_bitset K) (Validators (rv_ValidatorSet ?v)) ?proofs (rv_VoteSummary ?v)\<rparr>\<rparr>"
  obtain p maj where p: "map_of temp (Hash header) = Some p"
    and maj: "ByzantineMajority (AvailablePower (rv_VoteSummary ?v)) = Ret maj"
    using run by (auto simp: commitReplayedHeader_def Let_def split: option.splits)
  note eqs = run[unfolded commitReplayedHeader_def Let_def p maj option.case gobind.simps K]
  show ?thesis
  proof (cases "w' = w")
    case False
    then obtain coll where coll: "mapToSparseSignatureCollection ?C ?proofs = Ret coll" using eqs by (auto split: if_splits)
    obtain err st where es: "st_OverwriteRoundPrecommitProofs S (h_Height header) (cp_Round pf) coll (w_stores w) = (err, st)"
      by fastforce
    let ?w1 = "w\<lparr>w_state := ?s', w_stores := st\<rparr>"
    have "w' = ?w1 \<or> (\<exists>e. checkVotingPrecommitViewShift K ?w1 = Ret (e, w'))"
      using eqs False unfolding coll gobind.simps es by (cases err) (auto split: if_splits)
    moreover have "same_ids (w_state w) ?s'" by (rule same_ids_cong) (simp_all add: ids_def)
    moreover have "nhr st = nhr (w_stores w)" using keep_precommits es by (metis snd_conv)
    ultimately have "w' = ?w1 \<or> (\<exists>e. checkVotingPrecommitViewShift K ?w1 = Ret (e, w'))" "synced ?w1"
      using synced_keep[OF inv, of ?w1] by simp_all
    then show ?thesis using synced_precommit_check[OF K] by blast
  qed (simp add: inv)
qed

lemma synced_applyReplayed:
  assumes K: "k_stores K = S" and inv: "synced w" and run: "applyReplayedHeader K header pf w = Ret (e, w')"
  shows "synced w'"
proof -
  let ?s = "w_state w"
  let ?have = "list_ex (\<lambda>ph. Hash (ph_Header ph) = Hash header) (ProposedHeaders (ks_Voting ?s))"
  let ?fake = "zeroProposedHeader\<lparr>ph_Header := header, ph_Round := cp_Round pf\<rparr>"
  let ?s1 = "if ?have then ?s else ?s\<lparr>ks_Voting := (ks_Voting ?s)\<lparr>ProposedHeaders := ProposedHeaders (ks_Voting ?s) @ [?fake]\<rparr>\<rparr>"
  obtain err st where es: "(if ?have then (None, w_stores w) else st_SaveRoundReplayedHeader S header (w_stores w)) = (err, st)"
    by fastforce
  let ?w1 = "w\<lparr>w_state := ?s1, w_stores := st\<rparr>" and ?w2 = "w\<lparr>w_stores := st\<rparr>"
  have "w' = w \<or> w' = ?w2 \<or> (\<exists>temp. commitReplayedHeader K header pf temp ?w1 = Ret (e, w'))"
  proof (cases "hs_Block (k_hashScheme K) header = Inr (Hash header)")
    case True
    obtain t where t: "gotryfold (replayProof_step K ?s header (cp_Round pf)) (cp_Proofs pf) [] = Ret t"
      using run True by (auto simp: applyReplayedHeader_def Let_def)
    note eqs = run[unfolded applyReplayedHeader_def Let_def True t sum.case gobind.simps K es prod.case]
    show ?thesis using eqs by (cases t; cases err) auto
  next
    case False
    then show ?thesis using run by (auto simp: applyReplayedHeader_def Let_def split: sum.splits if_splits)
  qed
  moreover have "nhr st = nhr (w_stores w)" using es keep_replayed by (metis snd_conv)
  moreover have "same_ids ?s ?s1" by (auto intro!: same_ids_cong simp: ids_def)
  ultimately show ?thesis
    using inv synced_keep[OF inv, of ?w2] synced_keep[OF inv, of ?w1] synced_commitReplayed[OF K] by auto
qed

lemma synced_replay:
  assumes K: "k_stores K = S" and inv: "synced w" and run: "handleReplayedHeader K header pf w = Ret (e, w')"
  shows "synced w'"
proof -
  obtain e1 w1 where j: "jumpVotingRound K (cp_Round pf) w = (e1, w1)" by fastforce
  have "w' = w \<or> w' = w1 \<or> applyReplayedHeader K header pf w = Ret (e, w') \<or> applyReplayedHeader K header pf w1 = Ret (e, w')"
    using run unfolding handleReplayedHeader_def Let_def j by (cases e1) (auto split: if_splits)
  then show ?thesis
    using inv synced_jump[OF K inv j] synced_applyReplayed[OF K] by blast
qed

lemma synced_step:
  assumes K: "k_stores K = S" and inv: "synced w" and "kstep K w w'"
  shows "synced w'"
  using assms(3)
proof cases
  case addPH then show ?thesis using synced_addProposedHeader[OF K inv] by blast
next
  case prevote then show ?thesis using synced_addPrevote[OF K inv] by blast
next
  case precommit then show ?thesis using synced_addPrecommit[OF K inv] by blast
next
  case entrance then show ?thesis using synced_entrance[OF inv] by blast
next
  case action then show ?thesis using synced_action[OF K inv] by blast
next
  case replay then show ?thesis using synced_replay[OF K inv] by blast
next
  case gossip
  then show ?thesis
    using inv by (auto simp: synced_def ids_def gossip_current_def same_version_def gossip_MarkSent_def OutgoingView_MarkSent_def)
next
  case stateMachine then show ?thesis using inv by (simp add: synced_def ids_def gossip_current_def)
next
  case lag then show ?thesis using inv by (simp add: synced_def ids_def gossip_current_def)
next
  case fetcher then show ?thesis using inv by (simp add: synced_def)
qed (use inv in simp_all)

end

section \<open>Starting\<close>

text \<open>The committing view is loaded exactly when the store has committed a height.\<close>

definition resumable :: "('p, 'b, 's) Kernel \<Rightarrow> 's \<Rightarrow> bool" where
  "resumable K st \<longleftrightarrow> (case st_NetworkHeightRound (k_stores K) st of
     Inl _ \<Rightarrow> k_initialHeight K \<noteq> 0
   | Inr (vh, vr, ch, cr) \<Rightarrow> ch = 0 \<and> cr = 0 \<or> k_initialHeight K \<le> ch)"

lemma NewKernel_start:
  assumes "NewKernel K lagOut fetchCap st = Ret (Inr w)" and res: "resumable K st"
  obtains vh vr ch cr w0 where
    "st_NetworkHeightRound (k_stores K) st = Inr (vh, vr, ch, cr) \<or>
     st_NetworkHeightRound (k_stores K) st = Inl ErrStoreUninitialized \<and> (vh, vr, ch, cr) = (k_initialHeight K, 0, 0, 0)"
    "updateObservers K w0 = (None, w)" "gossip_current (w_state w0)" "ids (w_state w0) = (vh, vr, ch, cr)"
    "ch < k_initialHeight K \<Longrightarrow> CommittingHeader (w_state w0) = zeroHeader"
    "rv_ValidatorSet (ks_Voting (w_state w0)) = (if vh = k_initialHeight K \<or> vh = k_initialHeight K + 1 then k_initialValSet K
       else h_ValidatorSet (CommittingHeader (w_state w0)))"
  using assms(1)
proof (rule NewKernel_cases)
  fix vh vr ch cr cp s1 st0 st1 s2 st3
  assume nhr: "st_NetworkHeightRound (k_stores K) st = Inr (vh, vr, ch, cr) \<or>
     st_NetworkHeightRound (k_stores K) st = Inl ErrStoreUninitialized \<and> (vh, vr, ch, cr) = (k_initialHeight K, 0, 0, 0)"
    and c: "(if k_initialHeight K \<le> ch then loadInitialCommittingView K (initState lagOut (vh, vr, ch, cr)) st0
      else Ret (Inr (initState lagOut (vh, vr, ch, cr), st0))) = Ret (Inr (s1, st1))"
    and v: "loadInitialVotingView K s1 st1 = Ret (Inr (s2, st3))"
    and u: "updateObservers K \<lparr>w_state = s2\<lparr>ks_Voting := (ks_Voting s2)\<lparr>rv_PrevCommitProof := cp\<rparr>,
        ks_NextRound := (ks_NextRound s2)\<lparr>rv_PrevCommitProof := cp\<rparr>\<rparr>, w_stores = st3, w_fetchFree = fetchCap, w_fetchRequests = []\<rparr>
        = (None, w)"
  let ?w0 = "\<lparr>w_state = s2\<lparr>ks_Voting := (ks_Voting s2)\<lparr>rv_PrevCommitProof := cp\<rparr>,
        ks_NextRound := (ks_NextRound s2)\<lparr>rv_PrevCommitProof := cp\<rparr>\<rparr>, w_stores = st3, w_fetchFree = fetchCap, w_fetchRequests = []\<rparr>"
  note vv = loadInitialVotingView_views[OF v]
  have none: "ch = 0 \<and> cr = 0" if "\<not> k_initialHeight K \<le> ch"
    using nhr res that by (auto simp: resumable_def)
  have s1: "rv_Height (ks_Committing s1) = ch" "rv_Round (ks_Committing s1) = cr" "rv_Height (ks_Voting s1) = vh" "rv_Round (ks_Voting s1) = vr"
    using c loadInitialCommittingView_views[of K _ st0 s1 st1] by (auto split: if_splits)
  have gc: "same_version (gvm_Committing (ks_gvm s1)) (ks_Committing s1)"
  proof (cases "k_initialHeight K \<le> ch")
    case True
    then show ?thesis using c loadInitialCommittingView_views(4)[of K _ st0 s1 st1] by simp
  next
    case False
    then show ?thesis using c none
      by (auto simp: same_version_def newGossipViewManager_def zeroOutgoingView_def zeroVRV_def)
  qed
  show thesis
  proof (rule that[OF nhr u])
    show "gossip_current (w_state ?w0)" using vv gc by (simp add: gossip_current_def same_version_def)
    show "ids (w_state ?w0) = (vh, vr, ch, cr)" using vv s1 by (simp add: ids_def)
    show "CommittingHeader (w_state ?w0) = zeroHeader" if "ch < k_initialHeight K"
    proof -
      have "s1 = initState lagOut (vh, vr, ch, cr)" using c that by (auto dest: leD split: if_splits)
      then show ?thesis using vv by simp
    qed
    show "rv_ValidatorSet (ks_Voting (w_state ?w0)) = (if vh = k_initialHeight K \<or> vh = k_initialHeight K + 1 then k_initialValSet K
       else h_ValidatorSet (CommittingHeader (w_state ?w0)))" using vv s1 by simp
  qed
qed

context height_round_log
begin

lemma synced_start:
  assumes "k_stores K = S" and "NewKernel K lagOut fetchCap st = Ret (Inr w)" and "resumable K st"
  shows "synced w"
  using NewKernel_start[OF assms(2,3)] synced_observers[OF assms(1)] by metis

lemma synced_run:
  assumes "krun K st w" and "k_stores K = S" and "resumable K st"
  shows "synced w"
  using assms(1)
proof induction
  case (start lagOut fetchCap w)
  show ?case by (rule synced_start[OF assms(2) start.hyps assms(3)])
next
  case (step w w')
  then show ?case using synced_step[OF assms(2)] by blast
qed

text \<open>A kernel started on the stores of a running one is at its heights and rounds.\<close>

lemma restart_ids:
  assumes run: "krun K st w" and K: "k_stores K = S" and res: "resumable K st"
    and new: "NewKernel K lagOut fetchCap (w_stores w) = Ret (Inr w')"
    and ok: "rv_Height (ks_Voting (w_state w)) \<noteq> 0" "resumable K (w_stores w)"
  shows "ids (w_state w') = ids (w_state w)"
proof -
  have "nhr (w_stores w) = ids (w_state w)" using synced_run[OF run K res] by (simp add: synced_def)
  then have "st_NetworkHeightRound S (w_stores w) = Inr (ids (w_state w))"
    using get_nhr ok(1) by (simp add: ids_def)
  then show ?thesis
    using NewKernel_start[OF new ok(2)] updateObservers_state' K by (metis Inl_not_Inr sum.inject(2))
qed

end

definition mem_nhr :: "mem_stores \<Rightarrow> u64 \<times> u32 \<times> u64 \<times> u32" where
  "mem_nhr m = (ms_votingHeight (mk_mirror m), ms_votingRound (mk_mirror m), ms_committingHeight (mk_mirror m), ms_committingRound (mk_mirror m))"

interpretation mem_log: height_round_log "MemKernelStores hs" mem_nhr for hs
proof (unfold_locales, unfold MemKernelStores_sel, goal_cases)
  case (3 ph st e st')
  then show ?case by (auto simp: mem_nhr_def)
next
  case (7 st vh vr ch cr)
  then show ?case by (auto simp: mem_nhr_def NetworkHeightRound_def)
qed (auto simp: mem_nhr_def stored_def SetNetworkHeightRound_def SaveCommittedHeader_def OverwriteRoundPrevoteProofs_def
    OverwriteRoundPrecommitProofs_def Let_def split: sum.splits)

section \<open>Properties\<close>

text \<open>(C21) The kernel's position is durable and published: in every state reached by a kernel on the
  in-memory stores, the mirror store holds the heights and rounds of its voting and committing
  views, and each view offered to the gossip strategy is at the height, round and version of the
  kernel's view.\<close>

theorem position_persisted:
  assumes "krun K st w" and "k_stores K = MemKernelStores hs" and "resumable K st"
  shows "mk_mirror (w_stores w) = \<lparr>ms_votingHeight = rv_Height (ks_Voting (w_state w)), ms_votingRound = rv_Round (ks_Voting (w_state w)),
      ms_committingHeight = rv_Height (ks_Committing (w_state w)), ms_committingRound = rv_Round (ks_Committing (w_state w))\<rparr> \<and>
    same_version (gvm_Voting (ks_gvm (w_state w))) (ks_Voting (w_state w)) \<and>
    same_version (gvm_NextRound (ks_gvm (w_state w))) (ks_NextRound (w_state w)) \<and>
    same_version (gvm_Committing (ks_gvm (w_state w))) (ks_Committing (w_state w))"
proof -
  have "mem_nhr (w_stores w) = ids (w_state w)" "gossip_current (w_state w)"
    using mem_log.synced_run[OF assms] by (auto simp: mem_log.synced_def)
  then show ?thesis
    by (auto simp: mem_nhr_def ids_def gossip_current_def intro: MirrorStore.equality)
qed

lemma ex_resumable: "k_stores ex_kernel = MemKernelStores ex_hashes" "resumable ex_kernel NewMemStores"
  by (simp add: ex_kernel_def) code_simp

lemma ex_committed_krun: "krun ex_kernel NewMemStores ex_committed"
  by (rule krun.step[OF ex_proposed_krun ex_commit_step])

theorem position_persisted_witness:
  "mk_mirror (w_stores ex_committed) = \<lparr>ms_votingHeight = 2, ms_votingRound = 0, ms_committingHeight = 1, ms_committingRound = 0\<rparr>"
proof -
  have "rv_Height (ks_Voting (w_state ex_committed)) = 2" "rv_Round (ks_Voting (w_state ex_committed)) = 0"
    "rv_Height (ks_Committing (w_state ex_committed)) = 1" "rv_Round (ks_Committing (w_state ex_committed)) = 0"
    by code_simp+
  then show ?thesis using position_persisted[OF ex_committed_krun ex_resumable] by simp
qed

text \<open>(C22) A kernel that is started on the in-memory stores a running kernel has left resumes at the same
  voting height and round and the same committing height and round.\<close>

theorem restart_resumes:
  assumes "krun K st w" and "k_stores K = MemKernelStores hs" and "resumable K st"
    and "NewKernel K lagOut fetchCap (w_stores w) = Ret (Inr w')"
    and "rv_Height (ks_Voting (w_state w)) \<noteq> 0" "resumable K (w_stores w)"
  shows "rv_Height (ks_Voting (w_state w')) = rv_Height (ks_Voting (w_state w)) \<and>
    rv_Round (ks_Voting (w_state w')) = rv_Round (ks_Voting (w_state w)) \<and>
    rv_Height (ks_Committing (w_state w')) = rv_Height (ks_Committing (w_state w)) \<and>
    rv_Round (ks_Committing (w_state w')) = rv_Round (ks_Committing (w_state w))"
  using mem_log.restart_ids[OF assms] by (simp add: ids_def)

definition ex_restarted :: "(nat list SimpleProof, mem_stores) world" where
  "ex_restarted = (case NewKernel ex_kernel True 4 (w_stores ex_committed) of Ret (Inr w) \<Rightarrow> w | _ \<Rightarrow> ex_world)"

lemma ex_restarted_run: "NewKernel ex_kernel True 4 (w_stores ex_committed) = Ret (Inr ex_restarted)"
proof -
  have "case NewKernel ex_kernel True 4 (w_stores ex_committed) of Ret (Inr w) \<Rightarrow> True | _ \<Rightarrow> False" by code_simp
  then show ?thesis unfolding ex_restarted_def by (auto split: go.splits sum.splits)
qed

theorem restart_resumes_witness:
  "rv_Height (ks_Voting (w_state ex_restarted)) = rv_Height (ks_Voting (w_state ex_committed))"
proof -
  have "resumable ex_kernel (w_stores ex_committed)" "rv_Height (ks_Voting (w_state ex_committed)) \<noteq> 0" by code_simp+
  then show ?thesis
    using restart_resumes[OF ex_committed_krun ex_resumable ex_restarted_run] by blast
qed

text \<open>After a restart the gossip strategy is first offered a voting view without the commit proof of the
  previous height: the view is published before \<open>NewKernel\<close> sets the proof.\<close>

theorem restart_gossips_empty_commit_proof:
  "cp_Proofs (rv_PrevCommitProof (ov_VRV (gvm_Voting (ks_gvm (w_state ex_restarted))))) = [] \<and>
   map fst (cp_Proofs (rv_PrevCommitProof (ks_Voting (w_state ex_restarted)))) = [''x'']"
  by code_simp

section \<open>The chain of validator sets\<close>

text \<open>The validators of the voting view: those the committing header names, or the initial ones before
  the first commit.\<close>

definition vals_linked :: "('p, 'b, 's) Kernel \<Rightarrow> ('p, 's) world \<Rightarrow> bool" where
  "vals_linked K w \<longleftrightarrow> rv_ValidatorSet (ks_Voting (w_state w)) =
     (if Hash (CommittingHeader (w_state w)) = [] then k_initialValSet K else NextValidatorSet (CommittingHeader (w_state w)))"

lemma vals_linked_run:
  assumes "krun K st w" and init: "k_initialHeight K \<noteq> 0" "st_NetworkHeightRound (k_stores K) st = Inl ErrStoreUninitialized"
  shows "vals_linked K w \<and> kinv K w"
  using assms(1)
proof induction
  case (start lagOut fetchCap w)
  have res: "resumable K st" "stored_heights_ok (k_stores K) st"
    using init by (auto simp: resumable_def stored_heights_ok_def)
  have "vals_linked K w"
    using start
  proof (rule NewKernel_start[OF _ res(1)])
    fix vh vr ch cr w0
    assume "st_NetworkHeightRound (k_stores K) st = Inr (vh, vr, ch, cr) \<or>
       st_NetworkHeightRound (k_stores K) st = Inl ErrStoreUninitialized \<and> (vh, vr, ch, cr) = (k_initialHeight K, 0, 0, 0)"
      and u: "updateObservers K w0 = (None, w)"
      and hd: "ch < k_initialHeight K \<Longrightarrow> CommittingHeader (w_state w0) = zeroHeader"
      and vs: "rv_ValidatorSet (ks_Voting (w_state w0)) = (if vh = k_initialHeight K \<or> vh = k_initialHeight K + 1 then k_initialValSet K
         else h_ValidatorSet (CommittingHeader (w_state w0)))"
    then have "vh = k_initialHeight K" "ch = 0" using init(2) by auto
    moreover from this have "CommittingHeader (w_state w0) = zeroHeader" using hd init(1) by (simp add: word_neq_0_conv)
    ultimately show ?thesis using vs updateObservers_state'[OF u] by (simp add: vals_linked_def zeroHeader_def)
  qed
  then show ?case using NewKernel_kinv[OF start init(1) res(2)] by blast
next
  case (step w w')
  then have "kpost K w w'" using kstep_post by blast
  then show ?case using step.IH by (auto simp: kpost_def vals_linked_def commit_justified_def)
qed

text \<open>(C20) In a run from an uninitialized store, without a restart, the validators of every commit are the ones the chain names: the
  validators whose precommits commit a header are those that the previously committed header names
  as its next validators, and the initial validators for the first commit.\<close>

theorem validator_chain:
  assumes run: "krun K st w" "k_initialHeight K \<noteq> 0" "st_NetworkHeightRound (k_stores K) st = Inl ErrStoreUninitialized"
    and step: "kstep K w w'" "commits w w'"
  shows "rv_ValidatorSet (ks_Committing (w_state w')) =
    (if Hash (CommittingHeader (w_state w)) = [] then k_initialValSet K else NextValidatorSet (CommittingHeader (w_state w)))"
proof -
  have "vals_linked K w" "kinv K w" using vals_linked_run[OF run] by auto
  then show ?thesis
    using kpost_commits(3)[OF kstep_post[OF step(1)] step(2)] by (simp add: vals_linked_def)
qed

theorem validator_chain_witness: "rv_ValidatorSet (ks_Committing (w_state ex_committed)) = ex_valset"
proof -
  have "st_NetworkHeightRound (k_stores ex_kernel) NewMemStores = Inl ErrStoreUninitialized"
    "Hash (CommittingHeader (w_state ex_proposed)) = []" "k_initialValSet ex_kernel = ex_valset" by code_simp+
  then show ?thesis
    using validator_chain[OF ex_proposed_krun ex_kernel_ok(1) _ ex_commit_step ex_commits] by simp
qed

text \<open>After a restart beyond the second height the voting view has the validators of the committing
  header itself, not the ones it names for the next height.\<close>

theorem restart_keeps_old_validators:
  assumes "NewKernel K lagOut fetchCap st = Ret (Inr w)" and "resumable K st"
    and "st_NetworkHeightRound (k_stores K) st = Inr (vh, vr, ch, cr)" "vh \<noteq> k_initialHeight K" "vh \<noteq> k_initialHeight K + 1"
  shows "rv_ValidatorSet (ks_Voting (w_state w)) = h_ValidatorSet (CommittingHeader (w_state w))"
  using NewKernel_start[OF assms(1,2)] assms(3-5) updateObservers_state' by (metis Inl_not_Inr Inr_inject prod.inject)

end
