(* ===== verification/Mirror.thy ===== *)
theory Mirror
  imports KernelDurable
begin

text \<open>
  The mirror (\<open>tmmirror/mirror.go\<close>): the handlers of incoming proposed headers and votes, which run
  outside the kernel and talk to it through requests, and the feedback mappers that turn their results
  into a verdict for the network (\<open>tmconsensus/handler.go\<close>, \<open>feedbackmapper.go\<close>).

  Between two requests of a handler the kernel may serve others. The parameter \<open>env\<close> is what happens
  before the request with a given number: \<open>None\<close> when the context is cancelled while the request
  waits, or the world in which the kernel then serves it. A handler that retries has fuel; \<open>None\<close>
  is a handler that has not returned yet.
\<close>

section \<open>Definitions\<close>

datatype HandleProposedHeaderResult =
    HandleProposedHeaderAccepted | HandleProposedHeaderAlreadyStored | HandleProposedHeaderSignerUnrecognized
  | HandleProposedHeaderBadBlockHash | HandleProposedHeaderBadSignature
  | HandleProposedHeaderBadPrevCommitProofPubKeyHash | HandleProposedHeaderBadPrevCommitProofSignature
  | HandleProposedHeaderBadPrevCommitVoteCount | HandleProposedHeaderRoundTooOld
  | HandleProposedHeaderRoundTooFarInFuture | HandleProposedHeaderInternalError

datatype HandleVoteProofsResult =
    HandleVoteProofsAccepted | HandleVoteProofsNoNewSignatures | HandleVoteProofsEmpty
  | HandleVoteProofsBadPubKeyHash | HandleVoteProofsRoundTooOld | HandleVoteProofsTooFarInFuture
  | HandleVoteProofsInternalError

type_synonym ('p, 's) environment = "nat \<Rightarrow> ('p, 's) world \<Rightarrow> ('p, 's) world option"

text \<open>The signatures of a message that the current proofs lack and whose key ID is valid.\<close>

definition getSignaturesToAdd ::
  "('p, 'b) cmsp \<Rightarrow> (bytes, 'p) gomap \<Rightarrow> (bytes, SparseSignature list) gomap \<Rightarrow> ValidatorSet \<Rightarrow>
   (bytes, SparseSignature list) gomap" where
  "getSignaturesToAdd C curProofs incomingSparseProofs valSet =
     fold (\<lambda>(blockHash, signatures) toAdd.
        let sigsToAdd = (case map_of curProofs blockHash of
              None \<Rightarrow> filter (\<lambda>sig. cm_KeyIDChecker C (ValidatorsToPubKeys (Validators valSet)) (KeyID sig)) signatures
            | Some fullProof \<Rightarrow> filter (\<lambda>sig. case cm_HasSparseKeyID C fullProof (KeyID sig) of (has, valid) \<Rightarrow> valid \<and> \<not> has) signatures)
        in if sigsToAdd = [] then toAdd else AList.update blockHash sigsToAdd toAdd) incomingSparseProofs []"

definition makeNewPrevoteProof :: "('p, 'b, 's) Kernel \<Rightarrow> u64 \<Rightarrow> u32 \<Rightarrow> ValidatorSet \<Rightarrow> bytes \<Rightarrow> 'p option" where
  "makeNewPrevoteProof K ht rnd valSet blockHash =
     (case PrevoteSignBytes \<lparr>vt_Height = ht, vt_Round = rnd, vt_BlockHash = blockHash\<rparr> (k_sigScheme K) of
        Inl err \<Rightarrow> None
      | Inr signContent \<Rightarrow>
          (case cm_New (k_cmspScheme K) signContent (ValidatorsToPubKeys (Validators valSet)) (vs_PubKeyHash valSet) of
             Inl err \<Rightarrow> None | Inr emptyProof \<Rightarrow> Some emptyProof))"

definition makeNewPrecommitProof :: "('p, 'b, 's) Kernel \<Rightarrow> u64 \<Rightarrow> u32 \<Rightarrow> ValidatorSet \<Rightarrow> bytes \<Rightarrow> 'p option" where
  "makeNewPrecommitProof K ht rnd valSet blockHash =
     (case PrecommitSignBytes \<lparr>vt_Height = ht, vt_Round = rnd, vt_BlockHash = blockHash\<rparr> (k_sigScheme K) of
        Inl err \<Rightarrow> None
      | Inr signContent \<Rightarrow>
          (case cm_New (k_cmspScheme K) signContent (ValidatorsToPubKeys (Validators valSet)) (vs_PubKeyHash valSet) of
             Inl err \<Rightarrow> None | Inr emptyProof \<Rightarrow> Some emptyProof))"

text \<open>The loop of both vote handlers over the signatures to add: the updates, and whether all signatures
  were valid (which neither handler reads afterwards).\<close>

definition voteUpdate_step ::
  "('p, 'b) cmsp \<Rightarrow> (bytes \<Rightarrow> 'p option) \<Rightarrow> (bytes, 'p) gomap \<Rightarrow> (bytes, u32) gomap \<Rightarrow> bytes \<times> SparseSignature list \<Rightarrow>
   (bytes, 'p VoteUpdate) gomap \<times> bool \<Rightarrow> ((bytes, 'p VoteUpdate) gomap \<times> bool) go" where
  "voteUpdate_step C mkProof curProofs versions e st =
     (case (case map_of curProofs (fst e) of Some p \<Rightarrow> Some p | None \<Rightarrow> mkProof (fst e)) of
        None \<Rightarrow> Ret st
      | Some fullProof \<Rightarrow>
          gobind (cm_MergeSparse C fullProof \<lparr>ssp_PubKeyHash = cm_PubKeyHash C fullProof, ssp_Signatures = snd e\<rparr>)
            (\<lambda>(res, p'). Ret (AList.update (fst e) \<lparr>vu_Proof = p', vu_PrevVersion = lookup0 versions (fst e)\<rparr> (fst st),
                              snd st \<and> AllValidSignatures res)))"

text \<open>From the looked-up view to the request for the kernel, or the result of the handler.\<close>

definition preparePrevotes ::
  "('p, 'b, 's) Kernel \<Rightarrow> PrevoteSparseProof \<Rightarrow> ViewID \<Rightarrow> ViewLookupStatus \<Rightarrow> 'p VersionedRoundView \<Rightarrow>
   (HandleVoteProofsResult + 'p AddVoteRequest) go" where
  "preparePrevotes K p vid status view =
     (if status \<noteq> ViewFound then Ret (Inl HandleVoteProofsRoundTooOld)
      else if vid \<notin> {ViewIDVoting, ViewIDCommitting, ViewIDNextRound}
      then Panic ''TODO: handle prevotes for views other than committing, voting, or next round''
      else if svp_PubKeyHash p \<noteq> vs_PubKeyHash (rv_ValidatorSet view) then Ret (Inl HandleVoteProofsBadPubKeyHash)
      else
        let curProofs = PrevoteProofs view;
            sigsToAdd = getSignaturesToAdd (k_cmspScheme K) curProofs (svp_Proofs p) (rv_ValidatorSet view) in
        if sigsToAdd = [] then Ret (Inl HandleVoteProofsNoNewSignatures)
        else gobind (gofold (voteUpdate_step (k_cmspScheme K) (makeNewPrevoteProof K (svp_Height p) (svp_Round p) (rv_ValidatorSet view))
                       curProofs (PrevoteBlockVersions view)) sigsToAdd ([], True))
               (\<lambda>(voteUpdates, allValid).
                  if voteUpdates = [] then Ret (Inl HandleVoteProofsNoNewSignatures)
                  else Ret (Inr \<lparr>av_H = svp_Height p, av_R = svp_Round p, av_Updates = voteUpdates\<rparr>)))"

definition preparePrecommits ::
  "('p, 'b, 's) Kernel \<Rightarrow> PrecommitSparseProof \<Rightarrow> ViewID \<Rightarrow> ViewLookupStatus \<Rightarrow> 'p VersionedRoundView \<Rightarrow>
   (HandleVoteProofsResult + 'p AddVoteRequest) go" where
  "preparePrecommits K p vid status view =
     (if status \<noteq> ViewFound then Ret (Inl HandleVoteProofsRoundTooOld)
      else if vid \<notin> {ViewIDVoting, ViewIDCommitting, ViewIDNextRound}
      then Panic ''TODO: handle precommits for views other than committing, voting, or next round''
      else if svp_PubKeyHash p \<noteq> vs_PubKeyHash (rv_ValidatorSet view) then Ret (Inl HandleVoteProofsBadPubKeyHash)
      else
        let curProofs = PrecommitProofs view;
            sigsToAdd = getSignaturesToAdd (k_cmspScheme K) curProofs (svp_Proofs p) (rv_ValidatorSet view) in
        if sigsToAdd = [] then Ret (Inl HandleVoteProofsNoNewSignatures)
        else gobind (gofold (voteUpdate_step (k_cmspScheme K) (makeNewPrecommitProof K (svp_Height p) (svp_Round p) (rv_ValidatorSet view))
                       curProofs (PrecommitBlockVersions view)) sigsToAdd ([], True))
               (\<lambda>(voteUpdates, allValid).
                  if voteUpdates = [] then Ret (Inl HandleVoteProofsNoNewSignatures)
                  else Ret (Inr \<lparr>av_H = svp_Height p, av_R = svp_Round p, av_Updates = voteUpdates\<rparr>)))"

text \<open>The retry loops. The number of the next request is twice the number of tries so far.\<close>

fun prevoteLoop ::
  "('p, 'b, 's) Kernel \<Rightarrow> ('p, 's) environment \<Rightarrow> PrevoteSparseProof \<Rightarrow> nat \<Rightarrow> nat \<Rightarrow> 'p VersionedRoundView \<Rightarrow> ('p, 's) world \<Rightarrow>
   (HandleVoteProofsResult \<times> ('p, 's) world) option go" where
  "prevoteLoop K env p 0 tries view w = Ret None"
| "prevoteLoop K env p (Suc fuel) tries view w =
     (case env (2 * tries) w of
        None \<Rightarrow> Ret (Some (HandleVoteProofsInternalError, w))
      | Some w1 \<Rightarrow>
          gobind (sendViewLookupResponse K (w_state w1) (svp_Height p) (svp_Round p) ''(*Mirror).HandlePrevoteProofs''
                    [RVValidators, RVPrevotes] view) (\<lambda>(vid, status, view1).
          gobind (preparePrevotes K p vid status view1) (\<lambda>prep. case prep of
            Inl result \<Rightarrow> Ret (Some (result, w1))
          | Inr req \<Rightarrow>
              (case env (2 * tries + 1) w1 of
                 None \<Rightarrow> Ret (Some (HandleVoteProofsInternalError, w1))
               | Some w2 \<Rightarrow>
                   gobind (addPrevote K req w2) (\<lambda>(result, w3). case result of
                     AddVoteAccepted \<Rightarrow> Ret (Some (HandleVoteProofsAccepted, w3))
                   | AddVoteConflict \<Rightarrow> prevoteLoop K env p fuel (tries + 1) (VRV_Reset view1) w3
                   | AddVoteOutOfDate \<Rightarrow> Ret (Some (HandleVoteProofsRoundTooOld, w3)))))))"

definition HandlePrevoteProofs ::
  "('p, 'b, 's) Kernel \<Rightarrow> ('p, 's) environment \<Rightarrow> nat \<Rightarrow> PrevoteSparseProof \<Rightarrow> ('p, 's) world \<Rightarrow>
   (HandleVoteProofsResult \<times> ('p, 's) world) option go" where
  "HandlePrevoteProofs K env fuel p w =
     (if svp_Proofs p = [] then Ret (Some (HandleVoteProofsEmpty, w)) else prevoteLoop K env p fuel 0 zeroVRV w)"

fun precommitLoop ::
  "('p, 'b, 's) Kernel \<Rightarrow> ('p, 's) environment \<Rightarrow> PrecommitSparseProof \<Rightarrow> string \<Rightarrow> nat \<Rightarrow> nat \<Rightarrow> 'p VersionedRoundView \<Rightarrow>
   ('p, 's) world \<Rightarrow> (HandleVoteProofsResult \<times> ('p, 's) world) option go" where
  "precommitLoop K env p reason 0 tries view w = Ret None"
| "precommitLoop K env p reason (Suc fuel) tries view w =
     (case env (2 * tries) w of
        None \<Rightarrow> Ret (Some (HandleVoteProofsInternalError, w))
      | Some w1 \<Rightarrow>
          gobind (sendViewLookupResponse K (w_state w1) (svp_Height p) (svp_Round p) reason
                    [RVValidators, RVPrecommits] view) (\<lambda>(vid, status, view1).
          gobind (preparePrecommits K p vid status view1) (\<lambda>prep. case prep of
            Inl result \<Rightarrow> Ret (Some (result, w1))
          | Inr req \<Rightarrow>
              (case env (2 * tries + 1) w1 of
                 None \<Rightarrow> Ret (Some (HandleVoteProofsInternalError, w1))
               | Some w2 \<Rightarrow>
                   gobind (addPrecommit K req w2) (\<lambda>(result, w3). case result of
                     AddVoteAccepted \<Rightarrow> Ret (Some (HandleVoteProofsAccepted, w3))
                   | AddVoteConflict \<Rightarrow> precommitLoop K env p reason fuel (tries + 1) (VRV_Reset view1) w3
                   | AddVoteOutOfDate \<Rightarrow> Ret (Some (HandleVoteProofsRoundTooOld, w3)))))))"

definition handlePrecommitProofs ::
  "('p, 'b, 's) Kernel \<Rightarrow> ('p, 's) environment \<Rightarrow> nat \<Rightarrow> PrecommitSparseProof \<Rightarrow> string \<Rightarrow> ('p, 's) world \<Rightarrow>
   (HandleVoteProofsResult \<times> ('p, 's) world) option go" where
  "handlePrecommitProofs K env fuel p reason w =
     (if svp_Proofs p = [] then Ret (Some (HandleVoteProofsEmpty, w)) else precommitLoop K env p reason fuel 0 zeroVRV w)"

definition HandlePrecommitProofs ::
  "('p, 'b, 's) Kernel \<Rightarrow> ('p, 's) environment \<Rightarrow> nat \<Rightarrow> PrecommitSparseProof \<Rightarrow> ('p, 's) world \<Rightarrow>
   (HandleVoteProofsResult \<times> ('p, 's) world) option go" where
  "HandlePrecommitProofs K env fuel p w = handlePrecommitProofs K env fuel p ''(*Mirror).HandlePrecommitProofs'' w"

text \<open>The check of one hash of the previous commit proof of a proposed header.\<close>

definition prevCommit_step ::
  "('p, 'b, 's) Kernel \<Rightarrow> ProposedHeader \<Rightarrow> ValidatorSet \<Rightarrow> bytes \<times> SparseSignature list \<Rightarrow> (bytes, 'p) gomap \<Rightarrow>
   (HandleProposedHeaderResult + (bytes, 'p) gomap) go" where
  "prevCommit_step K ph prevSet e rawProofs =
     (let h = ph_Header ph; pcp = h_PrevCommitProof h in
      case PrecommitSignBytes \<lparr>vt_Height = h_Height h - 1, vt_Round = cp_Round pcp, vt_BlockHash = fst e\<rparr> (k_sigScheme K) of
        Inl err \<Rightarrow> Ret (Inl HandleProposedHeaderInternalError)
      | Inr msg \<Rightarrow>
          (case cm_New (k_cmspScheme K) msg (ValidatorsToPubKeys (Validators prevSet)) (vs_PubKeyHash prevSet) of
             Inl err \<Rightarrow> Ret (Inl HandleProposedHeaderInternalError)
           | Inr p \<Rightarrow>
               gobind (cm_MergeSparse (k_cmspScheme K) p \<lparr>ssp_PubKeyHash = cp_PubKeyHash pcp, ssp_Signatures = snd e\<rparr>)
                 (\<lambda>(res, p'). if \<not> AllValidSignatures res then Ret (Inl HandleProposedHeaderBadPrevCommitProofSignature)
                              else Ret (Inr (AList.update (fst e) p' rawProofs)))))"

text \<open>The validation of a header that the kernel found acceptable.\<close>

definition validateProposedHeader ::
  "('p, 'b, 's) Kernel \<Rightarrow> verifier \<Rightarrow> ProposedHeader \<Rightarrow> 'p PHCheckResponse \<Rightarrow> HandleProposedHeaderResult go" where
  "validateProposedHeader K V ph resp =
     (let h = ph_Header ph in
      case hs_Block (k_hashScheme K) h of
        Inl err \<Rightarrow> Ret HandleProposedHeaderInternalError
      | Inr wantHash \<Rightarrow>
          if wantHash \<noteq> Hash h then Ret HandleProposedHeaderBadBlockHash
          else case ProposalSignBytes h (ph_Round ph) (ph_Annotations ph) (k_sigScheme K) of
                 Inl err \<Rightarrow> Ret HandleProposedHeaderInternalError
               | Inr signContent \<Rightarrow>
                   (case pcr_ProposerPubKey resp of
                      None \<Rightarrow> Panic ''nil pointer dereference''
                    | Some key \<Rightarrow>
                        if \<not> V key signContent (Signature ph) then Ret HandleProposedHeaderBadSignature
                        else if vs_PubKeyHash (pcr_PrevValidatorSet resp) \<noteq> cp_PubKeyHash (h_PrevCommitProof h)
                        then Ret HandleProposedHeaderBadPrevCommitProofPubKeyHash
                        else gobind (gotryfold (prevCommit_step K ph (pcr_PrevValidatorSet resp)) (cp_Proofs (h_PrevCommitProof h)) [])
                               (\<lambda>r. Ret (case r of Inl res \<Rightarrow> res | Inr _ \<Rightarrow> HandleProposedHeaderAccepted))))"

text \<open>The precommits that a header for the next height carries, handled as a vote message. Whether they were
  accepted is returned, and ignored by the caller.\<close>

definition backfillCommitForNextHeightPE ::
  "('p, 'b, 's) Kernel \<Rightarrow> ('p, 's) environment \<Rightarrow> nat \<Rightarrow> ProposedHeader \<Rightarrow> ('p, 's) world \<Rightarrow> (bool \<times> ('p, 's) world) option go" where
  "backfillCommitForNextHeightPE K env fuel ph w =
     (let h = ph_Header ph; pcp = h_PrevCommitProof h in
      gobind (handlePrecommitProofs K env fuel
                \<lparr>svp_Height = h_Height h - 1, svp_Round = cp_Round pcp, svp_PubKeyHash = cp_PubKeyHash pcp, svp_Proofs = cp_Proofs pcp\<rparr>
                ''(*Mirror).backfillCommitForNextHeightPE'' w)
        (\<lambda>out. Ret (map_option (\<lambda>(res, w'). (res = HandleVoteProofsAccepted, w')) out)))"

text \<open>The result, the header sent to the kernel to be added (when accepted, unless the context is cancelled during
  the send), and the world. Each pass through the method has an environment of its own, whose request 0 is
  the check and, for an accepted header, whose request 1 is the send.\<close>

fun HandleProposedHeader ::
  "('p, 'b, 's) Kernel \<Rightarrow> verifier \<Rightarrow> (nat \<Rightarrow> ('p, 's) environment) \<Rightarrow> nat \<Rightarrow> ProposedHeader \<Rightarrow> ('p, 's) world \<Rightarrow>
   (HandleProposedHeaderResult \<times> ProposedHeader option \<times> ('p, 's) world) option go" where
  "HandleProposedHeader K V envs 0 ph w = Ret None"
| "HandleProposedHeader K V envs (Suc fuel) ph w =
     (case envs fuel 0 w of
        None \<Rightarrow> Ret (Some (HandleProposedHeaderInternalError, None, w))
      | Some w1 \<Rightarrow>
          gobind (sendPHCheckResponse K (w_state w1) ph) (\<lambda>resp.
            case pcr_Status resp of
              PHCheckAlreadyHaveSignature \<Rightarrow> Ret (Some (HandleProposedHeaderAlreadyStored, None, w1))
            | PHCheckAcceptable \<Rightarrow>
                gobind (validateProposedHeader K V ph resp) (\<lambda>res.
                  if res \<noteq> HandleProposedHeaderAccepted then Ret (Some (res, None, w1))
                  else case envs fuel 1 w1 of
                         None \<Rightarrow> Ret (Some (HandleProposedHeaderAccepted, None, w1))
                       | Some w2 \<Rightarrow> Ret (Some (HandleProposedHeaderAccepted, Some ph, w2)))
            | PHCheckSignerUnrecognized \<Rightarrow> Ret (Some (HandleProposedHeaderSignerUnrecognized, None, w1))
            | PHCheckNextHeight \<Rightarrow>
                gobind (backfillCommitForNextHeightPE K (\<lambda>n. envs fuel (n + 1)) fuel ph w1) (\<lambda>out.
                  case out of
                    None \<Rightarrow> Ret None
                  | Some (accepted, w2) \<Rightarrow> HandleProposedHeader K V envs fuel ph w2)
            | PHCheckRoundTooOld \<Rightarrow> Ret (Some (HandleProposedHeaderRoundTooOld, None, w1))
            | PHCheckRoundTooFarInFuture \<Rightarrow> Ret (Some (HandleProposedHeaderRoundTooFarInFuture, None, w1))
            | PHCheckInvalid \<Rightarrow> Panic ''TODO: handle PHCheck status''))"

definition RVAll :: RVFieldFlags where
  "RVAll = [RVValidators, RVProposedBlocks, RVPrevotes, RVPrecommits, RVVoteSummary, RVPrevCommitProof]"

text \<open>The snapshots of the voting and the committing view; \<open>None\<close> when the context is cancelled.\<close>

definition VotingView ::
  "('p, 'b, 's) Kernel \<Rightarrow> ('p, 's) environment \<Rightarrow> 'p VersionedRoundView \<Rightarrow> ('p, 's) world \<Rightarrow> 'p VersionedRoundView option" where
  "VotingView K env v w = Option.bind (env 0 w) (\<lambda>w1. fst (sendSnapshotResponse K (w_state w1) RVAll (Some v, None)))"

definition CommittingView ::
  "('p, 'b, 's) Kernel \<Rightarrow> ('p, 's) environment \<Rightarrow> 'p VersionedRoundView \<Rightarrow> ('p, 's) world \<Rightarrow> 'p VersionedRoundView option" where
  "CommittingView K env v w = Option.bind (env 0 w) (\<lambda>w1. snd (sendSnapshotResponse K (w_state w1) RVAll (None, Some v)))"

section \<open>Feedback\<close>

datatype Feedback = FeedbackUnspecified | FeedbackAccepted | FeedbackRejected | FeedbackIgnored | FeedbackRejectAndDisconnect

definition AcceptAllValid_mapHeader :: "HandleProposedHeaderResult \<Rightarrow> Feedback go" where
  "AcceptAllValid_mapHeader f =
     (if f \<in> {HandleProposedHeaderAccepted, HandleProposedHeaderAlreadyStored} then Ret FeedbackAccepted
      else if f \<in> {HandleProposedHeaderRoundTooOld, HandleProposedHeaderInternalError} then Ret FeedbackIgnored
      else if f \<in> {HandleProposedHeaderSignerUnrecognized, HandleProposedHeaderBadSignature, HandleProposedHeaderBadBlockHash,
           HandleProposedHeaderBadPrevCommitProofPubKeyHash, HandleProposedHeaderBadPrevCommitProofSignature,
           HandleProposedHeaderBadPrevCommitVoteCount} then Ret FeedbackRejected
      else Panic ''BUG: no HandleProposedHeaderResult mapping set'')"

definition AcceptAllValid_mapVoteResult :: "HandleVoteProofsResult \<Rightarrow> Feedback go" where
  "AcceptAllValid_mapVoteResult f =
     (if f \<in> {HandleVoteProofsNoNewSignatures, HandleVoteProofsAccepted} then Ret FeedbackAccepted
      else if f \<in> {HandleVoteProofsRoundTooOld, HandleVoteProofsInternalError} then Ret FeedbackIgnored
      else if f \<in> {HandleVoteProofsEmpty, HandleVoteProofsBadPubKeyHash} then Ret FeedbackRejected
      else Panic ''BUG: no mapping set'')"

definition DropDuplicate_mapHeader :: "HandleProposedHeaderResult \<Rightarrow> Feedback go" where
  "DropDuplicate_mapHeader f =
     (if f = HandleProposedHeaderAccepted then Ret FeedbackAccepted
      else if f \<in> {HandleProposedHeaderRoundTooOld, HandleProposedHeaderInternalError, HandleProposedHeaderAlreadyStored}
      then Ret FeedbackIgnored
      else if f \<in> {HandleProposedHeaderSignerUnrecognized, HandleProposedHeaderBadSignature, HandleProposedHeaderBadBlockHash,
           HandleProposedHeaderBadPrevCommitProofPubKeyHash, HandleProposedHeaderBadPrevCommitProofSignature,
           HandleProposedHeaderBadPrevCommitVoteCount} then Ret FeedbackRejected
      else Panic ''BUG: no HandleProposedHeaderResult mapping set'')"

definition DropDuplicate_mapVoteResult :: "HandleVoteProofsResult \<Rightarrow> Feedback go" where
  "DropDuplicate_mapVoteResult f =
     (if f = HandleVoteProofsAccepted then Ret FeedbackAccepted
      else if f \<in> {HandleVoteProofsRoundTooOld, HandleVoteProofsNoNewSignatures, HandleVoteProofsInternalError}
      then Ret FeedbackIgnored
      else if f \<in> {HandleVoteProofsEmpty, HandleVoteProofsBadPubKeyHash} then Ret FeedbackRejected
      else Panic ''BUG: no mapping set'')"


section \<open>Retries end\<close>

lemma voteUpdates_current:
  assumes "gofold (voteUpdate_step C mk curProofs versions) sigs ([], True) = Ret (ups, av)"
  shows "gomap_ok ups" and "all_current versions ups"
proof -
  let ?I = "\<lambda>st. gomap_ok (fst st) \<and> all_current versions (fst st)"
  have "go_post ?I (voteUpdate_step C mk curProofs versions e st)" if "?I st" for e st
    using that set_AList_update[of "fst e" _ "fst st"]
    by (fastforce simp: voteUpdate_step_def go_post_iff all_current_def current_update_def split: option.splits)
  then have "go_post ?I (gofold (voteUpdate_step C mk curProofs versions) sigs ([], True))"
    by (intro gofold_post) (simp_all add: all_current_def)
  then show "gomap_ok ups" "all_current versions ups" using assms by simp_all
qed

lemma preparePrevotes_request:
  assumes "preparePrevotes K p vid status view = Ret (Inr req)"
  shows "status = ViewFound" "av_H req = svp_Height p" "av_R req = svp_Round p" "gomap_ok (av_Updates req)"
    "all_current (PrevoteBlockVersions view) (av_Updates req)"
  using assms by (auto simp: preparePrevotes_def Let_def voteUpdates_current split: if_splits)

lemma preparePrecommits_request:
  assumes "preparePrecommits K p vid status view = Ret (Inr req)"
  shows "status = ViewFound" "av_H req = svp_Height p" "av_R req = svp_Round p" "gomap_ok (av_Updates req)"
    "all_current (PrecommitBlockVersions view) (av_Updates req)"
  using assms by (auto simp: preparePrecommits_def Let_def voteUpdates_current split: if_splits)

text \<open>A request whose updates are all current is not refused.\<close>

lemma addPrevote_no_conflict:
  assumes fv: "FindView (w_state w) (av_H req) (av_R req) = Ret (vid, ViewFound)"
    and ok: "gomap_ok (av_Updates req)" "all_current (PrevoteBlockVersions (kview (w_state w) vid)) (av_Updates req)"
    and run: "addPrevote K req w = Ret (res, w')"
  shows "res = AddVoteAccepted"
proof -
  let ?v = "kview (w_state w) vid"
  obtain ps vs where f: "fold applyUpdate (av_Updates req) (PrevoteProofs ?v, PrevoteBlockVersions ?v, True, False) =
      (ps, vs, True, any_current (PrevoteBlockVersions ?v) (av_Updates req))"
    using applyUpdate_fold[OF ok(1), of "PrevoteProofs ?v" "PrevoteBlockVersions ?v" True False] ok(2) by auto
  show ?thesis
    using run by (auto simp: addPrevote_def Let_def fv f prevoteShift_def split: if_splits)
qed

lemma precommitShift_result: "precommitShift K vid r w = Ret (res, w') \<Longrightarrow> res = r"
  by (cases vid) (auto simp: precommitShift_def split: if_splits)

lemma addPrecommit_no_conflict:
  assumes fv: "FindView (w_state w) (av_H req) (av_R req) = Ret (vid, ViewFound)"
    and ok: "gomap_ok (av_Updates req)" "all_current (PrecommitBlockVersions (kview (w_state w) vid)) (av_Updates req)"
    and run: "addPrecommit K req w = Ret (res, w')"
  shows "res = AddVoteAccepted"
proof -
  let ?v = "kview (w_state w) vid"
  obtain ps vs where f: "fold applyUpdate (av_Updates req) (PrecommitProofs ?v, PrecommitBlockVersions ?v, True, False) =
      (ps, vs, True, any_current (PrecommitBlockVersions ?v) (av_Updates req))"
    using applyUpdate_fold[OF ok(1), of "PrecommitProofs ?v" "PrecommitBlockVersions ?v" True False] ok(2) by auto
  have "\<exists>w2. precommitShift K vid AddVoteAccepted w2 = Ret (res, w')"
    using run by (auto simp: addPrecommit_def Let_def fv f)
  then show ?thesis by (auto dest: precommitShift_result)
qed

lemma lookup_found:
  assumes "sendViewLookupResponse K s h r reason flags dst = Ret (vid, ViewFound, view)"
  shows "FindView s h r = Ret (vid, ViewFound)" "view = copySnapshotView (k_cmspScheme K) (kview s vid) flags dst"
proof -
  show fv: "FindView s h r = Ret (vid, ViewFound)"
    using assms by (auto simp: sendViewLookupResponse_def split: if_splits)
  then have "vid \<noteq> ViewIDNotFound" by (auto simp: FindView_def Let_def split: if_splits)
  with assms fv show "view = copySnapshotView (k_cmspScheme K) (kview s vid) flags dst"
    by (auto simp: sendViewLookupResponse_def split: if_splits)
qed

lemma prevoteLoop_unfinished:
  assumes run: "prevoteLoop K env p (Suc fuel) tries view w = Ret None"
  obtains w1 w2 w3 vid view1 req where "FindView (w_state w1) (svp_Height p) (svp_Round p) = Ret (vid, ViewFound)"
    "view1 = copySnapshotView (k_cmspScheme K) (kview (w_state w1) vid) [RVValidators, RVPrevotes] view"
    "preparePrevotes K p vid ViewFound view1 = Ret (Inr req)" "env (2 * tries + 1) w1 = Some w2"
    "addPrevote K req w2 = Ret (AddVoteConflict, w3)" "prevoteLoop K env p fuel (tries + 1) (VRV_Reset view1) w3 = Ret None"
proof -
  obtain w1 where e1: "env (2 * tries) w = Some w1" using run by (cases "env (2 * tries) w") auto
  obtain vid status view1 where look: "sendViewLookupResponse K (w_state w1) (svp_Height p) (svp_Round p)
      ''(*Mirror).HandlePrevoteProofs'' [RVValidators, RVPrevotes] view = Ret (vid, status, view1)"
    using run e1 by auto
  obtain prep where prep: "preparePrevotes K p vid status view1 = Ret prep" using run e1 look by auto
  obtain req where req: "prep = Inr req" using run e1 look prep by (cases prep) auto
  obtain w2 where e2: "env (2 * tries + 1) w1 = Some w2"
    using run e1 look prep req by (cases "env (2 * tries + 1) w1") auto
  obtain res w3 where add: "addPrevote K req w2 = Ret (res, w3)" using run e1 look prep req e2 by auto
  have cf: "res = AddVoteConflict" using run e1 look prep req e2 add by (cases res) auto
  have st: "status = ViewFound" using preparePrevotes_request(1) prep req by blast
  have rest: "prevoteLoop K env p fuel (tries + 1) (VRV_Reset view1) w3 = Ret None"
    using run e1 look prep req e2 add cf by simp
  show ?thesis
    by (rule that[OF lookup_found[OF look[unfolded st]] prep[unfolded st req] e2 add[unfolded cf] rest])
qed

lemma precommitLoop_unfinished:
  assumes run: "precommitLoop K env p reason (Suc fuel) tries view w = Ret None"
  obtains w1 w2 w3 vid view1 req where "FindView (w_state w1) (svp_Height p) (svp_Round p) = Ret (vid, ViewFound)"
    "view1 = copySnapshotView (k_cmspScheme K) (kview (w_state w1) vid) [RVValidators, RVPrecommits] view"
    "preparePrecommits K p vid ViewFound view1 = Ret (Inr req)" "env (2 * tries + 1) w1 = Some w2"
    "addPrecommit K req w2 = Ret (AddVoteConflict, w3)" "precommitLoop K env p reason fuel (tries + 1) (VRV_Reset view1) w3 = Ret None"
proof -
  obtain w1 where e1: "env (2 * tries) w = Some w1" using run by (cases "env (2 * tries) w") auto
  obtain vid status view1 where look: "sendViewLookupResponse K (w_state w1) (svp_Height p) (svp_Round p)
      reason [RVValidators, RVPrecommits] view = Ret (vid, status, view1)"
    using run e1 by auto
  obtain prep where prep: "preparePrecommits K p vid status view1 = Ret prep" using run e1 look by auto
  obtain req where req: "prep = Inr req" using run e1 look prep by (cases prep) auto
  obtain w2 where e2: "env (2 * tries + 1) w1 = Some w2"
    using run e1 look prep req by (cases "env (2 * tries + 1) w1") auto
  obtain res w3 where add: "addPrecommit K req w2 = Ret (res, w3)" using run e1 look prep req e2 by auto
  have cf: "res = AddVoteConflict" using run e1 look prep req e2 add by (cases res) auto
  have st: "status = ViewFound" using preparePrecommits_request(1) prep req by blast
  have rest: "precommitLoop K env p reason fuel (tries + 1) (VRV_Reset view1) w3 = Ret None"
    using run e1 look prep req e2 add cf by simp
  show ?thesis
    by (rule that[OF lookup_found[OF look[unfolded st]] prep[unfolded st req] e2 add[unfolded cf] rest])
qed

text \<open>From try \<open>n\<close> on nothing happens between the lookup and the addition, unless the context is
  cancelled.\<close>

definition calm_from :: "nat \<Rightarrow> ('p, 's) environment \<Rightarrow> bool" where
  "calm_from n env \<longleftrightarrow> (\<forall>k \<ge> n. \<forall>w w'. env (2 * k + 1) w = Some w' \<longrightarrow> w' = w)"

lemma prevoteLoop_returns:
  assumes "calm_from n env" and "n \<le> tries + m"
  shows "prevoteLoop K env p (Suc m) tries view w \<noteq> Ret None"
  using assms(2)
proof (induction m arbitrary: tries view w)
  case 0
  show ?case
  proof
    assume "prevoteLoop K env p (Suc 0) tries view w = Ret None"
    then show False
    proof (rule prevoteLoop_unfinished)
      fix w1 w2 w3 vid view1 req
      assume fv: "FindView (w_state w1) (svp_Height p) (svp_Round p) = Ret (vid, ViewFound)"
        and view1: "view1 = copySnapshotView (k_cmspScheme K) (kview (w_state w1) vid) [RVValidators, RVPrevotes] view"
        and prep: "preparePrevotes K p vid ViewFound view1 = Ret (Inr req)" and env: "env (2 * tries + 1) w1 = Some w2"
        and add: "addPrevote K req w2 = Ret (AddVoteConflict, w3)"
      have "w2 = w1" using assms(1) env 0 by (auto simp: calm_from_def)
      then show False
        using addPrevote_no_conflict[of w1 req vid K] preparePrevotes_request[OF prep] add fv view1
        by (auto simp: copySnapshotView_def)
    qed
  qed
next
  case (Suc m)
  have "prevoteLoop K env p (Suc m) (tries + 1) view1 w1 \<noteq> Ret None" for view1 w1
    using Suc.prems by (intro Suc.IH) simp
  then show ?case by (metis prevoteLoop_unfinished)
qed

lemma precommitLoop_returns:
  assumes "calm_from n env" and "n \<le> tries + m"
  shows "precommitLoop K env p reason (Suc m) tries view w \<noteq> Ret None"
  using assms(2)
proof (induction m arbitrary: tries view w)
  case 0
  show ?case
  proof
    assume "precommitLoop K env p reason (Suc 0) tries view w = Ret None"
    then show False
    proof (rule precommitLoop_unfinished)
      fix w1 w2 w3 vid view1 req
      assume fv: "FindView (w_state w1) (svp_Height p) (svp_Round p) = Ret (vid, ViewFound)"
        and view1: "view1 = copySnapshotView (k_cmspScheme K) (kview (w_state w1) vid) [RVValidators, RVPrecommits] view"
        and prep: "preparePrecommits K p vid ViewFound view1 = Ret (Inr req)" and env: "env (2 * tries + 1) w1 = Some w2"
        and add: "addPrecommit K req w2 = Ret (AddVoteConflict, w3)"
      have "w2 = w1" using assms(1) env 0 by (auto simp: calm_from_def)
      then show False
        using addPrecommit_no_conflict[of w1 req vid K] preparePrecommits_request[OF prep] add fv view1
        by (auto simp: copySnapshotView_def)
    qed
  qed
next
  case (Suc m)
  have "precommitLoop K env p reason (Suc m) (tries + 1) view1 w1 \<noteq> Ret None" for view1 w1
    using Suc.prems by (intro Suc.IH) simp
  then show ?case by (metis precommitLoop_unfinished)
qed
end
