(* ===== verification/MirrorProps.thy ===== *)
theory MirrorProps
  imports Mirror
begin

text \<open>
  Properties of the mirror: its vote handlers return, what an accepted proposed header guarantees, what a
  vote message adds to the voting view, and which messages a mirror does not survive.
\<close>

section \<open>What a vote message adds\<close>

text \<open>A proof over the given keys for the given message, and the validators that signed for a hash.\<close>

definition proof_for :: "verifier \<Rightarrow> ('b \<Rightarrow> nat set) \<Rightarrow> PubKey list \<Rightarrow> bytes \<Rightarrow> bytes \<Rightarrow> 'b SimpleProof \<Rightarrow> bool" where
  "proof_for V bits keys kh msg p \<longleftrightarrow> simple_inv V bits p \<and> sp_keys p = keys \<and> sp_keyHash p = kh \<and> sp_msg p = msg"

definition signers_of :: "('b \<Rightarrow> nat set) \<Rightarrow> (bytes, 'b SimpleProof) gomap \<Rightarrow> bytes \<Rightarrow> nat set" where
  "signers_of bits proofs h = (case map_of proofs h of None \<Rightarrow> {} | Some p \<Rightarrow> bits (sp_bitset p))"

text \<open>The validators whose signatures on \<open>msg\<close> are among \<open>sigs\<close>.\<close>

definition valid_votes :: "verifier \<Rightarrow> PubKey list \<Rightarrow> bytes \<Rightarrow> SparseSignature list \<Rightarrow> nat set" where
  "valid_votes V keys msg sigs =
     sparse_index ` {ss \<in> set sigs. length (KeyID ss) = 2 \<and> sparse_index ss < length keys \<and>
                                    V (keys ! sparse_index ss) msg (Sig ss)}"

definition wanted :: "('p, 'b) cmsp \<Rightarrow> (bytes, 'p) gomap \<Rightarrow> ValidatorSet \<Rightarrow> bytes \<Rightarrow> SparseSignature \<Rightarrow> bool" where
  "wanted C cur vs h sig = (case map_of cur h of
     None \<Rightarrow> cm_KeyIDChecker C (ValidatorsToPubKeys (Validators vs)) (KeyID sig)
   | Some p \<Rightarrow> (case cm_HasSparseKeyID C p (KeyID sig) of (has, valid) \<Rightarrow> valid \<and> \<not> has))"

lemma fold_update_filter:
  assumes "gomap_ok xs"
  shows "map_of (fold (\<lambda>(k, v) m. if g k v = [] then m else AList.update k (g k v) m) xs acc) h =
     (case map_of xs h of None \<Rightarrow> map_of acc h | Some v \<Rightarrow> if g h v = [] then map_of acc h else Some (g h v))"
  using assms
proof (induction xs arbitrary: acc)
  case (Cons x xs)
  obtain k v where x: "x = (k, v)" by fastforce
  have ok: "gomap_ok xs" and k: "map_of xs k = None" using Cons.prems by (auto simp: gomap_ok_def x map_of_eq_None_iff)
  show ?case
    using Cons.IH[OF ok] k by (auto simp: x update_conv' split: option.split)
qed simp

lemma getSignaturesToAdd_fold:
  "getSignaturesToAdd C cur inc vs =
     fold (\<lambda>(k, v) m. if filter (wanted C cur vs k) v = [] then m else AList.update k (filter (wanted C cur vs k) v) m) inc []"
  unfolding getSignaturesToAdd_def Let_def by (rule fold_cong) (auto simp: wanted_def[abs_def] split: option.split)

lemma getSignaturesToAdd_lookup:
  assumes "gomap_ok inc"
  shows "map_of (getSignaturesToAdd C cur inc vs) h = (case map_of inc h of None \<Rightarrow> None
     | Some sigs \<Rightarrow> if filter (wanted C cur vs h) sigs = [] then None else Some (filter (wanted C cur vs h) sigs))"
  using fold_update_filter[OF assms, of "\<lambda>k. filter (wanted C cur vs k)" "[]" h]
  by (auto simp: getSignaturesToAdd_fold split: option.split)

lemma gomap_ok_fold:
  assumes "gomap_ok acc" and "\<And>e m. gomap_ok m \<Longrightarrow> gomap_ok (f e m)"
  shows "gomap_ok (fold f xs acc)"
  using assms by (induction xs arbitrary: acc) auto

lemma gomap_ok_getSignaturesToAdd: "gomap_ok (getSignaturesToAdd C cur inc vs)"
  unfolding getSignaturesToAdd_fold by (rule gomap_ok_fold) auto

lemma voteUpdates_spec:
  assumes ok: "gomap_ok sigs"
    and each: "\<forall>(h, ss) \<in> set sigs. \<exists>p0 res p'. (case map_of cur h of Some p \<Rightarrow> Some p | None \<Rightarrow> mk h) = Some p0 \<and>
        cm_MergeSparse C p0 \<lparr>ssp_PubKeyHash = cm_PubKeyHash C p0, ssp_Signatures = ss\<rparr> = Ret (res, p') \<and> Q h ss p'"
  shows "\<exists>ups av. gofold (voteUpdate_step C mk cur versions) sigs (acc, b) = Ret (ups, av) \<and>
     (\<forall>h. case map_of sigs h of None \<Rightarrow> map_of ups h = map_of acc h
          | Some ss \<Rightarrow> \<exists>u. map_of ups h = Some u \<and> vu_PrevVersion u = lookup0 versions h \<and> Q h ss (vu_Proof u))"
  using assms
proof (induction sigs arbitrary: acc b)
  case (Cons x sigs)
  obtain h ss where x: "x = (h, ss)" by fastforce
  have ok: "gomap_ok sigs" and h: "map_of sigs h = None" using Cons.prems(1) by (auto simp: gomap_ok_def x map_of_eq_None_iff)
  obtain p0 res p' where p0: "(case map_of cur h of Some p \<Rightarrow> Some p | None \<Rightarrow> mk h) = Some p0"
    and m: "cm_MergeSparse C p0 \<lparr>ssp_PubKeyHash = cm_PubKeyHash C p0, ssp_Signatures = ss\<rparr> = Ret (res, p')" and Q: "Q h ss p'"
    using Cons.prems(2) by (auto simp: x)
  define acc1 where "acc1 = AList.update h \<lparr>vu_Proof = p', vu_PrevVersion = lookup0 versions h\<rparr> acc"
  have step: "voteUpdate_step C mk cur versions x (acc, b) = Ret (acc1, b \<and> AllValidSignatures res)"
    unfolding voteUpdate_step_def x fst_conv snd_conv p0 option.case m gobind.simps prod.case acc1_def ..
  obtain ups av where run: "gofold (voteUpdate_step C mk cur versions) sigs (acc1, b \<and> AllValidSignatures res) = Ret (ups, av)"
    and ups: "\<forall>k. case map_of sigs k of None \<Rightarrow> map_of ups k = map_of acc1 k
          | Some ss \<Rightarrow> \<exists>u. map_of ups k = Some u \<and> vu_PrevVersion u = lookup0 versions k \<and> Q k ss (vu_Proof u)"
    using Cons.IH[OF ok, of acc1 "b \<and> AllValidSignatures res"] Cons.prems(2) by auto
  have "case map_of (x # sigs) k of None \<Rightarrow> map_of ups k = map_of acc k
      | Some ss \<Rightarrow> \<exists>u. map_of ups k = Some u \<and> vu_PrevVersion u = lookup0 versions k \<and> Q k ss (vu_Proof u)" for k
    using ups[rule_format, of k] h Q by (cases "k = h") (auto simp: x acc1_def update_conv' split: option.splits)
  then show ?case using step run by auto
qed simp


text \<open>The signatures that the handler asks for, with the simple scheme.\<close>

lemma SimpleScheme_ids:
  "cm_KeyIDChecker (SimpleScheme V B) = beUint16KeyLenIDChecker_IsValid" "cm_HasSparseKeyID (SimpleScheme V B) = simple_HasSparseKeyID B"
  by (simp_all add: SimpleScheme_def)

lemma simple_wanted:
  assumes lib: "bitset_lib B bits" and keys: "keys = ValidatorsToPubKeys (Validators vs)"
    and cur: "\<forall>h p. map_of cur h = Some p \<longrightarrow> sp_keys p = keys"
  shows "wanted (SimpleScheme V B) cur vs h sig \<longleftrightarrow>
     length (KeyID sig) = 2 \<and> sparse_index sig < length keys \<and> sparse_index sig \<notin> signers_of bits cur h"
proof (cases "length (KeyID sig) = 2")
  case True
  then obtain c d where "KeyID sig = [c, d]" by (auto simp: length_Suc_conv numeral_2_eq_2)
  then obtain u where u: "Uint16 (KeyID sig) = Ret u" by (auto simp: Uint16_def)
  show ?thesis
    using True u cur keys bitset_lib.Test_iff[OF lib]
    by (auto simp: SimpleScheme_ids wanted_def signers_of_def sparse_index_def beUint16KeyLenIDChecker_IsValid_def simple_HasSparseKeyID_def
        split: option.split)
qed (auto simp: SimpleScheme_ids wanted_def beUint16KeyLenIDChecker_IsValid_def simple_HasSparseKeyID_def split: option.split)

lemma valid_votes_wanted:
  assumes "\<And>sig. W sig \<longleftrightarrow> length (KeyID sig) = 2 \<and> sparse_index sig < length keys \<and> sparse_index sig \<notin> S"
  shows "S \<union> valid_votes V keys msg (filter W sigs) = S \<union> valid_votes V keys msg sigs"
  using assms by (auto simp: valid_votes_def)

text \<open>Merging the wanted signatures of one hash into its proof.\<close>

lemma merge_wanted:
  assumes lib: "bitset_lib B bits" and p: "proof_for V bits keys kh msg p" and "distinct (map PubKeyBytes keys)"
    and ids: "\<forall>ss \<in> set sigs. length (KeyID ss) = 2 \<and> sparse_index ss < length keys"
  shows "\<exists>r p'. simple_MergeSparse V B p \<lparr>ssp_PubKeyHash = sp_keyHash p, ssp_Signatures = sigs\<rparr> = Ret (r, p') \<and>
     proof_for V bits keys kh msg p' \<and> bits (sp_bitset p') = bits (sp_bitset p) \<union> valid_votes V keys msg sigs"
proof -
  let ?s = "\<lparr>ssp_PubKeyHash = sp_keyHash p, ssp_Signatures = sigs\<rparr>"
  have inv: "simple_inv V bits p" "sp_keys p = keys" "sp_msg p = msg" "sp_keyHash p = kh" using p by (auto simp: proof_for_def)
  have dist: "distinct (map PubKeyBytes (sp_keys p))" using assms(3) inv by simp
  have ids2: "\<forall>ss \<in> set (ssp_Signatures ?s). 2 \<le> length (KeyID ss)" using ids by auto
  have hash: "sp_keyHash p = ssp_PubKeyHash ?s" by simp
  obtain r p' where m: "simple_MergeSparse V B p ?s = Ret (r, p')" "simple_inv V bits p'" "sp_msg p' = sp_msg p"
    "sp_keys p' = sp_keys p" "sp_keyHash p' = sp_keyHash p"
    "bits (sp_bitset p') = bits (sp_bitset p) \<union> sparse_index ` {ss \<in> set (ssp_Signatures ?s). sparse_valid V p ss}"
    using simple_MergeSparse_valid[OF lib inv(1) dist hash ids2] by (elim exE conjE)
  have "sparse_index ` {ss \<in> set sigs. sparse_valid V p ss} = valid_votes V keys msg sigs"
    using ids inv by (auto simp: valid_votes_def sparse_valid_def)
  then show ?thesis using m inv by (auto simp: proof_for_def)
qed


text \<open>The votes of one view with the simple scheme: every proof is over the keys of the view's validators, for
  the sign bytes of its hash.\<close>

definition votes_for :: "verifier \<Rightarrow> ('b \<Rightarrow> nat set) \<Rightarrow> ValidatorSet \<Rightarrow> (bytes \<Rightarrow> bytes) \<Rightarrow> (bytes, 'b SimpleProof) gomap \<Rightarrow> bool" where
  "votes_for V bits vs msg proofs \<longleftrightarrow>
     (\<forall>h p. map_of proofs h = Some p \<longrightarrow> proof_for V bits (ValidatorsToPubKeys (Validators vs)) (vs_PubKeyHash vs) (msg h) p)"

lemma map_of_none_iff: "m = [] \<longleftrightarrow> (\<forall>h. map_of m h = None)"
  by (cases m) auto

text \<open>What the handler asks the kernel to add.\<close>

lemma simple_voteUpdates:
  fixes V :: verifier and B :: "'b bitset_ops" and vs :: ValidatorSet
  defines "keys \<equiv> ValidatorsToPubKeys (Validators vs)" and "C \<equiv> SimpleScheme V B"
  assumes lib: "bitset_lib B bits" and cur: "votes_for V bits vs msg cur" and dist: "distinct (map PubKeyBytes keys)"
    and inc: "gomap_ok inc"
    and mk: "\<And>h. mk h = Some (\<lparr>sp_msg = msg h, sp_sigs = [], sp_keys = keys, sp_keyIdxs = keyIndexes keys,
        sp_keyHash = vs_PubKeyHash vs, sp_bitset = bs_New B (length keys)\<rparr>)"
  shows "\<exists>ups av. gofold (voteUpdate_step C mk cur versions) (getSignaturesToAdd C cur inc vs) ([], True) = Ret (ups, av) \<and>
     (ups = [] \<longleftrightarrow> getSignaturesToAdd C cur inc vs = []) \<and>
     (\<forall>h u. map_of ups h = Some u \<longrightarrow> proof_for V bits keys (vs_PubKeyHash vs) (msg h) (vu_Proof u) \<and>
        bits (sp_bitset (vu_Proof u)) =
          signers_of bits cur h \<union> (case map_of inc h of None \<Rightarrow> {} | Some sigs \<Rightarrow> valid_votes V keys (msg h) sigs)) \<and>
     (\<forall>h. map_of ups h = None \<longrightarrow>
        (case map_of inc h of None \<Rightarrow> {} | Some sigs \<Rightarrow> valid_votes V keys (msg h) sigs) \<subseteq> signers_of bits cur h)"
proof -
  let ?add = "getSignaturesToAdd C cur inc vs" and ?ok = "\<lambda>h. proof_for V bits keys (vs_PubKeyHash vs) (msg h)"
  let ?Q = "\<lambda>h ss p'. ?ok h p' \<and> bits (sp_bitset p') = signers_of bits cur h \<union> valid_votes V keys (msg h) ss"
  have W: "wanted C cur vs h sig \<longleftrightarrow> length (KeyID sig) = 2 \<and> sparse_index sig < length keys \<and> sparse_index sig \<notin> signers_of bits cur h"
    for h sig unfolding C_def
    by (rule simple_wanted[OF lib]) (use cur in \<open>auto simp: keys_def votes_for_def proof_for_def\<close>)
  have fresh: "?ok h (the (mk h)) \<and> bits (sp_bitset (the (mk h))) = {}" for h
    using bitset_lib.bits_New[OF lib] by (simp add: mk proof_for_def simple_inv_def)
  have one: "\<exists>p0 res p'. (case map_of cur h of Some p \<Rightarrow> Some p | None \<Rightarrow> mk h) = Some p0 \<and>
      cm_MergeSparse C p0 \<lparr>ssp_PubKeyHash = cm_PubKeyHash C p0, ssp_Signatures = ss\<rparr> = Ret (res, p') \<and> ?Q h ss p'"
    if "(h, ss) \<in> set ?add" for h ss
  proof -
    have "map_of ?add h = Some ss"
      using that gomap_ok_getSignaturesToAdd[of C cur inc vs] by (simp add: gomap_ok_def)
    then have ids: "\<forall>s \<in> set ss. length (KeyID s) = 2 \<and> sparse_index s < length keys"
      using W by (auto simp: getSignaturesToAdd_lookup[OF inc] split: option.splits if_splits)
    obtain p0 where p0: "(case map_of cur h of Some p \<Rightarrow> Some p | None \<Rightarrow> mk h) = Some p0" "?ok h p0"
        "bits (sp_bitset p0) = signers_of bits cur h"
      using cur fresh[of h] mk[of h] by (cases "map_of cur h") (auto simp: votes_for_def signers_of_def keys_def)
    show ?thesis using merge_wanted[OF lib p0(2) dist ids] p0(1,3) by (auto simp: C_def)
  qed
  have each: "\<forall>(h, ss) \<in> set ?add. \<exists>p0 res p'. (case map_of cur h of Some p \<Rightarrow> Some p | None \<Rightarrow> mk h) = Some p0 \<and>
      cm_MergeSparse C p0 \<lparr>ssp_PubKeyHash = cm_PubKeyHash C p0, ssp_Signatures = ss\<rparr> = Ret (res, p') \<and> ?Q h ss p'"
    by (intro ballI case_prodI2) (rule one, simp)
  obtain ups av where run: "gofold (voteUpdate_step C mk cur versions) ?add ([], True) = Ret (ups, av)"
    and ups: "\<forall>h. case map_of ?add h of None \<Rightarrow> map_of ups h = map_of [] h
          | Some ss \<Rightarrow> \<exists>u. map_of ups h = Some u \<and> vu_PrevVersion u = lookup0 versions h \<and> ?Q h ss (vu_Proof u)"
    using voteUpdates_spec[OF gomap_ok_getSignaturesToAdd each, of versions "[]" True] by (elim exE conjE)
  have "map_of ups h = None \<longleftrightarrow> map_of ?add h = None" for h
    using ups[rule_format, of h] by (auto split: option.splits)
  then have "ups = [] \<longleftrightarrow> ?add = []" using map_of_none_iff[of ups] map_of_none_iff[of ?add] by simp
  moreover have "?ok h (vu_Proof u) \<and> bits (sp_bitset (vu_Proof u)) =
      signers_of bits cur h \<union> (case map_of inc h of None \<Rightarrow> {} | Some sigs \<Rightarrow> valid_votes V keys (msg h) sigs)"
    if "map_of ups h = Some u" for h u
    using ups[rule_format, of h] that valid_votes_wanted[OF W, of h V "msg h"]
    by (auto simp: getSignaturesToAdd_lookup[OF inc] split: option.splits if_splits)
  moreover have "(case map_of inc h of None \<Rightarrow> {} | Some sigs \<Rightarrow> valid_votes V keys (msg h) sigs) \<subseteq> signers_of bits cur h"
    if "map_of ups h = None" for h
    using ups[rule_format, of h] that W[of h]
    by (auto simp: getSignaturesToAdd_lookup[OF inc] valid_votes_def filter_empty_conv split: option.splits if_splits)
  ultimately show ?thesis using run by blast
qed


context bitset_lib
begin

lemma simple_scheme: "signature_proof B bits (SimpleScheme V B) (simple_inv V bits) (\<lambda>p. length (sp_keys p))"
  by (rule simple.signature_proof_axioms)

end

lemma makeNewPrevoteProof_simple:
  assumes "k_cmspScheme K = SimpleScheme V B"
    and "PrevoteSignBytes \<lparr>vt_Height = ht, vt_Round = r, vt_BlockHash = h\<rparr> (k_sigScheme K) = Inr (msg h)"
  shows "makeNewPrevoteProof K ht r vs h = Some (\<lparr>sp_msg = msg h, sp_sigs = [], sp_keys = ValidatorsToPubKeys (Validators vs),
     sp_keyIdxs = keyIndexes (ValidatorsToPubKeys (Validators vs)), sp_keyHash = vs_PubKeyHash vs,
     sp_bitset = bs_New B (length (ValidatorsToPubKeys (Validators vs)))\<rparr>)"
  using assms by (simp add: makeNewPrevoteProof_def NewSimpleCommonMessageSignatureProof_def)

lemma copySnapshot_votes:
  assumes "k_cmspScheme K = SimpleScheme V B"
  shows "PrevoteProofs (copySnapshotView (k_cmspScheme K) v [RVValidators, RVPrevotes] dst) = PrevoteProofs v"
    "PrevoteBlockVersions (copySnapshotView (k_cmspScheme K) v [RVValidators, RVPrevotes] dst) = PrevoteBlockVersions v"
    "rv_ValidatorSet (copySnapshotView (k_cmspScheme K) v [RVValidators, RVPrevotes] dst) = rv_ValidatorSet v"
proof -
  have "simple_Clone p = p" for p :: "'a SimpleProof" by (cases p) (simp add: simple_Clone_def)
  then show "PrevoteProofs (copySnapshotView (k_cmspScheme K) v [RVValidators, RVPrevotes] dst) = PrevoteProofs v"
    using assms by (simp add: copySnapshotView_def case_prod_unfold)
qed (simp_all add: copySnapshotView_def)

lemma prevotes_added:
  fixes V :: verifier
  defines "keys \<equiv> \<lambda>v. ValidatorsToPubKeys (Validators (rv_ValidatorSet v))"
  assumes lib: "bitset_lib B bits" and K: "k_cmspScheme K = SimpleScheme V B" "k_bitset K = B"
    and kinv: "kinv K w" and v: "v = ks_Voting (w_state w)"
    and p: "svp_Height p = rv_Height v" "svp_Round p = rv_Round v" "svp_PubKeyHash p = vs_PubKeyHash (rv_ValidatorSet v)"
      "gomap_ok (svp_Proofs p)" "svp_Proofs p \<noteq> []"
    and pow: "powers_ok (Validators (rv_ValidatorSet v))" and dist: "distinct (map PubKeyBytes (keys v))"
    and msg: "\<And>h. PrevoteSignBytes \<lparr>vt_Height = rv_Height v, vt_Round = rv_Round v, vt_BlockHash = h\<rparr> (k_sigScheme K) = Inr (msg h)"
    and votes: "votes_for V bits (rv_ValidatorSet v) msg (PrevoteProofs v)"
    and quiet: "env 0 w = Some w" "env 1 w = Some w"
  shows "\<exists>res w'. HandlePrevoteProofs K env (Suc n) p w = Ret (Some (res, w')) \<and>
     res \<in> {HandleVoteProofsAccepted, HandleVoteProofsNoNewSignatures} \<and>
     votes_for V bits (rv_ValidatorSet v) msg (PrevoteProofs (ks_Voting (w_state w'))) \<and>
     (\<forall>h. signers_of bits (PrevoteProofs (ks_Voting (w_state w'))) h = signers_of bits (PrevoteProofs v) h \<union>
        (case map_of (svp_Proofs p) h of None \<Rightarrow> {} | Some sigs \<Rightarrow> valid_votes V (keys v) (msg h) sigs))"
proof -
  let ?C = "k_cmspScheme K" and ?cur = "PrevoteProofs v" and ?vs = "rv_ValidatorSet v" and ?vers = "PrevoteBlockVersions v"
  let ?new = "\<lambda>h. case map_of (svp_Proofs p) h of None \<Rightarrow> {} | Some sigs \<Rightarrow> valid_votes V (keys v) (msg h) sigs"
  let ?add = "getSignaturesToAdd ?C ?cur (svp_Proofs p) ?vs"
  let ?mk = "makeNewPrevoteProof K (rv_Height v) (rv_Round v) ?vs"
  define view1 where "view1 = copySnapshotView ?C v [RVValidators, RVPrevotes] zeroVRV"
  note view1 = copySnapshot_votes[OF K(1), of v zeroVRV, folded view1_def]
  have look: "sendViewLookupResponse K (w_state w) (svp_Height p) (svp_Round p) ''(*Mirror).HandlePrevoteProofs''
      [RVValidators, RVPrevotes] zeroVRV = Ret (ViewIDVoting, ViewFound, view1)"
    using FindView_voting[of "w_state w"] by (simp add: sendViewLookupResponse_def p v view1_def kview_def)
  obtain ups av where run: "gofold (voteUpdate_step ?C ?mk ?cur ?vers) ?add ([], True) = Ret (ups, av)"
    and none: "ups = [] \<longleftrightarrow> ?add = []"
    and some: "\<forall>h u. map_of ups h = Some u \<longrightarrow> proof_for V bits (keys v) (vs_PubKeyHash ?vs) (msg h) (vu_Proof u) \<and>
        bits (sp_bitset (vu_Proof u)) = signers_of bits ?cur h \<union> ?new h"
    and old: "\<forall>h. map_of ups h = None \<longrightarrow> ?new h \<subseteq> signers_of bits ?cur h"
    using simple_voteUpdates[OF lib votes dist[unfolded keys_def] p(4), of ?mk ?vers]
      makeNewPrevoteProof_simple[where vs = ?vs and msg = msg, OF K(1) msg] unfolding K(1) keys_def by blast
  have prep: "preparePrevotes K p ViewIDVoting ViewFound view1 =
      Ret (if ups = [] then Inl HandleVoteProofsNoNewSignatures
           else Inr \<lparr>av_H = rv_Height v, av_R = rv_Round v, av_Updates = ups\<rparr>)"
    using run none by (simp add: preparePrevotes_def Let_def view1 p)
  show ?thesis
  proof (cases "ups = []")
    case True
    then have "HandlePrevoteProofs K env (Suc n) p w = Ret (Some (HandleVoteProofsNoNewSignatures, w))"
      using look prep quiet p(5) by (simp add: HandlePrevoteProofs_def)
    moreover have "signers_of bits ?cur h = signers_of bits ?cur h \<union> ?new h" for h using old True by auto
    ultimately show ?thesis using votes by (intro exI[of _ HandleVoteProofsNoNewSignatures] exI[of _ w]) (simp add: v)
  next
    case False
    let ?req = "\<lparr>av_H = rv_Height v, av_R = rv_Round v, av_Updates = ups\<rparr>"
    have ok: "gomap_ok ups" "all_current ?vers ups" using voteUpdates_current[OF run] by auto
    have any: "any_current ?vers ups" using ok(2) False by (cases ups) (auto simp: any_current_def all_current_def)
    have sig: "signature_proof (k_bitset K) bits ?C (simple_inv V bits) (\<lambda>p. length (sp_keys p))"
      using bitset_lib.simple_scheme[OF lib] by (simp add: K)
    have gm: "gomap_ok ?cur" using kinv v by (simp add: kinv_def aligned_def summary_ok_def)
    have "one_key_set ?C (vs_PubKeyHash ?vs) ?cur ups"
      using some votes gm ok(1) by (fastforce simp: one_key_set_def K(1) votes_for_def proof_for_def gomap_ok_def)
    then obtain w' where add: "addPrevote K ?req w = Ret (AddVoteAccepted, w')"
      and new: "\<forall>h. map_of (PrevoteProofs (ks_Voting (w_state w'))) h = updated_proof ?vers ups ?cur h"
      using addPrevote_voting_spec[OF sig kinv v, of ?req "vs_PubKeyHash ?vs"] pow ok any by auto
    have run': "HandlePrevoteProofs K env (Suc n) p w = Ret (Some (HandleVoteProofsAccepted, w'))"
      using look prep quiet p(5) False add by (simp add: HandlePrevoteProofs_def)
    have cu: "current_update ?vers h u" if "map_of ups h = Some u" for h u
      using ok(2) map_of_SomeD[OF that] by (auto simp: all_current_def)
    have "votes_for V bits ?vs msg (PrevoteProofs (ks_Voting (w_state w')))"
      using votes some cu by (auto simp: votes_for_def new updated_proof_def keys_def split: option.splits if_splits)
    moreover have "signers_of bits (PrevoteProofs (ks_Voting (w_state w'))) h = signers_of bits ?cur h \<union> ?new h" for h
    proof (cases "map_of ups h")
      case None
      then have "signers_of bits (PrevoteProofs (ks_Voting (w_state w'))) h = signers_of bits ?cur h"
        by (simp add: signers_of_def new updated_proof_def)
      then show ?thesis using old None by blast
    next
      case (Some u)
      then show ?thesis using some cu[OF Some] by (simp add: signers_of_def[of _ "PrevoteProofs (ks_Voting (w_state w'))"] new updated_proof_def)
    qed
    ultimately show ?thesis using run' by blast
  qed
qed

text \<open>(C24) A prevote message for the voting round that the kernel serves undisturbed returns, and afterwards the
  signers of every hash are exactly the old ones and the validators whose signature in the message verifies: an
  invalid signature, an unknown key or a malformed key ID never counts and never hides a valid one.\<close>

theorem prevote_message_exact:
  fixes V :: verifier
  defines "keys \<equiv> \<lambda>v. ValidatorsToPubKeys (Validators (rv_ValidatorSet v))"
  assumes lib: "bitset_lib B bits" and K: "k_cmspScheme K = SimpleScheme V B" "k_bitset K = B"
    and kinv: "kinv K w" and v: "v = ks_Voting (w_state w)"
    and p: "svp_Height p = rv_Height v" "svp_Round p = rv_Round v" "svp_PubKeyHash p = vs_PubKeyHash (rv_ValidatorSet v)"
      "gomap_ok (svp_Proofs p)" "svp_Proofs p \<noteq> []"
    and pow: "powers_ok (Validators (rv_ValidatorSet v))" and dist: "distinct (map PubKeyBytes (keys v))"
    and msg: "\<And>h. PrevoteSignBytes \<lparr>vt_Height = rv_Height v, vt_Round = rv_Round v, vt_BlockHash = h\<rparr> (k_sigScheme K) = Inr (msg h)"
    and votes: "votes_for V bits (rv_ValidatorSet v) msg (PrevoteProofs v)"
    and quiet: "env 0 w = Some w" "env 1 w = Some w"
  shows "\<exists>res w'. HandlePrevoteProofs K env (Suc n) p w = Ret (Some (res, w')) \<and>
     res \<in> {HandleVoteProofsAccepted, HandleVoteProofsNoNewSignatures} \<and>
     votes_for V bits (rv_ValidatorSet v) msg (PrevoteProofs (ks_Voting (w_state w'))) \<and>
     (\<forall>h. signers_of bits (PrevoteProofs (ks_Voting (w_state w'))) h = signers_of bits (PrevoteProofs v) h \<union>
        (case map_of (svp_Proofs p) h of None \<Rightarrow> {} | Some sigs \<Rightarrow> valid_votes V (keys v) (msg h) sigs))"
  unfolding keys_def
  by (rule prevotes_added[where msg = msg and env = env, OF lib K kinv v p pow dist[unfolded keys_def] msg votes quiet])


text \<open>Nothing happens between the requests of a handler.\<close>

definition ex_quiet :: "('p, 's) environment" where
  "ex_quiet n w = Some w"

text \<open>A valid signature of the first validator, and one of the second that does not verify.\<close>

definition ex_votes :: PrevoteSparseProof where
  "ex_votes = \<lparr>svp_Height = 1, svp_Round = 0, svp_PubKeyHash = ''h'',
     svp_Proofs = [(''x'', [\<lparr>KeyID = PutUint16 0, Sig = ''a''\<rparr>, \<lparr>KeyID = PutUint16 1, Sig = ''z''\<rparr>])]\<rparr>"

lemma ex_proposed_valset: "rv_ValidatorSet (ks_Voting (w_state ex_proposed)) = ex_valset"
  by code_simp

theorem prevote_message_exact_witness:
  "\<exists>res w'. HandlePrevoteProofs ex_kernel ex_quiet 1 ex_votes ex_proposed = Ret (Some (res, w')) \<and>
     signers_of set (PrevoteProofs (ks_Voting (w_state w'))) ''x'' = {0}"
proof -
  let ?v = "ks_Voting (w_state ex_proposed)" and ?p = ex_votes
  have K: "k_cmspScheme ex_kernel = SimpleScheme ex_V ref_bitset" "k_bitset ex_kernel = ref_bitset" by (simp_all add: ex_kernel_def)
  have p: "svp_Height ?p = rv_Height ?v" "svp_Round ?p = rv_Round ?v" "svp_PubKeyHash ?p = vs_PubKeyHash (rv_ValidatorSet ?v)"
    "gomap_ok (svp_Proofs ?p)" "svp_Proofs ?p \<noteq> []"
    by (simp_all add: ex_votes_def ex_proposed_voting ex_proposed_valset ex_valset_def gomap_ok_def)
  have pow: "powers_ok (Validators (rv_ValidatorSet ?v))" by (simp add: ex_proposed_voting ex_powers_ok)
  have v: "distinct (map PubKeyBytes (ValidatorsToPubKeys (Validators (rv_ValidatorSet ?v))))"
    "votes_for ex_V set (rv_ValidatorSet ?v) (\<lambda>h. ''v'') (PrevoteProofs ?v)"
    by (simp_all add: ex_proposed_voting ex_vals_def ValidatorsToPubKeys_def votes_for_def)
  have msg: "PrevoteSignBytes \<lparr>vt_Height = rv_Height ?v, vt_Round = rv_Round ?v, vt_BlockHash = h\<rparr> (k_sigScheme ex_kernel) = Inr ''v''" for h
    by (simp add: ex_kernel_def ex_sigs_def PrevoteSignBytes_def)
  from prevote_message_exact[where msg = "\<lambda>h. ''v''" and p = ?p and env = ex_quiet and n = 0,
      OF rbs.bitset_lib_axioms K ex_proposed_kinv refl p pow v(1) msg v(2)]
  obtain res w' where r: "HandlePrevoteProofs ex_kernel ex_quiet (Suc 0) ?p ex_proposed = Ret (Some (res, w'))"
    and s: "signers_of set (PrevoteProofs (ks_Voting (w_state w'))) ''x'' = signers_of set (PrevoteProofs ?v) ''x'' \<union>
        (case map_of (svp_Proofs ?p) ''x'' of None \<Rightarrow> {} | Some sigs \<Rightarrow>
           valid_votes ex_V (ValidatorsToPubKeys (Validators (rv_ValidatorSet ?v))) ''v'' sigs)"
    by (fastforce simp: ex_quiet_def)
  have "signers_of set (PrevoteProofs (ks_Voting (w_state w'))) ''x'' = {0}"
    unfolding s by (auto simp: ex_votes_def signers_of_def ex_proposed_voting ex_vals_def ValidatorsToPubKeys_def valid_votes_def
        sparse_index_def ex_V_def intro!: image_eqI[of _ _ "\<lparr>KeyID = PutUint16 0, Sig = ''a''\<rparr>"])
  then show ?thesis using r by auto
qed

section \<open>Returning\<close>

text \<open>(C26) The vote handlers retry while others change the votes they looked up. Once from some try \<open>n\<close> on the
  kernel serves nobody between the lookup and the addition, both return (or panic) within \<open>n + 1\<close> tries,
  whatever the message and the state.\<close>

theorem vote_handlers_return:
  assumes "calm_from n env" and "n < fuel"
  shows "HandlePrevoteProofs K env fuel prevotes w \<noteq> Ret None \<and>
    HandlePrecommitProofs K env fuel precommits w \<noteq> Ret None"
proof -
  obtain m where m: "fuel = Suc m" "n \<le> 0 + m" using assms(2) by (cases fuel) auto
  have "HandlePrevoteProofs K env fuel prevotes w \<noteq> Ret None"
    using prevoteLoop_returns[OF assms(1) m(2), of K prevotes zeroVRV w] by (simp add: HandlePrevoteProofs_def m(1))
  moreover have "HandlePrecommitProofs K env fuel precommits w \<noteq> Ret None"
    using precommitLoop_returns[OF assms(1) m(2), of K precommits _ zeroVRV w]
    by (simp add: HandlePrecommitProofs_def handlePrecommitProofs_def m(1))
  ultimately show ?thesis ..
qed

lemma calm_quiet: "calm_from 0 ex_quiet"
  by (simp add: calm_from_def ex_quiet_def)

theorem vote_handlers_return_witness:
  "HandlePrevoteProofs ex_kernel ex_quiet 1 ex_votes ex_proposed \<noteq> Ret None \<and>
   HandlePrecommitProofs ex_kernel ex_quiet 1 ex_votes ex_proposed \<noteq> Ret None"
  by (rule vote_handlers_return[OF calm_quiet]) simp

section \<open>Proposed headers\<close>











text \<open>Where an accepting run of the handler ends.\<close>






section \<open>Headers a mirror does not survive\<close>

lemma next_height_check:
  assumes "h_Height (ph_Header ph) = rv_Height (ks_Voting s) + 1" "rv_Height (ks_Committing s) < h_Height (ph_Header ph)"
  shows "\<exists>resp. sendPHCheckResponse K s ph = Ret resp \<and> pcr_Status resp = PHCheckNextHeight"
  using assms by (auto simp: sendPHCheckResponse_def Let_def)

text \<open>(C30) A proposed header for the height after the voting height that carries no previous commit proof makes
  \<open>HandleProposedHeader\<close> loop as long as nothing else moves the voting height: the handler backfills the commit,
  ignores that the backfill was refused, and starts over.\<close>

theorem empty_commit_proof_loops:
  assumes "h_Height (ph_Header ph) = rv_Height (ks_Voting (w_state w)) + 1"
    and "rv_Height (ks_Committing (w_state w)) < h_Height (ph_Header ph)"
    and "cp_Proofs (h_PrevCommitProof (ph_Header ph)) = []"
  shows "HandleProposedHeader K V (\<lambda>pass n w. Some w) fuel ph w = Ret None"
proof (induction fuel)
  case (Suc fuel)
  obtain resp where "sendPHCheckResponse K (w_state w) ph = Ret resp" "pcr_Status resp = PHCheckNextHeight"
    using next_height_check[OF assms(1,2)] by blast
  then show ?case
    using Suc by (simp add: backfillCommitForNextHeightPE_def handlePrecommitProofs_def Let_def assms(3))
qed simp

definition ex_next :: ProposedHeader where
  "ex_next = ex_proposal\<lparr>ph_Header := ex_header\<lparr>h_Height := 2\<rparr>\<rparr>"

theorem empty_commit_proof_loops_witness:
  "HandleProposedHeader ex_kernel ex_V (\<lambda>pass n w. Some w) 1000 ex_next ex_proposed = Ret None"
proof (rule empty_commit_proof_loops)
  show "h_Height (ph_Header ex_next) = rv_Height (ks_Voting (w_state ex_proposed)) + 1" by code_simp
  show "rv_Height (ks_Committing (w_state ex_proposed)) < h_Height (ph_Header ex_next)" by code_simp
  show "cp_Proofs (h_PrevCommitProof (ph_Header ex_next)) = []" by code_simp
qed

text \<open>The verdict of a mapper on what its handler returns.\<close>

definition feedback :: "('r \<Rightarrow> Feedback go) \<Rightarrow> ('r \<times> 'x) option go \<Rightarrow> Feedback option go" where
  "feedback mapper out = gobind out (\<lambda>r. case r of
     None \<Rightarrow> Ret None | Some (res, _) \<Rightarrow> gobind (mapper res) (\<lambda>f. Ret (Some f)))"

lemma feedback_panics:
  "(\<exists>m. AcceptAllValid_mapHeader res = Panic m) \<longleftrightarrow> res = HandleProposedHeaderRoundTooFarInFuture"
  "(\<exists>m. DropDuplicate_mapHeader res = Panic m) \<longleftrightarrow> res = HandleProposedHeaderRoundTooFarInFuture"
  "(\<exists>m. AcceptAllValid_mapVoteResult vres = Panic m) \<longleftrightarrow> vres = HandleVoteProofsTooFarInFuture"
  "(\<exists>m. DropDuplicate_mapVoteResult vres = Panic m) \<longleftrightarrow> vres = HandleVoteProofsTooFarInFuture"
     apply (cases res; simp add: AcceptAllValid_mapHeader_def)
    apply (cases res; simp add: DropDuplicate_mapHeader_def)
   apply (cases vres; simp add: AcceptAllValid_mapVoteResult_def)
  apply (cases vres; simp add: DropDuplicate_mapVoteResult_def)
  done

lemma far_future_check:
  assumes "rv_Height (ks_Voting s) < h_Height (ph_Header ph) - 1" "rv_Height (ks_Committing s) < h_Height (ph_Header ph)"
    "h_Height (ph_Header ph) \<noteq> 0"
  shows "\<exists>resp. sendPHCheckResponse K s ph = Ret resp \<and> pcr_Status resp = PHCheckRoundTooFarInFuture"
proof -
  have "h_Height (ph_Header ph) \<noteq> rv_Height (ks_Voting s)" "h_Height (ph_Header ph) \<noteq> rv_Height (ks_Voting s) + 1"
    using assms(1,3) by (auto simp: word_less_nat_alt) (metis less_irrefl unat_minus_one diff_less less_trans zero_less_one unat_gt_0)
  then show ?thesis using assms by (auto simp: sendPHCheckResponse_def Let_def)
qed

text \<open>(C31) The mirror answers every proposed header that is two or more heights ahead with the result for
  messages too far in the future, and that is the one result on which both feedback mappers panic: one such
  header from any peer stops a node that uses a mapper. Every other result has a verdict.\<close>

theorem far_future_header_panics:
  assumes "rv_Height (ks_Voting (w_state w1)) < h_Height (ph_Header ph) - 1"
    and "rv_Height (ks_Committing (w_state w1)) < h_Height (ph_Header ph)" and "h_Height (ph_Header ph) \<noteq> 0"
    and "envs fuel 0 w = Some w1"
  shows "(\<exists>m. feedback AcceptAllValid_mapHeader (HandleProposedHeader K V envs (Suc fuel) ph w) = Panic m) \<and>
    (\<exists>m. feedback DropDuplicate_mapHeader (HandleProposedHeader K V envs (Suc fuel) ph w) = Panic m) \<and>
    (\<forall>res. res \<noteq> HandleProposedHeaderRoundTooFarInFuture \<longrightarrow>
      (\<exists>f. AcceptAllValid_mapHeader res = Ret f) \<and> (\<exists>f. DropDuplicate_mapHeader res = Ret f))"
proof -
  have run: "HandleProposedHeader K V envs (Suc fuel) ph w = Ret (Some (HandleProposedHeaderRoundTooFarInFuture, None, w1))"
    using far_future_check[OF assms(1-3), of K] assms(4) by auto
  have "(\<exists>f. AcceptAllValid_mapHeader res = Ret f) \<and> (\<exists>f. DropDuplicate_mapHeader res = Ret f)"
    if "res \<noteq> HandleProposedHeaderRoundTooFarInFuture" for res
    using that feedback_panics(1,2)[of res] by (meson go.exhaust)
  then show ?thesis
    unfolding run by (simp add: feedback_def AcceptAllValid_mapHeader_def DropDuplicate_mapHeader_def)
qed

theorem far_future_header_panics_witness:
  "\<exists>m. feedback AcceptAllValid_mapHeader (HandleProposedHeader ex_kernel ex_V (\<lambda>pass n w. Some w) 1
      (ex_proposal\<lparr>ph_Header := ex_header\<lparr>h_Height := 9\<rparr>\<rparr>) ex_proposed) = Panic m"
proof -
  have "rv_Height (ks_Voting (w_state ex_proposed)) < h_Height (ph_Header (ex_proposal\<lparr>ph_Header := ex_header\<lparr>h_Height := 9\<rparr>\<rparr>)) - 1"
    "rv_Height (ks_Committing (w_state ex_proposed)) < h_Height (ph_Header (ex_proposal\<lparr>ph_Header := ex_header\<lparr>h_Height := 9\<rparr>\<rparr>))"
    "h_Height (ph_Header (ex_proposal\<lparr>ph_Header := ex_header\<lparr>h_Height := 9\<rparr>\<rparr>)) \<noteq> 0"
    by code_simp+
  from far_future_header_panics[OF this, of "\<lambda>pass n w. Some w" 0 ex_proposed ex_kernel ex_V]
  show ?thesis unfolding One_nat_def by blast
qed

text \<open>A message with only invalid signatures of known validators is accepted.\<close>

definition ex_forged :: PrecommitSparseProof where
  "ex_forged = \<lparr>svp_Height = 1, svp_Round = 0, svp_PubKeyHash = ''h'', svp_Proofs = [(''x'', [\<lparr>KeyID = PutUint16 1, Sig = ''z''\<rparr>])]\<rparr>"

definition ex_forged_world :: "(nat list SimpleProof, mem_stores) world" where
  "ex_forged_world = (case HandlePrecommitProofs ex_kernel (\<lambda>n w. Some w) 1 ex_forged ex_proposed of
     Ret (Some (r, w)) \<Rightarrow> w | _ \<Rightarrow> ex_world)"

text \<open>A vote message whose only signature does not verify is accepted, an empty proof for its hash is stored, and a
  kernel started on those stores panics.\<close>

theorem forged_vote_breaks_restart:
  shows "HandlePrecommitProofs ex_kernel (\<lambda>n w. Some w) 1 ex_forged ex_proposed = Ret (Some (HandleVoteProofsAccepted, ex_forged_world))"
  "\<exists>m. NewKernel ex_kernel True 4 (w_stores ex_forged_world) = Panic m"
proof -
  have "case HandlePrecommitProofs ex_kernel (\<lambda>n w. Some w) 1 ex_forged ex_proposed of
      Ret (Some (r, w)) \<Rightarrow> r = HandleVoteProofsAccepted | _ \<Rightarrow> False" by code_simp
  then show "HandlePrecommitProofs ex_kernel (\<lambda>n w. Some w) 1 ex_forged ex_proposed =
      Ret (Some (HandleVoteProofsAccepted, ex_forged_world))"
    unfolding ex_forged_world_def by (auto split: go.splits option.splits)
  have "case NewKernel ex_kernel True 4 (w_stores ex_forged_world) of Panic m \<Rightarrow> True | _ \<Rightarrow> False" by code_simp
  then show "\<exists>m. NewKernel ex_kernel True 4 (w_stores ex_forged_world) = Panic m" by (auto split: go.splits)
qed

end
