(* ===== verification/StateMachine.thy ===== *)
theory StateMachine
  imports MirrorProps
begin

text \<open>
  The state machine (\<open>tmstate/statemachine.go\<close>) with its round lifecycle and steps (\<open>tmstate/internal/tsi\<close>):
  what a validator does at a height and round. It enters rounds through the mirror, asks the consensus
  strategy what to vote for, records its own actions and hands them to the mirror, and asks the driver to
  finalize committed blocks.

  The state is the \<open>RoundLifecycle\<close>; what leaves the state machine is a list of effects. A channel of the
  lifecycle is modelled by whether it is non-nil: a nil channel is never received from, and a send on it
  blocks for ever, which ends the run like a panic does. The answers of the mirror to round entrances and of
  the consensus strategy to \<open>EnterRound\<close> are an input list; a request without an answer waits until the
  context is cancelled, the handler reports failure and no further event is handled. The timer service accepts a new timer only when none
  is running, as \<open>StandardRoundTimer\<close> does.
\<close>

section \<open>Data\<close>

datatype Step = StepInvalid | StepAwaitingProposal | StepAwaitingPrevotes | StepPrevoteDelay
  | StepAwaitingPrecommits | StepPrecommitDelay | StepCommitWait | StepAwaitingFinalization

definition GetStepFromVoteSummary :: "VoteSummary \<Rightarrow> Step go" where
  "GetStepFromVoteSummary vs =
     gobind (ByzantineMajority (AvailablePower vs)) (\<lambda>maj.
     gobind (ByzantineMinority (AvailablePower vs)) (\<lambda>min.
       Ret (if maj \<le> TotalPrecommitPower vs then
              if maj \<le> lookup0 (PrecommitBlockPower vs) (MostVotedPrecommitHash vs) then StepCommitWait else StepPrecommitDelay
            else if min \<le> TotalPrecommitPower vs then StepAwaitingPrecommits
            else if maj \<le> TotalPrevotePower vs then
              if maj \<le> lookup0 (PrevoteBlockPower vs) (MostVotedPrevoteHash vs) then StepAwaitingPrecommits else StepPrevoteDelay
            else StepAwaitingProposal)))"

text \<open>The \<open>Signer\<close> interface, and the signer that signs with a plain key.\<close>

record Signer =
  sg_Prevote :: "VoteTarget \<Rightarrow> go_error + bytes \<times> bytes"
  sg_Precommit :: "VoteTarget \<Rightarrow> go_error + bytes \<times> bytes"
  sg_SignProposedHeader :: "ProposedHeader \<Rightarrow> go_error + ProposedHeader"
  sg_PubKey :: PubKey

definition PassthroughSigner :: "(bytes \<Rightarrow> go_error + bytes) \<Rightarrow> PubKey \<Rightarrow> signature_scheme \<Rightarrow> Signer" where
  "PassthroughSigner sign pubKey scheme = \<lparr>
     sg_Prevote = (\<lambda>vt. errbind (PrevoteSignBytes vt scheme) (\<lambda>content. errbind (sign content) (\<lambda>sig. Inr (content, sig)))),
     sg_Precommit = (\<lambda>vt. errbind (PrecommitSignBytes vt scheme) (\<lambda>content. errbind (sign content) (\<lambda>sig. Inr (content, sig)))),
     sg_SignProposedHeader = (\<lambda>ph. errbind (ProposalSignBytes (ph_Header ph) (ph_Round ph) (ph_Annotations ph) scheme)
        (\<lambda>content. errbind (sign content) (\<lambda>sig. Inr (ph\<lparr>Signature := sig\<rparr>)))),
     sg_PubKey = pubKey\<rparr>"

record Proposal =
  prop_DataID :: bytes
  ProposalAnnotations :: Annotations
  BlockAnnotations :: Annotations

record ConsiderProposedBlocksReason =
  NewProposedBlocks :: "bytes list"
  UpdatedBlockDataIDs :: "bytes list"
  MajorityVotingPowerPresent :: bool

record FinalizeBlockRequest =
  fbr_Header :: Header
  fbr_Round :: u32
  fbr_Resp :: bool

record FinalizeBlockResponse =
  fr_Height :: u64
  fr_Round :: u32
  fr_BlockHash :: bytes
  fr_Validators :: "Validator list"
  fr_AppStateHash :: bytes

record BlockDataArrival =
  bda_Height :: u64
  bda_Round :: u32
  bda_ID :: bytes

type_synonym HashSelection = "go_error + bytes"

datatype round_timer = ProposalTimer | PrevoteDelayTimer | PrecommitDelayTimer | CommitWaitTimer

text \<open>What the state machine sends: requests to the consensus manager (with whether their result channel is non-nil),
  finalize requests to the driver, round entrances and actions to the mirror, started timers, and the request to
  the watchdog to terminate.\<close>

datatype 'p sm_effect =
    EnterRoundRequest "'p RoundView" bool
  | ConsiderProposedBlocksRequest "ProposedHeader list" ConsiderProposedBlocksReason bool
  | ChooseProposedBlockRequest "ProposedHeader list" bool
  | DecidePrecommitRequest VoteSummary bool
  | FinalizeRequest FinalizeBlockRequest
  | RoundEntrance StateMachineRoundEntrance
  | ActionSent u64 u32 StateMachineRoundAction
  | TimerStarted round_timer u64 u32
  | Terminate

record 'p RoundLifecycle =
  rlc_H :: u64
  rlc_R :: u32
  rlc_S :: Step
  StepTimer :: bool
  CancelTimer :: bool
  HeightCommitted :: chan_state
  CurValSet :: ValidatorSet
  PrevValSet :: ValidatorSet
  rlc_VRV :: "'p VersionedRoundView option"
  rlc_PrevBlockHash :: bytes
  PrevFinNextValSet :: ValidatorSet
  PrevFinAppStateHash :: bytes
  PrevConsideredHashes :: "bytes list"
  OutgoingActionsCh :: bool
  ProposalCh :: bool
  PrevoteHashCh :: bool
  PrecommitHashCh :: bool
  FinalizeRespCh :: bool
  FinalizedValSet :: ValidatorSet
  FinalizedAppStateHash :: bytes
  FinalizedBlockHash :: bytes
  CommitWaitElapsed :: bool

text \<open>The stores that the state machine uses.\<close>

record 's sm_store_ops =
  ss_StateMachineHeightRound :: "'s \<Rightarrow> go_error + u64 \<times> u32"
  ss_SetStateMachineHeightRound :: "u64 \<Rightarrow> u32 \<Rightarrow> 's \<Rightarrow> go_error + 's"
  ss_LoadFinalizationByHeight :: "'s \<Rightarrow> u64 \<Rightarrow> go_error + u32 \<times> bytes \<times> ValidatorSet \<times> bytes"
  ss_SaveFinalization :: "u64 \<Rightarrow> u32 \<Rightarrow> bytes \<Rightarrow> ValidatorSet \<Rightarrow> bytes \<Rightarrow> 's \<Rightarrow> go_error + 's"
  ss_LoadActions :: "'s \<Rightarrow> u64 \<Rightarrow> u32 \<Rightarrow> go_error + RoundActions"
  ss_SaveProposedHeaderAction :: "ProposedHeader \<Rightarrow> 's \<Rightarrow> go_error + 's"
  ss_SavePrevoteAction :: "PubKey \<Rightarrow> VoteTarget \<Rightarrow> bytes \<Rightarrow> 's \<Rightarrow> go_error + 's"
  ss_SavePrecommitAction :: "PubKey \<Rightarrow> VoteTarget \<Rightarrow> bytes \<Rightarrow> 's \<Rightarrow> go_error + 's"

record ('p, 'b, 's) StateMachine =
  m_signer :: "Signer option"
  m_hashScheme :: hash_scheme
  m_genesis :: Genesis
  m_stores :: "'s sm_store_ops"
  m_cmsp :: "('p, 'b) cmsp"

text \<open>\<open>sm_cmBusy\<close> says that the consensus manager does not take a request within the 100 milliseconds that some
  sends allow; \<open>sm_arrivals\<close> are the queued block data arrivals; \<open>sm_timer\<close> says that a timer runs; \<open>sm_cancelled\<close> that
  the context was cancelled while a request waited for its answer.\<close>

record ('p, 's) sm_world =
  sm_rlc :: "'p RoundLifecycle"
  sm_stores :: 's
  sm_effects :: "'p sm_effect list"
  sm_answers :: "('p RoundEntranceResponse \<times> go_error option) list"
  sm_cmBusy :: bool
  sm_arrivals :: "BlockDataArrival list"
  sm_timer :: bool
  sm_cancelled :: bool

definition emit :: "'p sm_effect \<Rightarrow> ('p, 's) sm_world \<Rightarrow> ('p, 's) sm_world" where
  "emit e w = w\<lparr>sm_effects := sm_effects w @ [e]\<rparr>"

definition upd_rlc :: "('p RoundLifecycle \<Rightarrow> 'p RoundLifecycle) \<Rightarrow> ('p, 's) sm_world \<Rightarrow> ('p, 's) sm_world" where
  "upd_rlc f w = w\<lparr>sm_rlc := f (sm_rlc w)\<rparr>"

section \<open>Timers and the round lifecycle\<close>

definition startTimer :: "round_timer \<Rightarrow> ('p, 's) sm_world \<Rightarrow> ('p, 's) sm_world go" where
  "startTimer t w =
     (if sm_timer w then Panic ''BUG: new timer requested before previous timer elapsed or was cancelled''
      else Ret (emit (TimerStarted t (rlc_H (sm_rlc w)) (rlc_R (sm_rlc w)))
             (w\<lparr>sm_timer := True, sm_rlc := (sm_rlc w)\<lparr>StepTimer := True, CancelTimer := True\<rparr>\<rparr>)))"

text \<open>\<open>rlc.CancelTimer()\<close> and clearing both fields.\<close>

definition cancelTimer :: "('p, 's) sm_world \<Rightarrow> ('p, 's) sm_world go" where
  "cancelTimer w =
     (if CancelTimer (sm_rlc w) then Ret (w\<lparr>sm_timer := False, sm_rlc := (sm_rlc w)\<lparr>StepTimer := False, CancelTimer := False\<rparr>\<rparr>)
      else Panic ''nil function call'')"

definition rlc_Reset :: "u64 \<Rightarrow> u32 \<Rightarrow> ('p, 's) sm_world \<Rightarrow> ('p, 's) sm_world" where
  "rlc_Reset h r w =
     (let rlc = (sm_rlc w)\<lparr>rlc_H := h, rlc_R := r\<rparr>;
          rlc1 = (if CancelTimer rlc then rlc\<lparr>CancelTimer := False, StepTimer := False\<rparr> else rlc) in
      w\<lparr>sm_timer := sm_timer w \<and> \<not> CancelTimer rlc,
        sm_rlc := rlc1\<lparr>ProposalCh := True, PrevoteHashCh := True, PrecommitHashCh := True, FinalizeRespCh := True,
                       HeightCommitted := OpenChan, CommitWaitElapsed := False, PrevConsideredHashes := []\<rparr>\<rparr>)"

definition MarkCatchingUp :: "'p RoundLifecycle \<Rightarrow> 'p RoundLifecycle" where
  "MarkCatchingUp rlc = rlc\<lparr>ProposalCh := False, PrevoteHashCh := False, PrecommitHashCh := False, CommitWaitElapsed := True\<rparr>"

definition IsReplaying :: "'p RoundLifecycle \<Rightarrow> bool" where
  "IsReplaying rlc \<longleftrightarrow> rlc_VRV rlc = None"

definition CycleFinalization :: "'p RoundLifecycle \<Rightarrow> 'p RoundLifecycle" where
  "CycleFinalization rlc = rlc\<lparr>
     PrevFinNextValSet := FinalizedValSet rlc, PrevValSet := CurValSet rlc, CurValSet := PrevFinNextValSet rlc,
     FinalizedValSet := zeroValidatorSet,
     PrevFinAppStateHash := FinalizedAppStateHash rlc, FinalizedAppStateHash := [],
     rlc_PrevBlockHash := FinalizedBlockHash rlc, FinalizedBlockHash := []\<rparr>"

definition zeroReason :: ConsiderProposedBlocksReason where
  "zeroReason = \<lparr>NewProposedBlocks = [], UpdatedBlockDataIDs = [], MajorityVotingPowerPresent = False\<rparr>"

fun newHashes :: "ProposedHeader list \<Rightarrow> bytes list \<Rightarrow> bytes list" where
  "newHashes [] seen = []"
| "newHashes (ph # phs) seen =
     (let h = Hash (ph_Header ph) in if h \<in> set seen then newHashes phs seen else h # newHashes phs (h # seen))"

definition MarkReasonNewHashes :: "ProposedHeader list \<Rightarrow> ConsiderProposedBlocksReason \<Rightarrow> 'p RoundLifecycle \<Rightarrow>
   ConsiderProposedBlocksReason \<times> 'p RoundLifecycle" where
  "MarkReasonNewHashes phs reason rlc =
     (let new = newHashes phs (PrevConsideredHashes rlc) in
      (reason\<lparr>NewProposedBlocks := NewProposedBlocks reason @ new\<rparr>,
       rlc\<lparr>PrevConsideredHashes := rev new @ PrevConsideredHashes rlc\<rparr>))"

section \<open>Participation, filtering and requests\<close>

definition isParticipating :: "('p, 'b, 's) StateMachine \<Rightarrow> 'p RoundLifecycle \<Rightarrow> bool" where
  "isParticipating M rlc = (case m_signer M of
     None \<Rightarrow> False
   | Some sg \<Rightarrow> list_ex (\<lambda>v. val_PubKey v = sg_PubKey sg) (Validators (CurValSet rlc)))"

definition rejectMismatchedProposedHeaders :: "ProposedHeader list \<Rightarrow> 'p RoundLifecycle \<Rightarrow> ProposedHeader list" where
  "rejectMismatchedProposedHeaders inp rlc = filter (\<lambda>ph.
     PrevAppStateHash (ph_Header ph) = PrevFinAppStateHash rlc \<and>
     ValidatorSet_Equal (h_ValidatorSet (ph_Header ph)) (CurValSet rlc) \<and>
     ValidatorSet_Equal (NextValidatorSet (ph_Header ph)) (PrevFinNextValSet rlc)) inp"

text \<open>A consider request that notes the new hashes, and a precommit decision.\<close>

definition considerNew :: "ProposedHeader list \<Rightarrow> bool \<Rightarrow> ('p, 's) sm_world \<Rightarrow> ('p, 's) sm_world" where
  "considerNew phs majority w =
     (case MarkReasonNewHashes phs zeroReason (sm_rlc w) of (reason, rlc) \<Rightarrow>
        emit (ConsiderProposedBlocksRequest phs (reason\<lparr>MajorityVotingPowerPresent := majority\<rparr>) (PrevoteHashCh rlc))
          (w\<lparr>sm_rlc := rlc\<rparr>))"

definition decidePrecommit :: "VoteSummary \<Rightarrow> ('p, 's) sm_world \<Rightarrow> ('p, 's) sm_world" where
  "decidePrecommit vs w = emit (DecidePrecommitRequest (VoteSummary_Clone vs) (PrecommitHashCh (sm_rlc w))) w"

definition committedPH :: "'p VersionedRoundView \<Rightarrow> ProposedHeader option" where
  "committedPH vrv = find (\<lambda>ph. Hash (ph_Header ph) = MostVotedPrecommitHash (rv_VoteSummary vrv)) (ProposedHeaders vrv)"

definition finalizeRequest :: "Header \<Rightarrow> u32 \<Rightarrow> ('p, 's) sm_world \<Rightarrow> ('p, 's) sm_world" where
  "finalizeRequest h r w = emit (FinalizeRequest \<lparr>fbr_Header = h, fbr_Round = r, fbr_Resp = FinalizeRespCh (sm_rlc w)\<rparr>) w"

text \<open>\<open>beginCommit\<close>: without the header of the committed hash its named result is the zero value, \<open>false\<close>.\<close>

definition beginCommit :: "'p VersionedRoundView \<Rightarrow> ('p, 's) sm_world \<Rightarrow> (bool \<times> ('p, 's) sm_world) go" where
  "beginCommit vrv w =
     gobind (startTimer CommitWaitTimer (upd_rlc (\<lambda>rlc. rlc\<lparr>rlc_S := StepCommitWait\<rparr>) w)) (\<lambda>w1.
       case committedPH vrv of
         None \<Rightarrow> Ret (False, w1)
       | Some ph \<Rightarrow> Ret (True, finalizeRequest (ph_Header ph) (rv_Round vrv) w1))"

section \<open>Entering rounds\<close>

definition startInitialTimer :: "('p, 's) sm_world \<Rightarrow> ('p, 's) sm_world go" where
  "startInitialTimer w = (case rlc_S (sm_rlc w) of
     StepAwaitingProposal \<Rightarrow> startTimer ProposalTimer w
   | StepAwaitingPrevotes \<Rightarrow> Ret w
   | StepAwaitingPrecommits \<Rightarrow> Ret w
   | StepCommitWait \<Rightarrow> startTimer CommitWaitTimer w
   | _ \<Rightarrow> Panic ''BUG: no initial timer configured for step'')"

text \<open>\<open>beginRoundLive\<close>, \<open>advanceRound\<close> and \<open>advance\<close> call each other; the parameter \<open>adv\<close> is the recursive call
  of \<open>advanceRound\<close>.\<close>

definition beginRoundLive ::
  "(('p, 's) sm_world \<Rightarrow> (bool \<times> ('p, 's) sm_world) go) \<Rightarrow> 'p VersionedRoundView \<Rightarrow> ('p, 's) sm_world \<Rightarrow>
   (bool \<times> ('p, 's) sm_world) go" where
  "beginRoundLive adv initVRV w =
     (let vs = rv_VoteSummary initVRV;
          finish = (\<lambda>step w1. gobind (startInitialTimer (upd_rlc (\<lambda>rlc. rlc\<lparr>rlc_S := step, rlc_VRV := Some initVRV\<rparr>) w1))
                     (\<lambda>w2. Ret (True, w2))) in
      gobind (GetStepFromVoteSummary vs) (\<lambda>curStep. case curStep of
        StepAwaitingProposal \<Rightarrow>
          (let okPHs = rejectMismatchedProposedHeaders (ProposedHeaders initVRV) (sm_rlc w) in
           finish curStep (if okPHs \<noteq> [] then considerNew okPHs False w else w))
      | StepAwaitingPrevotes \<Rightarrow> Panic ''BUG: tsi.GetStepFromVoteSummary must not return tsi.StepAwaitingPrevotes''
      | StepAwaitingPrecommits \<Rightarrow> finish curStep (decidePrecommit vs w)
      | StepCommitWait \<Rightarrow>
          if MostVotedPrecommitHash vs = [] then adv w
          else gobind (beginCommit initVRV w) (\<lambda>(ok, w1).
                 if \<not> ok then Ret (False, w1) else Ret (True, upd_rlc (\<lambda>rlc. rlc\<lparr>rlc_VRV := Some initVRV\<rparr>) w1))
      | _ \<Rightarrow> Panic ''BUG: unhandled initial step''))"

definition advance ::
  "('p, 'b, 's) StateMachine \<Rightarrow> (('p, 's) sm_world \<Rightarrow> (bool \<times> ('p, 's) sm_world) go) \<Rightarrow> StateMachineRoundEntrance \<Rightarrow>
   ('p, 's) sm_world \<Rightarrow> (bool \<times> ('p, 's) sm_world) go" where
  "advance M adv re0 w =
     (let re = re0\<lparr>re_PubKey := map_option sg_PubKey (m_signer M), re_Actions := isParticipating M (sm_rlc w)\<rparr>;
          w1 = emit (RoundEntrance re) w in
      case sm_answers w1 of
        [] \<Rightarrow> Ret (False, w1\<lparr>sm_cancelled := True\<rparr>)
      | (rer, enterErr) # rest \<Rightarrow>
         (let w2 = w1\<lparr>sm_answers := rest\<rparr> in
          case rer of
            RespVRV vrv \<Rightarrow>
             (let w3 = upd_rlc (\<lambda>rlc. rlc\<lparr>OutgoingActionsCh := re_Actions re\<rparr>) w2;
                  w4 = emit (EnterRoundRequest (RoundView.RoundView.truncate vrv) (ProposalCh (sm_rlc w3))) w3 in
              (case enterErr of
                 Some e \<Rightarrow> Panic ''FATAL: error when calling ConsensusStrategy.EnterRound while advancing height''
               | None \<Rightarrow> beginRoundLive adv vrv w4))
          | RespCH ch \<Rightarrow>
              Ret (True, finalizeRequest (ch_Header ch) (cp_Round (ch_Proof ch)) (upd_rlc MarkCatchingUp w2))))"

definition roundEntranceFor :: "('p, 's) sm_world \<Rightarrow> StateMachineRoundEntrance" where
  "roundEntranceFor w = \<lparr>re_H = rlc_H (sm_rlc w), re_R = rlc_R (sm_rlc w), re_PubKey = None, re_Actions = False,
     re_HeightCommitted = HeightCommitted (sm_rlc w)\<rparr>"

definition advanceRoundStep ::
  "('p, 'b, 's) StateMachine \<Rightarrow> (('p, 's) sm_world \<Rightarrow> (bool \<times> ('p, 's) sm_world) go) \<Rightarrow> ('p, 's) sm_world \<Rightarrow>
   (bool \<times> ('p, 's) sm_world) go" where
  "advanceRoundStep M adv w =
     (let w1 = rlc_Reset (rlc_H (sm_rlc w)) (rlc_R (sm_rlc w) + 1) w in
      case ss_SetStateMachineHeightRound (m_stores M) (rlc_H (sm_rlc w1)) (rlc_R (sm_rlc w1)) (sm_stores w1) of
        Inl e \<Rightarrow> Ret (False, w1)
      | Inr st \<Rightarrow> advance M adv (roundEntranceFor w1) (w1\<lparr>sm_stores := st\<rparr>))"

text \<open>Every recursive call consumes an answer, so as many rounds as there are answers are enough.\<close>

primrec advanceRounds ::
  "('p, 'b, 's) StateMachine \<Rightarrow> nat \<Rightarrow> ('p, 's) sm_world \<Rightarrow> (bool \<times> ('p, 's) sm_world) go" where
  "advanceRounds M 0 = advanceRoundStep M (\<lambda>w. Ret (False, w\<lparr>sm_cancelled := True\<rparr>))"
| "advanceRounds M (Suc n) = advanceRoundStep M (advanceRounds M n)"

definition advanceRound :: "('p, 'b, 's) StateMachine \<Rightarrow> ('p, 's) sm_world \<Rightarrow> (bool \<times> ('p, 's) sm_world) go" where
  "advanceRound M w = advanceRounds M (length (sm_answers w)) w"

definition advanceHeight :: "('p, 'b, 's) StateMachine \<Rightarrow> ('p, 's) sm_world \<Rightarrow> (bool \<times> ('p, 's) sm_world) go" where
  "advanceHeight M w =
     (let w0 = upd_rlc CycleFinalization w;
          w1 = rlc_Reset (rlc_H (sm_rlc w0) + 1) 0 w0 in
      case ss_SetStateMachineHeightRound (m_stores M) (rlc_H (sm_rlc w1)) 0 (sm_stores w1) of
        Inl e \<Rightarrow> Ret (False, w1)
      | Inr st \<Rightarrow> advance M (advanceRound M) (roundEntranceFor w1) (w1\<lparr>sm_stores := st\<rparr>))"

definition handleJumpAhead ::
  "('p, 'b, 's) StateMachine \<Rightarrow> 'p VersionedRoundView \<Rightarrow> ('p, 's) sm_world \<Rightarrow> ('p, 's) sm_world go" where
  "handleJumpAhead M vrv w =
     (if rv_Height vrv \<noteq> rlc_H (sm_rlc w) then Panic ''BUG: attempted to jump ahead to another height''
      else if rv_Round vrv \<le> rlc_R (sm_rlc w) then Panic ''BUG: attempted to jump ahead to an earlier round''
      else gobind (advanceRound M w) (\<lambda>(ok, w1). Ret w1))"

section \<open>View updates\<close>

definition ignore_ok :: "(bool \<times> ('p, 's) sm_world) go \<Rightarrow> ('p, 's) sm_world go" where
  "ignore_ok r = gobind r (\<lambda>(ok, w). Ret w)"

definition setStep :: "Step \<Rightarrow> ('p, 's) sm_world \<Rightarrow> ('p, 's) sm_world" where
  "setStep s = upd_rlc (\<lambda>rlc. rlc\<lparr>rlc_S := s\<rparr>)"

definition handleProposalViewUpdate ::
  "('p, 'b, 's) StateMachine \<Rightarrow> 'p VersionedRoundView \<Rightarrow> ('p, 's) sm_world \<Rightarrow> ('p, 's) sm_world go" where
  "handleProposalViewUpdate M vrv w =
     (let vs = rv_VoteSummary vrv in
      gobind (ByzantineMinority (AvailablePower vs)) (\<lambda>min.
      gobind (ByzantineMajority (AvailablePower vs)) (\<lambda>maj.
        if maj \<le> TotalPrecommitPower vs then
          gobind (cancelTimer w) (\<lambda>w1.
            if maj \<le> lookup0 (PrecommitBlockPower vs) (MostVotedPrecommitHash vs) then
              if MostVotedPrecommitHash vs = [] then ignore_ok (advanceRound M w1) else ignore_ok (beginCommit vrv w1)
            else gobind (startTimer PrecommitDelayTimer (setStep StepPrecommitDelay w1)) (\<lambda>w2. Ret (decidePrecommit vs w2)))
        else if min \<le> TotalPrecommitPower vs then
          gobind (cancelTimer w) (\<lambda>w1. Ret (decidePrecommit vs (setStep StepAwaitingPrecommits w1)))
        else if maj \<le> TotalPrevotePower vs then
          gobind (cancelTimer w) (\<lambda>w1.
            let phs = rejectMismatchedProposedHeaders (ProposedHeaders vrv) (sm_rlc w1) in
            if maj \<le> lookup0 (PrevoteBlockPower vs) (MostVotedPrevoteHash vs) then
              if sm_cmBusy w1 then Panic ''TODO: handle blocked send to ChooseProposedBlockRequests''
              else Ret (upd_rlc (\<lambda>rlc. rlc\<lparr>PrevConsideredHashes := []\<rparr>)
                     (emit (ChooseProposedBlockRequest phs (PrevoteHashCh (sm_rlc w1))) (setStep StepAwaitingPrecommits w1)))
            else gobind (startTimer PrevoteDelayTimer (setStep StepPrevoteDelay w1)) (\<lambda>w2.
              if phs = [] then Ret w2
              else if sm_cmBusy w2 then Panic ''TODO: handle blocked send to ConsiderProposedBlocksRequests''
              else Ret (considerNew phs True w2)))
        else case rlc_VRV (sm_rlc w) of
               None \<Rightarrow> Panic ''nil pointer dereference''
             | Some old \<Rightarrow>
                 if length (ProposedHeaders old) < length (ProposedHeaders vrv) then
                   let incoming = rejectMismatchedProposedHeaders (ProposedHeaders vrv) (sm_rlc w);
                       have = rejectMismatchedProposedHeaders (ProposedHeaders old) (sm_rlc w) in
                   if length incoming \<le> length have then Ret w
                   else if sm_cmBusy w then Panic ''TODO: handle blocked send to ConsiderProposedBlocksRequests''
                   else Ret (considerNew incoming False w)
                 else Ret w)))"

text \<open>Clearing the timer when the step has one.\<close>

definition cancelIn :: "Step \<Rightarrow> ('p, 's) sm_world \<Rightarrow> ('p, 's) sm_world go" where
  "cancelIn step w = (if rlc_S (sm_rlc w) = step then cancelTimer w else Ret w)"

definition handlePrevoteViewUpdate ::
  "('p, 'b, 's) StateMachine \<Rightarrow> 'p VersionedRoundView \<Rightarrow> ('p, 's) sm_world \<Rightarrow> ('p, 's) sm_world go" where
  "handlePrevoteViewUpdate M vrv w =
     (let vs = rv_VoteSummary vrv in
      gobind (ByzantineMajority (AvailablePower vs)) (\<lambda>maj.
        if maj \<le> TotalPrecommitPower vs then
          gobind (cancelIn StepPrevoteDelay w) (\<lambda>w1.
            if maj \<le> lookup0 (PrecommitBlockPower vs) (MostVotedPrecommitHash vs) then
              if MostVotedPrecommitHash vs = [] then ignore_ok (advanceRound M w1) else ignore_ok (beginCommit vrv w1)
            else gobind (startTimer PrecommitDelayTimer (setStep StepPrecommitDelay w1)) (\<lambda>w2. Ret (decidePrecommit vs w2)))
        else if maj \<le> TotalPrevotePower vs then
          if maj \<le> lookup0 (PrevoteBlockPower vs) (MostVotedPrevoteHash vs) then
            gobind (cancelIn StepPrevoteDelay w) (\<lambda>w1. Ret (decidePrecommit vs (setStep StepAwaitingPrecommits w1)))
          else if rlc_S (sm_rlc w) = StepAwaitingPrevotes then startTimer PrevoteDelayTimer (setStep StepPrevoteDelay w)
          else Ret w
        else Ret w))"

definition handlePrecommitViewUpdate ::
  "('p, 'b, 's) StateMachine \<Rightarrow> 'p VersionedRoundView \<Rightarrow> ('p, 's) sm_world \<Rightarrow> ('p, 's) sm_world go" where
  "handlePrecommitViewUpdate M vrv w =
     (let vs = rv_VoteSummary vrv in
      gobind (ByzantineMajority (AvailablePower vs)) (\<lambda>maj.
        if maj \<le> TotalPrecommitPower vs then
          if maj \<le> lookup0 (PrecommitBlockPower vs) (MostVotedPrecommitHash vs) then
            if MostVotedPrecommitHash vs = [] then ignore_ok (advanceRound M w)
            else gobind (cancelIn StepPrecommitDelay w) (\<lambda>w1. ignore_ok (beginCommit vrv w1))
          else if TotalPrecommitPower vs = AvailablePower vs then ignore_ok (advanceRound M w)
          else if rlc_S (sm_rlc w) = StepAwaitingPrecommits then startTimer PrecommitDelayTimer (setStep StepPrecommitDelay w)
          else Ret w
        else Ret w))"

definition handleCommitWaitViewUpdate :: "'p VersionedRoundView \<Rightarrow> ('p, 's) sm_world \<Rightarrow> ('p, 's) sm_world go" where
  "handleCommitWaitViewUpdate vrv w =
     (if \<not> FinalizeRespCh (sm_rlc w) then Ret w
      else case rlc_VRV (sm_rlc w) of
             None \<Rightarrow> Panic ''nil pointer dereference''
           | Some old \<Rightarrow>
               if committedPH old \<noteq> None then Ret w
               else case committedPH vrv of
                      None \<Rightarrow> Ret w
                    | Some ph \<Rightarrow> Ret (finalizeRequest (ph_Header ph) (rv_Round vrv) w))"

definition handleViewUpdate ::
  "('p, 'b, 's) StateMachine \<Rightarrow> 'p StateMachineRoundView \<Rightarrow> ('p, 's) sm_world \<Rightarrow> ('p, 's) sm_world go" where
  "handleViewUpdate M v w =
     (let vrv = smrv_VRV v in
      if rv_Height vrv = 0 then
        case smrv_JumpAhead v of
          None \<Rightarrow> Panic ''BUG: received view update with empty VRV and nil JumpAheadRoundView''
        | Some j \<Rightarrow> handleJumpAhead M j w
      else if rv_Height vrv \<noteq> rlc_H (sm_rlc w) \<or> rv_Round vrv \<noteq> rlc_R (sm_rlc w) then Ret w
      else case rlc_VRV (sm_rlc w) of
             None \<Rightarrow> Panic ''nil pointer dereference''
           | Some old \<Rightarrow>
               if Version vrv \<le> Version old then Ret (emit Terminate w)
               else
                 gobind (case rlc_S (sm_rlc w) of
                     StepAwaitingProposal \<Rightarrow> handleProposalViewUpdate M vrv w
                   | StepAwaitingPrevotes \<Rightarrow> handlePrevoteViewUpdate M vrv w
                   | StepPrevoteDelay \<Rightarrow> handlePrevoteViewUpdate M vrv w
                   | StepAwaitingPrecommits \<Rightarrow> handlePrecommitViewUpdate M vrv w
                   | StepPrecommitDelay \<Rightarrow> handlePrecommitViewUpdate M vrv w
                   | StepCommitWait \<Rightarrow> handleCommitWaitViewUpdate vrv w
                   | StepAwaitingFinalization \<Rightarrow> handleCommitWaitViewUpdate vrv w
                   | StepInvalid \<Rightarrow> Panic ''TODO: handle view update for step'') (\<lambda>w1.
                 let w2 = (case rlc_VRV (sm_rlc w1) of
                       Some cur \<Rightarrow> if rv_Height vrv = rv_Height cur \<and> rv_Round vrv = rv_Round cur
                                   then upd_rlc (\<lambda>rlc. rlc\<lparr>rlc_VRV := Some vrv\<rparr>) w1 else w1
                     | None \<Rightarrow> w1) in
                 case smrv_JumpAhead v of None \<Rightarrow> Ret w2 | Some j \<Rightarrow> handleJumpAhead M j w2))"

section \<open>Recording actions\<close>

definition zeroScoped :: ScopedSignature where
  "zeroScoped = \<lparr>TargetHash = [], SignContent = [], ss_Sig = []\<rparr>"

definition zeroAction :: StateMachineRoundAction where
  "zeroAction = \<lparr>act_PH = zeroProposedHeader, act_Prevote = zeroScoped, act_Precommit = zeroScoped\<rparr>"

definition sendAction :: "StateMachineRoundAction \<Rightarrow> ('p, 's) sm_world \<Rightarrow> ('p, 's) sm_world go" where
  "sendAction act w =
     (if OutgoingActionsCh (sm_rlc w) then Ret (emit (ActionSent (rlc_H (sm_rlc w)) (rlc_R (sm_rlc w)) act) w)
      else Panic ''blocked for ever: send on nil channel'')"

text \<open>A prevote of one's own ends the wait for proposals.\<close>

definition afterPrevote :: "('p, 's) sm_world \<Rightarrow> (bool \<times> ('p, 's) sm_world) go" where
  "afterPrevote w = (if rlc_S (sm_rlc w) = StepAwaitingProposal
     then gobind (cancelTimer (setStep StepAwaitingPrevotes w)) (\<lambda>w1. Ret (True, w1)) else Ret (True, w))"

definition recordPrevote ::
  "('p, 'b, 's) StateMachine \<Rightarrow> bytes \<Rightarrow> ('p, 's) sm_world \<Rightarrow> (bool \<times> ('p, 's) sm_world) go" where
  "recordPrevote M targetHash w =
     (let rlc = sm_rlc w;
          vt = \<lparr>vt_Height = rlc_H rlc, vt_Round = rlc_R rlc, vt_BlockHash = targetHash\<rparr> in
      case m_signer M of
        None \<Rightarrow> afterPrevote w
      | Some sg \<Rightarrow>
          if \<not> isParticipating M rlc then afterPrevote w
          else case sg_Prevote sg vt of
                 Inl e \<Rightarrow> Ret (False, w)
               | Inr (content, sig) \<Rightarrow>
                   (case ss_SavePrevoteAction (m_stores M) (sg_PubKey sg) vt sig (sm_stores w) of
                      Inl e \<Rightarrow> Ret (False, w)
                    | Inr st \<Rightarrow>
                        gobind (sendAction (zeroAction\<lparr>act_Prevote :=
                                  \<lparr>TargetHash = targetHash, SignContent = content, ss_Sig = sig\<rparr>\<rparr>) (w\<lparr>sm_stores := st\<rparr>)) afterPrevote))"

definition recordPrecommit ::
  "('p, 'b, 's) StateMachine \<Rightarrow> bytes \<Rightarrow> ('p, 's) sm_world \<Rightarrow> (bool \<times> ('p, 's) sm_world) go" where
  "recordPrecommit M targetHash w =
     (let rlc = sm_rlc w; vt = \<lparr>vt_Height = rlc_H rlc, vt_Round = rlc_R rlc, vt_BlockHash = targetHash\<rparr> in
      case m_signer M of
        None \<Rightarrow> Ret (True, w)
      | Some sg \<Rightarrow>
          if \<not> isParticipating M rlc then Ret (True, w)
          else case sg_Precommit sg vt of
                 Inl e \<Rightarrow> Ret (False, w)
               | Inr (content, sig) \<Rightarrow>
                   (case ss_SavePrecommitAction (m_stores M) (sg_PubKey sg) vt sig (sm_stores w) of
                      Inl e \<Rightarrow> Ret (False, w)
                    | Inr st \<Rightarrow>
                        gobind (sendAction (zeroAction\<lparr>act_Precommit :=
                                  \<lparr>TargetHash = targetHash, SignContent = content, ss_Sig = sig\<rparr>\<rparr>) (w\<lparr>sm_stores := st\<rparr>))
                          (\<lambda>w1. Ret (True, w1))))"

definition recordProposedHeader ::
  "('p, 'b, 's) StateMachine \<Rightarrow> Proposal \<Rightarrow> ('p, 's) sm_world \<Rightarrow> (bool \<times> ('p, 's) sm_world) go" where
  "recordProposedHeader M p w =
     (let rlc = sm_rlc w in
      case rlc_VRV rlc of
        None \<Rightarrow> Panic ''nil pointer dereference''
      | Some vrv \<Rightarrow>
          (case m_signer M of
             None \<Rightarrow> Panic ''nil pointer dereference''
           | Some sg \<Rightarrow>
               let h = \<lparr>Hash = [], PrevBlockHash = rlc_PrevBlockHash rlc, h_Height = rlc_H rlc,
                        h_PrevCommitProof = rv_PrevCommitProof vrv, h_ValidatorSet = CurValSet rlc,
                        NextValidatorSet = PrevFinNextValSet rlc, DataID = prop_DataID p,
                        PrevAppStateHash = PrevFinAppStateHash rlc, h_Annotations = BlockAnnotations p\<rparr> in
               case hs_Block (m_hashScheme M) h of
                 Inl e \<Rightarrow> Ret (False, w)
               | Inr hash \<Rightarrow>
                   (case sg_SignProposedHeader sg \<lparr>ph_Header = h\<lparr>Hash := hash\<rparr>, ph_Round = rlc_R rlc,
                           ProposerPubKey = Some (sg_PubKey sg), ph_Annotations = ProposalAnnotations p, Signature = []\<rparr> of
                      Inl e \<Rightarrow> Ret (False, w)
                    | Inr ph \<Rightarrow>
                        (case ss_SaveProposedHeaderAction (m_stores M) ph (sm_stores w) of
                           Inl e \<Rightarrow> Ret (False, w)
                         | Inr st \<Rightarrow> gobind (sendAction (zeroAction\<lparr>act_PH := ph\<rparr>) (w\<lparr>sm_stores := st\<rparr>))
                                       (\<lambda>w1. Ret (True, w1))))))"

section \<open>Finalization, timers and data arrivals\<close>

definition handleFinalization ::
  "('p, 'b, 's) StateMachine \<Rightarrow> FinalizeBlockResponse \<Rightarrow> ('p, 's) sm_world \<Rightarrow> (bool \<times> ('p, 's) sm_world) go" where
  "handleFinalization M resp w =
     (if fr_Validators resp = [] then Panic ''BUG: application did not set validators in finalization response''
      else case NewValidatorSet (fr_Validators resp) (m_hashScheme M) of
             Inl e \<Rightarrow> Ret (False, upd_rlc (\<lambda>rlc. rlc\<lparr>FinalizedValSet := zeroValidatorSet\<rparr>) w)
           | Inr valSet \<Rightarrow>
               let w1 = upd_rlc (\<lambda>rlc. rlc\<lparr>FinalizedValSet := valSet, FinalizedAppStateHash := fr_AppStateHash resp,
                                            FinalizedBlockHash := fr_BlockHash resp, FinalizeRespCh := False\<rparr>) w in
               if fr_Height resp \<noteq> rlc_H (sm_rlc w1) \<or> fr_Round resp \<noteq> rlc_R (sm_rlc w1)
               then Panic ''BUG: driver sent height/round differing from current''
               else case ss_SaveFinalization (m_stores M) (rlc_H (sm_rlc w1)) (rlc_R (sm_rlc w1)) (fr_BlockHash resp) valSet
                           (fr_AppStateHash resp) (sm_stores w1) of
                      Inl e \<Rightarrow> Ret (False, w1)
                    | Inr st \<Rightarrow>
                        (let w2 = w1\<lparr>sm_stores := st\<rparr> in
                         if rlc_S (sm_rlc w2) = StepAwaitingFinalization then advanceHeight M w2 else Ret (True, w2)))"

definition handleTimerElapsed :: "('p, 'b, 's) StateMachine \<Rightarrow> ('p, 's) sm_world \<Rightarrow> (bool \<times> ('p, 's) sm_world) go" where
  "handleTimerElapsed M w =
     (let rlc = sm_rlc w; ok = (\<lambda>w1. Ret (True, w1)) in
      case rlc_S rlc of
        StepAwaitingProposal \<Rightarrow>
          (case rlc_VRV rlc of
             None \<Rightarrow> Panic ''nil pointer dereference''
           | Some vrv \<Rightarrow>
               gobind (cancelTimer (setStep StepAwaitingPrevotes (upd_rlc (\<lambda>rlc. rlc\<lparr>PrevConsideredHashes := []\<rparr>)
                  (emit (ChooseProposedBlockRequest (rejectMismatchedProposedHeaders (ProposedHeaders vrv) rlc)
                           (PrevoteHashCh rlc)) w)))) ok)
      | StepPrevoteDelay \<Rightarrow>
          (case rlc_VRV rlc of
             None \<Rightarrow> Panic ''nil pointer dereference''
           | Some vrv \<Rightarrow> gobind (cancelTimer (setStep StepAwaitingPrecommits (decidePrecommit (rv_VoteSummary vrv) w))) ok)
      | StepPrecommitDelay \<Rightarrow> gobind (cancelTimer w) (advanceRound M)
      | StepCommitWait \<Rightarrow>
          gobind (cancelTimer (upd_rlc (\<lambda>rlc. rlc\<lparr>CommitWaitElapsed := True\<rparr>) w)) (\<lambda>w1.
            if Validators (FinalizedValSet (sm_rlc w1)) = [] then ok (setStep StepAwaitingFinalization w1)
            else advanceHeight M w1)
      | _ \<Rightarrow> Panic ''BUG: unhandled timer elapse for step'')"

definition handleHeightCommitted :: "('p, 'b, 's) StateMachine \<Rightarrow> ('p, 's) sm_world \<Rightarrow> (bool \<times> ('p, 's) sm_world) go" where
  "handleHeightCommitted M w =
     (let rlc = sm_rlc w;
          w1 = w\<lparr>sm_timer := sm_timer w \<and> \<not> CancelTimer rlc,
                 sm_rlc := rlc\<lparr>HeightCommitted := NilChan, CommitWaitElapsed := True, StepTimer := False, CancelTimer := False\<rparr>\<rparr> in
      if rlc_S rlc = StepAwaitingFinalization then Ret (True, w1)
      else if rlc_S rlc \<noteq> StepCommitWait then Panic ''BUG: expected to be on step commit wait''
      else if Validators (FinalizedValSet rlc) = [] then Ret (True, setStep StepAwaitingFinalization w1)
      else advanceHeight M w1)"

definition handleBlockDataArrival :: "BlockDataArrival \<Rightarrow> ('p, 's) sm_world \<Rightarrow> (bool \<times> ('p, 's) sm_world) go" where
  "handleBlockDataArrival a w =
     (let rlc = sm_rlc w in
      if \<not> PrevoteHashCh rlc then Ret (True, w)
      else if bda_Height a \<noteq> rlc_H rlc \<or> bda_Round a \<noteq> rlc_R rlc then Ret (True, w)
      else case rlc_VRV rlc of
             None \<Rightarrow> Panic ''nil pointer dereference''
           | Some vrv \<Rightarrow>
               let okPHs = rejectMismatchedProposedHeaders (ProposedHeaders vrv) rlc in
               if okPHs = [] then Ret (True, w)
               else
                 let dataIDs = bda_ID a # map bda_ID (filter (\<lambda>x. bda_Height x = bda_Height a \<and> bda_Round x = bda_Round a) (sm_arrivals w));
                     w1 = w\<lparr>sm_arrivals := []\<rparr>;
                     updated = filter (\<lambda>d. d \<in> set dataIDs) (map (\<lambda>ph. DataID (ph_Header ph)) okPHs) in
                 if updated = [] then Ret (True, w1)
                 else Ret (True, emit (ConsiderProposedBlocksRequest okPHs (zeroReason\<lparr>UpdatedBlockDataIDs := updated\<rparr>) True) w1))"

section \<open>Startup\<close>

definition zeroRLC :: "'p RoundLifecycle" where
  "zeroRLC = \<lparr>rlc_H = 0, rlc_R = 0, rlc_S = StepInvalid, StepTimer = False, CancelTimer = False, HeightCommitted = NilChan,
     CurValSet = zeroValidatorSet, PrevValSet = zeroValidatorSet, rlc_VRV = None, rlc_PrevBlockHash = [],
     PrevFinNextValSet = zeroValidatorSet, PrevFinAppStateHash = [], PrevConsideredHashes = [], OutgoingActionsCh = False,
     ProposalCh = False, PrevoteHashCh = False, PrecommitHashCh = False, FinalizeRespCh = False,
     FinalizedValSet = zeroValidatorSet, FinalizedAppStateHash = [], FinalizedBlockHash = [], CommitWaitElapsed = False\<rparr>"

text \<open>The height and round to start at, and the current and previous validator sets; \<open>None\<close> when a store fails.\<close>

definition initialHeightRound :: "('p, 'b, 's) StateMachine \<Rightarrow> 's \<Rightarrow> (u64 \<times> u32) option" where
  "initialHeightRound M st =
     (case (case ss_StateMachineHeightRound (m_stores M) st of
              Inr hr \<Rightarrow> Some hr
            | Inl e \<Rightarrow> if e = ErrStoreUninitialized then Some (InitialHeight (m_genesis M), 0) else None) of
        None \<Rightarrow> None
      | Some (h, r) \<Rightarrow> (case ss_LoadFinalizationByHeight (m_stores M) st h of
                           Inr _ \<Rightarrow> Some (h + 1, 0) | Inl _ \<Rightarrow> Some (h, r)))"

definition initialValSets :: "('p, 'b, 's) StateMachine \<Rightarrow> 's \<Rightarrow> u64 \<Rightarrow> u32 \<Rightarrow> (ValidatorSet \<times> ValidatorSet) option" where
  "initialValSets M st h r =
     (let g = m_genesis M in
      if h = InitialHeight g \<and> r = 0 then Some (g_ValidatorSet g, g_ValidatorSet g)
      else case ss_LoadFinalizationByHeight (m_stores M) st (h - 2) of
             Inl e \<Rightarrow> None
           | Inr (_, _, cur, _) \<Rightarrow>
               if InitialHeight g < h - 3 then
                 (case ss_LoadFinalizationByHeight (m_stores M) st (h - 3) of
                    Inl e \<Rightarrow> None | Inr (_, _, prev, _) \<Rightarrow> Some (cur, prev))
               else Some (cur, g_ValidatorSet g))"

text \<open>The fields of the lifecycle that come from the previous finalization.\<close>

definition loadPrevFinalization ::
  "('p, 'b, 's) StateMachine \<Rightarrow> 's \<Rightarrow> u64 \<Rightarrow> u32 \<Rightarrow> 'p VersionedRoundView \<Rightarrow> 'p RoundLifecycle \<Rightarrow> 'p RoundLifecycle option go" where
  "loadPrevFinalization M st h r vrv rlc =
     (let g = m_genesis M in
      if h = InitialHeight g \<and> r = 0 then
        case Genesis_Header g (m_hashScheme M) of
          Inl e \<Rightarrow> Panic ''FATAL: failed to generate genesis block hash''
        | Inr b \<Rightarrow> Ret (Some (rlc\<lparr>PrevFinNextValSet := g_ValidatorSet g, PrevFinAppStateHash := CurrentAppStateHash g,
                                   rlc_PrevBlockHash := Hash b\<rparr>))
      else case ss_LoadFinalizationByHeight (m_stores M) st (h - 1) of
             Inl e \<Rightarrow> Ret None
           | Inr (_, blockHash, valSet, appStateHash) \<Rightarrow>
               Ret (Some (rlc\<lparr>rlc_PrevBlockHash := blockHash, PrevFinNextValSet := valSet, PrevFinAppStateHash := appStateHash,
                             rlc_VRV := Some (VRV_Clone (m_cmsp M) vrv)\<rparr>)))"

text \<open>\<open>sendInitialActionSet\<close>: the response of the mirror with the result of the later \<open>EnterRound\<close>, or \<open>None\<close> on failure.\<close>

definition sendInitialActionSet ::
  "('p, 'b, 's) StateMachine \<Rightarrow> ('p, 's) sm_world \<Rightarrow>
   (('p RoundEntranceResponse \<times> go_error option) option \<times> ('p, 's) sm_world) go" where
  "sendInitialActionSet M w =
     (case initialHeightRound M (sm_stores w) of
        None \<Rightarrow> Ret (None, w)
      | Some (h, r) \<Rightarrow>
          (case initialValSets M (sm_stores w) h r of
             None \<Rightarrow> Ret (None, w)
           | Some (cur, prev) \<Rightarrow>
               let w0 = upd_rlc (\<lambda>rlc. rlc\<lparr>CurValSet := cur, PrevValSet := prev\<rparr>) w;
                   participating = isParticipating M (sm_rlc w0);
                   w1 = emit (RoundEntrance \<lparr>re_H = h, re_R = r, re_PubKey = map_option sg_PubKey (m_signer M),
                                re_Actions = participating, re_HeightCommitted = OpenChan\<rparr>) w0 in
               case sm_answers w1 of
                 [] \<Rightarrow> Ret (None, w1\<lparr>sm_cancelled := True\<rparr>)
               | (rer, enterErr) # rest \<Rightarrow>
                   (let w2 = rlc_Reset h r (w1\<lparr>sm_answers := rest\<rparr>) in
                    case rer of
                      RespVRV vrv \<Rightarrow>
                        gobind (loadPrevFinalization M (sm_stores w2) h r vrv
                                  ((sm_rlc w2)\<lparr>OutgoingActionsCh := participating\<rparr>)) (\<lambda>out. case out of
                            None \<Rightarrow> Ret (None, w2)
                          | Some rlc \<Rightarrow>
                              Ret (Some (RespVRV (vrv\<lparr>ProposedHeaders := rejectMismatchedProposedHeaders (ProposedHeaders vrv) rlc\<rparr>),
                                         enterErr), w2\<lparr>sm_rlc := rlc\<rparr>))
                    | RespCH ch \<Rightarrow>
                        Ret (Some (rer, enterErr), finalizeRequest (ch_Header ch) (cp_Round (ch_Proof ch)) w2))))"

text \<open>Suppressing a proposal that was made before a restart: the view the consensus strategy is given, and whether to go on.\<close>

definition suppressProposal ::
  "('p, 'b, 's) StateMachine \<Rightarrow> 'p VersionedRoundView \<Rightarrow> ('p, 's) sm_world \<Rightarrow> (bool \<times> 'p VersionedRoundView \<times> ('p, 's) sm_world)" where
  "suppressProposal M vrv w = (case m_signer M of
     None \<Rightarrow> (True, vrv, w)
   | Some sg \<Rightarrow>
       if list_ex (\<lambda>ph. ProposerPubKey ph = Some (sg_PubKey sg)) (ProposedHeaders vrv)
       then (True, vrv, upd_rlc (\<lambda>rlc. rlc\<lparr>ProposalCh := False\<rparr>) w)
       else if \<not> ProposalCh (sm_rlc w) then (True, vrv, w)
       else
         let rlc = sm_rlc w in
         case ss_LoadActions (m_stores M) (sm_stores w) (rlc_H rlc) (rlc_R rlc) of
           Inl e \<Rightarrow> if e = RoundUnknownError (rlc_H rlc) (rlc_R rlc) then (True, vrv, w) else (False, vrv, w)
         | Inr ra \<Rightarrow>
             if h_Height (ph_Header (ra_ProposedHeader ra)) = 0 then (True, vrv, w)
             else
               let w1 = upd_rlc (\<lambda>rlc. rlc\<lparr>ProposalCh := False\<rparr>) w in
               if OutgoingActionsCh rlc
               then (True, vrv\<lparr>ProposedHeaders := ProposedHeaders vrv @ [ra_ProposedHeader ra]\<rparr>,
                     emit (ActionSent (rlc_H rlc) (rlc_R rlc) (zeroAction\<lparr>act_PH := ra_ProposedHeader ra\<rparr>)) w1)
               else (False, vrv, w1))"

definition initializeRLC :: "('p, 'b, 's) StateMachine \<Rightarrow> ('p, 's) sm_world \<Rightarrow> (bool \<times> ('p, 's) sm_world) go" where
  "initializeRLC M w =
     gobind (sendInitialActionSet M w) (\<lambda>(out, w1). case out of
         None \<Rightarrow> Ret (False, w1)
       | Some (RespCH ch, enterErr) \<Rightarrow> Ret (True, w1)
       | Some (RespVRV vrv, enterErr) \<Rightarrow>
           (case suppressProposal M vrv w1 of
              (False, vrv1, w2) \<Rightarrow> Ret (False, w2)
            | (True, vrv1, w2) \<Rightarrow>
                (let w3 = emit (EnterRoundRequest (RoundView.RoundView.truncate vrv1) (ProposalCh (sm_rlc w2))) w2 in
                 case enterErr of
                   Some e \<Rightarrow> Ret (False, w3)
                 | None \<Rightarrow> beginRoundLive (advanceRound M) vrv1 w3)))"

section \<open>The kernel loop\<close>

datatype 'p sm_event =
    EvView "'p StateMachineRoundView" | EvProposal Proposal | EvPrevote HashSelection | EvPrecommit HashSelection
  | EvFinalize FinalizeBlockResponse | EvTimer | EvHeightCommitted | EvArrival BlockDataArrival

text \<open>The effects since the last round entrance, and what they say: whether the round was entered (the mirror answered
  with a view) and which requests of this round can have an answer.\<close>

definition is_entrance :: "'p sm_effect \<Rightarrow> bool" where
  "is_entrance e = (case e of RoundEntrance _ \<Rightarrow> True | _ \<Rightarrow> False)"

definition this_round :: "'p sm_effect list \<Rightarrow> 'p sm_effect list" where
  "this_round effs = rev (takeWhile (\<lambda>e. \<not> is_entrance e) (rev effs))"

definition entered :: "'p sm_effect list \<Rightarrow> bool" where
  "entered effs = list_ex (\<lambda>e. case e of EnterRoundRequest _ _ \<Rightarrow> True | _ \<Rightarrow> False) (this_round effs)"

definition prevote_asked :: "'p sm_effect list \<Rightarrow> bool" where
  "prevote_asked effs = list_ex (\<lambda>e. case e of
     ConsiderProposedBlocksRequest _ _ _ \<Rightarrow> True | ChooseProposedBlockRequest _ _ \<Rightarrow> True | _ \<Rightarrow> False) (this_round effs)"

definition precommit_asked :: "'p sm_effect list \<Rightarrow> bool" where
  "precommit_asked effs = list_ex (\<lambda>e. case e of DecidePrecommitRequest _ _ \<Rightarrow> True | _ \<Rightarrow> False) (this_round effs)"

definition finalize_asked :: "'p sm_effect list \<Rightarrow> bool" where
  "finalize_asked effs = list_ex (\<lambda>e. case e of FinalizeRequest _ \<Rightarrow> True | _ \<Rightarrow> False) (this_round effs)"

text \<open>A receive from a nil channel never happens; the consensus manager and the driver answer only what they were asked
  in this round, since every round has fresh channels; and the mirror sends views only for a round whose entrance it
  answered with a view.\<close>

fun sm_enabled :: "'p sm_event \<Rightarrow> ('p, 's) sm_world \<Rightarrow> bool" where
  "sm_enabled (EvView v) w = entered (sm_effects w)"
| "sm_enabled (EvProposal p) w = (ProposalCh (sm_rlc w) \<and> entered (sm_effects w))"
| "sm_enabled (EvPrevote he) w = (PrevoteHashCh (sm_rlc w) \<and> prevote_asked (sm_effects w))"
| "sm_enabled (EvPrecommit he) w = (PrecommitHashCh (sm_rlc w) \<and> precommit_asked (sm_effects w))"
| "sm_enabled (EvFinalize resp) w = (FinalizeRespCh (sm_rlc w) \<and> finalize_asked (sm_effects w))"
| "sm_enabled EvTimer w = (StepTimer (sm_rlc w) \<and> sm_timer w)"
| "sm_enabled EvHeightCommitted w = (HeightCommitted (sm_rlc w) \<noteq> NilChan)"
| "sm_enabled (EvArrival a) w = True"

definition after_ok :: "('p RoundLifecycle \<Rightarrow> 'p RoundLifecycle) \<Rightarrow> (bool \<times> ('p, 's) sm_world) go \<Rightarrow> (bool \<times> ('p, 's) sm_world) go" where
  "after_ok f r = gobind r (\<lambda>(ok, w). Ret (ok, if ok then upd_rlc f w else w))"

fun handleLiveEvent ::
  "('p, 'b, 's) StateMachine \<Rightarrow> 'p sm_event \<Rightarrow> ('p, 's) sm_world \<Rightarrow> (bool \<times> ('p, 's) sm_world) go" where
  "handleLiveEvent M (EvView v) w = gobind (handleViewUpdate M v w) (\<lambda>w1. Ret (True, w1))"
| "handleLiveEvent M (EvProposal p) w = after_ok (\<lambda>rlc. rlc\<lparr>ProposalCh := False\<rparr>) (recordProposedHeader M p w)"
| "handleLiveEvent M (EvPrevote he) w = (case he of
     Inl e \<Rightarrow> Ret (False, w)
   | Inr h \<Rightarrow> after_ok (\<lambda>rlc. rlc\<lparr>PrevoteHashCh := False\<rparr>) (recordPrevote M h w))"
| "handleLiveEvent M (EvPrecommit he) w = (case he of
     Inl e \<Rightarrow> Ret (False, w)
   | Inr h \<Rightarrow> after_ok (\<lambda>rlc. rlc\<lparr>PrecommitHashCh := False\<rparr>) (recordPrecommit M h w))"
| "handleLiveEvent M (EvFinalize resp) w = handleFinalization M resp w"
| "handleLiveEvent M EvTimer w = handleTimerElapsed M (w\<lparr>sm_timer := False\<rparr>)"
| "handleLiveEvent M EvHeightCommitted w = handleHeightCommitted M w"
| "handleLiveEvent M (EvArrival a) w = handleBlockDataArrival a w"

text \<open>\<open>handleCatchupEvent\<close>: the only event besides cancellation is a finalization, and the loop around it is left only on
  failure.\<close>

definition handleCatchupEvent ::
  "('p, 'b, 's) StateMachine \<Rightarrow> FinalizeBlockResponse \<Rightarrow> ('p, 's) sm_world \<Rightarrow> (bool \<times> ('p, 's) sm_world) go" where
  "handleCatchupEvent M resp w = handleFinalization M resp (setStep StepAwaitingFinalization w)"

definition sm_start :: "'s \<Rightarrow> ('p RoundEntranceResponse \<times> go_error option) list \<Rightarrow> ('p, 's) sm_world" where
  "sm_start st answers = \<lparr>sm_rlc = zeroRLC, sm_stores = st, sm_effects = [], sm_answers = answers, sm_cmBusy = False,
     sm_arrivals = [], sm_timer = False, sm_cancelled = False\<rparr>"

text \<open>What the environment may change between two events.\<close>

definition sm_input :: "('p RoundEntranceResponse \<times> go_error option) list \<Rightarrow> bool \<Rightarrow> BlockDataArrival list \<Rightarrow> ('p, 's) sm_world \<Rightarrow> ('p, 's) sm_world" where
  "sm_input answers busy arrivals w = w\<lparr>sm_answers := answers, sm_cmBusy := busy, sm_arrivals := arrivals\<rparr>"

text \<open>The runs of \<open>kernel\<close> from the stores \<open>st\<close>: the flag says that the kernel is inside \<open>handleCatchupEvent\<close>, which it is
  for ever when it starts in replay; the second flag is false when the kernel has quit.\<close>

inductive smrun :: "('p, 'b, 's) StateMachine \<Rightarrow> 's \<Rightarrow> bool \<Rightarrow> bool \<Rightarrow> ('p, 's) sm_world \<Rightarrow> bool" for M st where
  start: "initializeRLC M (sm_start st answers) = Ret (ok, w) \<Longrightarrow> smrun M st (IsReplaying (sm_rlc w)) ok w"
| live: "smrun M st False True w \<Longrightarrow> \<not> sm_cancelled w \<Longrightarrow> sm_enabled ev (sm_input answers busy arrivals w) \<Longrightarrow>
     handleLiveEvent M ev (sm_input answers busy arrivals w) = Ret (ok, w') \<Longrightarrow> smrun M st False ok w'"
| catchup: "smrun M st True True w \<Longrightarrow> \<not> sm_cancelled w \<Longrightarrow> sm_enabled (EvFinalize resp) w \<Longrightarrow>
     handleCatchupEvent M resp (sm_input answers busy arrivals w) = Ret (ok, w') \<Longrightarrow> smrun M st True ok w'"

end
