(* ===== verification/StateMachineInv.thy ===== *)
theory StateMachineInv
  imports StateMachine
begin

text \<open>
  The invariant of the state machine: which timer runs at which step, which channels are open, and what was asked of
  the consensus strategy in the current round.
\<close>

section \<open>Effects of the current round\<close>

lemma this_round_append [simp]:
  "this_round (effs @ [e]) = (if is_entrance e then [] else this_round effs @ [e])"
  by (simp add: this_round_def)

lemma emit_sel [simp]:
  "sm_rlc (emit e w) = sm_rlc w" "sm_stores (emit e w) = sm_stores w" "sm_answers (emit e w) = sm_answers w"
  "sm_timer (emit e w) = sm_timer w" "sm_cmBusy (emit e w) = sm_cmBusy w" "sm_cancelled (emit e w) = sm_cancelled w" "sm_effects (emit e w) = sm_effects w @ [e]"
  by (simp_all add: emit_def)

lemma upd_rlc_sel [simp]:
  "sm_rlc (upd_rlc f w) = f (sm_rlc w)" "sm_stores (upd_rlc f w) = sm_stores w" "sm_answers (upd_rlc f w) = sm_answers w"
  "sm_timer (upd_rlc f w) = sm_timer w" "sm_cmBusy (upd_rlc f w) = sm_cmBusy w" "sm_cancelled (upd_rlc f w) = sm_cancelled w" "sm_effects (upd_rlc f w) = sm_effects w"
  by (simp_all add: upd_rlc_def)

lemma setStep_sel [simp]:
  "sm_rlc (setStep s w) = (sm_rlc w)\<lparr>rlc_S := s\<rparr>" "sm_stores (setStep s w) = sm_stores w" "sm_answers (setStep s w) = sm_answers w"
  "sm_timer (setStep s w) = sm_timer w" "sm_cmBusy (setStep s w) = sm_cmBusy w" "sm_cancelled (setStep s w) = sm_cancelled w" "sm_effects (setStep s w) = sm_effects w"
  by (simp_all add: setStep_def)

text \<open>The number of precommit decisions asked for in this round.\<close>

definition decisions :: "'p sm_effect list \<Rightarrow> nat" where
  "decisions effs = length (filter (\<lambda>e. case e of DecidePrecommitRequest _ _ \<Rightarrow> True | _ \<Rightarrow> False) (this_round effs))"

primrec decisions_step :: "'p sm_effect \<Rightarrow> nat \<Rightarrow> nat" where
  "decisions_step (EnterRoundRequest rv ch) n = n"
| "decisions_step (ConsiderProposedBlocksRequest phs r ch) n = n"
| "decisions_step (ChooseProposedBlockRequest phs ch) n = n"
| "decisions_step (DecidePrecommitRequest vs ch) n = Suc n"
| "decisions_step (FinalizeRequest req) n = n"
| "decisions_step (RoundEntrance re) n = 0"
| "decisions_step (ActionSent h r act) n = n"
| "decisions_step (TimerStarted t h r) n = n"
| "decisions_step Terminate n = n"

primrec entered_step :: "'p sm_effect \<Rightarrow> bool \<Rightarrow> bool" where
  "entered_step (EnterRoundRequest rv ch) b = True"
| "entered_step (ConsiderProposedBlocksRequest phs r ch) b = b"
| "entered_step (ChooseProposedBlockRequest phs ch) b = b"
| "entered_step (DecidePrecommitRequest vs ch) b = b"
| "entered_step (FinalizeRequest req) b = b"
| "entered_step (RoundEntrance re) b = False"
| "entered_step (ActionSent h r act) b = b"
| "entered_step (TimerStarted t h r) b = b"
| "entered_step Terminate b = b"

lemma decisions_snoc: "decisions (effs @ [e]) = decisions_step e (decisions effs)"
  by (cases e) (simp_all add: decisions_def is_entrance_def)

lemma entered_snoc: "entered (effs @ [e]) = entered_step e (entered effs)"
  by (cases e) (simp_all add: entered_def is_entrance_def)

lemma decisions_append [simp]: "decisions (effs @ es) = fold decisions_step es (decisions effs)"
proof (induction es rule: rev_induct)
  case (snoc e es)
  then show ?case using decisions_snoc[of "effs @ es" e] by simp
qed simp

lemma entered_append [simp]: "entered (effs @ es) = fold entered_step es (entered effs)"
proof (induction es rule: rev_induct)
  case (snoc e es)
  then show ?case using entered_snoc[of "effs @ es" e] by simp
qed simp

primrec finalize_step :: "'p sm_effect \<Rightarrow> bool \<Rightarrow> bool" where
  "finalize_step (EnterRoundRequest rv ch) b = b"
| "finalize_step (ConsiderProposedBlocksRequest phs r ch) b = b"
| "finalize_step (ChooseProposedBlockRequest phs ch) b = b"
| "finalize_step (DecidePrecommitRequest vs ch) b = b"
| "finalize_step (FinalizeRequest req) b = True"
| "finalize_step (RoundEntrance re) b = False"
| "finalize_step (ActionSent h r act) b = b"
| "finalize_step (TimerStarted t h r) b = b"
| "finalize_step Terminate b = b"

lemma finalize_asked_snoc: "finalize_asked (effs @ [e]) = finalize_step e (finalize_asked effs)"
  by (cases e) (simp_all add: finalize_asked_def is_entrance_def)

lemma finalize_asked_append [simp]: "finalize_asked (effs @ es) = fold finalize_step es (finalize_asked effs)"
proof (induction es rule: rev_induct)
  case (snoc e es)
  then show ?case using finalize_asked_snoc[of "effs @ es" e] by simp
qed simp

lemma precommit_asked_decisions: "precommit_asked effs \<longleftrightarrow> decisions effs \<noteq> 0"
  by (auto simp: precommit_asked_def decisions_def list_ex_iff filter_empty_conv)

text \<open>Requests to the consensus manager carry a channel on which the result can be sent.\<close>

primrec request_ok :: "'p sm_effect \<Rightarrow> bool" where
  "request_ok (EnterRoundRequest rv ch) = True"
| "request_ok (ConsiderProposedBlocksRequest phs r ch) = ch"
| "request_ok (ChooseProposedBlockRequest phs ch) = ch"
| "request_ok (DecidePrecommitRequest vs ch) = ch"
| "request_ok (FinalizeRequest req) = fbr_Resp req"
| "request_ok (RoundEntrance re) = True"
| "request_ok (ActionSent h r act) = True"
| "request_ok (TimerStarted t h r) = True"
| "request_ok Terminate = True"

section \<open>The invariant\<close>

definition timed_steps :: "Step set" where
  "timed_steps = {StepAwaitingProposal, StepPrevoteDelay, StepPrecommitDelay, StepCommitWait}"

definition early_steps :: "Step set" where
  "early_steps = {StepAwaitingProposal, StepAwaitingPrevotes, StepPrevoteDelay}"

definition timer_ok :: "('p, 's) sm_world \<Rightarrow> bool" where
  "timer_ok w \<longleftrightarrow> StepTimer (sm_rlc w) = CancelTimer (sm_rlc w) \<and> (sm_timer w \<longrightarrow> CancelTimer (sm_rlc w))"

definition requests_ok :: "('p, 's) sm_world \<Rightarrow> bool" where
  "requests_ok w \<longleftrightarrow> (\<forall>e \<in> set (sm_effects w). request_ok e)"

definition sm_inv :: "('p, 'b, 's) StateMachine \<Rightarrow> ('p, 's) sm_world \<Rightarrow> bool" where
  "sm_inv M w \<longleftrightarrow> (let rlc = sm_rlc w; effs = sm_effects w in
     requests_ok w \<and> StepTimer rlc = CancelTimer rlc \<and> sm_timer w = CancelTimer rlc \<and>
     (CancelTimer rlc \<longleftrightarrow> entered effs \<and> rlc_S rlc \<in> timed_steps) \<and>
     decisions effs \<le> 1 \<and>
     (entered effs \<longrightarrow>
        rlc_VRV rlc \<noteq> None \<and> rlc_S rlc \<noteq> StepInvalid \<and>
        (isParticipating M rlc \<longrightarrow> OutgoingActionsCh rlc) \<and>
        (rlc_S rlc = StepAwaitingProposal \<longrightarrow> PrevoteHashCh rlc) \<and>
        (rlc_S rlc \<in> early_steps \<longrightarrow> decisions effs = 0) \<and>
        (rlc_S rlc \<notin> {StepCommitWait, StepAwaitingFinalization} \<longrightarrow> FinalizeRespCh rlc \<and> \<not> finalize_asked effs) \<and>
        (decisions effs = 0 \<longrightarrow> PrecommitHashCh rlc)) \<and>
     (\<not> entered effs \<longrightarrow> \<not> PrevoteHashCh rlc))"

text \<open>A lifecycle just after \<open>Reset\<close>.\<close>

definition fresh :: "('p, 's) sm_world \<Rightarrow> bool" where
  "fresh w \<longleftrightarrow> (let rlc = sm_rlc w in requests_ok w \<and> \<not> StepTimer rlc \<and> \<not> CancelTimer rlc \<and> \<not> sm_timer w \<and>
     ProposalCh rlc \<and> PrevoteHashCh rlc \<and> PrecommitHashCh rlc \<and> FinalizeRespCh rlc)"

text \<open>What a move to another round or height leaves behind. It reports failure when the context was cancelled, when a
  store failed, or when the round it entered is already committed to a header that is not known; the view
  handlers drop that report and go on, which is fine as long as a view was held before (\<open>v\<close>).\<close>

definition moved :: "('p, 'b, 's) StateMachine \<Rightarrow> bool \<Rightarrow> bool \<times> ('p, 's) sm_world \<Rightarrow> bool" where
  "moved M v res \<longleftrightarrow> fst res \<or> v \<longrightarrow>
     sm_cancelled (snd res) \<or> sm_inv M (snd res) \<and> (v \<longrightarrow> rlc_VRV (sm_rlc (snd res)) \<noteq> None)"

definition movable :: "bool \<Rightarrow> ('p, 's) sm_world \<Rightarrow> bool" where
  "movable v w \<longleftrightarrow> timer_ok w \<and> requests_ok w \<and> (v \<longrightarrow> rlc_VRV (sm_rlc w) \<noteq> None)"

lemma rlc_Reset_fresh:
  assumes "timer_ok w" "requests_ok w"
  shows "fresh (rlc_Reset h r w)"
  using assms by (auto simp: fresh_def rlc_Reset_def timer_ok_def requests_ok_def Let_def)

lemma isParticipating_upd [simp]:
  "isParticipating M (r\<lparr>rlc_H := h\<rparr>) = isParticipating M r" "isParticipating M (r\<lparr>rlc_R := n\<rparr>) = isParticipating M r"
  "isParticipating M (r\<lparr>rlc_S := s\<rparr>) = isParticipating M r" "isParticipating M (r\<lparr>StepTimer := b\<rparr>) = isParticipating M r"
  "isParticipating M (r\<lparr>CancelTimer := b\<rparr>) = isParticipating M r" "isParticipating M (r\<lparr>HeightCommitted := c\<rparr>) = isParticipating M r"
  "isParticipating M (r\<lparr>rlc_VRV := v\<rparr>) = isParticipating M r" "isParticipating M (r\<lparr>PrevConsideredHashes := hs\<rparr>) = isParticipating M r"
  "isParticipating M (r\<lparr>OutgoingActionsCh := b\<rparr>) = isParticipating M r" "isParticipating M (r\<lparr>ProposalCh := b\<rparr>) = isParticipating M r"
  "isParticipating M (r\<lparr>PrevoteHashCh := b\<rparr>) = isParticipating M r" "isParticipating M (r\<lparr>PrecommitHashCh := b\<rparr>) = isParticipating M r"
  "isParticipating M (r\<lparr>FinalizeRespCh := b\<rparr>) = isParticipating M r" "isParticipating M (r\<lparr>FinalizedValSet := vs\<rparr>) = isParticipating M r"
  "isParticipating M (r\<lparr>FinalizedAppStateHash := x\<rparr>) = isParticipating M r" "isParticipating M (r\<lparr>FinalizedBlockHash := x\<rparr>) = isParticipating M r"
  "isParticipating M (r\<lparr>CommitWaitElapsed := b\<rparr>) = isParticipating M r"
  by (simp_all add: isParticipating_def split: option.split)

text \<open>Entering a round: the world after the request to enter, before any vote is looked at.\<close>

definition entering :: "('p, 'b, 's) StateMachine \<Rightarrow> ('p, 's) sm_world \<Rightarrow> bool" where
  "entering M w \<longleftrightarrow> requests_ok w \<and> \<not> StepTimer (sm_rlc w) \<and> \<not> CancelTimer (sm_rlc w) \<and> \<not> sm_timer w \<and>
     entered (sm_effects w) \<and> decisions (sm_effects w) = 0 \<and> \<not> finalize_asked (sm_effects w) \<and>
     (isParticipating M (sm_rlc w) \<longrightarrow> OutgoingActionsCh (sm_rlc w)) \<and>
     PrevoteHashCh (sm_rlc w) \<and> PrecommitHashCh (sm_rlc w) \<and> FinalizeRespCh (sm_rlc w)"

lemmas sm_action_defs = startInitialTimer_def startTimer_def considerNew_def MarkReasonNewHashes_def decidePrecommit_def
  beginCommit_def finalizeRequest_def

lemmas sm_inv_defs = sm_inv_def requests_ok_def timed_steps_def early_steps_def

lemma beginRoundLive_inv:
  assumes "entering M w" "v \<longrightarrow> rlc_VRV (sm_rlc w) \<noteq> None" and adv: "\<And>w. movable v w \<Longrightarrow> go_post (moved M v) (adv w)"
  shows "go_post (moved M v) (beginRoundLive adv vrv w)"
proof -
  have w: "\<forall>e \<in> set (sm_effects w). request_ok e" "\<not> StepTimer (sm_rlc w)" "\<not> CancelTimer (sm_rlc w)" "\<not> sm_timer w" "entered (sm_effects w)"
    "decisions (sm_effects w) = 0" "\<not> finalize_asked (sm_effects w)" "isParticipating M (sm_rlc w) \<longrightarrow> OutgoingActionsCh (sm_rlc w)"
    "PrevoteHashCh (sm_rlc w)" "PrecommitHashCh (sm_rlc w)" "FinalizeRespCh (sm_rlc w)"
    using assms(1) by (simp_all add: entering_def requests_ok_def)
  have adv': "go_post (moved M v) (adv w)" using w assms(2) by (intro adv) (simp add: movable_def timer_ok_def requests_ok_def)
  show ?thesis
  proof (cases "GetStepFromVoteSummary (rv_VoteSummary vrv)")
    case (Ret step)
    show ?thesis
    proof (cases "step = StepCommitWait \<and> MostVotedPrecommitHash (rv_VoteSummary vrv) = []")
      case True
      then show ?thesis using adv' Ret by (simp add: beginRoundLive_def Let_def)
    next
      case False
      then show ?thesis using w Ret assms(2)
        by (cases step) (auto simp: beginRoundLive_def Let_def sm_action_defs moved_def sm_inv_defs split: if_splits option.splits)
    qed
  qed (simp add: beginRoundLive_def Let_def)
qed

lemma advance_inv:
  assumes "fresh w" "v \<longrightarrow> rlc_VRV (sm_rlc w) \<noteq> None" and adv: "\<And>w. movable v w \<Longrightarrow> go_post (moved M v) (adv w)"
  shows "go_post (moved M v) (advance M adv re w)"
proof -
  have w: "\<forall>e \<in> set (sm_effects w). request_ok e" "\<not> StepTimer (sm_rlc w)" "\<not> CancelTimer (sm_rlc w)" "\<not> sm_timer w"
    "ProposalCh (sm_rlc w)" "PrevoteHashCh (sm_rlc w)" "PrecommitHashCh (sm_rlc w)" "FinalizeRespCh (sm_rlc w)"
    using assms(1) by (simp_all add: fresh_def requests_ok_def Let_def)
  show ?thesis
  proof (cases "sm_answers w")
    case (Cons a rest)
    obtain rer enterErr where a: "a = (rer, enterErr)" by fastforce
    show ?thesis
    proof (cases rer)
      case (RespVRV vrv)
      show ?thesis
      proof (cases enterErr)
        case None
        have "go_post (moved M v) (beginRoundLive adv vrv (emit (EnterRoundRequest (RoundView.RoundView.truncate vrv) (ProposalCh (sm_rlc w)))
            (upd_rlc (\<lambda>rlc. rlc\<lparr>OutgoingActionsCh := isParticipating M (sm_rlc w)\<rparr>)
              ((emit (RoundEntrance (re\<lparr>re_PubKey := map_option sg_PubKey (m_signer M), re_Actions := isParticipating M (sm_rlc w)\<rparr>)) w)\<lparr>sm_answers := rest\<rparr>))))"
          using w assms(2) by (intro beginRoundLive_inv[OF _ _ adv]) (auto simp: entering_def requests_ok_def)
        then show ?thesis using Cons a RespVRV None by (simp add: advance_def Let_def)
      qed (use Cons a RespVRV in \<open>simp add: advance_def Let_def\<close>)
    next
      case (RespCH ch)
      then show ?thesis using Cons a w assms(2)
        by (auto simp: advance_def Let_def finalizeRequest_def MarkCatchingUp_def moved_def sm_inv_defs)
    qed
  qed (simp add: advance_def Let_def moved_def)
qed

lemma fresh_stores [simp]: "fresh (w\<lparr>sm_stores := st\<rparr>) = fresh w"
  by (simp add: fresh_def requests_ok_def)

lemma rlc_Reset_VRV [simp]: "rlc_VRV (sm_rlc (rlc_Reset h r w)) = rlc_VRV (sm_rlc w)"
  by (simp add: rlc_Reset_def Let_def)

text \<open>A cancelled context stays cancelled.\<close>

abbreviation stays_cancelled :: "(bool \<times> ('p, 's) sm_world) go \<Rightarrow> bool" where
  "stays_cancelled r \<equiv> go_post (\<lambda>(ok, w). sm_cancelled w) r"

lemma beginRoundLive_cancelled:
  assumes "sm_cancelled w" and adv: "\<And>w. sm_cancelled w \<Longrightarrow> stays_cancelled (adv w)"
  shows "stays_cancelled (beginRoundLive adv vrv w)"
proof (cases "GetStepFromVoteSummary (rv_VoteSummary vrv)")
  case (Ret step)
  then show ?thesis using assms adv[OF assms(1)]
    by (cases step) (simp_all add: beginRoundLive_def Let_def sm_action_defs split: option.split)
qed (simp add: beginRoundLive_def Let_def)

lemma advance_cancelled:
  assumes "sm_cancelled w" and adv: "\<And>w. sm_cancelled w \<Longrightarrow> stays_cancelled (adv w)"
  shows "stays_cancelled (advance M adv re w)"
  using assms(1) beginRoundLive_cancelled[OF _ adv]
  by (auto simp: advance_def Let_def finalizeRequest_def split: list.split RoundEntranceResponse.split option.split)

lemma rlc_Reset_cancelled [simp]: "sm_cancelled (rlc_Reset h r w) = sm_cancelled w"
  by (simp add: rlc_Reset_def Let_def)

lemma advanceRoundStep_cancelled:
  assumes "sm_cancelled w" and adv: "\<And>w. sm_cancelled w \<Longrightarrow> stays_cancelled (adv w)"
  shows "stays_cancelled (advanceRoundStep M adv w)"
proof -
  have "stays_cancelled (advance M adv re w')" if "sm_cancelled w'" for re w' by (rule advance_cancelled[OF that adv])
  then show ?thesis using assms(1) by (simp add: advanceRoundStep_def Let_def split: sum.split)
qed

lemma advanceRounds_cancelled: "sm_cancelled w \<Longrightarrow> stays_cancelled (advanceRounds M n w)"
  by (induction n arbitrary: w) (simp_all add: advanceRoundStep_cancelled)

lemma handleJumpAhead_cancelled: "sm_cancelled w \<Longrightarrow> go_post sm_cancelled (handleJumpAhead M vrv w)"
  using advanceRounds_cancelled[of w M "length (sm_answers w)"]
  by (cases "advanceRounds M (length (sm_answers w)) w") (auto simp: handleJumpAhead_def advanceRound_def)

text \<open>A store that always takes the new position.\<close>

locale position_store =
  fixes M :: "('p, 'b, 's) StateMachine"
  assumes set_total: "\<exists>st'. ss_SetStateMachineHeightRound (m_stores M) h r st = Inr st'"
begin

lemma advanceRoundStep_inv:
  assumes "movable v w" and adv: "\<And>w. movable v w \<Longrightarrow> go_post (moved M v) (adv w)"
  shows "go_post (moved M v) (advanceRoundStep M adv w)"
proof -
  define w1 where "w1 = rlc_Reset (rlc_H (sm_rlc w)) (rlc_R (sm_rlc w) + 1) w"
  have f: "fresh w1" "v \<longrightarrow> rlc_VRV (sm_rlc w1) \<noteq> None" using assms(1) by (auto simp: w1_def movable_def intro: rlc_Reset_fresh)
  obtain st where "ss_SetStateMachineHeightRound (m_stores M) (rlc_H (sm_rlc w1)) (rlc_R (sm_rlc w1)) (sm_stores w1) = Inr st"
    using set_total by blast
  moreover have "go_post (moved M v) (advance M adv re (w1\<lparr>sm_stores := st\<rparr>))" for re
    using f by (intro advance_inv[OF _ _ adv]) auto
  ultimately show ?thesis by (simp add: advanceRoundStep_def w1_def[symmetric])
qed

lemma advanceRounds_inv: "movable v w \<Longrightarrow> go_post (moved M v) (advanceRounds M n w)"
proof (induction n arbitrary: w)
  case 0
  show ?case unfolding advanceRounds.simps by (rule advanceRoundStep_inv[OF 0]) (simp add: moved_def)
qed (simp add: advanceRoundStep_inv)

lemma advanceRound_inv: "movable v w \<Longrightarrow> go_post (moved M v) (advanceRound M w)"
  by (simp add: advanceRound_def advanceRounds_inv)

lemma advanceHeight_inv:
  assumes "movable v w"
  shows "go_post (moved M v) (advanceHeight M w)"
proof -
  define w0 where "w0 = upd_rlc CycleFinalization w"
  define w1 where "w1 = rlc_Reset (rlc_H (sm_rlc w0) + 1) 0 w0"
  have "timer_ok w0" "requests_ok w0" "v \<longrightarrow> rlc_VRV (sm_rlc w0) \<noteq> None"
    using assms by (simp_all add: w0_def movable_def timer_ok_def requests_ok_def CycleFinalization_def)
  then have f: "fresh w1" "v \<longrightarrow> rlc_VRV (sm_rlc w1) \<noteq> None" by (auto simp: w1_def intro: rlc_Reset_fresh)
  obtain st where "ss_SetStateMachineHeightRound (m_stores M) (rlc_H (sm_rlc w1)) 0 (sm_stores w1) = Inr st"
    using set_total by blast
  moreover have "go_post (moved M v) (advance M (advanceRound M) re (w1\<lparr>sm_stores := st\<rparr>))" for re
    using f by (intro advance_inv[OF _ _ advanceRound_inv]) auto
  ultimately show ?thesis by (simp add: advanceHeight_def w1_def[symmetric] w0_def[symmetric])
qed

lemma sm_inv_movable: "sm_inv M w \<Longrightarrow> entered (sm_effects w) \<Longrightarrow> movable True w"
  by (simp add: sm_inv_def movable_def timer_ok_def Let_def)

abbreviation view_post :: "('p, 's) sm_world \<Rightarrow> bool" where
  "view_post w \<equiv> sm_cancelled w \<or> sm_inv M w \<and> rlc_VRV (sm_rlc w) \<noteq> None"

lemma ignore_ok_inv:
  assumes "go_post (moved M True) r"
  shows "go_post view_post (ignore_ok r)"
  using assms by (cases r) (auto simp: ignore_ok_def moved_def)

lemma handleJumpAhead_inv:
  assumes "movable True w"
  shows "go_post view_post (handleJumpAhead M vrv w)"
  using ignore_ok_inv[OF advanceRound_inv[OF assms]] by (simp add: handleJumpAhead_def ignore_ok_def)

text \<open>The view handlers.\<close>

lemma cancelled_movable:
  assumes "movable v w" "cancelTimer w = Ret w1"
  shows "movable v w1"
  using assms by (auto simp: cancelTimer_def movable_def timer_ok_def requests_ok_def split: if_splits)

text \<open>Between two timers of the early steps.\<close>

definition between :: "('p, 's) sm_world \<Rightarrow> bool" where
  "between w \<longleftrightarrow> requests_ok w \<and> \<not> StepTimer (sm_rlc w) \<and> \<not> CancelTimer (sm_rlc w) \<and> \<not> sm_timer w \<and>
     entered (sm_effects w) \<and> decisions (sm_effects w) = 0 \<and> \<not> finalize_asked (sm_effects w) \<and> rlc_VRV (sm_rlc w) \<noteq> None \<and>
     (isParticipating M (sm_rlc w) \<longrightarrow> OutgoingActionsCh (sm_rlc w)) \<and>
     PrecommitHashCh (sm_rlc w) \<and> FinalizeRespCh (sm_rlc w)"

lemma early_cancel_between:
  assumes "sm_inv M w" "entered (sm_effects w)" "rlc_S (sm_rlc w) \<in> early_steps"
  shows "rlc_S (sm_rlc w) \<in> {StepAwaitingProposal, StepPrevoteDelay} \<Longrightarrow>
      \<exists>w1. cancelTimer w = Ret w1 \<and> between w1 \<and> PrevoteHashCh (sm_rlc w1) = PrevoteHashCh (sm_rlc w)"
    and "rlc_S (sm_rlc w) = StepAwaitingPrevotes \<Longrightarrow> between w"
proof -
  have s: "rlc_S (sm_rlc w) \<notin> {StepCommitWait, StepAwaitingFinalization}" using assms(3) by (auto simp: early_steps_def)
  have w: "requests_ok w" "StepTimer (sm_rlc w) = CancelTimer (sm_rlc w)" "sm_timer w = CancelTimer (sm_rlc w)"
    "CancelTimer (sm_rlc w) \<longleftrightarrow> rlc_S (sm_rlc w) \<in> timed_steps" "decisions (sm_effects w) = 0" "\<not> finalize_asked (sm_effects w)"
    "isParticipating M (sm_rlc w) \<longrightarrow> OutgoingActionsCh (sm_rlc w)" "rlc_VRV (sm_rlc w) \<noteq> None" "PrecommitHashCh (sm_rlc w)" "FinalizeRespCh (sm_rlc w)"
    using assms s by (simp_all add: sm_inv_def Let_def)
  show "\<exists>w1. cancelTimer w = Ret w1 \<and> between w1 \<and> PrevoteHashCh (sm_rlc w1) = PrevoteHashCh (sm_rlc w)"
    if "rlc_S (sm_rlc w) \<in> {StepAwaitingProposal, StepPrevoteDelay}"
    using w assms(2) that by (auto simp: cancelTimer_def timed_steps_def between_def requests_ok_def)
  show "between w" if "rlc_S (sm_rlc w) = StepAwaitingPrevotes"
    using w assms(2) that by (simp add: between_def timed_steps_def)
qed

lemma between_movable: "between w \<Longrightarrow> movable True w"
  by (simp add: between_def movable_def timer_ok_def)

lemma between_commit:
  assumes "between w"
  shows "go_post view_post (ignore_ok (beginCommit vrv w))"
  using assms
  by (simp add: between_def ignore_ok_def beginCommit_def startTimer_def finalizeRequest_def sm_inv_defs Let_def split: option.split)

lemma between_advance: "between w \<Longrightarrow> go_post view_post (ignore_ok (advanceRound M w))"
  by (intro ignore_ok_inv advanceRound_inv between_movable)

lemma between_precommit_delay:
  assumes "between w"
  shows "go_post view_post (gobind (startTimer PrecommitDelayTimer (setStep StepPrecommitDelay w)) (\<lambda>w2. Ret (decidePrecommit vs w2)))"
  using assms by (simp add: between_def startTimer_def decidePrecommit_def sm_inv_defs Let_def)

lemma between_precommits:
  assumes "between w"
  shows "view_post (decidePrecommit vs (setStep StepAwaitingPrecommits w))"
  using assms by (simp add: between_def decidePrecommit_def sm_inv_defs Let_def)

lemma between_prevote_delay:
  assumes "between w"
  shows "go_post (\<lambda>w'. sm_inv M w' \<and> rlc_VRV (sm_rlc w') \<noteq> None \<and> PrevoteHashCh (sm_rlc w') = PrevoteHashCh (sm_rlc w))
    (startTimer PrevoteDelayTimer (setStep StepPrevoteDelay w))"
  using assms by (simp add: between_def startTimer_def sm_inv_defs Let_def)

lemma between_choose:
  assumes "between w" "PrevoteHashCh (sm_rlc w)"
  shows "view_post (upd_rlc (\<lambda>rlc. rlc\<lparr>PrevConsideredHashes := []\<rparr>)
     (emit (ChooseProposedBlockRequest phs (PrevoteHashCh (sm_rlc w))) (setStep StepAwaitingPrecommits w)))"
  using assms by (simp add: between_def sm_inv_defs Let_def)

lemma considerNew_inv:
  assumes "sm_inv M w" "rlc_VRV (sm_rlc w) \<noteq> None" "PrevoteHashCh (sm_rlc w)"
  shows "view_post (considerNew phs b w)"
  using assms by (simp add: considerNew_def MarkReasonNewHashes_def sm_inv_defs Let_def)

lemmas between_rules = between_commit between_advance between_precommit_delay between_precommits between_choose considerNew_inv

lemma handleProposalViewUpdate_inv:
  assumes inv: "sm_inv M w" and e: "entered (sm_effects w)" and s: "rlc_S (sm_rlc w) = StepAwaitingProposal"
  shows "go_post view_post (handleProposalViewUpdate M vrv w)"
proof -
  have pre: "rlc_VRV (sm_rlc w) \<noteq> None" "PrevoteHashCh (sm_rlc w)" using inv e s by (simp_all add: sm_inv_def Let_def)
  obtain w1 where w1: "cancelTimer w = Ret w1" "between w1" "PrevoteHashCh (sm_rlc w1)"
    using early_cancel_between(1)[OF inv e] s pre by (auto simp: early_steps_def)
  have delay: "go_post view_post (gobind (startTimer PrevoteDelayTimer (setStep StepPrevoteDelay w1)) (\<lambda>w2. if phs = [] then Ret w2
      else if sm_cmBusy w2 then Panic m else Ret (considerNew phs True w2)))" for phs m
    using between_prevote_delay[OF w1(2)] w1(3) considerNew_inv
    by (cases "startTimer PrevoteDelayTimer (setStep StepPrevoteDelay w1)") auto
  show ?thesis
  proof (cases "ByzantineMinority (AvailablePower (rv_VoteSummary vrv))")
    case (Ret min)
    note m1 = Ret
    show ?thesis
      using between_rules(1-5)[OF w1(2)] w1(3) delay inv pre(1) considerNew_inv[OF inv pre]
      by (cases "ByzantineMajority (AvailablePower (rv_VoteSummary vrv))")
        (simp_all add: handleProposalViewUpdate_def Let_def m1 w1(1) split: option.split)
  qed (simp add: handleProposalViewUpdate_def Let_def)
qed

lemma handlePrevoteViewUpdate_inv:
  assumes inv: "sm_inv M w" and e: "entered (sm_effects w)" and s: "rlc_S (sm_rlc w) \<in> {StepAwaitingPrevotes, StepPrevoteDelay}"
  shows "go_post view_post (handlePrevoteViewUpdate M vrv w)"
proof -
  have early: "rlc_S (sm_rlc w) \<in> early_steps" using s by (auto simp: early_steps_def)
  have vrv: "rlc_VRV (sm_rlc w) \<noteq> None" using inv e by (simp add: sm_inv_def Let_def)
  obtain w1 where w1: "cancelIn StepPrevoteDelay w = Ret w1" "between w1"
    using early_cancel_between[OF inv e early] s by (cases "rlc_S (sm_rlc w) = StepPrevoteDelay") (auto simp: cancelIn_def)
  have delay: "go_post view_post (startTimer PrevoteDelayTimer (setStep StepPrevoteDelay w))" if "rlc_S (sm_rlc w) = StepAwaitingPrevotes"
    using between_prevote_delay[OF early_cancel_between(2)[OF inv e early that]]
    by (cases "startTimer PrevoteDelayTimer (setStep StepPrevoteDelay w)") auto
  show ?thesis
    using between_rules(1-4)[OF w1(2)] delay inv vrv
    by (cases "ByzantineMajority (AvailablePower (rv_VoteSummary vrv))") (simp_all add: handlePrevoteViewUpdate_def Let_def w1(1))
qed

text \<open>The later steps.\<close>

lemma handlePrecommitViewUpdate_inv:
  assumes inv: "sm_inv M w" and e: "entered (sm_effects w)" and s: "rlc_S (sm_rlc w) \<in> {StepAwaitingPrecommits, StepPrecommitDelay}"
  shows "go_post view_post (handlePrecommitViewUpdate M vrv w)"
proof -
  have w: "requests_ok w" "StepTimer (sm_rlc w) = CancelTimer (sm_rlc w)" "sm_timer w = CancelTimer (sm_rlc w)"
    "CancelTimer (sm_rlc w) \<longleftrightarrow> rlc_S (sm_rlc w) = StepPrecommitDelay" "decisions (sm_effects w) \<le> 1"
    "decisions (sm_effects w) = 0 \<longrightarrow> PrecommitHashCh (sm_rlc w)"
    "isParticipating M (sm_rlc w) \<longrightarrow> OutgoingActionsCh (sm_rlc w)" "rlc_VRV (sm_rlc w) \<noteq> None" "FinalizeRespCh (sm_rlc w)" "\<not> finalize_asked (sm_effects w)"
    using inv e s by (auto simp: sm_inv_def timed_steps_def Let_def)
  have adv: "go_post view_post (ignore_ok (advanceRound M w))"
    by (intro ignore_ok_inv advanceRound_inv sm_inv_movable[OF inv e])
  have commit: "go_post view_post (gobind (cancelIn StepPrecommitDelay w) (\<lambda>w1. ignore_ok (beginCommit vrv w1)))"
    using w e by (cases "rlc_S (sm_rlc w) = StepPrecommitDelay")
      (simp_all add: cancelIn_def cancelTimer_def ignore_ok_def beginCommit_def startTimer_def finalizeRequest_def sm_inv_defs Let_def split: option.split)
  have delay: "go_post view_post (startTimer PrecommitDelayTimer (setStep StepPrecommitDelay w))" if "rlc_S (sm_rlc w) = StepAwaitingPrecommits"
    using that w e by (simp add: startTimer_def sm_inv_defs Let_def)
  show ?thesis
    using adv commit delay inv w(8)
    by (cases "ByzantineMajority (AvailablePower (rv_VoteSummary vrv))") (simp_all add: handlePrecommitViewUpdate_def Let_def)
qed

lemma finalizeRequest_inv: "sm_inv M w \<Longrightarrow> FinalizeRespCh (sm_rlc w) \<Longrightarrow> rlc_S (sm_rlc w) \<in> {StepCommitWait, StepAwaitingFinalization} \<Longrightarrow>
    sm_inv M (finalizeRequest h r w)"
  by (simp add: finalizeRequest_def sm_inv_defs Let_def)

lemma handleCommitWaitViewUpdate_inv:
  assumes "sm_inv M w" "rlc_VRV (sm_rlc w) \<noteq> None" "rlc_S (sm_rlc w) \<in> {StepCommitWait, StepAwaitingFinalization}"
  shows "go_post view_post (handleCommitWaitViewUpdate vrv w)"
  using assms finalizeRequest_inv[OF assms(1) _ assms(3)]
  by (auto simp: handleCommitWaitViewUpdate_def finalizeRequest_def split: option.split)

lemma emit_Terminate_inv: "sm_inv M w \<Longrightarrow> sm_inv M (emit Terminate w)"
  by (simp add: sm_inv_defs Let_def)

lemma set_VRV_inv: "sm_inv M w \<Longrightarrow> sm_inv M (upd_rlc (\<lambda>rlc. rlc\<lparr>rlc_VRV := Some vrv\<rparr>) w)"
  by (simp add: sm_inv_defs Let_def)

lemma sm_inv_VRV: "sm_inv M w \<Longrightarrow> entered (sm_effects w) \<Longrightarrow> rlc_VRV (sm_rlc w) \<noteq> None"
  by (simp add: sm_inv_def Let_def)

text \<open>A view handler may enter another round; a jump ahead that comes with the view then needs that round to be live.\<close>

lemma view_switch_inv:
  assumes inv: "sm_inv M w" and e: "entered (sm_effects w)"
  shows "go_post view_post (case rlc_S (sm_rlc w) of
       StepAwaitingProposal \<Rightarrow> handleProposalViewUpdate M vrv w
     | StepAwaitingPrevotes \<Rightarrow> handlePrevoteViewUpdate M vrv w
     | StepPrevoteDelay \<Rightarrow> handlePrevoteViewUpdate M vrv w
     | StepAwaitingPrecommits \<Rightarrow> handlePrecommitViewUpdate M vrv w
     | StepPrecommitDelay \<Rightarrow> handlePrecommitViewUpdate M vrv w
     | StepCommitWait \<Rightarrow> handleCommitWaitViewUpdate vrv w
     | StepAwaitingFinalization \<Rightarrow> handleCommitWaitViewUpdate vrv w
     | StepInvalid \<Rightarrow> Panic ''TODO: handle view update for step'')"
  using handleProposalViewUpdate_inv[OF inv e] handlePrevoteViewUpdate_inv[OF inv e] handlePrecommitViewUpdate_inv[OF inv e]
    handleCommitWaitViewUpdate_inv[OF inv] sm_inv_VRV[OF inv e]
  by (cases "rlc_S (sm_rlc w)") simp_all

lemma view_post_movable: "sm_inv M w \<Longrightarrow> rlc_VRV (sm_rlc w) \<noteq> None \<Longrightarrow> movable True w"
  by (simp add: sm_inv_def movable_def timer_ok_def Let_def)

lemma view_post_jump:
  assumes "view_post w"
  shows "go_post view_post (case j of None \<Rightarrow> Ret w | Some j \<Rightarrow> handleJumpAhead M j w)"
proof (cases j)
  case (Some j)
  show ?thesis
  proof (cases "sm_cancelled w")
    case True
    then show ?thesis using handleJumpAhead_cancelled[OF True, of M j] Some
      by (cases "handleJumpAhead M j w") auto
  next
    case False
    then show ?thesis using handleJumpAhead_inv[of w j] view_post_movable[of w] assms Some by simp
  qed
qed (use assms in simp)

lemma handleViewUpdate_inv:
  assumes inv: "sm_inv M w" and e: "entered (sm_effects w)"
  shows "go_post view_post (handleViewUpdate M v w)"
proof -
  obtain old where old: "rlc_VRV (sm_rlc w) = Some old" using sm_inv_VRV[OF inv e] by blast
  have jump: "go_post view_post (handleJumpAhead M j w)" for j
    by (rule handleJumpAhead_inv[OF sm_inv_movable[OF inv e]])
  let ?switch = "case rlc_S (sm_rlc w) of
       StepAwaitingProposal \<Rightarrow> handleProposalViewUpdate M (smrv_VRV v) w
     | StepAwaitingPrevotes \<Rightarrow> handlePrevoteViewUpdate M (smrv_VRV v) w
     | StepPrevoteDelay \<Rightarrow> handlePrevoteViewUpdate M (smrv_VRV v) w
     | StepAwaitingPrecommits \<Rightarrow> handlePrecommitViewUpdate M (smrv_VRV v) w
     | StepPrecommitDelay \<Rightarrow> handlePrecommitViewUpdate M (smrv_VRV v) w
     | StepCommitWait \<Rightarrow> handleCommitWaitViewUpdate (smrv_VRV v) w
     | StepAwaitingFinalization \<Rightarrow> handleCommitWaitViewUpdate (smrv_VRV v) w
     | StepInvalid \<Rightarrow> Panic ''TODO: handle view update for step''"
  let ?store = "\<lambda>w1. case rlc_VRV (sm_rlc w1) of
       Some cur \<Rightarrow> if rv_Height (smrv_VRV v) = rv_Height cur \<and> rv_Round (smrv_VRV v) = rv_Round cur
                   then upd_rlc (\<lambda>rlc. rlc\<lparr>rlc_VRV := Some (smrv_VRV v)\<rparr>) w1 else w1
     | None \<Rightarrow> w1"
  have "view_post (?store w1)" if "view_post w1" for w1
    using that set_VRV_inv[of w1] by (auto split: option.split)
  then have "go_post view_post (gobind ?switch (\<lambda>w1. case smrv_JumpAhead v of None \<Rightarrow> Ret (?store w1) | Some j \<Rightarrow> handleJumpAhead M j (?store w1)))"
    using view_switch_inv[OF inv e, of "smrv_VRV v"] view_post_jump by (cases ?switch) auto
  then show ?thesis
    using inv old jump emit_Terminate_inv[OF inv]
    by (simp add: handleViewUpdate_def Let_def split: option.split)
qed

end

end
