(* ===== verification/StateMachineRun.thy ===== *)
theory StateMachineRun
  imports StateMachineInv
begin

text \<open>
  The invariant of the state machine is kept by the recording of actions, by finalizations, timers, committed heights
  and block data arrivals, holds after the startup of \<open>initializeRLC\<close>, and so holds in every run of the kernel.
\<close>

section \<open>Actions\<close>

lemma sm_inv_frame [simp]:
  "sm_inv M (w\<lparr>sm_stores := st\<rparr>) = sm_inv M w" "sm_inv M (w\<lparr>sm_answers := ans\<rparr>) = sm_inv M w"
  "sm_inv M (w\<lparr>sm_cmBusy := b\<rparr>) = sm_inv M w" "sm_inv M (w\<lparr>sm_arrivals := as\<rparr>) = sm_inv M w"
  "sm_inv M (emit (ActionSent h r act) w) = sm_inv M w"
  by (simp_all add: sm_inv_def requests_ok_def Let_def)

lemma sm_inv_input [simp]: "sm_inv M (sm_input answers busy arrivals w) = sm_inv M w"
  by (simp add: sm_input_def)

text \<open>Sending an action changes nothing but the list of effects.\<close>

lemma sendAction_Ret:
  assumes "sendAction act w = Ret w'"
  shows "w' = emit (ActionSent (rlc_H (sm_rlc w)) (rlc_R (sm_rlc w)) act) w"
  using assms by (simp add: sendAction_def split: if_splits)

lemma recordPrevote_elim:
  assumes "recordPrevote M h w = Ret (ok, w')"
  obtains "\<not> ok" "w' = w" | "afterPrevote w = Ret (ok, w')"
  | sg content sig st a w1 where "m_signer M = Some sg"
      "sg_Prevote sg \<lparr>vt_Height = rlc_H (sm_rlc w), vt_Round = rlc_R (sm_rlc w), vt_BlockHash = h\<rparr> = Inr (content, sig)"
      "ss_SavePrevoteAction (m_stores M) (sg_PubKey sg)
         \<lparr>vt_Height = rlc_H (sm_rlc w), vt_Round = rlc_R (sm_rlc w), vt_BlockHash = h\<rparr> sig (sm_stores w) = Inr st"
      "a = zeroAction\<lparr>act_Prevote := \<lparr>TargetHash = h, SignContent = content, ss_Sig = sig\<rparr>\<rparr>"
      "sendAction a (w\<lparr>sm_stores := st\<rparr>) = Ret w1" "afterPrevote w1 = Ret (ok, w')"
proof (cases "m_signer M")
  case None
  then show ?thesis using assms that(2) by (simp add: recordPrevote_def Let_def)
next
  case (Some sg)
  let ?vt = "\<lparr>vt_Height = rlc_H (sm_rlc w), vt_Round = rlc_R (sm_rlc w), vt_BlockHash = h\<rparr>"
  show ?thesis
  proof (cases "isParticipating M (sm_rlc w)")
    case True
    show ?thesis
    proof (cases "sg_Prevote sg ?vt")
      case (Inr cs)
      obtain content sig where cs: "cs = (content, sig)" by fastforce
      show ?thesis
      proof (cases "ss_SavePrevoteAction (m_stores M) (sg_PubKey sg) ?vt sig (sm_stores w)")
        case (Inr st)
        let ?a = "zeroAction\<lparr>act_Prevote := \<lparr>TargetHash = h, SignContent = content, ss_Sig = sig\<rparr>\<rparr>"
        obtain w1 where w1: "sendAction ?a (w\<lparr>sm_stores := st\<rparr>) = Ret w1" "afterPrevote w1 = Ret (ok, w')"
          using assms Some True Inr \<open>sg_Prevote sg ?vt = Inr cs\<close> by (auto simp: recordPrevote_def Let_def cs)
        show ?thesis by (rule that(3)[OF Some \<open>sg_Prevote sg ?vt = Inr cs\<close>[unfolded cs] Inr refl w1])
      qed (use assms Some True Inr that(1) in \<open>simp add: recordPrevote_def Let_def cs\<close>)
    qed (use assms Some True that(1) in \<open>simp add: recordPrevote_def Let_def\<close>)
  qed (use assms Some that(2) in \<open>simp add: recordPrevote_def Let_def\<close>)
qed

lemma recordPrecommit_elim:
  assumes "recordPrecommit M h w = Ret (ok, w')"
  obtains "w' = w"
  | sg content sig st a where "m_signer M = Some sg"
      "sg_Precommit sg \<lparr>vt_Height = rlc_H (sm_rlc w), vt_Round = rlc_R (sm_rlc w), vt_BlockHash = h\<rparr> = Inr (content, sig)"
      "ss_SavePrecommitAction (m_stores M) (sg_PubKey sg)
         \<lparr>vt_Height = rlc_H (sm_rlc w), vt_Round = rlc_R (sm_rlc w), vt_BlockHash = h\<rparr> sig (sm_stores w) = Inr st"
      "a = zeroAction\<lparr>act_Precommit := \<lparr>TargetHash = h, SignContent = content, ss_Sig = sig\<rparr>\<rparr>"
      "sendAction a (w\<lparr>sm_stores := st\<rparr>) = Ret w'"
proof (cases "m_signer M")
  case None
  then show ?thesis using assms that(1) by (simp add: recordPrecommit_def Let_def)
next
  case (Some sg)
  let ?vt = "\<lparr>vt_Height = rlc_H (sm_rlc w), vt_Round = rlc_R (sm_rlc w), vt_BlockHash = h\<rparr>"
  show ?thesis
  proof (cases "isParticipating M (sm_rlc w)")
    case True
    show ?thesis
    proof (cases "sg_Precommit sg ?vt")
      case (Inr cs)
      obtain content sig where cs: "cs = (content, sig)" by fastforce
      show ?thesis
      proof (cases "ss_SavePrecommitAction (m_stores M) (sg_PubKey sg) ?vt sig (sm_stores w)")
        case (Inr st)
        let ?a = "zeroAction\<lparr>act_Precommit := \<lparr>TargetHash = h, SignContent = content, ss_Sig = sig\<rparr>\<rparr>"
        have "sendAction ?a (w\<lparr>sm_stores := st\<rparr>) = Ret w'"
          using assms Some True Inr \<open>sg_Precommit sg ?vt = Inr cs\<close> by (auto simp: recordPrecommit_def Let_def cs)
        then show ?thesis by (rule that(2)[OF Some \<open>sg_Precommit sg ?vt = Inr cs\<close>[unfolded cs] Inr refl])
      qed (use assms Some True Inr that(1) in \<open>simp add: recordPrecommit_def Let_def cs\<close>)
    qed (use assms Some True that(1) in \<open>simp add: recordPrecommit_def Let_def\<close>)
  qed (use assms Some that(1) in \<open>simp add: recordPrecommit_def Let_def\<close>)
qed

text \<open>The header that a proposal becomes.\<close>

definition proposalHeader :: "'p RoundLifecycle \<Rightarrow> CommitProof \<Rightarrow> Proposal \<Rightarrow> bytes \<Rightarrow> Header" where
  "proposalHeader rlc pcp p hash = \<lparr>Hash = hash, PrevBlockHash = rlc_PrevBlockHash rlc, h_Height = rlc_H rlc,
     h_PrevCommitProof = pcp, h_ValidatorSet = CurValSet rlc, NextValidatorSet = PrevFinNextValSet rlc,
     DataID = prop_DataID p, PrevAppStateHash = PrevFinAppStateHash rlc, h_Annotations = BlockAnnotations p\<rparr>"

lemma recordProposedHeader_elim:
  assumes "recordProposedHeader M p w = Ret (ok, w')"
  obtains "\<not> ok" "w' = w"
  | vrv sg hash ph st where "ok" "rlc_VRV (sm_rlc w) = Some vrv" "m_signer M = Some sg"
      "hs_Block (m_hashScheme M) (proposalHeader (sm_rlc w) (rv_PrevCommitProof vrv) p []) = Inr hash"
      "sg_SignProposedHeader sg \<lparr>ph_Header = proposalHeader (sm_rlc w) (rv_PrevCommitProof vrv) p hash, ph_Round = rlc_R (sm_rlc w),
         ProposerPubKey = Some (sg_PubKey sg), ph_Annotations = ProposalAnnotations p, Signature = []\<rparr> = Inr ph"
      "ss_SaveProposedHeaderAction (m_stores M) ph (sm_stores w) = Inr st"
      "sendAction (zeroAction\<lparr>act_PH := ph\<rparr>) (w\<lparr>sm_stores := st\<rparr>) = Ret w'"
proof -
  obtain vrv where vrv: "rlc_VRV (sm_rlc w) = Some vrv"
    using assms by (cases "rlc_VRV (sm_rlc w)") (simp_all add: recordProposedHeader_def Let_def)
  obtain sg where sg: "m_signer M = Some sg"
    using assms vrv by (cases "m_signer M") (simp_all add: recordProposedHeader_def Let_def)
  note run = assms[unfolded recordProposedHeader_def Let_def vrv sg option.case]
  show ?thesis
  proof (cases "hs_Block (m_hashScheme M) (proposalHeader (sm_rlc w) (rv_PrevCommitProof vrv) p [])")
    case (Inl e)
    then show ?thesis using run that(1) by (simp add: proposalHeader_def)
  next
    case (Inr hash)
    let ?ph = "\<lparr>ph_Header = proposalHeader (sm_rlc w) (rv_PrevCommitProof vrv) p hash, ph_Round = rlc_R (sm_rlc w),
         ProposerPubKey = Some (sg_PubKey sg), ph_Annotations = ProposalAnnotations p, Signature = []\<rparr>"
    note hash = Inr
    show ?thesis
    proof (cases "sg_SignProposedHeader sg ?ph")
      case (Inl e)
      then show ?thesis using run hash that(1) by (simp add: proposalHeader_def)
    next
      case (Inr ph)
      note ph = Inr
      show ?thesis
      proof (cases "ss_SaveProposedHeaderAction (m_stores M) ph (sm_stores w)")
        case (Inl e)
        then show ?thesis using run hash ph that(1) by (simp add: proposalHeader_def)
      next
        case (Inr st)
        have "ok \<and> sendAction (zeroAction\<lparr>act_PH := ph\<rparr>) (w\<lparr>sm_stores := st\<rparr>) = Ret w'"
          using run hash ph Inr by (auto simp: proposalHeader_def)
        then show ?thesis using that(2)[OF _ vrv sg hash ph Inr] by blast
      qed
    qed
  qed
qed

lemma afterPrevote_post:
  assumes "sm_inv M w" "entered (sm_effects w)"
  shows "go_post (\<lambda>(ok, w'). sm_inv M (upd_rlc (\<lambda>rlc. rlc\<lparr>PrevoteHashCh := False\<rparr>) w')) (afterPrevote w)"
  using assms
  by (cases "rlc_S (sm_rlc w) = StepAwaitingProposal") (simp_all add: afterPrevote_def cancelTimer_def sm_inv_defs Let_def)

lemma afterPrevote_inv:
  assumes "sm_inv M w" "entered (sm_effects w)" "afterPrevote w = Ret (ok, w')"
  shows "sm_inv M (upd_rlc (\<lambda>rlc. rlc\<lparr>PrevoteHashCh := False\<rparr>) w')"
  using afterPrevote_post[OF assms(1,2)] unfolding assms(3) by simp

lemma recordPrevote_inv:
  assumes inv: "sm_inv M w" and e: "entered (sm_effects w)" and run: "recordPrevote M h w = Ret (ok, w')" and ok: "ok"
  shows "sm_inv M (upd_rlc (\<lambda>rlc. rlc\<lparr>PrevoteHashCh := False\<rparr>) w')"
  using run
proof (cases rule: recordPrevote_elim)
  case 1
  then show ?thesis using ok by simp
next
  case 2
  then show ?thesis by (rule afterPrevote_inv[OF inv e])
next
  case (3 sg content sig st act w1)
  note w1 = sendAction_Ret[OF 3(5)]
  show ?thesis by (rule afterPrevote_inv[OF _ _ 3(6)]) (use inv e in \<open>simp_all add: w1\<close>)
qed

lemma recordPrecommit_inv:
  assumes inv: "sm_inv M w" and asked: "precommit_asked (sm_effects w)" and run: "recordPrecommit M h w = Ret (ok, w')" and ok: "ok"
  shows "sm_inv M (upd_rlc (\<lambda>rlc. rlc\<lparr>PrecommitHashCh := False\<rparr>) w')"
proof -
  have close: "sm_inv M (upd_rlc (\<lambda>rlc. rlc\<lparr>PrecommitHashCh := False\<rparr>) v)" if "sm_inv M v" "decisions (sm_effects v) \<noteq> 0" for v
    using that by (simp add: sm_inv_defs Let_def)
  have d: "decisions (sm_effects w) \<noteq> 0" using asked by (simp add: precommit_asked_decisions)
  from run show ?thesis
  proof (cases rule: recordPrecommit_elim)
    case (2 sg content sig st act)
    note w1 = sendAction_Ret[OF 2(5)]
    show ?thesis by (rule close) (use inv d in \<open>simp_all add: w1\<close>)
  qed (use close[OF inv d] in simp)
qed

lemma recordProposedHeader_inv:
  assumes inv: "sm_inv M w" and run: "recordProposedHeader M p w = Ret (ok, w')" and ok: "ok"
  shows "sm_inv M (upd_rlc (\<lambda>rlc. rlc\<lparr>ProposalCh := False\<rparr>) w')"
proof -
  have close: "sm_inv M (upd_rlc (\<lambda>rlc. rlc\<lparr>ProposalCh := False\<rparr>) v)" if "sm_inv M v" for v
    using that by (simp add: sm_inv_defs Let_def)
  from run show ?thesis
  proof (cases rule: recordProposedHeader_elim)
    case (2 vrv sg hash ph st)
    show ?thesis by (rule close) (use inv in \<open>simp add: sendAction_Ret[OF 2(7)]\<close>)
  qed (use ok in simp)
qed

section \<open>Finalization, timers and arrivals\<close>

lemma movedI: "ok \<longrightarrow> sm_cancelled w \<or> sm_inv M w \<Longrightarrow> moved M False (ok, w)"
  by (simp add: moved_def)

lemma sm_inv_finalized:
  assumes "sm_inv M w" "finalize_asked (sm_effects w)"
  shows "sm_inv M (upd_rlc (\<lambda>rlc. rlc\<lparr>FinalizedValSet := vs, FinalizedAppStateHash := ah, FinalizedBlockHash := bh,
     FinalizeRespCh := False\<rparr>) w)"
  using assms by (simp add: sm_inv_defs Let_def)

lemma sm_inv_movableF: "sm_inv M w \<Longrightarrow> movable False w"
  by (simp add: sm_inv_def movable_def timer_ok_def Let_def)

lemma movable_frame [simp]: "movable v (w\<lparr>sm_stores := st\<rparr>) = movable v w"
  by (simp add: movable_def timer_ok_def requests_ok_def)

context position_store
begin

lemma handleFinalization_inv:
  assumes inv: "rlc_S (sm_rlc w) \<noteq> StepAwaitingFinalization \<Longrightarrow> sm_inv M w \<and> finalize_asked (sm_effects w)" and mv: "movable False w"
  shows "go_post (moved M False) (handleFinalization M resp w)"
proof -
  let ?upd = "\<lambda>vs w. upd_rlc (\<lambda>rlc. rlc\<lparr>FinalizedValSet := vs, FinalizedAppStateHash := fr_AppStateHash resp,
     FinalizedBlockHash := fr_BlockHash resp, FinalizeRespCh := False\<rparr>) w"
  have "go_post (moved M False) (advanceHeight M ((?upd vs w)\<lparr>sm_stores := st\<rparr>))" for vs st
    using mv by (intro advanceHeight_inv) (simp add: movable_def timer_ok_def requests_ok_def)
  moreover have "moved M False (True, (?upd vs w)\<lparr>sm_stores := st\<rparr>)" if "rlc_S (sm_rlc w) \<noteq> StepAwaitingFinalization" for vs st
    using inv[OF that] by (intro movedI) (simp add: sm_inv_finalized)
  ultimately show ?thesis
    by (simp add: handleFinalization_def Let_def moved_def split: sum.split)
qed

lemma handleHeightCommitted_inv:
  assumes "sm_inv M w"
  shows "go_post (moved M False) (handleHeightCommitted M w)"
proof -
  let ?w1 = "w\<lparr>sm_timer := sm_timer w \<and> \<not> CancelTimer (sm_rlc w),
                 sm_rlc := (sm_rlc w)\<lparr>HeightCommitted := NilChan, CommitWaitElapsed := True, StepTimer := False, CancelTimer := False\<rparr>\<rparr>"
  have "go_post (moved M False) (advanceHeight M ?w1)"
    using assms by (intro advanceHeight_inv) (simp add: sm_inv_def movable_def timer_ok_def requests_ok_def Let_def)
  moreover have "sm_inv M (setStep StepAwaitingFinalization ?w1)" if "rlc_S (sm_rlc w) = StepCommitWait"
    using assms that by (simp add: sm_inv_defs Let_def)
  moreover have "sm_inv M ?w1" if "rlc_S (sm_rlc w) = StepAwaitingFinalization"
    using assms that by (simp add: sm_inv_defs Let_def)
  ultimately show ?thesis by (simp add: handleHeightCommitted_def Let_def moved_def)
qed

lemma handleTimerElapsed_inv:
  assumes inv: "sm_inv M w" and t: "StepTimer (sm_rlc w)"
  shows "go_post (moved M False) (handleTimerElapsed M (w\<lparr>sm_timer := False\<rparr>))"
proof -
  have w1: "requests_ok w" "CancelTimer (sm_rlc w)" "CancelTimer (sm_rlc w) \<longleftrightarrow> entered (sm_effects w) \<and> rlc_S (sm_rlc w) \<in> timed_steps"
    using inv t unfolding sm_inv_def Let_def by (elim conjE, simp)+
  then have w: "requests_ok w" "CancelTimer (sm_rlc w)" "entered (sm_effects w)" "rlc_S (sm_rlc w) \<in> timed_steps"
    "rlc_VRV (sm_rlc w) \<noteq> None"
    using sm_inv_VRV[OF inv] by simp_all
  have adv: "go_post (moved M False) (advanceRound M (w\<lparr>sm_timer := False, sm_rlc := (sm_rlc w)\<lparr>StepTimer := False, CancelTimer := False\<rparr>\<rparr>))"
    using w(1) by (intro advanceRound_inv) (simp add: movable_def timer_ok_def requests_ok_def)
  have advh: "go_post (moved M False) (advanceHeight M (w\<lparr>sm_timer := False,
      sm_rlc := (sm_rlc w)\<lparr>CommitWaitElapsed := True, StepTimer := False, CancelTimer := False\<rparr>\<rparr>))"
    using w(1) by (intro advanceHeight_inv) (simp add: movable_def timer_ok_def requests_ok_def)
  from w(4) consider "rlc_S (sm_rlc w) = StepAwaitingProposal" | "rlc_S (sm_rlc w) = StepPrevoteDelay"
    | "rlc_S (sm_rlc w) = StepPrecommitDelay" | "rlc_S (sm_rlc w) = StepCommitWait" by (auto simp: timed_steps_def)
  then show ?thesis
  proof cases
    case 1
    then show ?thesis using inv w
      by (simp add: handleTimerElapsed_def Let_def cancelTimer_def moved_def sm_inv_defs split: option.split)
  next
    case 2
    then show ?thesis using inv w
      by (simp add: handleTimerElapsed_def Let_def cancelTimer_def decidePrecommit_def moved_def sm_inv_defs split: option.split)
  next
    case 3
    then show ?thesis using w adv by (simp add: handleTimerElapsed_def Let_def cancelTimer_def)
  next
    case 4
    then show ?thesis using inv w advh
      by (simp add: handleTimerElapsed_def Let_def cancelTimer_def upd_rlc_def setStep_def moved_def sm_inv_defs)
  qed
qed

lemma handleBlockDataArrival_inv:
  assumes "sm_inv M w"
  shows "go_post (moved M False) (handleBlockDataArrival d w)"
proof -
  have "sm_inv M (emit (ConsiderProposedBlocksRequest phs r True) (w\<lparr>sm_arrivals := []\<rparr>))" for phs r
    using assms by (simp add: sm_inv_defs Let_def)
  then show ?thesis using assms by (simp add: handleBlockDataArrival_def Let_def moved_def split: option.split)
qed

end

section \<open>Startup and runs\<close>

lemma loadPrevFinalization_keeps:
  assumes "loadPrevFinalization M st h r vrv rlc = Ret (Some rlc')"
  shows "StepTimer rlc' = StepTimer rlc" "CancelTimer rlc' = CancelTimer rlc" "CurValSet rlc' = CurValSet rlc"
    "OutgoingActionsCh rlc' = OutgoingActionsCh rlc" "ProposalCh rlc' = ProposalCh rlc" "PrevoteHashCh rlc' = PrevoteHashCh rlc"
    "PrecommitHashCh rlc' = PrecommitHashCh rlc" "FinalizeRespCh rlc' = FinalizeRespCh rlc"
    "rlc_H rlc' = rlc_H rlc" "rlc_R rlc' = rlc_R rlc"
  using assms by (auto simp: loadPrevFinalization_def Let_def split: if_splits sum.splits)

text \<open>The world in which \<open>initializeRLC\<close> asks the consensus strategy to enter the first round.\<close>

definition first_round :: "('p, 'b, 's) StateMachine \<Rightarrow> ('p, 's) sm_world \<Rightarrow> bool" where
  "first_round M w \<longleftrightarrow> requests_ok w \<and> \<not> StepTimer (sm_rlc w) \<and> \<not> CancelTimer (sm_rlc w) \<and> \<not> sm_timer w \<and>
     decisions (sm_effects w) = 0 \<and> \<not> finalize_asked (sm_effects w) \<and>
     OutgoingActionsCh (sm_rlc w) = isParticipating M (sm_rlc w) \<and>
     PrevoteHashCh (sm_rlc w) \<and> PrecommitHashCh (sm_rlc w) \<and> FinalizeRespCh (sm_rlc w)"

lemma no_effects [simp]: "decisions [] = 0" "\<not> entered []" "\<not> finalize_asked []"
  by (simp_all add: decisions_def entered_def finalize_asked_def this_round_def)

lemma isParticipating_CurValSet: "CurValSet rlc = CurValSet rlc' \<Longrightarrow> isParticipating M rlc = isParticipating M rlc'"
  by (cases "m_signer M") (simp_all add: isParticipating_def)

lemma zeroRLC_sel [simp]: "\<not> StepTimer zeroRLC" "\<not> CancelTimer zeroRLC" "rlc_VRV zeroRLC = None" 
  by (simp_all add: zeroRLC_def)

lemma sm_start_sel [simp]: "sm_rlc (sm_start st ans) = zeroRLC" "sm_effects (sm_start st ans) = []" "\<not> sm_timer (sm_start st ans)"
  "sm_stores (sm_start st ans) = st" "sm_answers (sm_start st ans) = ans" "\<not> sm_cancelled (sm_start st ans)"
  by (simp_all add: sm_start_def)

lemma sendInitialActionSet_elim:
  fixes M :: "('p, 'b, 's) StateMachine"
  assumes "sendInitialActionSet M (sm_start st ans) = Ret (Some (rer, enterErr), w1)"
  obtains h r cur prev w2 where "initialHeightRound M st = Some (h, r)" "initialValSets M st h r = Some (cur, prev)"
    "w2 = rlc_Reset h r ((emit (RoundEntrance \<lparr>re_H = h, re_R = r, re_PubKey = map_option sg_PubKey (m_signer M),
         re_Actions = isParticipating M (zeroRLC\<lparr>CurValSet := cur, PrevValSet := prev\<rparr> :: 'p RoundLifecycle), re_HeightCommitted = OpenChan\<rparr>)
       (upd_rlc (\<lambda>rlc. rlc\<lparr>CurValSet := cur, PrevValSet := prev\<rparr>) (sm_start st ans)))\<lparr>sm_answers := tl ans\<rparr>)"
    "(\<exists>ch. rer = RespCH ch \<and> w1 = finalizeRequest (ch_Header ch) (cp_Round (ch_Proof ch)) w2) \<or>
     (\<exists>vrv rlc. rer = RespVRV (vrv\<lparr>ProposedHeaders := rejectMismatchedProposedHeaders (ProposedHeaders vrv) rlc\<rparr>) \<and> w1 = w2\<lparr>sm_rlc := rlc\<rparr> \<and>
        loadPrevFinalization M st h r vrv ((sm_rlc w2)\<lparr>OutgoingActionsCh :=
          isParticipating M (zeroRLC\<lparr>CurValSet := cur, PrevValSet := prev\<rparr> :: 'p RoundLifecycle)\<rparr>) = Ret (Some rlc))"
proof -
  obtain h r where hr: "initialHeightRound M st = Some (h, r)"
    using assms by (cases "initialHeightRound M st") (auto simp: sendInitialActionSet_def)
  obtain cur prev where vs: "initialValSets M st h r = Some (cur, prev)"
    using assms hr by (cases "initialValSets M st h r") (auto simp: sendInitialActionSet_def)
  obtain a rest where ans: "ans = a # rest"
    using assms hr vs by (cases ans) (auto simp: sendInitialActionSet_def Let_def)
  obtain rer0 err0 where a: "a = (rer0, err0)" by fastforce
  let ?w0 = "upd_rlc (\<lambda>rlc. rlc\<lparr>CurValSet := cur, PrevValSet := prev\<rparr>) (sm_start st ans) :: ('p, 's) sm_world"
  let ?p = "isParticipating M (zeroRLC\<lparr>CurValSet := cur, PrevValSet := prev\<rparr> :: 'p RoundLifecycle)"
  define w2 where "w2 = rlc_Reset h r ((emit (RoundEntrance \<lparr>re_H = h, re_R = r, re_PubKey = map_option sg_PubKey (m_signer M),
         re_Actions = ?p, re_HeightCommitted = OpenChan\<rparr>) ?w0)\<lparr>sm_answers := tl ans\<rparr>)"
  have st2: "sm_stores w2 = st" by (simp add: w2_def rlc_Reset_def Let_def)
  have eq: "sendInitialActionSet M (sm_start st ans) = (case rer0 of
          RespVRV vrv \<Rightarrow> gobind (loadPrevFinalization M (sm_stores w2) h r vrv ((sm_rlc w2)\<lparr>OutgoingActionsCh := ?p\<rparr>)) (\<lambda>out. case out of
               None \<Rightarrow> Ret (None, w2)
             | Some rlc \<Rightarrow> Ret (Some (RespVRV (vrv\<lparr>ProposedHeaders := rejectMismatchedProposedHeaders (ProposedHeaders vrv) rlc\<rparr>), err0),
                 w2\<lparr>sm_rlc := rlc\<rparr>))
        | RespCH ch \<Rightarrow> Ret (Some (rer0, err0), finalizeRequest (ch_Header ch) (cp_Round (ch_Proof ch)) w2))"
    using hr vs ans a by (cases rer0) (simp_all add: sendInitialActionSet_def Let_def w2_def)
  show ?thesis
    using assms[unfolded eq] by (intro that[OF hr vs w2_def]) (auto simp: st2 split: RoundEntranceResponse.splits option.splits)
qed

lemma rlc_Reset_frame [simp]: "sm_effects (rlc_Reset h r w) = sm_effects w" "sm_stores (rlc_Reset h r w) = sm_stores w"
  "sm_answers (rlc_Reset h r w) = sm_answers w" "CurValSet (sm_rlc (rlc_Reset h r w)) = CurValSet (sm_rlc w)"
  by (simp_all add: rlc_Reset_def Let_def)

lemma sendInitialActionSet_first:
  assumes "sendInitialActionSet M (sm_start st ans) = Ret (Some (RespVRV vrv, enterErr), w1)"
  shows "first_round M w1"
  using assms
proof (cases rule: sendInitialActionSet_elim)
  case (1 h r cur prev w2)
  obtain v rlc where rlc: "w1 = w2\<lparr>sm_rlc := rlc\<rparr>" "loadPrevFinalization M st h r v ((sm_rlc w2)\<lparr>OutgoingActionsCh :=
          isParticipating M (zeroRLC\<lparr>CurValSet := cur, PrevValSet := prev\<rparr> :: 'a RoundLifecycle)\<rparr>) = Ret (Some rlc)"
    using 1(4) by auto
  have "fresh w2" unfolding 1(3) by (rule rlc_Reset_fresh) (simp_all add: timer_ok_def requests_ok_def)
  moreover have "sm_effects w2 = [RoundEntrance \<lparr>re_H = h, re_R = r, re_PubKey = map_option sg_PubKey (m_signer M),
         re_Actions = isParticipating M (zeroRLC\<lparr>CurValSet := cur, PrevValSet := prev\<rparr> :: 'a RoundLifecycle), re_HeightCommitted = OpenChan\<rparr>]"
    unfolding 1(3) by simp
  moreover have "CurValSet (sm_rlc w2) = cur" unfolding 1(3) by simp
  then have "isParticipating M rlc = isParticipating M (zeroRLC\<lparr>CurValSet := cur, PrevValSet := prev\<rparr> :: 'a RoundLifecycle)"
    by (intro isParticipating_CurValSet) (simp add: loadPrevFinalization_keeps[OF rlc(2)])
  ultimately show ?thesis
    using decisions_append[of "[]" "sm_effects w2"] finalize_asked_append[of "[]" "sm_effects w2"]
    by (simp add: first_round_def fresh_def rlc(1) loadPrevFinalization_keeps[OF rlc(2)] requests_ok_def Let_def)
qed

lemma sendInitialActionSet_replay:
  assumes "sendInitialActionSet M (sm_start st ans) = Ret (Some (RespCH ch, enterErr), w1)"
  shows "movable False w1" "rlc_VRV (sm_rlc w1) = None"
proof -
  from assms obtain h r cur prev w2 where w2: "w2 = rlc_Reset h r ((emit (RoundEntrance \<lparr>re_H = h, re_R = r, re_PubKey = map_option sg_PubKey (m_signer M),
         re_Actions = isParticipating M (zeroRLC\<lparr>CurValSet := cur, PrevValSet := prev\<rparr> :: 'a RoundLifecycle), re_HeightCommitted = OpenChan\<rparr>)
       (upd_rlc (\<lambda>rlc. rlc\<lparr>CurValSet := cur, PrevValSet := prev\<rparr>) (sm_start st ans)))\<lparr>sm_answers := tl ans\<rparr>)"
      "w1 = finalizeRequest (ch_Header ch) (cp_Round (ch_Proof ch)) w2"
    by (elim sendInitialActionSet_elim) auto
  have "fresh w2" unfolding w2(1) by (rule rlc_Reset_fresh) (simp_all add: timer_ok_def requests_ok_def)
  then show "movable False w1"
    by (simp add: w2(2) finalizeRequest_def movable_def timer_ok_def fresh_def Let_def requests_ok_def)
  show "rlc_VRV (sm_rlc w1) = None" by (simp add: w2 finalizeRequest_def)
qed

lemma suppressProposal_first:
  assumes "suppressProposal M vrv w = (ok, vrv1, w2)" "first_round M w"
  shows "first_round M w2"
  using assms
  by (auto simp: suppressProposal_def first_round_def requests_ok_def Let_def split: option.splits if_splits sum.splits)

lemma first_round_entering: "first_round M w \<Longrightarrow> entering M (emit (EnterRoundRequest rv ch) w)"
  by (simp add: first_round_def entering_def requests_ok_def)

lemma initializeRLC_elim:
  assumes "initializeRLC M w = Ret (ok, w')"
  obtains "\<not> ok" "sendInitialActionSet M w = Ret (None, w')"
  | ch err where "ok" "sendInitialActionSet M w = Ret (Some (RespCH ch, err), w')"
  | vrv err w1 b vrv1 w2 where "\<not> ok" "sendInitialActionSet M w = Ret (Some (RespVRV vrv, err), w1)"
      "suppressProposal M vrv w1 = (b, vrv1, w2)"
      "w' = w2 \<or> w' = emit (EnterRoundRequest (RoundView.RoundView.truncate vrv1) (ProposalCh (sm_rlc w2))) w2"
  | vrv err w1 b vrv1 w2 where "sendInitialActionSet M w = Ret (Some (RespVRV vrv, err), w1)"
      "suppressProposal M vrv w1 = (b, vrv1, w2)"
      "beginRoundLive (advanceRound M) vrv1 (emit (EnterRoundRequest (RoundView.RoundView.truncate vrv1) (ProposalCh (sm_rlc w2))) w2) = Ret (ok, w')"
proof -
  obtain out w1 where send: "sendInitialActionSet M w = Ret (out, w1)" using assms by (auto simp: initializeRLC_def)
  note run = assms[unfolded initializeRLC_def send gobind.simps prod.case]
  show ?thesis
  proof (cases out)
    case (Some re)
    obtain rer err where re: "re = (rer, err)" by fastforce
    show ?thesis
    proof (cases rer)
      case (RespCH ch)
      then show ?thesis using that(2)[of ch err] run send Some re by simp
    next
      case (RespVRV vrv)
      obtain b vrv1 w2 where sup: "suppressProposal M vrv w1 = (b, vrv1, w2)" by (metis prod_cases3)
      have s: "sendInitialActionSet M w = Ret (Some (RespVRV vrv, err), w1)" using send Some re RespVRV by simp
      show ?thesis
      proof (cases "b \<and> err = None")
        case True
        then show ?thesis using that(4)[OF s sup] run sup Some re RespVRV by (simp add: Let_def)
      next
        case False
        then show ?thesis using that(3)[OF _ s sup] run sup Some re RespVRV by (cases b; cases err) (simp_all add: Let_def)
      qed
    qed
  qed (use that(1) run send in simp)
qed

context position_store
begin

lemma initializeRLC_inv:
  assumes run: "initializeRLC M (sm_start st ans) = Ret (ok, w)" and ok: "ok" "\<not> sm_cancelled w"
  shows "if IsReplaying (sm_rlc w) then movable False w else sm_inv M w"
  using run
proof (cases rule: initializeRLC_elim)
  case (2 ch err)
  then show ?thesis using sendInitialActionSet_replay[of M st ans ch err w] by (simp add: IsReplaying_def)
next
  case (4 vrv err w1 b vrv1 w2)
  have "go_post (moved M False) (beginRoundLive (advanceRound M) vrv1
      (emit (EnterRoundRequest (RoundView.RoundView.truncate vrv1) (ProposalCh (sm_rlc w2))) w2))"
    by (rule beginRoundLive_inv[OF first_round_entering[OF suppressProposal_first[OF 4(2) sendInitialActionSet_first[OF 4(1)]]] _ advanceRound_inv]) simp
  then show ?thesis using 4(3) ok sm_inv_movableF by (auto simp: moved_def)
qed (use ok in simp_all)

text \<open>A live event.\<close>

lemma after_okE:
  assumes "after_ok f r = Ret (ok, w')" "ok"
  obtains w1 where "r = Ret (True, w1)" "w' = upd_rlc f w1"
  using assms by (auto simp: after_ok_def split: if_splits)

lemma sm_inv_prevote_entered: "sm_inv M w \<Longrightarrow> PrevoteHashCh (sm_rlc w) \<Longrightarrow> entered (sm_effects w)"
  by (auto simp: sm_inv_def Let_def)

lemma moved_Ret: "go_post (moved M False) r \<Longrightarrow> r = Ret (ok, w') \<Longrightarrow> ok \<Longrightarrow> \<not> sm_cancelled w' \<Longrightarrow> sm_inv M w'"
  by (auto simp: moved_def)

lemma handleLiveEvent_inv:
  assumes inv: "sm_inv M w" and en: "sm_enabled ev w" and run: "handleLiveEvent M ev w = Ret (ok, w')" and ok: "ok" "\<not> sm_cancelled w'"
  shows "sm_inv M w'"
proof (cases ev)
  case (EvView v)
  then have "handleViewUpdate M v w = Ret w'" using run by auto
  then show ?thesis using handleViewUpdate_inv[OF inv, of v] en EvView ok by simp
next
  case (EvProposal p)
  then obtain w1 where "recordProposedHeader M p w = Ret (True, w1)" "w' = upd_rlc (\<lambda>rlc. rlc\<lparr>ProposalCh := False\<rparr>) w1"
    using run ok(1) by (auto elim: after_okE)
  then show ?thesis using recordProposedHeader_inv[OF inv] by simp
next
  case (EvPrevote he)
  then obtain h w1 where "recordPrevote M h w = Ret (True, w1)" "w' = upd_rlc (\<lambda>rlc. rlc\<lparr>PrevoteHashCh := False\<rparr>) w1"
    using run ok(1) by (auto elim: after_okE split: sum.splits)
  then show ?thesis using recordPrevote_inv[OF inv sm_inv_prevote_entered[OF inv]] EvPrevote en by simp
next
  case (EvPrecommit he)
  then obtain h w1 where "recordPrecommit M h w = Ret (True, w1)" "w' = upd_rlc (\<lambda>rlc. rlc\<lparr>PrecommitHashCh := False\<rparr>) w1"
    using run ok(1) by (auto elim: after_okE split: sum.splits)
  then show ?thesis using recordPrecommit_inv[OF inv] EvPrecommit en by simp
next
  case (EvFinalize resp)
  then show ?thesis using moved_Ret[OF handleFinalization_inv[OF _ sm_inv_movableF[OF inv]], of resp ok w'] inv en run ok by simp
next
  case EvTimer
  then show ?thesis using moved_Ret[OF handleTimerElapsed_inv[OF inv], of ok w'] en run ok by simp
next
  case EvHeightCommitted
  then show ?thesis using moved_Ret[OF handleHeightCommitted_inv[OF inv], of ok w'] run ok by simp
next
  case (EvArrival a)
  then show ?thesis using moved_Ret[OF handleBlockDataArrival_inv[OF inv], of a ok w'] run ok by simp
qed

lemma smrun_inv: "smrun M st mode ok w \<Longrightarrow> ok \<Longrightarrow> \<not> sm_cancelled w \<Longrightarrow> if mode then movable False w else sm_inv M w"
proof (induction rule: smrun.induct)
  case (start answers ok w)
  then show ?case by (rule initializeRLC_inv)
next
  case (live w ev answers busy arrivals ok w')
  then show ?case using handleLiveEvent_inv[of "sm_input answers busy arrivals w"] by simp
next
  case (catchup w resp answers busy arrivals ok w')
  let ?w = "setStep StepAwaitingFinalization (sm_input answers busy arrivals w)"
  have "movable False ?w" using catchup by (simp add: movable_def timer_ok_def requests_ok_def sm_input_def)
  then have "go_post (moved M False) (handleFinalization M resp ?w)" by (intro handleFinalization_inv) simp_all
  then have "sm_inv M w'" using catchup by (simp add: handleCatchupEvent_def moved_def)
  then show ?case by (simp add: sm_inv_movableF)
qed

end

end
