(* ===== verification/StateMachineFrame.thy ===== *)
theory StateMachineFrame
  imports StateMachineRun
begin

text \<open>
  What the operations of the state machine leave alone: a view of the world that does not depend on what a round changes
  is kept by everything that happens within a height (locale \<open>round_frame\<close>), and one that does not depend on the lifecycle at
  all is kept by every operation but the recording of actions (locale \<open>sm_frame\<close>).
\<close>


definition is_action :: "'p sm_effect \<Rightarrow> bool" where
  "is_action e = (case e of ActionSent _ _ _ \<Rightarrow> True | _ \<Rightarrow> False)"

lemma is_action_simps [simp]:
  "\<not> is_action (EnterRoundRequest rv ch)" "\<not> is_action (ConsiderProposedBlocksRequest phs rs ch)"
  "\<not> is_action (ChooseProposedBlockRequest phs ch)" "\<not> is_action (DecidePrecommitRequest vs ch)" "\<not> is_action (FinalizeRequest fr)"
  "\<not> is_action (RoundEntrance re)" "is_action (ActionSent h r a)" "\<not> is_action (TimerStarted t h r)" "\<not> is_action Terminate"
  by (simp_all add: is_action_def)

text \<open>What a round leaves alone: the height and everything that comes from finalizations.\<close>

definition core :: "'p RoundLifecycle \<Rightarrow> u64 \<times> ValidatorSet \<times> ValidatorSet \<times> bytes \<times> ValidatorSet \<times> bytes \<times> ValidatorSet \<times> bytes \<times> bytes" where
  "core rlc = (rlc_H rlc, CurValSet rlc, PrevValSet rlc, rlc_PrevBlockHash rlc, PrevFinNextValSet rlc, PrevFinAppStateHash rlc,
     FinalizedValSet rlc, FinalizedAppStateHash rlc, FinalizedBlockHash rlc)"

lemma core_upd [simp]:
  "core (rlc\<lparr>rlc_R := x1\<rparr>) = core rlc" "core (rlc\<lparr>rlc_S := x2\<rparr>) = core rlc" "core (rlc\<lparr>StepTimer := x3\<rparr>) = core rlc"
  "core (rlc\<lparr>CancelTimer := x3\<rparr>) = core rlc" "core (rlc\<lparr>HeightCommitted := x4\<rparr>) = core rlc" "core (rlc\<lparr>rlc_VRV := x5\<rparr>) = core rlc"
  "core (rlc\<lparr>PrevConsideredHashes := x6\<rparr>) = core rlc" "core (rlc\<lparr>OutgoingActionsCh := x3\<rparr>) = core rlc"
  "core (rlc\<lparr>ProposalCh := x3\<rparr>) = core rlc" "core (rlc\<lparr>PrevoteHashCh := x3\<rparr>) = core rlc" "core (rlc\<lparr>PrecommitHashCh := x3\<rparr>) = core rlc"
  "core (rlc\<lparr>FinalizeRespCh := x3\<rparr>) = core rlc" "core (rlc\<lparr>CommitWaitElapsed := x3\<rparr>) = core rlc" "core (MarkCatchingUp rlc) = core rlc"
  by (simp_all add: core_def MarkCatchingUp_def)

text \<open>A view \<open>Q\<close> of the world that does not look at what one round changes is kept by all that happens in a height.\<close>

locale round_frame =
  fixes M :: "('p, 'b, 's) StateMachine" and Q :: "('p, 's) sm_world \<Rightarrow> 'x"
  assumes frame_core: "core rlc = core (sm_rlc w) \<Longrightarrow> Q (w\<lparr>sm_rlc := rlc\<rparr>) = Q w"
    and frame_timer: "Q (w\<lparr>sm_timer := t\<rparr>) = Q w"
    and frame_answers: "Q (w\<lparr>sm_answers := ans\<rparr>) = Q w"
    and frame_cancelled: "Q (w\<lparr>sm_cancelled := b\<rparr>) = Q w"
    and frame_busy: "Q (w\<lparr>sm_cmBusy := b\<rparr>) = Q w"
    and frame_arrivals: "Q (w\<lparr>sm_arrivals := as\<rparr>) = Q w"
    and frame_emit: "\<not> is_action e \<Longrightarrow> Q (emit e w) = Q w"
    and frame_position: "ss_SetStateMachineHeightRound (m_stores M) h r (sm_stores w) = Inr st \<Longrightarrow> Q (w\<lparr>sm_stores := st\<rparr>) = Q w"
begin

lemma frame_upd: "core (f (sm_rlc w)) = core (sm_rlc w) \<Longrightarrow> Q (upd_rlc f w) = Q w"
  by (simp add: upd_rlc_def frame_core)

lemmas frames = frame_core frame_timer frame_answers frame_cancelled frame_busy frame_arrivals frame_emit frame_upd

abbreviation kept :: "('p, 's) sm_world \<Rightarrow> ('p, 's) sm_world go \<Rightarrow> bool" where
  "kept w r \<equiv> go_post (\<lambda>w'. Q w' = Q w) r"

abbreviation keeps :: "('p, 's) sm_world \<Rightarrow> (bool \<times> ('p, 's) sm_world) go \<Rightarrow> bool" where
  "keeps w r \<equiv> go_post (\<lambda>(ok, w'). Q w' = Q w) r"

lemma keeps_bind: "keeps w r \<Longrightarrow> (\<And>ok w'. Q w' = Q w \<Longrightarrow> keeps w (f (ok, w'))) \<Longrightarrow> keeps w (gobind r f)"
  by (cases r) auto

lemma kept_bind: "kept w r \<Longrightarrow> (\<And>w'. Q w' = Q w \<Longrightarrow> go_post P (f w')) \<Longrightarrow> go_post P (gobind r f)"
  by (cases r) auto

lemma kept_startTimer: "kept w (startTimer t w)"
  by (simp add: startTimer_def frames)

lemma kept_cancelTimer: "kept w (cancelTimer w)"
  by (simp add: cancelTimer_def frames)

lemma kept_setStep: "Q (setStep s w) = Q w"
  by (simp add: setStep_def frames)

lemma kept_considerNew: "Q (considerNew phs b w) = Q w"
  by (simp add: considerNew_def MarkReasonNewHashes_def Let_def frames)

lemma kept_decidePrecommit: "Q (decidePrecommit vs w) = Q w"
  by (simp add: decidePrecommit_def frames)

lemma kept_finalizeRequest: "Q (finalizeRequest h r w) = Q w"
  by (simp add: finalizeRequest_def frames)

lemma kept_rlc_Reset: "h = rlc_H (sm_rlc w) \<Longrightarrow> Q (rlc_Reset h r w) = Q w"
  by (simp add: rlc_Reset_def Let_def frame_core frame_timer core_def)

lemmas kept_ops = kept_setStep kept_considerNew kept_decidePrecommit kept_finalizeRequest kept_rlc_Reset

lemma keeps_beginCommit: "keeps w (beginCommit vrv w)"
  by (simp add: beginCommit_def startTimer_def kept_ops frames split: option.split)

lemma keeps_startInitialTimer: "kept w (startInitialTimer w)"
  using kept_startTimer by (simp add: startInitialTimer_def split: Step.split)

lemma keeps_beginRoundLive:
  assumes "keeps w (adv w)"
  shows "keeps w (beginRoundLive adv vrv w)"
proof -
  have finish: "keeps w (gobind (startInitialTimer (upd_rlc f w')) (\<lambda>w2. Ret (True, w2)))"
    if "Q w' = Q w" "\<And>rlc. core (f rlc) = core rlc" for f w'
    using keeps_startInitialTimer[of "upd_rlc f w'"] that by (cases "startInitialTimer (upd_rlc f w')") (simp_all add: frames)
  have commit: "keeps w (gobind (beginCommit vrv w) (\<lambda>(ok, w1). if \<not> ok then Ret (False, w1) else Ret (True, upd_rlc f w1)))"
    if "\<And>rlc. core (f rlc) = core rlc" for f
    by (rule keeps_bind[OF keeps_beginCommit]) (simp add: frames that)
  show ?thesis
  proof (cases "GetStepFromVoteSummary (rv_VoteSummary vrv)")
    case (Ret step)
    then show ?thesis using assms finish commit by (cases step) (simp_all add: beginRoundLive_def Let_def kept_ops)
  qed (simp add: beginRoundLive_def Let_def)
qed

lemma keeps_advance:
  assumes "\<And>w. keeps w (adv w)"
  shows "keeps w (advance M adv re w)"
proof -
  have "keeps w (beginRoundLive adv vrv w')" if "Q w' = Q w" for vrv w'
    using keeps_beginRoundLive[of w' adv vrv] assms[of w'] that by simp
  then show ?thesis
    by (simp add: advance_def Let_def frames kept_ops split: list.split RoundEntranceResponse.split option.split)
qed

lemma keeps_advanceRoundStep:
  assumes "\<And>w. keeps w (adv w)"
  shows "keeps w (advanceRoundStep M adv w)"
proof -
  have "keeps w (advance M adv re w')" if "Q w' = Q w" for re w'
    using keeps_advance[OF assms, of w' re] that by simp
  then show ?thesis using frame_position[of _ _ "rlc_Reset h r w" for h r]
    by (simp add: advanceRoundStep_def Let_def kept_ops frames split: sum.split)
qed

lemma keeps_advanceRounds: "keeps w (advanceRounds M n w)"
  by (induction n arbitrary: w) (simp_all add: keeps_advanceRoundStep frames)

lemma keeps_advanceRound: "keeps w (advanceRound M w)"
  by (simp add: advanceRound_def keeps_advanceRounds)

lemma keeps_round_after: "Q w' = Q w \<Longrightarrow> keeps w (advanceRound M w')"
  using keeps_advanceRound[of w'] by simp

lemma kept_ignore_ok: "keeps w r \<Longrightarrow> kept w (ignore_ok r)"
  by (cases r) (auto simp: ignore_ok_def)

lemma kept_jump: "Q w' = Q w \<Longrightarrow> kept w (handleJumpAhead M vrv w')"
  using kept_ignore_ok[OF keeps_advanceRound[of w']] by (simp add: handleJumpAhead_def ignore_ok_def)

lemma kept_advance_commit:
  assumes "Q w' = Q w"
  shows "kept w (ignore_ok (advanceRound M w'))" "kept w (ignore_ok (beginCommit vrv w'))"
  using kept_ignore_ok[OF keeps_advanceRound[of w']] kept_ignore_ok[OF keeps_beginCommit[of w' vrv]] assms by simp_all

lemma kept_timer_after: "Q w' = Q w \<Longrightarrow> kept w (startTimer t w')"
  using kept_startTimer[of w' t] by simp

lemma kept_cancelIn: "kept w (cancelIn s w)"
  by (simp add: cancelIn_def kept_cancelTimer)

lemmas kept_steps = kept_advance_commit kept_timer_after kept_ops frames

lemma kept_handleProposalViewUpdate: "kept w (handleProposalViewUpdate M vrv w)"
proof (cases "ByzantineMinority (AvailablePower (rv_VoteSummary vrv))")
  case (Ret min)
  note m1 = Ret
  show ?thesis
  proof (cases "ByzantineMajority (AvailablePower (rv_VoteSummary vrv))")
    case (Ret maj)
    show ?thesis
      unfolding handleProposalViewUpdate_def Let_def m1 Ret gobind.simps
      by (auto simp: kept_steps intro!: kept_bind[OF kept_cancelTimer] kept_bind[OF kept_timer_after] split: option.split)
  qed (simp add: handleProposalViewUpdate_def Let_def m1)
qed (simp add: handleProposalViewUpdate_def Let_def)

lemma kept_handlePrevoteViewUpdate: "kept w (handlePrevoteViewUpdate M vrv w)"
proof (cases "ByzantineMajority (AvailablePower (rv_VoteSummary vrv))")
  case (Ret maj)
  show ?thesis
    unfolding handlePrevoteViewUpdate_def Let_def Ret gobind.simps
    by (auto simp: kept_steps intro!: kept_bind[OF kept_cancelIn] kept_bind[OF kept_timer_after])
qed (simp add: handlePrevoteViewUpdate_def Let_def)

lemma kept_handlePrecommitViewUpdate: "kept w (handlePrecommitViewUpdate M vrv w)"
proof (cases "ByzantineMajority (AvailablePower (rv_VoteSummary vrv))")
  case (Ret maj)
  show ?thesis
    unfolding handlePrecommitViewUpdate_def Let_def Ret gobind.simps
    by (auto simp: kept_steps intro!: kept_bind[OF kept_cancelIn])
qed (simp add: handlePrecommitViewUpdate_def Let_def)

lemma kept_handleCommitWaitViewUpdate: "kept w (handleCommitWaitViewUpdate vrv w)"
  by (simp add: handleCommitWaitViewUpdate_def kept_ops split: option.split)

lemma kept_handleViewUpdate: "kept w (handleViewUpdate M v w)"
proof -
  let ?switch = "case rlc_S (sm_rlc w) of
       StepAwaitingProposal \<Rightarrow> handleProposalViewUpdate M (smrv_VRV v) w
     | StepAwaitingPrevotes \<Rightarrow> handlePrevoteViewUpdate M (smrv_VRV v) w
     | StepPrevoteDelay \<Rightarrow> handlePrevoteViewUpdate M (smrv_VRV v) w
     | StepAwaitingPrecommits \<Rightarrow> handlePrecommitViewUpdate M (smrv_VRV v) w
     | StepPrecommitDelay \<Rightarrow> handlePrecommitViewUpdate M (smrv_VRV v) w
     | StepCommitWait \<Rightarrow> handleCommitWaitViewUpdate (smrv_VRV v) w
     | StepAwaitingFinalization \<Rightarrow> handleCommitWaitViewUpdate (smrv_VRV v) w
     | StepInvalid \<Rightarrow> Panic ''TODO: handle view update for step''"
  have switch: "kept w ?switch"
    using kept_handleProposalViewUpdate kept_handlePrevoteViewUpdate kept_handlePrecommitViewUpdate kept_handleCommitWaitViewUpdate
    by (simp split: Step.split)
  have rest: "kept w (gobind ?switch (\<lambda>w1.
      let w2 = (case rlc_VRV (sm_rlc w1) of
                  Some cur \<Rightarrow> if rv_Height (smrv_VRV v) = rv_Height cur \<and> rv_Round (smrv_VRV v) = rv_Round cur
                              then upd_rlc (\<lambda>rlc. rlc\<lparr>rlc_VRV := Some (smrv_VRV v)\<rparr>) w1 else w1
                | None \<Rightarrow> w1) in
      case smrv_JumpAhead v of None \<Rightarrow> Ret w2 | Some j \<Rightarrow> handleJumpAhead M j w2))"
    by (rule kept_bind[OF switch]) (auto simp: Let_def frames kept_jump split: option.split)
  then show ?thesis
    by (cases "smrv_JumpAhead v"; cases "rlc_VRV (sm_rlc w)") (simp_all add: handleViewUpdate_def Let_def kept_jump frames)
qed

lemma kept_bindT: "kept w r \<Longrightarrow> (\<And>w'. Q w' = Q w \<Longrightarrow> keeps w (f w')) \<Longrightarrow> keeps w (gobind r f)"
  by (cases r) auto

lemma kept_cancel_after: "Q w' = Q w \<Longrightarrow> kept w (cancelTimer w')"
  using kept_cancelTimer[of w'] by simp

lemma keeps_handleBlockDataArrival: "keeps w (handleBlockDataArrival d w)"
  by (simp add: handleBlockDataArrival_def Let_def frames split: option.split)

lemma frame_input: "Q (sm_input answers busy arrivals w) = Q w"
proof -
  have "Q (w\<lparr>sm_answers := answers, sm_cmBusy := busy, sm_arrivals := arrivals\<rparr>) = Q w"
    by (metis frame_answers frame_busy frame_arrivals)
  then show ?thesis by (simp add: sm_input_def)
qed

lemma keeps_afterPrevote: "keeps w (afterPrevote w)"
  by (auto simp: afterPrevote_def kept_ops frames intro!: kept_bindT[OF kept_cancel_after])

lemma keeps_begin_after: "Q w' = Q w \<Longrightarrow> keeps w (beginRoundLive (advanceRound M) vrv w')"
  using keeps_beginRoundLive[of w' "advanceRound M" vrv] keeps_advanceRound[of w'] by simp

end

text \<open>A view that does not look at the lifecycle at all is kept by the change of heights as well.\<close>

locale sm_frame = round_frame +
  assumes frame_rlc: "Q (w\<lparr>sm_rlc := rlc\<rparr>) = Q w"
    and frame_finalization: "ss_SaveFinalization (m_stores M) h r bh vs ah (sm_stores w) = Inr st \<Longrightarrow> Q (w\<lparr>sm_stores := st\<rparr>) = Q w"
begin

lemma frame_upd_any: "Q (upd_rlc f w) = Q w"
  by (simp add: upd_rlc_def frame_rlc)

lemma frame_timer_rlc: "Q (w\<lparr>sm_timer := t, sm_rlc := rlc\<rparr>) = Q w"
  by (simp add: frame_rlc frame_timer)

lemma frame_Reset: "Q (rlc_Reset h r w) = Q w"
  by (simp add: rlc_Reset_def Let_def frame_rlc frame_timer)

lemmas all_frames = frame_rlc frame_upd_any frame_timer_rlc frame_Reset frames

lemma keeps_advanceHeight: "keeps w (advanceHeight M w)"
proof -
  have "keeps w (advance M (advanceRound M) re w')" if "Q w' = Q w" for re w'
    using keeps_advance[OF keeps_advanceRound, of w' re] that by simp
  then show ?thesis using frame_position[of _ _ "rlc_Reset h r (upd_rlc CycleFinalization w)" for h r]
    by (simp add: advanceHeight_def Let_def kept_ops all_frames split: sum.split)
qed

lemma keeps_handleFinalization: "keeps w (handleFinalization M resp w)"
proof -
  have "keeps w (advanceHeight M w')" if "Q w' = Q w" for w'
    using keeps_advanceHeight[of w'] that by simp
  moreover have "Q ((upd_rlc f w)\<lparr>sm_stores := st\<rparr>) = Q w"
    if "ss_SaveFinalization (m_stores M) h r bh vs ah (sm_stores w) = Inr st" for f h r bh vs ah st
    using frame_finalization[of h r bh vs ah "upd_rlc f w" st] that by (simp add: all_frames)
  ultimately show ?thesis
    by (simp add: handleFinalization_def Let_def all_frames split: sum.split)
qed

lemma keeps_after: "Q w' = Q w \<Longrightarrow> keeps w (advanceRound M w')" "Q w' = Q w \<Longrightarrow> keeps w (advanceHeight M w')"
  using keeps_round_after keeps_advanceHeight[of w'] by simp_all

lemma keeps_handleTimerElapsed: "keeps w (handleTimerElapsed M w)"
  by (auto simp: handleTimerElapsed_def Let_def kept_ops all_frames keeps_after intro!: kept_bindT[OF kept_cancel_after]
      split: Step.split option.split)

lemma keeps_handleHeightCommitted: "keeps w (handleHeightCommitted M w)"
  by (simp add: handleHeightCommitted_def Let_def kept_ops keeps_after all_frames)

lemma keeps_sendInitialActionSet: "go_post (\<lambda>(out, w'). Q w' = Q w) (sendInitialActionSet M w)"
proof -
  have "Q ((rlc_Reset h r w1)\<lparr>sm_rlc := rlc\<rparr>) = Q w1" for h r w1 rlc by (simp add: all_frames kept_ops)
  then show ?thesis
    by (auto simp: sendInitialActionSet_def Let_def all_frames kept_ops go_post_bind go_post_iff split: option.split list.split RoundEntranceResponse.split)
qed

end

end
