(* ===== verification/StateMachineSign.thy ===== *)
theory StateMachineSign
  imports StateMachineFrame
begin

text \<open>
  The in-memory stores of the state machine, the interpretations of its locales on them, and the relation between the
  actions that it has handed out and those in the action store, over the life of a validator with restarts.
\<close>


section \<open>The in-memory stores\<close>

record sm_mem =
  smm_actions :: ActionStore
  smm_fins :: FinalizationStore
  smm_position :: StateMachineStore

definition MemSMStores :: "sm_mem sm_store_ops" where
  "MemSMStores = \<lparr>
     ss_StateMachineHeightRound = (\<lambda>s. StateMachineHeightRound (smm_position s)),
     ss_SetStateMachineHeightRound = (\<lambda>h r s. map_sum id (\<lambda>p. s\<lparr>smm_position := p\<rparr>) (SetStateMachineHeightRound (smm_position s) h r)),
     ss_LoadFinalizationByHeight = (\<lambda>s. LoadFinalizationByHeight (smm_fins s)),
     ss_SaveFinalization = (\<lambda>h r bh vs ah s. map_sum id (\<lambda>f. s\<lparr>smm_fins := f\<rparr>) (SaveFinalization (smm_fins s) h r bh vs ah)),
     ss_LoadActions = (\<lambda>s. LoadActions (smm_actions s)),
     ss_SaveProposedHeaderAction = (\<lambda>ph s. map_sum id (\<lambda>a. s\<lparr>smm_actions := a\<rparr>) (SaveProposedHeaderAction (smm_actions s) ph)),
     ss_SavePrevoteAction = (\<lambda>k vt sig s. map_sum id (\<lambda>a. s\<lparr>smm_actions := a\<rparr>) (SavePrevoteAction (smm_actions s) k vt sig)),
     ss_SavePrecommitAction = (\<lambda>k vt sig s. map_sum id (\<lambda>a. s\<lparr>smm_actions := a\<rparr>) (SavePrecommitAction (smm_actions s) k vt sig))\<rparr>"

definition NewSMStores :: sm_mem where
  "NewSMStores = \<lparr>smm_actions = NewActionStore, smm_fins = NewFinalizationStore, smm_position = NewStateMachineStore\<rparr>"

interpretation mem_position: position_store "M\<lparr>m_stores := MemSMStores\<rparr>" for M :: "('p, 'b, sm_mem) StateMachine"
  by unfold_locales (simp add: MemSMStores_def SetStateMachineHeightRound_def)

definition action_part :: "('p, sm_mem) sm_world \<Rightarrow> ActionStore \<times> 'p sm_effect list" where
  "action_part w = (smm_actions (sm_stores w), filter is_action (sm_effects w))"

interpretation mem_actions: sm_frame "M\<lparr>m_stores := MemSMStores\<rparr>" action_part for M :: "('p, 'b, sm_mem) StateMachine"
  by unfold_locales
    (auto simp: action_part_def MemSMStores_def SetStateMachineHeightRound_def SaveFinalization_def Let_def emit_def split: if_splits)

section \<open>Signed votes\<close>

definition sent_vote :: "(StateMachineRoundAction \<Rightarrow> ScopedSignature) \<Rightarrow> u64 \<Rightarrow> u32 \<Rightarrow> 'p sm_effect \<Rightarrow> ScopedSignature list" where
  "sent_vote sel h r e = (case e of
     ActionSent h' r' act \<Rightarrow> if h' = h \<and> r' = r \<and> ss_Sig (sel act) \<noteq> [] then [sel act] else []
   | _ \<Rightarrow> [])"

definition sent_votes :: "(StateMachineRoundAction \<Rightarrow> ScopedSignature) \<Rightarrow> 'p sm_effect list \<Rightarrow> u64 \<Rightarrow> u32 \<Rightarrow> ScopedSignature list" where
  "sent_votes sel effs h r = concat (map (sent_vote sel h r) effs)"

definition sent_headers :: "'p sm_effect list \<Rightarrow> u64 \<Rightarrow> u32 \<Rightarrow> ProposedHeader list" where
  "sent_headers effs h r = concat (map (\<lambda>e. case e of
     ActionSent _ _ act \<Rightarrow> if h_Height (ph_Header (act_PH act)) = h \<and> ph_Round (act_PH act) = r then [act_PH act] else []
   | _ \<Rightarrow> []) effs)"

lemma sent_votes_filter: "sent_votes sel (filter is_action effs) h r = sent_votes sel effs h r"
  by (induction effs) (auto simp: sent_votes_def sent_vote_def is_action_def split: sm_effect.split)

lemma sent_headers_filter: "sent_headers (filter is_action effs) h r = sent_headers effs h r"
  by (induction effs) (auto simp: sent_headers_def is_action_def split: sm_effect.split)

lemma sent_votes_append [simp]: "sent_votes sel (effs @ effs') h r = sent_votes sel effs h r @ sent_votes sel effs' h r"
  by (simp add: sent_votes_def)

lemma sent_headers_append [simp]: "sent_headers (effs @ effs') h r = sent_headers effs h r @ sent_headers effs' h r"
  by (simp add: sent_headers_def)

lemma sent_votes_single:
  "sent_votes sel [ActionSent h' r' act] h r = (if h' = h \<and> r' = r \<and> ss_Sig (sel act) \<noteq> [] then [sel act] else [])"
  by (simp add: sent_votes_def sent_vote_def)

lemma sent_headers_single:
  "sent_headers [ActionSent h' r' act] h r =
     (if h_Height (ph_Header (act_PH act)) = h \<and> ph_Round (act_PH act) = r then [act_PH act] else [])"
  by (simp add: sent_headers_def)

text \<open>What was signed is what the action store holds.\<close>

definition vote_kept :: "(StateMachineRoundAction \<Rightarrow> ScopedSignature) \<Rightarrow> (RoundActions \<Rightarrow> bytes) \<Rightarrow> (RoundActions \<Rightarrow> bytes) \<Rightarrow>
    ActionStore \<Rightarrow> 'p sm_effect list \<Rightarrow> bool" where
  "vote_kept sel target sig A effs \<longleftrightarrow> (\<forall>h r. sent_votes sel effs h r = [] \<or>
     (\<exists>content. sig (actions_at A (h, r)) \<noteq> [] \<and>
       sent_votes sel effs h r = [\<lparr>TargetHash = target (actions_at A (h, r)), SignContent = content, ss_Sig = sig (actions_at A (h, r))\<rparr>]))"

definition header_kept :: "ActionStore \<Rightarrow> 'p sm_effect list \<Rightarrow> bool" where
  "header_kept A effs \<longleftrightarrow> (\<forall>h r. h \<noteq> 0 \<longrightarrow> (\<forall>ph \<in> set (sent_headers effs h r). ra_ProposedHeader (actions_at A (h, r)) = ph)) \<and>
     (\<forall>h r. h_Height (ph_Header (ra_ProposedHeader (actions_at A (h, r)))) = 0 \<or>
        h_Height (ph_Header (ra_ProposedHeader (actions_at A (h, r)))) = h \<and> ph_Round (ra_ProposedHeader (actions_at A (h, r))) = r)"

definition signed_kept :: "ActionStore \<Rightarrow> 'p sm_effect list \<Rightarrow> bool" where
  "signed_kept A effs \<longleftrightarrow> vote_kept act_Prevote PrevoteTarget PrevoteSignature A effs \<and>
     vote_kept act_Precommit PrecommitTarget PrecommitSignature A effs \<and> header_kept A effs"

lemma signed_kept_filter: "signed_kept A (pre @ filter is_action effs) = signed_kept A (pre @ effs)"
  by (simp add: signed_kept_def vote_kept_def header_kept_def sent_votes_filter sent_headers_filter)

abbreviation kept_in :: "'p sm_effect list \<Rightarrow> ('p, sm_mem) sm_world \<Rightarrow> bool" where
  "kept_in pre w \<equiv> signed_kept (smm_actions (sm_stores w)) (pre @ sm_effects w)"

lemma kept_in_frame: "action_part w' = action_part w \<Longrightarrow> kept_in pre w \<Longrightarrow> kept_in pre w'"
  using signed_kept_filter[of "smm_actions (sm_stores w)" pre "sm_effects w"]
    signed_kept_filter[of "smm_actions (sm_stores w)" pre "sm_effects w'"]
  by (simp add: action_part_def)

text \<open>A vote that the store accepts was not signed before.\<close>

lemma SavePrevoteAction_Inr:
  assumes "SavePrevoteAction A k vt sig = Inr A'"
  shows "PrevoteSignature (actions_at A (vt_Height vt, vt_Round vt)) = []"
    and "A' = A((vt_Height vt, vt_Round vt) \<mapsto> (actions_at A (vt_Height vt, vt_Round vt))\<lparr>ra_Height := vt_Height vt, ra_Round := vt_Round vt,
                 PrevoteTarget := vt_BlockHash vt, PrevoteSignature := sig, ra_PubKey := Some k\<rparr>)"
  using assms by (auto simp: SavePrevoteAction_def Let_def actions_at_def zeroRoundActions_def split: if_splits option.splits)

lemma SavePrecommitAction_Inr:
  assumes "SavePrecommitAction A k vt sig = Inr A'"
  shows "PrecommitSignature (actions_at A (vt_Height vt, vt_Round vt)) = []"
    and "A' = A((vt_Height vt, vt_Round vt) \<mapsto> (actions_at A (vt_Height vt, vt_Round vt))\<lparr>ra_Height := vt_Height vt, ra_Round := vt_Round vt,
                 PrecommitTarget := vt_BlockHash vt, PrecommitSignature := sig, ra_PubKey := Some k\<rparr>)"
  using assms by (auto simp: SavePrecommitAction_def Let_def actions_at_def zeroRoundActions_def split: if_splits option.splits)

lemma SaveProposedHeaderAction_Inr:
  assumes "SaveProposedHeaderAction A ph = Inr A'"
  shows "h_Height (ph_Header (ra_ProposedHeader (actions_at A (h_Height (ph_Header ph), ph_Round ph)))) = 0"
    and "A' = A((h_Height (ph_Header ph), ph_Round ph) \<mapsto> (actions_at A (h_Height (ph_Header ph), ph_Round ph))\<lparr>
                 ra_Height := h_Height (ph_Header ph), ra_Round := ph_Round ph, ra_ProposedHeader := ph\<rparr>)"
  using assms by (auto simp: SaveProposedHeaderAction_def Let_def actions_at_def zeroRoundActions_def zeroProposedHeader_def zeroHeader_def
      split: if_splits option.splits)

lemma actions_at_upd: "actions_at (A(hr \<mapsto> ra)) hr' = (if hr' = hr then ra else actions_at A hr')"
  by (simp add: actions_at_def)

lemma vote_kept_new:
  assumes kept: "vote_kept sel target sig A effs" and old: "sig (actions_at A (h, r)) = []"
    and new: "target ra = TargetHash (sel act)" "sig ra = ss_Sig (sel act)"
  shows "vote_kept sel target sig (A((h, r) \<mapsto> ra)) (effs @ [ActionSent h r act])"
  unfolding vote_kept_def
proof (intro allI)
  fix h' r'
  have "\<exists>c. sel act = \<lparr>TargetHash = target ra, SignContent = c, ss_Sig = sig ra\<rparr>" using new by (cases "sel act") simp
  then show "sent_votes sel (effs @ [ActionSent h r act]) h' r' = [] \<or>
      (\<exists>content. sig (actions_at (A((h, r) \<mapsto> ra)) (h', r')) \<noteq> [] \<and> sent_votes sel (effs @ [ActionSent h r act]) h' r' =
        [\<lparr>TargetHash = target (actions_at (A((h, r) \<mapsto> ra)) (h', r')), SignContent = content, ss_Sig = sig (actions_at (A((h, r) \<mapsto> ra)) (h', r'))\<rparr>])"
    using kept[unfolded vote_kept_def, rule_format, of h' r'] old new by (auto simp: sent_votes_single actions_at_upd)
qed

lemma vote_kept_other:
  assumes kept: "vote_kept sel target sig A effs" and none: "ss_Sig (sel act) = []"
    and same: "target ra = target (actions_at A hr)" "sig ra = sig (actions_at A hr)"
  shows "vote_kept sel target sig (A(hr \<mapsto> ra)) (effs @ [ActionSent h r act])"
  using kept same none by (auto simp: vote_kept_def sent_votes_single actions_at_upd)

lemma header_kept_vote:
  assumes kept: "header_kept A effs" and none: "h_Height (ph_Header (act_PH act)) = 0"
    and same: "ra_ProposedHeader ra = ra_ProposedHeader (actions_at A hr)"
  shows "header_kept (A(hr \<mapsto> ra)) (effs @ [ActionSent h r act])"
  using kept same none by (auto simp: header_kept_def sent_headers_single actions_at_upd)

lemma header_kept_new:
  assumes kept: "header_kept A effs"
    and old: "h_Height (ph_Header (ra_ProposedHeader (actions_at A (h_Height (ph_Header (act_PH act)), ph_Round (act_PH act))))) = 0"
    and new: "ra_ProposedHeader ra = act_PH act"
  shows "header_kept (A((h_Height (ph_Header (act_PH act)), ph_Round (act_PH act)) \<mapsto> ra)) (effs @ [ActionSent h r act])"
proof -
  let ?h = "h_Height (ph_Header (act_PH act))" let ?r = "ph_Round (act_PH act)"
  have own: "h_Height (ph_Header ph) = h" if "ph \<in> set (sent_headers effs h r)" for ph h r
    using that by (auto simp: sent_headers_def split: sm_effect.splits if_splits)
  have "sent_headers effs ?h ?r = []" if "?h \<noteq> 0"
  proof (rule ccontr)
    assume "sent_headers effs ?h ?r \<noteq> []"
    then obtain ph where ph: "ph \<in> set (sent_headers effs ?h ?r)" by (meson list.set_sel(1))
    then have "ra_ProposedHeader (actions_at A (?h, ?r)) = ph" using kept that by (simp add: header_kept_def)
    then show False using own[OF ph] old that by simp
  qed
  then show ?thesis using kept new by (auto simp: header_kept_def sent_headers_single actions_at_upd)
qed

section \<open>Runs keep what was signed\<close>

lemma zeroAction_sel [simp]: "ss_Sig (act_Prevote zeroAction) = []" "ss_Sig (act_Precommit zeroAction) = []"
  "h_Height (ph_Header (act_PH zeroAction)) = 0"
  by (simp_all add: zeroAction_def zeroScoped_def zeroProposedHeader_def zeroHeader_def)

lemma mem_stores_sel [simp]: "m_stores (M\<lparr>m_stores := ops\<rparr>) = ops" "m_signer (M\<lparr>m_stores := ops\<rparr>) = m_signer M"
  "m_hashScheme (M\<lparr>m_stores := ops\<rparr>) = m_hashScheme M"
  by simp_all

lemma recordPrevote_kept:
  assumes kept: "kept_in pre w" and run: "recordPrevote (M\<lparr>m_stores := MemSMStores\<rparr>) h w = Ret (ok, w')"
  shows "kept_in pre w'"
  using run
proof (cases rule: recordPrevote_elim)
  case 2
  then show ?thesis using mem_actions.keeps_afterPrevote[of w] kept kept_in_frame[of w' w pre] by simp
next
  case (3 sg content sig st act w1)
  let ?vt = "\<lparr>vt_Height = rlc_H (sm_rlc w), vt_Round = rlc_R (sm_rlc w), vt_BlockHash = h\<rparr>"
  obtain A where A: "SavePrevoteAction (smm_actions (sm_stores w)) (sg_PubKey sg) ?vt sig = Inr A" "st = (sm_stores w)\<lparr>smm_actions := A\<rparr>"
    using 3(3) by (auto simp: MemSMStores_def map_sum_def split: sum.splits)
  note new = SavePrevoteAction_Inr[OF A(1), unfolded VoteTarget.simps]
  have w1: "w1 = emit (ActionSent (rlc_H (sm_rlc w)) (rlc_R (sm_rlc w)) act) (w\<lparr>sm_stores := st\<rparr>)"
    using sendAction_Ret[OF 3(5)] by simp
  let ?e = "ActionSent (rlc_H (sm_rlc w)) (rlc_R (sm_rlc w)) act"
  have "vote_kept act_Prevote PrevoteTarget PrevoteSignature A ((pre @ sm_effects w) @ [?e])"
    unfolding new(2) by (rule vote_kept_new) (use kept new(1) in \<open>simp_all add: 3(4) signed_kept_def\<close>)
  moreover have "vote_kept act_Precommit PrecommitTarget PrecommitSignature A ((pre @ sm_effects w) @ [?e])"
    unfolding new(2) by (rule vote_kept_other) (use kept in \<open>simp_all add: 3(4) signed_kept_def\<close>)
  moreover have "header_kept A ((pre @ sm_effects w) @ [?e])"
    unfolding new(2) by (rule header_kept_vote) (use kept in \<open>simp_all add: 3(4) signed_kept_def\<close>)
  ultimately have "kept_in pre w1" by (simp add: w1 A(2) signed_kept_def)
  then show ?thesis using mem_actions.keeps_afterPrevote[of w1] 3(6) kept_in_frame[of w' w1 pre] by simp
qed (use kept in simp)

lemma recordPrecommit_kept:
  assumes kept: "kept_in pre w" and run: "recordPrecommit (M\<lparr>m_stores := MemSMStores\<rparr>) h w = Ret (ok, w')"
  shows "kept_in pre w'"
  using run
proof (cases rule: recordPrecommit_elim)
  case 1
  then show ?thesis using kept by simp
next
  case (2 sg content sig st act)
  let ?vt = "\<lparr>vt_Height = rlc_H (sm_rlc w), vt_Round = rlc_R (sm_rlc w), vt_BlockHash = h\<rparr>"
  obtain A where A: "SavePrecommitAction (smm_actions (sm_stores w)) (sg_PubKey sg) ?vt sig = Inr A" "st = (sm_stores w)\<lparr>smm_actions := A\<rparr>"
    using 2(3) by (auto simp: MemSMStores_def map_sum_def split: sum.splits)
  note new = SavePrecommitAction_Inr[OF A(1), unfolded VoteTarget.simps]
  have w1: "w' = emit (ActionSent (rlc_H (sm_rlc w)) (rlc_R (sm_rlc w)) act) (w\<lparr>sm_stores := st\<rparr>)"
    using sendAction_Ret[OF 2(5)] by simp
  let ?e = "ActionSent (rlc_H (sm_rlc w)) (rlc_R (sm_rlc w)) act"
  have "vote_kept act_Precommit PrecommitTarget PrecommitSignature A ((pre @ sm_effects w) @ [?e])"
    unfolding new(2) by (rule vote_kept_new) (use kept new(1) in \<open>simp_all add: 2(4) signed_kept_def\<close>)
  moreover have "vote_kept act_Prevote PrevoteTarget PrevoteSignature A ((pre @ sm_effects w) @ [?e])"
    unfolding new(2) by (rule vote_kept_other) (use kept in \<open>simp_all add: 2(4) signed_kept_def\<close>)
  moreover have "header_kept A ((pre @ sm_effects w) @ [?e])"
    unfolding new(2) by (rule header_kept_vote) (use kept in \<open>simp_all add: 2(4) signed_kept_def\<close>)
  ultimately show ?thesis by (simp add: w1 A(2) signed_kept_def)
qed

lemma recordProposedHeader_kept:
  assumes kept: "kept_in pre w" and run: "recordProposedHeader (M\<lparr>m_stores := MemSMStores\<rparr>) p w = Ret (ok, w')"
  shows "kept_in pre w'"
  using run
proof (cases rule: recordProposedHeader_elim)
  case 1
  then show ?thesis using kept by simp
next
  case (2 vrv sg hash ph st)
  obtain A where A: "SaveProposedHeaderAction (smm_actions (sm_stores w)) ph = Inr A" "st = (sm_stores w)\<lparr>smm_actions := A\<rparr>"
    using 2(6) by (auto simp: MemSMStores_def map_sum_def split: sum.splits)
  note new = SaveProposedHeaderAction_Inr[OF A(1)]
  let ?act = "zeroAction\<lparr>act_PH := ph\<rparr>"
  have w1: "w' = emit (ActionSent (rlc_H (sm_rlc w)) (rlc_R (sm_rlc w)) ?act) (w\<lparr>sm_stores := st\<rparr>)"
    using sendAction_Ret[OF 2(7)] by simp
  have "header_kept A ((pre @ sm_effects w) @ [ActionSent (rlc_H (sm_rlc w)) (rlc_R (sm_rlc w)) ?act])"
    using header_kept_new[of "smm_actions (sm_stores w)" "pre @ sm_effects w" ?act] kept new
    by (simp add: signed_kept_def)
  moreover have "vote_kept act_Prevote PrevoteTarget PrevoteSignature A ((pre @ sm_effects w) @ [ActionSent (rlc_H (sm_rlc w)) (rlc_R (sm_rlc w)) ?act])"
    unfolding new(2) by (rule vote_kept_other) (use kept in \<open>simp_all add: signed_kept_def\<close>)
  moreover have "vote_kept act_Precommit PrecommitTarget PrecommitSignature A ((pre @ sm_effects w) @ [ActionSent (rlc_H (sm_rlc w)) (rlc_R (sm_rlc w)) ?act])"
    unfolding new(2) by (rule vote_kept_other) (use kept in \<open>simp_all add: signed_kept_def\<close>)
  ultimately show ?thesis by (simp add: w1 A(2) signed_kept_def)
qed

text \<open>A proposal that is sent again after a restart is the stored one.\<close>

lemma suppressProposal_kept:
  assumes kept: "kept_in pre w" and run: "suppressProposal (M\<lparr>m_stores := MemSMStores\<rparr>) vrv w = (ok, vrv1, w')"
  shows "kept_in pre w'"
proof -
  let ?A = "smm_actions (sm_stores w)" let ?hr = "(rlc_H (sm_rlc w), rlc_R (sm_rlc w))"
  have upd: "kept_in pre (upd_rlc f w)" for f using kept by simp
  have resend: "kept_in pre (emit (ActionSent (rlc_H (sm_rlc w)) (rlc_R (sm_rlc w)) (zeroAction\<lparr>act_PH := ra_ProposedHeader ra\<rparr>)) (upd_rlc f w))"
    if "?A ?hr = Some ra" "h_Height (ph_Header (ra_ProposedHeader ra)) \<noteq> 0" for ra f
  proof -
    have ra: "actions_at ?A ?hr = ra" using that by (simp add: actions_at_def)
    have own: "h_Height (ph_Header (ra_ProposedHeader ra)) = rlc_H (sm_rlc w)" "ph_Round (ra_ProposedHeader ra) = rlc_R (sm_rlc w)"
      using kept that(2) ra by (auto simp: signed_kept_def header_kept_def)
    let ?e = "ActionSent (rlc_H (sm_rlc w)) (rlc_R (sm_rlc w)) (zeroAction\<lparr>act_PH := ra_ProposedHeader ra\<rparr>)"
    have "?A(?hr \<mapsto> ra) = ?A" using that(1) by auto
    then have "vote_kept act_Prevote PrevoteTarget PrevoteSignature ?A ((pre @ sm_effects w) @ [?e])"
      "vote_kept act_Precommit PrecommitTarget PrecommitSignature ?A ((pre @ sm_effects w) @ [?e])"
      using kept ra vote_kept_other[of act_Prevote PrevoteTarget PrevoteSignature ?A "pre @ sm_effects w" "zeroAction\<lparr>act_PH := ra_ProposedHeader ra\<rparr>" ra ?hr]
        vote_kept_other[of act_Precommit PrecommitTarget PrecommitSignature ?A "pre @ sm_effects w" "zeroAction\<lparr>act_PH := ra_ProposedHeader ra\<rparr>" ra ?hr]
      by (simp_all add: signed_kept_def)
    moreover have "header_kept ?A ((pre @ sm_effects w) @ [?e])"
      using kept ra own by (auto simp: signed_kept_def header_kept_def sent_headers_single)
    ultimately show ?thesis by (simp add: signed_kept_def)
  qed
  show ?thesis
    using run kept upd resend
    by (auto simp: suppressProposal_def Let_def MemSMStores_def LoadActions_def split: option.splits if_splits)
qed

lemma initializeRLC_kept:
  assumes kept: "kept_in pre w" and run: "initializeRLC (M\<lparr>m_stores := MemSMStores\<rparr>) w = Ret (ok, w')"
  shows "kept_in pre w'"
proof -
  let ?M = "M\<lparr>m_stores := MemSMStores\<rparr>"
  have send: "kept_in pre w1" if "sendInitialActionSet ?M w = Ret (out, w1)" for out w1
    using mem_actions.keeps_sendInitialActionSet[of w M] that kept by (intro kept_in_frame[of w1 w]) simp_all
  have enter: "action_part (emit (EnterRoundRequest rv ch) w2) = action_part w2" for rv ch w2 by (simp add: action_part_def)
  from run show ?thesis
  proof (cases rule: initializeRLC_elim)
    case (3 vrv err w1 b vrv1 w2)
    then show ?thesis using suppressProposal_kept[OF send[OF 3(2)] 3(3)] kept_in_frame[OF enter] by auto
  next
    case (4 vrv err w1 b vrv1 w2)
    have "action_part w' = action_part w2" using mem_actions.keeps_begin_after[of _ w2 M vrv1, OF enter] 4(3) by (auto dest: go_postD)
    then show ?thesis using suppressProposal_kept[OF send[OF 4(1)] 4(2)] by (intro kept_in_frame[of w' w2])
  qed (use send in blast)+
qed

lemma handleLiveEvent_kept:
  assumes kept: "kept_in pre w" and run: "handleLiveEvent (M\<lparr>m_stores := MemSMStores\<rparr>) ev w = Ret (ok, w')"
  shows "kept_in pre w'"
proof -
  let ?M = "M\<lparr>m_stores := MemSMStores\<rparr>"
  have frame: "kept_in pre w'" if "go_post (\<lambda>(ok, w'). action_part w' = action_part w) r" "r = Ret (ok, w')" for r
    using that kept by (intro kept_in_frame[of w' w]) auto
  show ?thesis
  proof (cases ev)
    case (EvView v)
    then have "handleViewUpdate ?M v w = Ret w'" using run by auto
    then show ?thesis using mem_actions.kept_handleViewUpdate[of w M v] kept kept_in_frame[of w' w pre] by simp
  next
    case (EvProposal p)
    then obtain ok1 w1 where "recordProposedHeader ?M p w = Ret (ok1, w1)" "w' = (if ok1 then upd_rlc (\<lambda>rlc. rlc\<lparr>ProposalCh := False\<rparr>) w1 else w1)"
      using run by (auto simp: after_ok_def)
    then show ?thesis using recordProposedHeader_kept[OF kept, of M p ok1 w1] by simp
  next
    case (EvPrevote he)
    show ?thesis
    proof (cases he)
      case (Inr h)
      then obtain ok1 w1 where "recordPrevote ?M h w = Ret (ok1, w1)" "w' = (if ok1 then upd_rlc (\<lambda>rlc. rlc\<lparr>PrevoteHashCh := False\<rparr>) w1 else w1)"
        using EvPrevote run by (auto simp: after_ok_def)
      then show ?thesis using recordPrevote_kept[OF kept, of M h ok1 w1] by simp
    qed (use EvPrevote run kept in simp)
  next
    case (EvPrecommit he)
    show ?thesis
    proof (cases he)
      case (Inr h)
      then obtain ok1 w1 where "recordPrecommit ?M h w = Ret (ok1, w1)" "w' = (if ok1 then upd_rlc (\<lambda>rlc. rlc\<lparr>PrecommitHashCh := False\<rparr>) w1 else w1)"
        using EvPrecommit run by (auto simp: after_ok_def)
      then show ?thesis using recordPrecommit_kept[OF kept, of M h ok1 w1] by simp
    qed (use EvPrecommit run kept in simp)
  next
    case (EvFinalize resp)
    then show ?thesis using frame[OF mem_actions.keeps_handleFinalization] run by simp
  next
    case EvTimer
    have "action_part (w\<lparr>sm_timer := False\<rparr>) = action_part w" by (simp add: action_part_def)
    then show ?thesis using frame[of "handleTimerElapsed ?M (w\<lparr>sm_timer := False\<rparr>)"] EvTimer run
        mem_actions.keeps_handleTimerElapsed[of "w\<lparr>sm_timer := False\<rparr>" M] by simp
  next
    case EvHeightCommitted
    then show ?thesis using frame[OF mem_actions.keeps_handleHeightCommitted] run by simp
  next
    case (EvArrival a)
    then show ?thesis using frame[OF mem_actions.keeps_handleBlockDataArrival] run by simp
  qed
qed

lemma smrun_kept:
  assumes "smrun (M\<lparr>m_stores := MemSMStores\<rparr>) st mode ok w" "signed_kept (smm_actions st) pre"
  shows "kept_in pre w"
  using assms
proof (induction rule: smrun.induct)
  case (start answers ok w)
  then show ?case using initializeRLC_kept[of "sm_start st answers" pre M ok w] by simp
next
  case (live w ev answers busy arrivals ok w')
  then have "kept_in pre (sm_input answers busy arrivals w)" by (simp add: sm_input_def)
  then show ?case using handleLiveEvent_kept live by blast
next
  case (catchup w resp answers busy arrivals ok w')
  let ?w = "setStep StepAwaitingFinalization (sm_input answers busy arrivals w)"
  have "kept_in pre ?w" using catchup by (simp add: sm_input_def)
  moreover have "action_part w' = action_part ?w"
    using mem_actions.keeps_handleFinalization[of ?w M resp] catchup.hyps(4) by (simp add: handleCatchupEvent_def)
  ultimately show ?case using kept_in_frame[of w' ?w pre] by blast
qed

text \<open>The life of a validator: the kernel runs, stops and starts again on the stores it left. What it was about to send when it
  stopped may be lost, so that an action can be recorded and never sent. Each start has a genesis of its own: the engine passes
  the zero value once the chain is initialized.\<close>

inductive sm_life :: "('p, 'b, sm_mem) StateMachine \<Rightarrow> sm_mem \<Rightarrow> 'p sm_effect list \<Rightarrow> bool" for M where
  boot: "smm_actions st = NewActionStore \<Longrightarrow> sm_life M st []"
| restart: "sm_life M st effs \<Longrightarrow> smrun (M\<lparr>m_genesis := g, m_stores := MemSMStores\<rparr>) st mode ok w \<Longrightarrow>
     sm_life M (sm_stores w) (effs @ take n (sm_effects w))"

lemma signed_kept_new: "signed_kept NewActionStore []"
  by (simp add: signed_kept_def vote_kept_def header_kept_def sent_votes_def sent_headers_def NewActionStore_def actions_at_def
      zeroRoundActions_def zeroProposedHeader_def zeroHeader_def)

lemma vote_kept_prefix: "vote_kept sel target sig A (xs @ ys) \<Longrightarrow> vote_kept sel target sig A xs"
  unfolding vote_kept_def sent_votes_append append_eq_Cons_conv append_is_Nil_conv by metis

lemma signed_kept_prefix: "signed_kept A (xs @ ys) \<Longrightarrow> signed_kept A xs"
  by (auto simp: signed_kept_def header_kept_def sent_headers_def dest: vote_kept_prefix)

lemma sm_life_kept: "sm_life M st effs \<Longrightarrow> signed_kept (smm_actions st) effs"
proof (induction rule: sm_life.induct)
  case (restart st effs g mode ok w n)
  then have "signed_kept (smm_actions (sm_stores w)) ((effs @ take n (sm_effects w)) @ drop n (sm_effects w))"
    using smrun_kept[of "M\<lparr>m_genesis := g\<rparr>" st mode ok w effs] by simp
  then show ?case by (rule signed_kept_prefix)
qed (simp add: signed_kept_new)

lemma vote_kept_once:
  assumes "vote_kept sel target sig A effs"
  shows "length (sent_votes sel effs h r) \<le> 1"
  using assms[unfolded vote_kept_def, rule_format, of h r] by auto

end
