(* ===== verification/StateMachineLife.thy ===== *)
theory StateMachineLife
  imports StateMachineSign
begin

text \<open>
  A run of the state machine on concrete inputs, and the safety of its signatures and the invariant of its kernel.
\<close>


section \<open>A run\<close>

text \<open>A validator with the first of the two keys on empty stores: it enters height 1, its proposal timer elapses and the
  consensus strategy chooses to prevote \<open>x\<close>.\<close>

definition ex_sm :: "(nat list SimpleProof, nat list, sm_mem) StateMachine" where
  "ex_sm = \<lparr>m_signer = Some (PassthroughSigner (\<lambda>content. Inr ''a'') (PubKey ''t'' ''a'') ex_sigs),
     m_hashScheme = k_hashScheme ex_kernel,
     m_genesis = \<lparr>ChainID = ''c'', InitialHeight = 1, CurrentAppStateHash = ''s'', g_ValidatorSet = ex_valset\<rparr>,
     m_stores = MemSMStores, m_cmsp = SimpleScheme ex_V ref_bitset\<rparr>"

lemma ex_sm_mem: "ex_sm\<lparr>m_stores := MemSMStores\<rparr> = ex_sm"
  by (simp add: ex_sm_def)

definition ex_sm_world :: "(nat list SimpleProof, sm_mem) sm_world" where
  "ex_sm_world = sm_start NewSMStores [(RespVRV (ex_view 1 0), None)]"

definition ex_sm_entered :: "(nat list SimpleProof, sm_mem) sm_world" where
  "ex_sm_entered = (case initializeRLC ex_sm ex_sm_world of Ret (ok, w) \<Rightarrow> w | _ \<Rightarrow> ex_sm_world)"

definition ex_after :: "nat list SimpleProof RoundEntranceResponse list \<Rightarrow> nat list SimpleProof sm_event \<Rightarrow>
    (nat list SimpleProof, sm_mem) sm_world \<Rightarrow> (nat list SimpleProof, sm_mem) sm_world" where
  "ex_after ans ev w = (case handleLiveEvent ex_sm ev (sm_input (map (\<lambda>a. (a, None)) ans) False [] w) of Ret (ok, w') \<Rightarrow> w' | _ \<Rightarrow> ex_sm_world)"

definition ex_sm_prevoted :: "(nat list SimpleProof, sm_mem) sm_world" where
  "ex_sm_prevoted = ex_after [] (EvPrevote (Inr ''x'')) (ex_after [] EvTimer ex_sm_entered)"

text \<open>Then the round is committed to \<open>x\<close>, the driver finalizes it and the commit wait elapses.\<close>

definition ex_commit_view :: "nat list SimpleProof VersionedRoundView" where
  "ex_commit_view = (ex_view 1 0)\<lparr>Version := 2, ProposedHeaders := [ex_proposal], rv_VoteSummary := NewVoteSummary\<lparr>AvailablePower := 8,
     TotalPrecommitPower := 8, PrecommitBlockPower := [(''x'', 8)], MostVotedPrecommitHash := ''x''\<rparr>\<rparr>"

definition ex_sm_waiting :: "(nat list SimpleProof, sm_mem) sm_world" where
  "ex_sm_waiting = ex_after [] (EvView \<lparr>smrv_VRV = ex_commit_view, smrv_JumpAhead = None\<rparr>) ex_sm_prevoted"

definition ex_response :: FinalizeBlockResponse where
  "ex_response = \<lparr>fr_Height = 1, fr_Round = 0, fr_BlockHash = ''x'', fr_Validators = ex_vals, fr_AppStateHash = ''t''\<rparr>"

definition ex_sm_finalized :: "(nat list SimpleProof, sm_mem) sm_world" where
  "ex_sm_finalized = ex_after [] (EvFinalize ex_response) ex_sm_waiting"

definition ex_sm_height2 :: "(nat list SimpleProof, sm_mem) sm_world" where
  "ex_sm_height2 = ex_after [RespVRV (ex_view 2 0)] EvTimer ex_sm_finalized"

definition ex_event_ok :: "nat list SimpleProof RoundEntranceResponse list \<Rightarrow> nat list SimpleProof sm_event \<Rightarrow>
    (nat list SimpleProof, sm_mem) sm_world \<Rightarrow> bool" where
  "ex_event_ok ans ev w \<longleftrightarrow> \<not> sm_cancelled w \<and> sm_enabled ev (sm_input (map (\<lambda>a. (a, None)) ans) False [] w) \<and>
     (case handleLiveEvent ex_sm ev (sm_input (map (\<lambda>a. (a, None)) ans) False [] w) of Ret (ok, w') \<Rightarrow> ok | _ \<Rightarrow> False)"

lemma ex_after_run:
  assumes "smrun ex_sm st False True w" "ex_event_ok ans ev w"
  shows "smrun ex_sm st False True (ex_after ans ev w)"
proof -
  have "handleLiveEvent ex_sm ev (sm_input (map (\<lambda>a. (a, None)) ans) False [] w) = Ret (True, ex_after ans ev w)"
    using assms(2) unfolding ex_event_ok_def ex_after_def by (auto split: go.splits)
  then show ?thesis using assms(2) by (intro smrun.live[OF assms(1)]) (simp_all add: ex_event_ok_def)
qed

lemma ex_sm_entered_run: "smrun ex_sm NewSMStores False True ex_sm_entered"
proof -
  have "case initializeRLC ex_sm ex_sm_world of Ret (ok, w) \<Rightarrow> ok | _ \<Rightarrow> False" by code_simp
  then have "initializeRLC ex_sm ex_sm_world = Ret (True, ex_sm_entered)"
    unfolding ex_sm_entered_def by (auto split: go.splits)
  from smrun.start[OF this[unfolded ex_sm_world_def]]
  have "smrun ex_sm NewSMStores (IsReplaying (sm_rlc ex_sm_entered)) True ex_sm_entered" .
  moreover have "\<not> IsReplaying (sm_rlc ex_sm_entered)" by code_simp
  ultimately show ?thesis by simp
qed

lemma ex_sm_prevoted_run: "smrun ex_sm NewSMStores False True ex_sm_prevoted"
proof -
  have "ex_event_ok [] EvTimer ex_sm_entered" "ex_event_ok [] (EvPrevote (Inr ''x'')) (ex_after [] EvTimer ex_sm_entered)" by code_simp+
  then show ?thesis unfolding ex_sm_prevoted_def by (intro ex_after_run ex_sm_entered_run)
qed

lemma ex_sm_waiting_run: "smrun ex_sm NewSMStores False True ex_sm_waiting"
proof -
  have "ex_event_ok [] (EvView \<lparr>smrv_VRV = ex_commit_view, smrv_JumpAhead = None\<rparr>) ex_sm_prevoted" by code_simp
  then show ?thesis unfolding ex_sm_waiting_def by (rule ex_after_run[OF ex_sm_prevoted_run])
qed

lemma ex_sm_height2_run: "smrun ex_sm NewSMStores False True ex_sm_height2"
proof -
  have "ex_event_ok [] (EvFinalize ex_response) ex_sm_waiting" "ex_event_ok [RespVRV (ex_view 2 0)] EvTimer ex_sm_finalized" by code_simp+
  then show ?thesis unfolding ex_sm_height2_def ex_sm_finalized_def by (intro ex_after_run ex_sm_waiting_run)
qed

lemma ex_sm_prevoted_sent: "sent_votes act_Prevote (sm_effects ex_sm_prevoted) 1 0 = [\<lparr>TargetHash = ''x'', SignContent = ''v'', ss_Sig = ''a''\<rparr>]"
  by code_simp

text \<open>(C3) A validator never signs twice: over all its life, with restarts of the process on the stores it left, also
  when it stopped after it had recorded an action and before it sent it, and with any genesis at each start, the state machine hands out at most one signed prevote and at most one signed precommit for a height
  and round, and only one proposed header (a restart may send the same one again); what it handed out is what the
  action store holds.\<close>

theorem state_machine_never_double_signs:
  assumes "sm_life M st effs"
  shows "length (sent_votes act_Prevote effs h r) \<le> 1 \<and> length (sent_votes act_Precommit effs h r) \<le> 1 \<and>
    (h \<noteq> 0 \<longrightarrow> (\<forall>ph \<in> set (sent_headers effs h r). ph = ra_ProposedHeader (actions_at (smm_actions st) (h, r)))) \<and>
    (\<forall>v \<in> set (sent_votes act_Prevote effs h r). TargetHash v = PrevoteTarget (actions_at (smm_actions st) (h, r))) \<and>
    (\<forall>v \<in> set (sent_votes act_Precommit effs h r). TargetHash v = PrecommitTarget (actions_at (smm_actions st) (h, r)))"
proof -
  have kept: "vote_kept act_Prevote PrevoteTarget PrevoteSignature (smm_actions st) effs"
    "vote_kept act_Precommit PrecommitTarget PrecommitSignature (smm_actions st) effs" "header_kept (smm_actions st) effs"
    using sm_life_kept[OF assms] by (simp_all add: signed_kept_def)
  show ?thesis
    using vote_kept_once[OF kept(1), of h r] vote_kept_once[OF kept(2), of h r] kept(3)
      kept(1)[unfolded vote_kept_def, rule_format, of h r] kept(2)[unfolded vote_kept_def, rule_format, of h r]
    by (auto simp: header_kept_def)
qed

theorem state_machine_never_double_signs_witness:
  "PrevoteTarget (actions_at (smm_actions (sm_stores ex_sm_prevoted)) (1, 0)) = ''x''"
proof -
  have "sm_life ex_sm NewSMStores []" by (rule sm_life.boot) (simp add: NewSMStores_def)
  moreover have "smrun (ex_sm\<lparr>m_genesis := m_genesis ex_sm, m_stores := MemSMStores\<rparr>) NewSMStores False True ex_sm_prevoted"
    using ex_sm_prevoted_run by (simp add: ex_sm_mem)
  ultimately have "sm_life ex_sm (sm_stores ex_sm_prevoted) ([] @ take (length (sm_effects ex_sm_prevoted)) (sm_effects ex_sm_prevoted))"
    by (rule sm_life.restart)
  then have "sm_life ex_sm (sm_stores ex_sm_prevoted) (sm_effects ex_sm_prevoted)" by simp
  from state_machine_never_double_signs[OF this, of 1 0] show ?thesis by (simp add: ex_sm_prevoted_sent)
qed

text \<open>(C7) In every live run of the kernel a timer runs exactly in the steps that wait for one, so that neither a second
  timer is started nor a missing one cancelled; the strategy is asked for a precommit decision at most once in a round; no
  request carries a nil channel; and in an entered round there is a view, and an action channel for a participating
  validator.\<close>

theorem state_machine_invariant:
  assumes "smrun (M\<lparr>m_stores := MemSMStores\<rparr>) st False True w" and "\<not> sm_cancelled w"
  shows "(sm_timer w \<longleftrightarrow> entered (sm_effects w) \<and>
        rlc_S (sm_rlc w) \<in> {StepAwaitingProposal, StepPrevoteDelay, StepPrecommitDelay, StepCommitWait}) \<and>
    StepTimer (sm_rlc w) = sm_timer w \<and> CancelTimer (sm_rlc w) = sm_timer w \<and>
    decisions (sm_effects w) \<le> 1 \<and> (\<forall>e \<in> set (sm_effects w). request_ok e) \<and>
    (entered (sm_effects w) \<longrightarrow> rlc_VRV (sm_rlc w) \<noteq> None \<and>
       (isParticipating (M\<lparr>m_stores := MemSMStores\<rparr>) (sm_rlc w) \<longrightarrow> OutgoingActionsCh (sm_rlc w)))"
proof -
  have "sm_inv (M\<lparr>m_stores := MemSMStores\<rparr>) w" using mem_position.smrun_inv[OF assms(1)] assms(2) by simp
  then show ?thesis by (simp add: sm_inv_defs Let_def)
qed

theorem state_machine_invariant_witness: "sm_timer ex_sm_entered"
proof -
  have "\<not> sm_cancelled ex_sm_entered" "entered (sm_effects ex_sm_entered)" "rlc_S (sm_rlc ex_sm_entered) = StepAwaitingProposal" by code_simp+
  then show ?thesis using state_machine_invariant[of ex_sm, unfolded ex_sm_mem, OF ex_sm_entered_run] by simp
qed

end
