(* ===== verification/StateMachineChain.thy ===== *)
theory StateMachineChain
  imports StateMachineLife
begin

text \<open>
  The chain of finalizations that the state machine carries from height to height, in its lifecycle and in the
  finalization store. Its recovery at a restart is in \<open>EngineRestart\<close>.
\<close>


section \<open>The chain of finalizations\<close>

text \<open>The block hash, the validator set and the app state hash of a stored finalization.\<close>

definition fin_of :: "FinalizationStore \<Rightarrow> u64 \<Rightarrow> (bytes \<times> ValidatorSet \<times> bytes) option" where
  "fin_of F h = (case LoadFinalizationByHeight F h of Inl e \<Rightarrow> None | Inr (r, bh, vs, ah) \<Rightarrow> Some (bh, vs, ah))"

definition prev_ok :: "Genesis \<Rightarrow> hash_scheme \<Rightarrow> FinalizationStore \<Rightarrow> 'p RoundLifecycle \<Rightarrow> bool" where
  "prev_ok g hs F rlc \<longleftrightarrow>
     (rlc_H rlc = InitialHeight g \<and> PrevFinNextValSet rlc = g_ValidatorSet g \<and> PrevFinAppStateHash rlc = CurrentAppStateHash g \<and>
        (\<exists>b. Genesis_Header g hs = Inr b \<and> rlc_PrevBlockHash rlc = Hash b)) \<or>
     fin_of F (rlc_H rlc - 1) = Some (rlc_PrevBlockHash rlc, PrevFinNextValSet rlc, PrevFinAppStateHash rlc)"

definition cur_ok :: "Genesis \<Rightarrow> FinalizationStore \<Rightarrow> 'p RoundLifecycle \<Rightarrow> bool" where
  "cur_ok g F rlc \<longleftrightarrow>
     ((rlc_H rlc = InitialHeight g \<or> rlc_H rlc = InitialHeight g + 1) \<and> CurValSet rlc = g_ValidatorSet g) \<or>
     (\<exists>bh ah. fin_of F (rlc_H rlc - 2) = Some (bh, CurValSet rlc, ah))"

definition own_fin :: "FinalizationStore \<Rightarrow> 'p RoundLifecycle \<Rightarrow> bool" where
  "own_fin F rlc \<longleftrightarrow> fin_of F (rlc_H rlc) = Some (FinalizedBlockHash rlc, FinalizedValSet rlc, FinalizedAppStateHash rlc)"

text \<open>Since a start at a height with the given finalizations, every height that was left has one, and none was lost or changed.\<close>

definition chain_ok :: "u64 \<times> FinalizationStore \<Rightarrow> FinalizationStore \<Rightarrow> u64 \<Rightarrow> bool" where
  "chain_ok h0 F h \<longleftrightarrow> (\<forall>k. fst h0 \<le> k \<and> k < h \<longrightarrow> fin_of F k \<noteq> None) \<and> snd h0 \<subseteq>\<^sub>m F"

definition fin_inv :: "('p, 'b, sm_mem) StateMachine \<Rightarrow> u64 \<times> FinalizationStore \<Rightarrow> ('p, sm_mem) sm_world \<Rightarrow> bool" where
  "fin_inv M h0 w \<longleftrightarrow> (let F = smm_fins (sm_stores w); rlc = sm_rlc w in
     prev_ok (m_genesis M) (m_hashScheme M) F rlc \<and> cur_ok (m_genesis M) F rlc \<and> chain_ok h0 F (rlc_H rlc) \<and>
     (Validators (FinalizedValSet rlc) \<noteq> [] \<longrightarrow> own_fin F rlc))"

definition fin_part :: "('p, sm_mem) sm_world \<Rightarrow> _" where
  "fin_part w = (core (sm_rlc w), smm_fins (sm_stores w))"

lemma fin_inv_frame: "fin_part w' = fin_part w \<Longrightarrow> fin_inv M h0 w' = fin_inv M h0 w"
  by (simp add: fin_inv_def fin_part_def prev_ok_def cur_ok_def own_fin_def core_def Let_def)

interpretation mem_fins: round_frame "M\<lparr>m_stores := MemSMStores\<rparr>" fin_part for M :: "('p, 'b, sm_mem) StateMachine"
  by unfold_locales (auto simp: fin_part_def MemSMStores_def SetStateMachineHeightRound_def emit_def)

lemma fin_of_save:
  assumes "SaveFinalization F h r bh vs ah = Inr F'"
  shows "fin_of F' k = (if k = h then Some (bh, vs, ah) else fin_of F k)" "fin_of F h = None"
  using assms by (auto simp: SaveFinalization_def fin_of_def LoadFinalizationByHeight_def split: if_splits option.splits)

lemma fin_of_save_mono:
  assumes "SaveFinalization F h r bh vs ah = Inr F'" "fin_of F k = Some x"
  shows "fin_of F' k = Some x"
  using fin_of_save[OF assms(1)] assms(2) by auto

lemma SaveFinalization_le: "SaveFinalization F h r bh vs ah = Inr F' \<Longrightarrow> F \<subseteq>\<^sub>m F'"
  by (auto simp: SaveFinalization_def map_le_def split: if_splits)

section \<open>Advancing the height\<close>

lemma chain_ok_refl: "chain_ok (h, F) F h"
  by (auto simp: chain_ok_def)

lemma chain_ok_next:
  assumes "chain_ok h0 F h" "fin_of F h \<noteq> None"
  shows "chain_ok h0 F (h + 1)"
  unfolding chain_ok_def
proof (intro conjI allI impI)
  fix k assume k: "fst h0 \<le> k \<and> k < h + 1"
  then have "k \<le> h" using inc_le[of h k] by (meson leD not_le)
  then show "fin_of F k \<noteq> None" using assms k by (cases "k = h") (auto simp: chain_ok_def)
qed (use assms(1) in \<open>auto simp: chain_ok_def\<close>)

lemma advanceHeight_fin:
  fixes M :: "('p, 'b, sm_mem) StateMachine"
  defines "Mm \<equiv> M\<lparr>m_stores := MemSMStores\<rparr>"
  assumes prev: "prev_ok (m_genesis M) (m_hashScheme M) (smm_fins (sm_stores w)) (sm_rlc w)"
    and ch: "chain_ok h0 (smm_fins (sm_stores w)) (rlc_H (sm_rlc w))" and own: "own_fin (smm_fins (sm_stores w)) (sm_rlc w)"
  shows "go_post (\<lambda>(ok, w'). fin_inv M h0 w') (advanceHeight Mm w)"
proof -
  define w1 where "w1 = rlc_Reset (rlc_H (sm_rlc w) + 1) 0 (upd_rlc CycleFinalization w)"
  have rlc1: "rlc_H (sm_rlc w1) = rlc_H (sm_rlc w) + 1" "PrevFinNextValSet (sm_rlc w1) = FinalizedValSet (sm_rlc w)"
    "PrevFinAppStateHash (sm_rlc w1) = FinalizedAppStateHash (sm_rlc w)" "rlc_PrevBlockHash (sm_rlc w1) = FinalizedBlockHash (sm_rlc w)"
    "CurValSet (sm_rlc w1) = PrevFinNextValSet (sm_rlc w)" "Validators (FinalizedValSet (sm_rlc w1)) = []"
    "smm_fins (sm_stores w1) = smm_fins (sm_stores w)"
    by (simp_all add: w1_def rlc_Reset_def CycleFinalization_def Let_def zeroValidatorSet_def)
  have own': "fin_of (smm_fins (sm_stores w)) (rlc_H (sm_rlc w)) = Some (FinalizedBlockHash (sm_rlc w), FinalizedValSet (sm_rlc w), FinalizedAppStateHash (sm_rlc w))"
    using own by (simp add: own_fin_def)
  have "cur_ok (m_genesis M) (smm_fins (sm_stores w)) (sm_rlc w1)"
    using prev by (auto simp: prev_ok_def cur_ok_def rlc1)
  moreover have "prev_ok (m_genesis M) (m_hashScheme M) (smm_fins (sm_stores w)) (sm_rlc w1)"
    using own' by (simp add: prev_ok_def rlc1)
  moreover have "chain_ok h0 (smm_fins (sm_stores w)) (rlc_H (sm_rlc w1))"
    using chain_ok_next[OF ch] own' by (simp add: rlc1)
  ultimately have inv1: "fin_inv M h0 w1" by (simp add: fin_inv_def rlc1 Let_def)
  have keep: "go_post (\<lambda>(ok, w'). fin_part w' = fin_part w1) (advance Mm (advanceRound Mm) re w2)" if "fin_part w2 = fin_part w1" for re w2
    using mem_fins.keeps_advance[of "advanceRound Mm" w2 M re] mem_fins.keeps_advanceRound[of _ M] that by (simp add: Mm_def)
  have "go_post (\<lambda>(ok, w'). fin_part w' = fin_part w1) (advanceHeight Mm w)"
  proof -
    have h: "rlc_H (sm_rlc (upd_rlc CycleFinalization w)) = rlc_H (sm_rlc w)" by (simp add: CycleFinalization_def)
    have "advanceHeight Mm w = (case ss_SetStateMachineHeightRound (m_stores Mm) (rlc_H (sm_rlc w1)) 0 (sm_stores w1) of
        Inl e \<Rightarrow> Ret (False, w1)
      | Inr st \<Rightarrow> advance Mm (advanceRound Mm) (roundEntranceFor w1) (w1\<lparr>sm_stores := st\<rparr>))"
      unfolding advanceHeight_def Let_def w1_def h by (rule refl)
    moreover have "fin_part (w1\<lparr>sm_stores := st\<rparr>) = fin_part w1"
      if "ss_SetStateMachineHeightRound (m_stores Mm) (rlc_H (sm_rlc w1)) 0 (sm_stores w1) = Inr st" for st
      by (rule mem_fins.frame_position[OF that[unfolded Mm_def]])
    ultimately show ?thesis using keep
      by (cases "ss_SetStateMachineHeightRound (m_stores Mm) (rlc_H (sm_rlc w1)) 0 (sm_stores w1)") simp_all
  qed
  then show ?thesis
  proof (rule go_post_mono)
    fix res :: "bool \<times> ('p, sm_mem) sm_world"
    assume "case res of (ok, w') \<Rightarrow> fin_part w' = fin_part w1"
    then have "fin_part (snd res) = fin_part w1" by (simp add: case_prod_beta)
    from fin_inv_frame[OF this, of M h0] inv1 show "case res of (ok, w') \<Rightarrow> fin_inv M h0 w'" by (simp add: case_prod_beta)
  qed
qed

section \<open>Events\<close>

lemma handleFinalization_fin:
  fixes M :: "('p, 'b, sm_mem) StateMachine"
  assumes inv: "fin_inv M h0 w" and run: "handleFinalization (M\<lparr>m_stores := MemSMStores\<rparr>) resp w = Ret (ok, w')" and ok: "ok"
  shows "fin_inv M h0 w'"
proof -
  let ?M = "M\<lparr>m_stores := MemSMStores\<rparr>" let ?F = "smm_fins (sm_stores w)"
  obtain vs where vs: "fr_Validators resp \<noteq> []" "NewValidatorSet (fr_Validators resp) (m_hashScheme M) = Inr vs"
    using run ok by (cases "NewValidatorSet (fr_Validators resp) (m_hashScheme M)") (auto simp: handleFinalization_def split: if_splits)
  let ?w1 = "upd_rlc (\<lambda>rlc. rlc\<lparr>FinalizedValSet := vs, FinalizedAppStateHash := fr_AppStateHash resp,
     FinalizedBlockHash := fr_BlockHash resp, FinalizeRespCh := False\<rparr>) w"
  have eq: "handleFinalization ?M resp w = (if fr_Height resp \<noteq> rlc_H (sm_rlc w) \<or> fr_Round resp \<noteq> rlc_R (sm_rlc w)
      then Panic ''BUG: driver sent height/round differing from current''
      else case SaveFinalization ?F (rlc_H (sm_rlc w)) (rlc_R (sm_rlc w)) (fr_BlockHash resp) vs (fr_AppStateHash resp) of
             Inl e \<Rightarrow> Ret (False, ?w1)
           | Inr F' \<Rightarrow> (let w2 = ?w1\<lparr>sm_stores := (sm_stores w)\<lparr>smm_fins := F'\<rparr>\<rparr> in
               if rlc_S (sm_rlc w) = StepAwaitingFinalization then advanceHeight ?M w2 else Ret (True, w2)))"
    using vs by (simp add: handleFinalization_def Let_def MemSMStores_def split: sum.split)
  obtain F' where F': "SaveFinalization ?F (rlc_H (sm_rlc w)) (rlc_R (sm_rlc w)) (fr_BlockHash resp) vs (fr_AppStateHash resp) = Inr F'"
    and rest: "(let w2 = ?w1\<lparr>sm_stores := (sm_stores w)\<lparr>smm_fins := F'\<rparr>\<rparr> in
               if rlc_S (sm_rlc w) = StepAwaitingFinalization then advanceHeight ?M w2 else Ret (True, w2)) = Ret (ok, w')"
    using run[unfolded eq] ok by (auto split: if_splits sum.splits)
  define w2 where "w2 = ?w1\<lparr>sm_stores := (sm_stores w)\<lparr>smm_fins := F'\<rparr>\<rparr>"
  note mono = fin_of_save_mono[OF F'] and le = map_le_trans[OF _ SaveFinalization_le[OF F'], of "snd h0"]
  have "prev_ok (m_genesis M) (m_hashScheme M) F' (sm_rlc w2)" "cur_ok (m_genesis M) F' (sm_rlc w2)" "chain_ok h0 F' (rlc_H (sm_rlc w2))"
    using inv mono le by (auto simp: fin_inv_def Let_def prev_ok_def cur_ok_def chain_ok_def w2_def)
  moreover have "own_fin F' (sm_rlc w2)" using fin_of_save(1)[OF F'] by (simp add: own_fin_def w2_def)
  moreover have "smm_fins (sm_stores w2) = F'" by (simp add: w2_def)
  ultimately have "fin_inv M h0 w2" and "go_post (\<lambda>(ok, w'). fin_inv M h0 w') (advanceHeight ?M w2)"
    using advanceHeight_fin[of M w2 h0] by (simp_all only: fin_inv_def Let_def simp_thms)
  then show ?thesis using rest by (simp add: Let_def w2_def[symmetric] split: if_splits)
qed

lemma fin_part_sel [simp]:
  "fin_part (w\<lparr>sm_timer := t\<rparr>) = fin_part w" "fin_part (setStep s w) = fin_part w" "fin_part (emit e w) = fin_part w"
  "core rlc = core (sm_rlc w) \<Longrightarrow> fin_part (w\<lparr>sm_rlc := rlc\<rparr>) = fin_part w"
  "core (f (sm_rlc w)) = core (sm_rlc w) \<Longrightarrow> fin_part (upd_rlc f w) = fin_part w"
  "smm_fins st = smm_fins (sm_stores w) \<Longrightarrow> fin_part (w\<lparr>sm_stores := st\<rparr>) = fin_part w"
  "fin_part (sm_input answers busy arrivals w) = fin_part w"
  by (simp_all add: fin_part_def sm_input_def)

lemma fin_inv_own: "fin_inv M h0 w \<Longrightarrow> Validators (FinalizedValSet (sm_rlc w)) \<noteq> [] \<Longrightarrow>
   prev_ok (m_genesis M) (m_hashScheme M) (smm_fins (sm_stores w)) (sm_rlc w) \<and>
   chain_ok h0 (smm_fins (sm_stores w)) (rlc_H (sm_rlc w)) \<and> own_fin (smm_fins (sm_stores w)) (sm_rlc w)"
  by (simp add: fin_inv_def Let_def)

lemma advanceHeight_fin':
  assumes "fin_inv M h0 w" "Validators (FinalizedValSet (sm_rlc w)) \<noteq> []" "advanceHeight (M\<lparr>m_stores := MemSMStores\<rparr>) w = Ret (ok, w')"
  shows "fin_inv M h0 w'"
  using advanceHeight_fin[of M w h0] fin_inv_own[OF assms(1,2)] assms(3) by auto

lemma handleTimerElapsed_fin:
  assumes inv: "fin_inv M h0 w" and run: "handleTimerElapsed (M\<lparr>m_stores := MemSMStores\<rparr>) w = Ret (ok, w')"
  shows "fin_inv M h0 w'"
proof (cases "rlc_S (sm_rlc w) = StepCommitWait \<and> Validators (FinalizedValSet (sm_rlc w)) \<noteq> []")
  case True
  let ?w = "upd_rlc (\<lambda>rlc. rlc\<lparr>CommitWaitElapsed := True\<rparr>) w"
  obtain w1 where w1: "cancelTimer ?w = Ret w1" "Validators (FinalizedValSet (sm_rlc w1)) \<noteq> []" "fin_part w1 = fin_part w"
    using run True by (auto simp: handleTimerElapsed_def Let_def cancelTimer_def split: if_splits)
  moreover have "advanceHeight (M\<lparr>m_stores := MemSMStores\<rparr>) w1 = Ret (ok, w')"
    using run True w1 by (auto simp: handleTimerElapsed_def Let_def)
  ultimately show ?thesis using advanceHeight_fin'[of M h0 w1 ok w'] inv fin_inv_frame[of w1 w M h0] by simp
next
  case False
  have "go_post (\<lambda>(ok, w'). fin_part w' = fin_part w) (handleTimerElapsed (M\<lparr>m_stores := MemSMStores\<rparr>) w)"
  proof (cases "rlc_S (sm_rlc w) = StepPrecommitDelay")
    case True
    then show ?thesis
      by (auto simp: handleTimerElapsed_def Let_def intro!: mem_fins.kept_bindT[OF mem_fins.kept_cancelTimer]
          mem_fins.keeps_round_after)
  next
    case other: False
    then show ?thesis using False
      by (auto simp: handleTimerElapsed_def Let_def cancelTimer_def decidePrecommit_def split: Step.split option.split)
  qed
  then show ?thesis using run inv fin_inv_frame[of w' w M h0] by simp
qed

lemma handleHeightCommitted_fin:
  assumes inv: "fin_inv M h0 w" and run: "handleHeightCommitted (M\<lparr>m_stores := MemSMStores\<rparr>) w = Ret (ok, w')"
  shows "fin_inv M h0 w'"
proof -
  let ?w1 = "w\<lparr>sm_timer := sm_timer w \<and> \<not> CancelTimer (sm_rlc w),
                 sm_rlc := (sm_rlc w)\<lparr>HeightCommitted := NilChan, CommitWaitElapsed := True, StepTimer := False, CancelTimer := False\<rparr>\<rparr>"
  have part: "fin_part ?w1 = fin_part w" "fin_part (setStep StepAwaitingFinalization ?w1) = fin_part w" by simp_all
  have inv1: "fin_inv M h0 ?w1" "fin_inv M h0 (setStep StepAwaitingFinalization ?w1)"
    using inv fin_inv_frame[OF part(1), of M h0] fin_inv_frame[OF part(2), of M h0] by blast+
  show ?thesis
  proof (cases "rlc_S (sm_rlc w) = StepCommitWait \<and> Validators (FinalizedValSet (sm_rlc w)) \<noteq> []")
    case True
    then have "advanceHeight (M\<lparr>m_stores := MemSMStores\<rparr>) ?w1 = Ret (ok, w')" using run by (simp add: handleHeightCommitted_def Let_def)
    then show ?thesis using True by (intro advanceHeight_fin'[OF inv1(1)]) simp_all
  next
    case False
    then have "w' = ?w1 \<or> w' = setStep StepAwaitingFinalization ?w1"
      using run by (auto simp: handleHeightCommitted_def Let_def split: if_splits)
    then show ?thesis using inv1 by blast
  qed
qed

lemma mem_save_fins:
  "ss_SavePrevoteAction MemSMStores k vt sig st = Inr st' \<Longrightarrow> smm_fins st' = smm_fins st"
  "ss_SavePrecommitAction MemSMStores k vt sig st = Inr st' \<Longrightarrow> smm_fins st' = smm_fins st"
  "ss_SaveProposedHeaderAction MemSMStores ph st = Inr st' \<Longrightarrow> smm_fins st' = smm_fins st"
  by (auto simp: MemSMStores_def map_sum_def split: sum.splits)

lemma record_fin_part:
  "recordPrevote (M\<lparr>m_stores := MemSMStores\<rparr>) h w = Ret (ok, w') \<Longrightarrow> fin_part w' = fin_part w"
  "recordPrecommit (M\<lparr>m_stores := MemSMStores\<rparr>) h w = Ret (ok, w') \<Longrightarrow> fin_part w' = fin_part w"
  "recordProposedHeader (M\<lparr>m_stores := MemSMStores\<rparr>) p w = Ret (ok, w') \<Longrightarrow> fin_part w' = fin_part w"
proof -
  assume "recordPrevote (M\<lparr>m_stores := MemSMStores\<rparr>) h w = Ret (ok, w')"
  then show "fin_part w' = fin_part w"
  proof (cases rule: recordPrevote_elim)
    case 2
    then show ?thesis using mem_fins.keeps_afterPrevote[of w] by simp
  next
    case (3 sg content sig st act w1)
    have "fin_part w1 = fin_part w" using sendAction_Ret[OF 3(5)] mem_save_fins(1)[OF 3(3)[simplified]] by simp
    then show ?thesis using mem_fins.keeps_afterPrevote[of w1] 3(6) by simp
  qed simp
next
  assume "recordPrecommit (M\<lparr>m_stores := MemSMStores\<rparr>) h w = Ret (ok, w')"
  then show "fin_part w' = fin_part w"
  proof (cases rule: recordPrecommit_elim)
    case (2 sg content sig st act)
    then show ?thesis using sendAction_Ret[OF 2(5)] mem_save_fins(2)[OF 2(3)[simplified]] by simp
  qed simp
next
  assume "recordProposedHeader (M\<lparr>m_stores := MemSMStores\<rparr>) p w = Ret (ok, w')"
  then show "fin_part w' = fin_part w"
  proof (cases rule: recordProposedHeader_elim)
    case (2 vrv sg hash ph st)
    then show ?thesis using sendAction_Ret[OF 2(7)] mem_save_fins(3)[OF 2(6)[simplified]] by simp
  qed simp
qed

lemma loadPrevFinalization_fin:
  assumes "loadPrevFinalization (M\<lparr>m_stores := MemSMStores\<rparr>) st h r vrv rlc = Ret (Some rlc')" "rlc_H rlc = h"
  shows "prev_ok (m_genesis M) (m_hashScheme M) (smm_fins st) rlc'" "FinalizedValSet rlc' = FinalizedValSet rlc"
  using assms by (auto simp: loadPrevFinalization_def Let_def prev_ok_def fin_of_def MemSMStores_def split: if_splits sum.splits)

lemma initialValSets_fin:
  assumes "initialValSets (M\<lparr>m_stores := MemSMStores\<rparr>) st h r = Some (cur, prev)" "rlc_H rlc = h" "CurValSet rlc = cur"
  shows "cur_ok (m_genesis M) (smm_fins st) rlc"
  using assms by (auto simp: initialValSets_def Let_def cur_ok_def fin_of_def MemSMStores_def split: if_splits sum.splits)

lemma rlc_Reset_H [simp]: "rlc_H (sm_rlc (rlc_Reset h r w)) = h" "FinalizedValSet (sm_rlc (rlc_Reset h r w)) = FinalizedValSet (sm_rlc w)"
  by (simp_all add: rlc_Reset_def Let_def)

lemma sendInitialActionSet_fin:
  assumes "sendInitialActionSet (M\<lparr>m_stores := MemSMStores\<rparr>) (sm_start st ans) = Ret (Some (RespVRV vrv, err), w1)"
    and h0: "initialHeightRound (M\<lparr>m_stores := MemSMStores\<rparr>) st = Some (h0, r0)"
  shows "fin_inv M (h0, smm_fins st) w1"
  using assms(1)
proof (cases rule: sendInitialActionSet_elim)
  case (1 h r cur prev w2)
  obtain v rlc where rlc: "w1 = w2\<lparr>sm_rlc := rlc\<rparr>" "loadPrevFinalization (M\<lparr>m_stores := MemSMStores\<rparr>) st h r v ((sm_rlc w2)\<lparr>OutgoingActionsCh :=
          isParticipating (M\<lparr>m_stores := MemSMStores\<rparr>) (zeroRLC\<lparr>CurValSet := cur, PrevValSet := prev\<rparr> :: 'a RoundLifecycle)\<rparr>) = Ret (Some rlc)"
    using 1(4) by auto
  have w2: "rlc_H (sm_rlc w2) = h" "CurValSet (sm_rlc w2) = cur" "sm_stores w2 = st" "FinalizedValSet (sm_rlc w2) = zeroValidatorSet"
    unfolding 1(3) by (simp_all add: zeroRLC_def)
  have h: "h0 = h" using h0 1(1) by simp
  have "prev_ok (m_genesis M) (m_hashScheme M) (smm_fins st) rlc" "FinalizedValSet rlc = zeroValidatorSet"
    using loadPrevFinalization_fin[OF rlc(2)] w2 by simp_all
  moreover have "cur_ok (m_genesis M) (smm_fins st) rlc"
    by (rule initialValSets_fin[OF 1(2)]) (simp_all add: loadPrevFinalization_keeps[OF rlc(2)] w2)
  ultimately show ?thesis
    by (simp add: fin_inv_def Let_def rlc(1) w2 h chain_ok_refl loadPrevFinalization_keeps[OF rlc(2)] zeroValidatorSet_def)
qed

lemma suppressProposal_fin: "suppressProposal M vrv w = (ok, vrv1, w') \<Longrightarrow> fin_part w' = fin_part w"
  by (auto simp: suppressProposal_def Let_def split: option.splits if_splits sum.splits)

lemma initializeRLC_fin:
  fixes M :: "('p, 'b, sm_mem) StateMachine"
  assumes run: "initializeRLC (M\<lparr>m_stores := MemSMStores\<rparr>) (sm_start st ans) = Ret (ok, w)" and ok: "ok" "\<not> IsReplaying (sm_rlc w)"
    and h0: "initialHeightRound (M\<lparr>m_stores := MemSMStores\<rparr>) st = Some (h0, r0)"
  shows "fin_inv M (h0, smm_fins st) w"
  using run
proof (cases rule: initializeRLC_elim)
  case (2 ch err)
  then show ?thesis using sendInitialActionSet_replay(2)[OF 2(2)] ok by (simp add: IsReplaying_def)
next
  case (4 vrv err w1 b vrv1 w2)
  have "fin_part (emit (EnterRoundRequest (RoundView.RoundView.truncate vrv1) (ProposalCh (sm_rlc w2))) w2) = fin_part w1"
    using suppressProposal_fin[OF 4(2)] by simp
  then have "fin_part w = fin_part w1" using mem_fins.keeps_begin_after[of _ w1 M vrv1] 4(3) by fastforce
  then show ?thesis using sendInitialActionSet_fin[OF 4(1) h0] fin_inv_frame[of w w1 M "(h0, smm_fins st)"] by simp
qed (use ok in simp_all)

lemma smrun_fin:
  assumes "smrun (M\<lparr>m_stores := MemSMStores\<rparr>) st mode ok w" "\<not> mode" "ok"
    and h0: "initialHeightRound (M\<lparr>m_stores := MemSMStores\<rparr>) st = Some (h0, r0)"
  shows "fin_inv M (h0, smm_fins st) w"
  using assms(1-3)
proof (induction rule: smrun.induct)
  case (start answers ok w)
  then show ?case by (intro initializeRLC_fin[OF _ _ _ h0])
next
  case (live w ev answers busy arrivals ok w')
  let ?M = "M\<lparr>m_stores := MemSMStores\<rparr>" let ?w = "sm_input answers busy arrivals w"
  have inv: "fin_inv M (h0, smm_fins st) ?w" using live fin_inv_frame[of ?w w M "(h0, smm_fins st)"] by simp
  have part: "fin_inv M (h0, smm_fins st) w'" if "fin_part w' = fin_part ?w" using inv fin_inv_frame[OF that, of M "(h0, smm_fins st)"] by simp
  have run: "handleLiveEvent ?M ev ?w = Ret (True, w')" using live by simp
  show ?case
  proof (cases ev)
    case (EvView v)
    then show ?thesis using run mem_fins.kept_handleViewUpdate[of ?w M v] part by auto
  next
    case (EvProposal p)
    then have "after_ok (\<lambda>rlc. rlc\<lparr>ProposalCh := False\<rparr>) (recordProposedHeader ?M p ?w) = Ret (True, w')" using run by simp
    then obtain w1 where "recordProposedHeader ?M p ?w = Ret (True, w1)" "w' = upd_rlc (\<lambda>rlc. rlc\<lparr>ProposalCh := False\<rparr>) w1"
      by (rule mem_position.after_okE) simp
    then show ?thesis using record_fin_part(3)[of M p ?w True w1] part by simp
  next
    case (EvPrevote he)
    then obtain h where "after_ok (\<lambda>rlc. rlc\<lparr>PrevoteHashCh := False\<rparr>) (recordPrevote ?M h ?w) = Ret (True, w')"
      using run by (cases he) simp_all
    then obtain w1 where "recordPrevote ?M h ?w = Ret (True, w1)" "w' = upd_rlc (\<lambda>rlc. rlc\<lparr>PrevoteHashCh := False\<rparr>) w1"
      by (rule mem_position.after_okE) simp
    then show ?thesis using record_fin_part(1)[of M h ?w True w1] part by simp
  next
    case (EvPrecommit he)
    then obtain h where "after_ok (\<lambda>rlc. rlc\<lparr>PrecommitHashCh := False\<rparr>) (recordPrecommit ?M h ?w) = Ret (True, w')"
      using run by (cases he) simp_all
    then obtain w1 where "recordPrecommit ?M h ?w = Ret (True, w1)" "w' = upd_rlc (\<lambda>rlc. rlc\<lparr>PrecommitHashCh := False\<rparr>) w1"
      by (rule mem_position.after_okE) simp
    then show ?thesis using record_fin_part(2)[of M h ?w True w1] part by simp
  next
    case (EvFinalize resp)
    then show ?thesis using run handleFinalization_fin[OF inv, of resp True w'] by simp
  next
    case EvTimer
    have "fin_inv M (h0, smm_fins st) (?w\<lparr>sm_timer := False\<rparr>)" using inv fin_inv_frame[of "?w\<lparr>sm_timer := False\<rparr>" ?w M "(h0, smm_fins st)"] by simp
    then show ?thesis using EvTimer run handleTimerElapsed_fin[of M "(h0, smm_fins st)" "?w\<lparr>sm_timer := False\<rparr>" True w'] by simp
  next
    case EvHeightCommitted
    then show ?thesis using run handleHeightCommitted_fin[OF inv, of True w'] by simp
  next
    case (EvArrival d)
    then show ?thesis using run mem_fins.keeps_handleBlockDataArrival[of ?w d] part by auto
  qed
next
  case (catchup w resp answers busy arrivals ok w')
  then show ?case by simp
qed

lemma smrun_keeps_fins:
  assumes "smrun (M\<lparr>m_stores := MemSMStores\<rparr>) st False True w" "initialHeightRound (M\<lparr>m_stores := MemSMStores\<rparr>) st = Some (h0, r0)"
  shows "smm_fins st \<subseteq>\<^sub>m smm_fins (sm_stores w)"
  using smrun_fin[OF assms(1) _ _ assms(2)] by (simp add: fin_inv_def chain_ok_def Let_def)

lemma sendInitialActionSet_stores: "go_post (\<lambda>(out, w'). sm_stores w' = sm_stores w) (sendInitialActionSet M w)"
  by (auto simp: sendInitialActionSet_def Let_def finalizeRequest_def go_post_bind go_post_iff split: option.split list.split RoundEntranceResponse.split)

lemma initializeRLC_stores:
  fixes M :: "('p, 'b, sm_mem) StateMachine"
  assumes run: "initializeRLC (M\<lparr>m_stores := MemSMStores\<rparr>) w = Ret (ok, w')"
  shows "smm_fins (sm_stores w') = smm_fins (sm_stores w)"
proof -
  let ?M = "M\<lparr>m_stores := MemSMStores\<rparr>"
  have send: "sm_stores w1 = sm_stores w" if "sendInitialActionSet ?M w = Ret (out, w1)" for out w1
    using sendInitialActionSet_stores[of w ?M] that by simp
  have sup: "smm_fins (sm_stores w2) = smm_fins (sm_stores w1)" if "suppressProposal ?M v w1 = (b, v1, w2)" for v w1 b v1 w2
    using suppressProposal_fin[OF that] by (simp add: fin_part_def)
  from run show ?thesis
  proof (cases rule: initializeRLC_elim)
    case (3 vrv err w1 b vrv1 w2)
    then show ?thesis using send[OF 3(2)] sup[OF 3(3)] by auto
  next
    case (4 vrv err w1 b vrv1 w2)
    have "fin_part w' = fin_part w2" using mem_fins.keeps_begin_after[of _ w2 M vrv1, OF fin_part_sel(3)] 4(3) by (auto dest: go_postD)
    then show ?thesis using send[OF 4(1)] sup[OF 4(2)] by (simp add: fin_part_def)
  qed (use send in auto)
qed

section \<open>Properties\<close>



end
