(* ===== verification/StateMachineProps.thy ===== *)
theory StateMachineProps
  imports StateMachineChain
begin

text \<open>
  How the state machine decides a round and moves to the next height, and where it fails to.
\<close>


section \<open>Deciding a round\<close>

definition voting_steps :: "Step set" where
  "voting_steps = {StepAwaitingProposal, StepAwaitingPrevotes, StepPrevoteDelay, StepAwaitingPrecommits, StepPrecommitDelay}"

definition commits_header :: "'p VersionedRoundView \<Rightarrow> bool" where
  "commits_header vrv \<longleftrightarrow> (let vs = rv_VoteSummary vrv in
     (\<exists>maj. ByzantineMajority (AvailablePower vs) = Ret maj \<and> maj \<le> TotalPrecommitPower vs \<and>
        maj \<le> lookup0 (PrecommitBlockPower vs) (MostVotedPrecommitHash vs)) \<and>
     (\<exists>min. ByzantineMinority (AvailablePower vs) = Ret min) \<and> MostVotedPrecommitHash vs \<noteq> [])"

text \<open>The world after \<open>beginCommit\<close> from a voting step: its timer is replaced by that of the commit wait.\<close>

definition committed_world :: "'p VersionedRoundView \<Rightarrow> ProposedHeader \<Rightarrow> ('p, 's) sm_world \<Rightarrow> ('p, 's) sm_world" where
  "committed_world vrv ph w = w\<lparr>sm_timer := True,
     sm_rlc := (sm_rlc w)\<lparr>rlc_S := StepCommitWait, StepTimer := True, CancelTimer := True\<rparr>,
     sm_effects := sm_effects w @ [TimerStarted CommitWaitTimer (rlc_H (sm_rlc w)) (rlc_R (sm_rlc w)),
       FinalizeRequest \<lparr>fbr_Header = ph_Header ph, fbr_Round = rv_Round vrv, fbr_Resp = True\<rparr>]\<rparr>"

lemma beginCommit_world:
  assumes "\<not> sm_timer w" "committedPH vrv = Some ph" "FinalizeRespCh (sm_rlc w)"
  shows "ignore_ok (beginCommit vrv w) = Ret (committed_world vrv ph w)"
  using assms by (simp add: ignore_ok_def beginCommit_def startTimer_def finalizeRequest_def emit_def upd_rlc_def committed_world_def)

lemma cancel_committed:
  "cancelTimer w = Ret w1 \<Longrightarrow> committed_world vrv ph w1 = committed_world vrv ph w \<and> \<not> sm_timer w1 \<and> FinalizeRespCh (sm_rlc w1) = FinalizeRespCh (sm_rlc w)"
  by (auto simp: cancelTimer_def committed_world_def split: if_splits)

lemma view_switch_commits:
  assumes inv: "sm_inv M w" "entered (sm_effects w)" and s: "rlc_S (sm_rlc w) \<in> voting_steps"
    and c: "commits_header vrv" "committedPH vrv = Some ph"
  shows "(case rlc_S (sm_rlc w) of
       StepAwaitingProposal \<Rightarrow> handleProposalViewUpdate M vrv w
     | StepAwaitingPrevotes \<Rightarrow> handlePrevoteViewUpdate M vrv w
     | StepPrevoteDelay \<Rightarrow> handlePrevoteViewUpdate M vrv w
     | StepAwaitingPrecommits \<Rightarrow> handlePrecommitViewUpdate M vrv w
     | StepPrecommitDelay \<Rightarrow> handlePrecommitViewUpdate M vrv w
     | StepCommitWait \<Rightarrow> handleCommitWaitViewUpdate vrv w
     | StepAwaitingFinalization \<Rightarrow> handleCommitWaitViewUpdate vrv w
     | StepInvalid \<Rightarrow> Panic ''TODO: handle view update for step'') = Ret (committed_world vrv ph w)"
proof -
  obtain maj min where m: "ByzantineMajority (AvailablePower (rv_VoteSummary vrv)) = Ret maj" "ByzantineMinority (AvailablePower (rv_VoteSummary vrv)) = Ret min"
    "maj \<le> TotalPrecommitPower (rv_VoteSummary vrv)" "maj \<le> lookup0 (PrecommitBlockPower (rv_VoteSummary vrv)) (MostVotedPrecommitHash (rv_VoteSummary vrv))"
    "MostVotedPrecommitHash (rv_VoteSummary vrv) \<noteq> []"
    using c(1) by (auto simp: commits_header_def Let_def)
  have fin: "FinalizeRespCh (sm_rlc w)" using inv s by (auto simp: sm_inv_def voting_steps_def Let_def)
  have timer: "sm_timer w = CancelTimer (sm_rlc w)" "CancelTimer (sm_rlc w) \<longleftrightarrow> rlc_S (sm_rlc w) \<in> timed_steps"
    using inv by (simp_all add: sm_inv_def Let_def)
  have cancel: "\<exists>w1. cancelTimer w = Ret w1" if "CancelTimer (sm_rlc w)" using that by (simp add: cancelTimer_def)
  have after: "gobind (cancelTimer w) (\<lambda>w1. ignore_ok (beginCommit vrv w1)) = Ret (committed_world vrv ph w)" if t: "CancelTimer (sm_rlc w)"
  proof -
    obtain w1 where w1: "cancelTimer w = Ret w1" using cancel[OF t] by blast
    then show ?thesis using cancel_committed[OF w1, of vrv ph] beginCommit_world[OF _ c(2), of w1] fin by simp
  qed
  have direct: "ignore_ok (beginCommit vrv w) = Ret (committed_world vrv ph w)" if "\<not> CancelTimer (sm_rlc w)"
    using beginCommit_world[OF _ c(2) fin] timer that by simp
  show ?thesis
    using s after direct timer(2) m
    by (auto simp: voting_steps_def timed_steps_def handleProposalViewUpdate_def handlePrevoteViewUpdate_def
        handlePrecommitViewUpdate_def cancelIn_def Let_def)
qed

text \<open>(C6) Commits are followed: in a live run that has entered its round and has not decided it, a newer view of that round in
  which a majority of the power precommitted one header that the view contains moves the state machine to the commit wait, whatever
  step it was in: the running timer is replaced by that of the commit wait, the driver is asked to finalize exactly
  that header, with a channel for its answer, and the view is kept.\<close>

theorem majority_precommit_commits:
  assumes "smrun (M\<lparr>m_stores := MemSMStores\<rparr>) st False True w" "\<not> sm_cancelled w" "entered (sm_effects w)" "rlc_S (sm_rlc w) \<in> voting_steps"
    and "rv_Height vrv = rlc_H (sm_rlc w)" "rv_Height vrv \<noteq> 0" "rv_Round vrv = rlc_R (sm_rlc w)"
    and "rlc_VRV (sm_rlc w) = Some old" "Version old < Version vrv" "rv_Height old = rlc_H (sm_rlc w)" "rv_Round old = rlc_R (sm_rlc w)"
    and "commits_header vrv" "committedPH vrv = Some ph"
  shows "\<exists>w'. handleViewUpdate (M\<lparr>m_stores := MemSMStores\<rparr>) \<lparr>smrv_VRV = vrv, smrv_JumpAhead = None\<rparr> w = Ret w' \<and>
    rlc_S (sm_rlc w') = StepCommitWait \<and> sm_timer w' \<and> rlc_VRV (sm_rlc w') = Some vrv \<and> sm_stores w' = sm_stores w \<and>
    sm_effects w' = sm_effects w @ [TimerStarted CommitWaitTimer (rlc_H (sm_rlc w)) (rlc_R (sm_rlc w)),
      FinalizeRequest \<lparr>fbr_Header = ph_Header ph, fbr_Round = rlc_R (sm_rlc w), fbr_Resp = True\<rparr>]"
proof -
  let ?M = "M\<lparr>m_stores := MemSMStores\<rparr>"
  have inv: "sm_inv ?M w" using mem_position.smrun_inv[OF assms(1)] assms(2) by simp
  have "handleViewUpdate ?M \<lparr>smrv_VRV = vrv, smrv_JumpAhead = None\<rparr> w =
      Ret (upd_rlc (\<lambda>rlc. rlc\<lparr>rlc_VRV := Some vrv\<rparr>) (committed_world vrv ph w))"
    using view_switch_commits[OF inv assms(3,4,12,13)] assms(5-11)
    by (simp add: handleViewUpdate_def Let_def committed_world_def)
  then show ?thesis using assms(7) by (simp add: committed_world_def)
qed

theorem majority_precommit_commits_witness:
  "\<exists>w'. handleViewUpdate ex_sm \<lparr>smrv_VRV = ex_commit_view, smrv_JumpAhead = None\<rparr> ex_sm_prevoted = Ret w' \<and> rlc_S (sm_rlc w') = StepCommitWait"
proof -
  have pre: "\<not> sm_cancelled ex_sm_prevoted" "entered (sm_effects ex_sm_prevoted)" "rlc_S (sm_rlc ex_sm_prevoted) = StepAwaitingPrevotes"
    "rv_Height ex_commit_view = rlc_H (sm_rlc ex_sm_prevoted)" "rv_Height ex_commit_view \<noteq> 0" "rv_Round ex_commit_view = rlc_R (sm_rlc ex_sm_prevoted)"
    "committedPH ex_commit_view = Some ex_proposal" by code_simp+
  obtain old where old: "rlc_VRV (sm_rlc ex_sm_prevoted) = Some old" "Version old = 1" "rv_Height old = 1" "rv_Round old = 0"
  proof -
    have "case rlc_VRV (sm_rlc ex_sm_prevoted) of Some old \<Rightarrow> Version old = 1 \<and> rv_Height old = 1 \<and> rv_Round old = 0 | None \<Rightarrow> False" by code_simp
    then show ?thesis using that by (auto split: option.splits)
  qed
  have c: "commits_header ex_commit_view"
  proof -
    have "ByzantineMajority (AvailablePower (rv_VoteSummary ex_commit_view)) = Ret 6" "ByzantineMinority (AvailablePower (rv_VoteSummary ex_commit_view)) = Ret 3"
      "6 \<le> TotalPrecommitPower (rv_VoteSummary ex_commit_view)" "MostVotedPrecommitHash (rv_VoteSummary ex_commit_view) \<noteq> []"
      "6 \<le> lookup0 (PrecommitBlockPower (rv_VoteSummary ex_commit_view)) (MostVotedPrecommitHash (rv_VoteSummary ex_commit_view))" by code_simp+
    then show ?thesis by (auto simp: commits_header_def Let_def)
  qed
  have hr: "rlc_H (sm_rlc ex_sm_prevoted) = 1" "rlc_R (sm_rlc ex_sm_prevoted) = 0" "Version ex_commit_view = 2" by code_simp+
  have "rlc_S (sm_rlc ex_sm_prevoted) \<in> voting_steps" "Version old < Version ex_commit_view" "rv_Height old = rlc_H (sm_rlc ex_sm_prevoted)"
    "rv_Round old = rlc_R (sm_rlc ex_sm_prevoted)" using pre(3) old hr by (simp_all add: voting_steps_def)
  from majority_precommit_commits[of ex_sm, unfolded ex_sm_mem, OF ex_sm_prevoted_run pre(1,2) this(1) pre(4-6) old(1) this(2-4) c pre(7)]
  show ?thesis by (elim exE conjE) (intro exI conjI)
qed

section \<open>Finalization and commit wait in either order\<close>

text \<open>Entering a round that is live and not committed to nil overwrites the step.\<close>

lemma beginRoundLive_step:
  assumes "GetStepFromVoteSummary (rv_VoteSummary vrv) \<noteq> Ret StepCommitWait \<or> MostVotedPrecommitHash (rv_VoteSummary vrv) \<noteq> []"
  shows "beginRoundLive adv vrv (setStep s w) = beginRoundLive adv vrv w"
proof -
  have "rejectMismatchedProposedHeaders phs (rlc\<lparr>rlc_S := s\<rparr>) = rejectMismatchedProposedHeaders phs rlc" for phs and rlc :: "'a RoundLifecycle"
    by (simp add: rejectMismatchedProposedHeaders_def)
  moreover have "upd_rlc (\<lambda>rlc. rlc\<lparr>rlc_S := t, rlc_VRV := v\<rparr>) (considerNew phs b (setStep s w)) =
      upd_rlc (\<lambda>rlc. rlc\<lparr>rlc_S := t, rlc_VRV := v\<rparr>) (considerNew phs b w)" for t v phs b
    by (simp add: considerNew_def MarkReasonNewHashes_def setStep_def upd_rlc_def emit_def Let_def)
  moreover have "upd_rlc (\<lambda>rlc. rlc\<lparr>rlc_S := t, rlc_VRV := v\<rparr>) (decidePrecommit vs (setStep s w)) =
      upd_rlc (\<lambda>rlc. rlc\<lparr>rlc_S := t, rlc_VRV := v\<rparr>) (decidePrecommit vs w)" for t v vs
    by (simp add: decidePrecommit_def setStep_def upd_rlc_def emit_def)
  moreover have "upd_rlc (\<lambda>rlc. rlc\<lparr>rlc_S := t, rlc_VRV := v\<rparr>) (setStep s w) = upd_rlc (\<lambda>rlc. rlc\<lparr>rlc_S := t, rlc_VRV := v\<rparr>) w" for t v
    by (simp add: setStep_def upd_rlc_def)
  moreover have "beginCommit vrv (setStep s w) = beginCommit vrv w"
    by (simp add: beginCommit_def setStep_def upd_rlc_def)
  ultimately show ?thesis
    using assms by (cases "GetStepFromVoteSummary (rv_VoteSummary vrv)")
      (auto simp: beginRoundLive_def Let_def split: Step.split)
qed

lemma advanceHeight_step:
  fixes M :: "('p, 'b, 's) StateMachine"
  assumes "\<And>h r st. \<exists>st'. ss_SetStateMachineHeightRound (m_stores M) h r st = Inr st'"
    and "sm_answers w = (RespVRV vrv, None) # rest"
    and "GetStepFromVoteSummary (rv_VoteSummary vrv) \<noteq> Ret StepCommitWait \<or> MostVotedPrecommitHash (rv_VoteSummary vrv) \<noteq> []"
  shows "advanceHeight M (setStep s w) = advanceHeight M w"
proof -
  let ?w1 = "rlc_Reset (rlc_H (sm_rlc w) + 1) 0 (upd_rlc CycleFinalization w)"
  have reset: "rlc_Reset (rlc_H (sm_rlc (upd_rlc CycleFinalization (setStep s w))) + 1) 0 (upd_rlc CycleFinalization (setStep s w)) = setStep s ?w1"
    by (simp add: rlc_Reset_def CycleFinalization_def setStep_def upd_rlc_def Let_def)
  have h: "rlc_H (sm_rlc (upd_rlc CycleFinalization w)) = rlc_H (sm_rlc w)" by (simp add: CycleFinalization_def)
  have move: "(setStep s w2)\<lparr>sm_stores := x\<rparr> = setStep s (w2\<lparr>sm_stores := x\<rparr>)" "emit e (setStep s w2) = setStep s (emit e w2)"
    "(setStep s w2)\<lparr>sm_answers := y\<rparr> = setStep s (w2\<lparr>sm_answers := y\<rparr>)" "roundEntranceFor (setStep s w2) = roundEntranceFor w2"
    "upd_rlc (\<lambda>rlc. rlc\<lparr>OutgoingActionsCh := b\<rparr>) (setStep s w2) = setStep s (upd_rlc (\<lambda>rlc. rlc\<lparr>OutgoingActionsCh := b\<rparr>) w2)"
    for w2 :: "('p, 's) sm_world" and x e y b by (simp_all add: setStep_def upd_rlc_def emit_def roundEntranceFor_def)
  have "advance M adv re (setStep s w2) = advance M adv re w2" if "sm_answers w2 = (RespVRV vrv, None) # rest" for adv re w2
    using that beginRoundLive_step[OF assms(3)] by (simp add: advance_def Let_def move)
  moreover obtain st where "ss_SetStateMachineHeightRound (m_stores M) (rlc_H (sm_rlc ?w1)) 0 (sm_stores ?w1) = Inr st" using assms(1) by blast
  ultimately show ?thesis
    using assms(2) unfolding advanceHeight_def Let_def reset h by (simp add: move)
qed

text \<open>(C8) With the in-memory stores it does not matter whether the driver answers before or after the commit wait elapses, provided that the
  mirror answers with a round view: when the
  mirror then answers the entrance to the next height with a view that is not committed to nil, both orders lead to the
  same state, with the same stores and the same effects.\<close>

theorem finalization_commutes_with_commit_wait:
  fixes M :: "('p, 'b, sm_mem) StateMachine"
  defines "Mm \<equiv> M\<lparr>m_stores := MemSMStores\<rparr>"
  assumes "rlc_S (sm_rlc w) = StepCommitWait" "CancelTimer (sm_rlc w)" "Validators (FinalizedValSet (sm_rlc w)) = []"
    and "fr_Validators resp \<noteq> []" "NewValidatorSet (fr_Validators resp) (m_hashScheme M) = Inr vs"
    and "fr_Height resp = rlc_H (sm_rlc w)" "fr_Round resp = rlc_R (sm_rlc w)"
    and "fin_of (smm_fins (sm_stores w)) (rlc_H (sm_rlc w)) = None"
    and "sm_answers w = (RespVRV vrv, None) # rest"
    and "GetStepFromVoteSummary (rv_VoteSummary vrv) \<noteq> Ret StepCommitWait \<or> MostVotedPrecommitHash (rv_VoteSummary vrv) \<noteq> []"
  shows "gobind (handleFinalization Mm resp w) (\<lambda>(ok, w1). handleTimerElapsed Mm (w1\<lparr>sm_timer := False\<rparr>)) =
    gobind (handleTimerElapsed Mm (w\<lparr>sm_timer := False\<rparr>)) (\<lambda>(ok, w1). handleFinalization Mm resp w1)"
proof -
  have vals: "Validators vs \<noteq> []" using assms(5,6) by (auto simp: NewValidatorSet_def split: sum.splits)
  obtain F where F: "SaveFinalization (smm_fins (sm_stores w)) (rlc_H (sm_rlc w)) (rlc_R (sm_rlc w)) (fr_BlockHash resp) vs (fr_AppStateHash resp) = Inr F"
    using assms(9) by (auto simp: SaveFinalization_def fin_of_def LoadFinalizationByHeight_def split: option.splits)
  then have st: "ss_SaveFinalization (m_stores Mm) (rlc_H (sm_rlc w)) (rlc_R (sm_rlc w)) (fr_BlockHash resp) vs (fr_AppStateHash resp) (sm_stores w) =
      Inr ((sm_stores w)\<lparr>smm_fins := F\<rparr>)" by (simp add: Mm_def MemSMStores_def)
  have hs: "m_hashScheme Mm = m_hashScheme M" by (simp add: Mm_def)
  define w2 where "w2 = w\<lparr>sm_timer := False, sm_stores := (sm_stores w)\<lparr>smm_fins := F\<rparr>,
     sm_rlc := (sm_rlc w)\<lparr>CommitWaitElapsed := True, StepTimer := False, CancelTimer := False,
     FinalizedValSet := vs, FinalizedAppStateHash := fr_AppStateHash resp, FinalizedBlockHash := fr_BlockHash resp, FinalizeRespCh := False\<rparr>\<rparr>"
  have "gobind (handleFinalization Mm resp w) (\<lambda>(ok, w1). handleTimerElapsed Mm (w1\<lparr>sm_timer := False\<rparr>)) = advanceHeight Mm w2"
    using assms(2-8) vals st hs
    by (simp add: handleFinalization_def handleTimerElapsed_def cancelTimer_def upd_rlc_def Let_def w2_def)
      (intro arg_cong[where f = "advanceHeight Mm"] sm_world.equality RoundLifecycle.equality; simp)
  moreover have "gobind (handleTimerElapsed Mm (w\<lparr>sm_timer := False\<rparr>)) (\<lambda>(ok, w1). handleFinalization Mm resp w1) =
      advanceHeight Mm (setStep StepAwaitingFinalization w2)"
    using assms(2-8) st hs
    by (simp add: handleFinalization_def handleTimerElapsed_def cancelTimer_def upd_rlc_def setStep_def Let_def w2_def)
      (intro arg_cong[where f = "advanceHeight Mm"] sm_world.equality RoundLifecycle.equality; simp)
  moreover have "advanceHeight Mm (setStep StepAwaitingFinalization w2) = advanceHeight Mm w2"
    by (rule advanceHeight_step[OF _ _ assms(11)])
      (use assms(10) in \<open>simp_all add: w2_def Mm_def MemSMStores_def SetStateMachineHeightRound_def\<close>)
  ultimately show ?thesis by simp
qed

theorem finalization_commutes_with_commit_wait_witness:
  "let w = sm_input [(RespVRV (ex_view 2 0), None)] False [] ex_sm_waiting in
   gobind (handleFinalization ex_sm ex_response w) (\<lambda>(ok, w1). handleTimerElapsed ex_sm (w1\<lparr>sm_timer := False\<rparr>)) =
   gobind (handleTimerElapsed ex_sm (w\<lparr>sm_timer := False\<rparr>)) (\<lambda>(ok, w1). handleFinalization ex_sm ex_response w1)"
proof -
  let ?w = "sm_input [(RespVRV (ex_view 2 0), None)] False [] ex_sm_waiting"
  have pre: "rlc_S (sm_rlc ?w) = StepCommitWait" "CancelTimer (sm_rlc ?w)" "Validators (FinalizedValSet (sm_rlc ?w)) = []"
    "fr_Validators ex_response \<noteq> []" "NewValidatorSet (fr_Validators ex_response) (m_hashScheme ex_sm) = Inr ex_valset"
    "fr_Height ex_response = rlc_H (sm_rlc ?w)" "fr_Round ex_response = rlc_R (sm_rlc ?w)"
    "fin_of (smm_fins (sm_stores ?w)) (rlc_H (sm_rlc ?w)) = None" by code_simp+
  have ans: "sm_answers ?w = [(RespVRV (ex_view 2 0), None)]" by (simp add: sm_input_def)
  have "GetStepFromVoteSummary (rv_VoteSummary (ex_view 2 0)) = Ret StepAwaitingProposal" by code_simp
  then show ?thesis unfolding Let_def
    by (intro finalization_commutes_with_commit_wait[of _ ex_response ex_sm, unfolded ex_sm_mem, OF pre ans]) simp
qed

section \<open>Errors\<close>

text \<open>(C33) A state machine that is still waiting for proposals when a majority of the power has prevoted one hash moves on to
  the precommits without asking for a precommit decision and without a timer; as long as no majority has precommitted, every
  further view of the round then leaves it unchanged, so that it does not precommit in this round.\<close>

theorem early_prevote_majority_skips_precommit:
  assumes "smrun (M\<lparr>m_stores := MemSMStores\<rparr>) st False True w" "\<not> sm_cancelled w" "entered (sm_effects w)" "rlc_S (sm_rlc w) = StepAwaitingProposal"
    and "ByzantineMajority (AvailablePower (rv_VoteSummary vrv)) = Ret maj" "ByzantineMinority (AvailablePower (rv_VoteSummary vrv)) = Ret mino"
    and "TotalPrecommitPower (rv_VoteSummary vrv) < maj" "TotalPrecommitPower (rv_VoteSummary vrv) < mino" "maj \<le> TotalPrevotePower (rv_VoteSummary vrv)"
    and "maj \<le> lookup0 (PrevoteBlockPower (rv_VoteSummary vrv)) (MostVotedPrevoteHash (rv_VoteSummary vrv))" "\<not> sm_cmBusy w"
  shows "\<exists>w'. handleProposalViewUpdate (M\<lparr>m_stores := MemSMStores\<rparr>) vrv w = Ret w' \<and> rlc_S (sm_rlc w') = StepAwaitingPrecommits \<and>
    \<not> precommit_asked (sm_effects w') \<and> \<not> sm_timer w' \<and>
    (\<forall>vrv' maj'. ByzantineMajority (AvailablePower (rv_VoteSummary vrv')) = Ret maj' \<and> TotalPrecommitPower (rv_VoteSummary vrv') < maj' \<longrightarrow>
       handlePrecommitViewUpdate (M\<lparr>m_stores := MemSMStores\<rparr>) vrv' w' = Ret w')"
proof -
  let ?M = "M\<lparr>m_stores := MemSMStores\<rparr>"
  have inv: "sm_inv ?M w" using mem_position.smrun_inv[OF assms(1)] assms(2) by simp
  then have d: "decisions (sm_effects w) = 0" and "CancelTimer (sm_rlc w)" using assms(3,4) by (simp_all add: sm_inv_defs Let_def)
  then obtain w1 where w1: "cancelTimer w = Ret w1" "sm_effects w1 = sm_effects w" "\<not> sm_timer w1" "sm_cmBusy w1 = sm_cmBusy w"
    by (simp add: cancelTimer_def)
  let ?w' = "upd_rlc (\<lambda>rlc. rlc\<lparr>PrevConsideredHashes := []\<rparr>) (emit (ChooseProposedBlockRequest
     (rejectMismatchedProposedHeaders (ProposedHeaders vrv) (sm_rlc w1)) (PrevoteHashCh (sm_rlc w1))) (setStep StepAwaitingPrecommits w1))"
  have "\<not> maj \<le> TotalPrecommitPower (rv_VoteSummary vrv)" "\<not> mino \<le> TotalPrecommitPower (rv_VoteSummary vrv)" using assms(7,8) by simp_all
  then have f1: "handleProposalViewUpdate ?M vrv w = Ret ?w'"
    using assms(5,6,9-11) w1(1,4) by (simp add: handleProposalViewUpdate_def Let_def)
  have f2: "\<not> precommit_asked (sm_effects ?w')" using d by (simp add: precommit_asked_decisions w1)
  have f3: "handlePrecommitViewUpdate ?M vrv' ?w' = Ret ?w'"
    if "ByzantineMajority (AvailablePower (rv_VoteSummary vrv')) = Ret maj' \<and> TotalPrecommitPower (rv_VoteSummary vrv') < maj'" for vrv' maj'
  proof -
    have "\<not> maj' \<le> TotalPrecommitPower (rv_VoteSummary vrv')" using conjunct2[OF that] by (simp only: not_le)
    then show ?thesis using conjunct1[OF that] by (simp add: handlePrecommitViewUpdate_def Let_def)
  qed
  show ?thesis
    by (rule exI[of _ ?w'], intro conjI allI impI) (rule f1, simp, rule f2, simp add: w1(3), rule f3, assumption)
qed

definition ex_prevote_view :: "nat list SimpleProof VersionedRoundView" where
  "ex_prevote_view = (ex_view 1 0)\<lparr>Version := 2, ProposedHeaders := [ex_proposal], rv_VoteSummary := NewVoteSummary\<lparr>AvailablePower := 8,
     TotalPrevotePower := 8, PrevoteBlockPower := [(''x'', 8)], MostVotedPrevoteHash := ''x''\<rparr>\<rparr>"

theorem early_prevote_majority_skips_precommit_witness:
  "\<exists>w'. handleProposalViewUpdate ex_sm ex_prevote_view ex_sm_entered = Ret w' \<and> \<not> precommit_asked (sm_effects w')"
proof -
  have pre: "\<not> sm_cancelled ex_sm_entered" "entered (sm_effects ex_sm_entered)" "rlc_S (sm_rlc ex_sm_entered) = StepAwaitingProposal"
    "ByzantineMajority (AvailablePower (rv_VoteSummary ex_prevote_view)) = Ret 6" "ByzantineMinority (AvailablePower (rv_VoteSummary ex_prevote_view)) = Ret 3"
    "TotalPrecommitPower (rv_VoteSummary ex_prevote_view) < 6" "TotalPrecommitPower (rv_VoteSummary ex_prevote_view) < 3"
    "6 \<le> TotalPrevotePower (rv_VoteSummary ex_prevote_view)"
    "6 \<le> lookup0 (PrevoteBlockPower (rv_VoteSummary ex_prevote_view)) (MostVotedPrevoteHash (rv_VoteSummary ex_prevote_view))" "\<not> sm_cmBusy ex_sm_entered"
    by code_simp+
  from early_prevote_majority_skips_precommit[of ex_sm, unfolded ex_sm_mem, OF ex_sm_entered_run pre]
  show ?thesis by (elim exE conjE) (intro exI conjI)
qed

end
