(* ===== verification/StrategyManager.thy ===== *)
theory StrategyManager
  imports StateMachineLife
begin

text \<open>
  The consensus manager (\<open>tsi/consensusmanager.go\<close>) that calls the consensus strategy for the state machine, and a
  deadlock of the two.
\<close>


section \<open>The code\<close>

text \<open>The consensus strategy of the application, with a state of its own. A result channel of a round has room for one
  answer; a manager that sends to a full one waits until it is read, and takes no request meanwhile.\<close>

record ('p, 'a) ConsensusStrategy =
  cs_EnterRound :: "'p RoundView \<Rightarrow> 'a \<Rightarrow> go_error option \<times> 'a"
  cs_ConsiderProposedBlocks :: "ProposedHeader list \<Rightarrow> ConsiderProposedBlocksReason \<Rightarrow> 'a \<Rightarrow> HashSelection \<times> 'a"
  cs_ChooseProposedBlock :: "ProposedHeader list \<Rightarrow> 'a \<Rightarrow> HashSelection \<times> 'a"
  cs_DecidePrecommit :: "VoteSummary \<Rightarrow> 'a \<Rightarrow> HashSelection \<times> 'a"

definition ErrProposedBlockChoiceNotReady :: go_error where
  "ErrProposedBlockChoiceNotReady = OtherError ''not ready to choose proposed block''"

record 'a ConsensusManager =
  cm_state :: 'a
  cm_prevoteCh :: "HashSelection option"
  cm_precommitCh :: "HashSelection option"
  cm_waiting :: bool

definition newConsensusManager :: "'a \<Rightarrow> 'a ConsensusManager" where
  "newConsensusManager a = \<lparr>cm_state = a, cm_prevoteCh = None, cm_precommitCh = None, cm_waiting = False\<rparr>"

definition sendPrevoteHash :: "HashSelection \<Rightarrow> 'a ConsensusManager \<Rightarrow> 'a ConsensusManager" where
  "sendPrevoteHash sel m = (if cm_prevoteCh m = None then m\<lparr>cm_prevoteCh := Some sel\<rparr> else m\<lparr>cm_waiting := True\<rparr>)"

definition sendPrecommitHash :: "HashSelection \<Rightarrow> 'a ConsensusManager \<Rightarrow> 'a ConsensusManager" where
  "sendPrecommitHash sel m = (if cm_precommitCh m = None then m\<lparr>cm_precommitCh := Some sel\<rparr> else m\<lparr>cm_waiting := True\<rparr>)"

text \<open>A new round has fresh channels.\<close>

definition handleEnterRound :: "('p, 'a) ConsensusStrategy \<Rightarrow> 'p RoundView \<Rightarrow> 'a ConsensusManager \<Rightarrow> go_error option \<times> 'a ConsensusManager" where
  "handleEnterRound strat rv m = (case cs_EnterRound strat rv (cm_state m) of (err, a) \<Rightarrow>
     (err, m\<lparr>cm_state := a, cm_prevoteCh := None, cm_precommitCh := None\<rparr>))"

definition handleConsiderPBs :: "('p, 'a) ConsensusStrategy \<Rightarrow> ProposedHeader list \<Rightarrow> ConsiderProposedBlocksReason \<Rightarrow>
    'a ConsensusManager \<Rightarrow> 'a ConsensusManager" where
  "handleConsiderPBs strat phs reason m = (case cs_ConsiderProposedBlocks strat phs reason (cm_state m) of (sel, a) \<Rightarrow>
     if sel = Inl ErrProposedBlockChoiceNotReady then m\<lparr>cm_state := a\<rparr> else sendPrevoteHash sel (m\<lparr>cm_state := a\<rparr>))"

definition handleChoosePB :: "('p, 'a) ConsensusStrategy \<Rightarrow> ProposedHeader list \<Rightarrow> 'a ConsensusManager \<Rightarrow> 'a ConsensusManager" where
  "handleChoosePB strat phs m = (case cs_ChooseProposedBlock strat phs (cm_state m) of (sel, a) \<Rightarrow> sendPrevoteHash sel (m\<lparr>cm_state := a\<rparr>))"

definition handleDecidePrecommit :: "('p, 'a) ConsensusStrategy \<Rightarrow> VoteSummary \<Rightarrow> 'a ConsensusManager \<Rightarrow> 'a ConsensusManager" where
  "handleDecidePrecommit strat vs m = (case cs_DecidePrecommit strat vs (cm_state m) of (sel, a) \<Rightarrow> sendPrecommitHash sel (m\<lparr>cm_state := a\<rparr>))"

text \<open>The kernel takes the requests of the state machine one after the other; \<open>None\<close> when it cannot take one because it waits.\<close>

primrec cm_request :: "('p, 'a) ConsensusStrategy \<Rightarrow> 'p sm_effect \<Rightarrow> 'a ConsensusManager \<Rightarrow> 'a ConsensusManager option" where
  "cm_request strat (EnterRoundRequest rv ch) m = (if cm_waiting m then None else Some (snd (handleEnterRound strat rv m)))"
| "cm_request strat (ConsiderProposedBlocksRequest phs r ch) m = (if cm_waiting m then None else Some (handleConsiderPBs strat phs r m))"
| "cm_request strat (ChooseProposedBlockRequest phs ch) m = (if cm_waiting m then None else Some (handleChoosePB strat phs m))"
| "cm_request strat (DecidePrecommitRequest vs ch) m = (if cm_waiting m then None else Some (handleDecidePrecommit strat vs m))"
| "cm_request strat (FinalizeRequest req) m = Some m"
| "cm_request strat (RoundEntrance re) m = Some m"
| "cm_request strat (ActionSent h r act) m = Some m"
| "cm_request strat (TimerStarted t h r) m = Some m"
| "cm_request strat Terminate m = Some m"

fun cm_kernel :: "('p, 'a) ConsensusStrategy \<Rightarrow> 'p sm_effect list \<Rightarrow> 'a ConsensusManager \<Rightarrow> 'a ConsensusManager option" where
  "cm_kernel strat [] m = Some m"
| "cm_kernel strat (e # es) m = (case cm_request strat e m of None \<Rightarrow> None | Some m' \<Rightarrow> cm_kernel strat es m')"

section \<open>A deadlock\<close>

text \<open>Two proposed headers arrive one after the other while the proposal timer runs, and then it elapses, before the state
  machine has read any answer.\<close>

definition ex_offer :: "bytes \<Rightarrow> ProposedHeader" where
  "ex_offer hash = ex_proposal\<lparr>ph_Header := ex_header\<lparr>Hash := hash, PrevAppStateHash := ''s''\<rparr>\<rparr>"

definition ex_offers_view :: "u32 \<Rightarrow> ProposedHeader list \<Rightarrow> nat list SimpleProof VersionedRoundView" where
  "ex_offers_view v phs = (ex_view 1 0)\<lparr>Version := v, ProposedHeaders := phs\<rparr>"

definition ex_sm_asked :: "(nat list SimpleProof, sm_mem) sm_world" where
  "ex_sm_asked = ex_after [] EvTimer
     (ex_after [] (EvView \<lparr>smrv_VRV = ex_offers_view 3 [ex_offer ''x'', ex_offer ''y''], smrv_JumpAhead = None\<rparr>)
       (ex_after [] (EvView \<lparr>smrv_VRV = ex_offers_view 2 [ex_offer ''x''], smrv_JumpAhead = None\<rparr>) ex_sm_entered))"

lemma ex_sm_asked_run: "smrun ex_sm NewSMStores False True ex_sm_asked"
proof -
  have "ex_event_ok [] (EvView \<lparr>smrv_VRV = ex_offers_view 2 [ex_offer ''x''], smrv_JumpAhead = None\<rparr>) ex_sm_entered"
    "ex_event_ok [] (EvView \<lparr>smrv_VRV = ex_offers_view 3 [ex_offer ''x'', ex_offer ''y''], smrv_JumpAhead = None\<rparr>)
       (ex_after [] (EvView \<lparr>smrv_VRV = ex_offers_view 2 [ex_offer ''x''], smrv_JumpAhead = None\<rparr>) ex_sm_entered)"
    "ex_event_ok [] EvTimer (ex_after [] (EvView \<lparr>smrv_VRV = ex_offers_view 3 [ex_offer ''x'', ex_offer ''y''], smrv_JumpAhead = None\<rparr>)
       (ex_after [] (EvView \<lparr>smrv_VRV = ex_offers_view 2 [ex_offer ''x''], smrv_JumpAhead = None\<rparr>) ex_sm_entered))"
    by code_simp+
  then show ?thesis unfolding ex_sm_asked_def by (intro ex_after_run ex_sm_entered_run)
qed

lemma ex_sm_asked_effects: "\<exists>rv ph1 ph2 ph3 r1 r2 c1 c2 c3 c4 t1 re.
   sm_effects ex_sm_asked = [RoundEntrance re, EnterRoundRequest rv c1, t1, ConsiderProposedBlocksRequest ph1 r1 c2,
     ConsiderProposedBlocksRequest ph2 r2 c3, ChooseProposedBlockRequest ph3 c4] \<and> (\<exists>t h r. t1 = TimerStarted t h r)"
proof -
  have "case sm_effects ex_sm_asked of
      [RoundEntrance re, EnterRoundRequest rv c1, TimerStarted t h r, ConsiderProposedBlocksRequest ph1 r1 c2,
       ConsiderProposedBlocksRequest ph2 r2 c3, ChooseProposedBlockRequest ph3 c4] \<Rightarrow> True | _ \<Rightarrow> False" by code_simp
  then show ?thesis by (auto split: list.splits sm_effect.splits)
qed

text \<open>(C34) The state machine and the consensus manager can wait for each other: there is a live run in which the kernel, without having
  read an answer, asks to consider the headers twice and then, after the proposal timer, to choose one; with every strategy that
  answers both times with a hash the manager waits to send its second answer and does not take the third request, which the
  kernel sends without a timeout and whose sending keeps it from reading the answers.\<close>

theorem consensus_manager_deadlock:
  assumes "\<And>phs reason a. \<exists>hash. fst (cs_ConsiderProposedBlocks strat phs reason a) = Inr hash"
  shows "smrun ex_sm NewSMStores False True ex_sm_asked \<and> PrevoteHashCh (sm_rlc ex_sm_asked) \<and>
    (\<forall>a. cm_kernel strat (sm_effects ex_sm_asked) (newConsensusManager a) = None)"
proof (intro conjI allI)
  show "smrun ex_sm NewSMStores False True ex_sm_asked" by (rule ex_sm_asked_run)
  show "PrevoteHashCh (sm_rlc ex_sm_asked)" by code_simp
  fix a
  have answers: "\<exists>hash a'. cs_ConsiderProposedBlocks strat phs reason b = (Inr hash, a')" for phs reason b
    using assms[of phs reason b] by (metis prod.collapse)
  have first: "\<exists>m'. handleConsiderPBs strat phs reason m = m' \<and> cm_prevoteCh m' \<noteq> None \<and> \<not> cm_waiting m'"
    if "cm_prevoteCh m = None" "\<not> cm_waiting m" for phs reason m
    using answers[of phs reason "cm_state m"] that by (auto simp: handleConsiderPBs_def sendPrevoteHash_def)
  have second: "cm_waiting (handleConsiderPBs strat phs reason m)" if "cm_prevoteCh m \<noteq> None" for phs reason m
    using answers[of phs reason "cm_state m"] that by (auto simp: handleConsiderPBs_def sendPrevoteHash_def)
  have enter: "cm_prevoteCh (snd (handleEnterRound strat rv m)) = None" "cm_waiting (snd (handleEnterRound strat rv m)) = cm_waiting m" for rv m
    by (simp_all add: handleEnterRound_def split_beta)
  show "cm_kernel strat (sm_effects ex_sm_asked) (newConsensusManager a) = None"
    using ex_sm_asked_effects first second enter by (auto simp: newConsensusManager_def)
qed

definition ex_ready :: "(nat list SimpleProof, unit) ConsensusStrategy" where
  "ex_ready = \<lparr>cs_EnterRound = (\<lambda>rv a. (None, a)), cs_ConsiderProposedBlocks = (\<lambda>phs reason a. (Inr ''x'', a)),
     cs_ChooseProposedBlock = (\<lambda>phs a. (Inr ''x'', a)), cs_DecidePrecommit = (\<lambda>vs a. (Inr ''x'', a))\<rparr>"

theorem consensus_manager_deadlock_witness: "cm_kernel ex_ready (sm_effects ex_sm_asked) (newConsensusManager ()) = None"
  using consensus_manager_deadlock[of ex_ready] by (simp add: ex_ready_def)

end
