(* ===== verification/Timers.thy ===== *)
theory Timers
  imports Prelude
begin

text \<open>
  The timeouts of \<open>tmengine/timeoutstrategy.go\<close> and the timer service of \<open>tmstate/roundtimer.go\<close>. A duration is a signed
  64-bit number of nanoseconds. The timer service is a goroutine that talks to one client: it takes a request, answers it, and
  then waits in a \<open>select\<close> for the timer, the cancellation and the next request. A goroutine that is parked in the
  \<open>select\<close> is woken by the first of them; one that has not reached it yet picks any that is ready.
\<close>

section \<open>Timeouts\<close>

type_synonym Duration = "64 word"

record LinearTimeoutStrategy =
  ProposalBase :: Duration
  ProposalIncrement :: Duration
  PrevoteDelayBase :: Duration
  PrevoteDelayIncrement :: Duration
  PrecommitDelayBase :: Duration
  PrecommitDelayIncrement :: Duration
  CommitWaitBase :: Duration
  CommitWaitIncrement :: Duration

definition Millisecond :: Duration where
  "Millisecond = 1000000"

definition Second :: Duration where
  "Second = 1000 * Millisecond"

definition ProposalTimeout :: "LinearTimeoutStrategy \<Rightarrow> u64 \<Rightarrow> u32 \<Rightarrow> Duration" where
  "ProposalTimeout s height round =
     (let b = (if ProposalBase s = 0 then 5 * Second else ProposalBase s);
          i = (if ProposalIncrement s = 0 then 500 * Millisecond else ProposalIncrement s) in
      b + ucast round * i)"

definition PrevoteDelayTimeout :: "LinearTimeoutStrategy \<Rightarrow> u64 \<Rightarrow> u32 \<Rightarrow> Duration" where
  "PrevoteDelayTimeout s height round =
     (let b = (if PrevoteDelayBase s = 0 then 5 * Second else PrevoteDelayBase s);
          i = (if PrevoteDelayIncrement s = 0 then 500 * Millisecond else PrevoteDelayIncrement s) in
      b + ucast round * i)"

definition PrecommitDelayTimeout :: "LinearTimeoutStrategy \<Rightarrow> u64 \<Rightarrow> u32 \<Rightarrow> Duration" where
  "PrecommitDelayTimeout s height round =
     (let b = (if PrecommitDelayBase s = 0 then 5 * Second else PrecommitDelayBase s);
          i = (if PrecommitDelayIncrement s = 0 then 500 * Millisecond else PrecommitDelayIncrement s) in
      b + ucast round * i)"

definition CommitWaitTimeout :: "LinearTimeoutStrategy \<Rightarrow> u64 \<Rightarrow> u32 \<Rightarrow> Duration" where
  "CommitWaitTimeout s height round =
     (let b = (if CommitWaitBase s = 0 then 2 * Second else CommitWaitBase s);
          i = (if CommitWaitIncrement s = 0 then 500 * Millisecond else CommitWaitIncrement s) in
      b + ucast round * i)"

text \<open>A base and an increment, with their defaults for zero, whose largest timeout is still a duration.\<close>

definition or_default :: "Duration \<Rightarrow> Duration \<Rightarrow> Duration" where
  "or_default d v = (if v = 0 then d else v)"

definition in_range :: "Duration \<Rightarrow> Duration \<Rightarrow> bool" where
  "in_range b i \<longleftrightarrow> 0 \<le> sint b \<and> 0 < sint i \<and> sint b + (2 ^ 32 - 1) * sint i < 2 ^ 63"

lemma sint_linear:
  fixes b i :: Duration and r :: u32
  assumes "in_range b i"
  shows "sint (b + ucast r * i) = sint b + uint r * sint i"
proof -
  have r: "uint r \<le> 2 ^ 32 - 1" using unsigned_less[where 'a = int, of r] by simp
  have pos: "0 \<le> sint b" "0 < sint i" "sint b + (2 ^ 32 - 1) * sint i < 2 ^ 63" using assms by (simp_all add: in_range_def)
  have top: "uint r * sint i \<le> (2 ^ 32 - 1) * sint i" using r pos(2) by (intro mult_right_mono) simp_all
  then have hi: "sint b + uint r * sint i < 2 ^ 63" using pos(3) by linarith
  have lo: "0 \<le> uint r * sint i" using pos(2) by simp
  have "(of_int (sint b + uint r * sint i) :: Duration) = b + ucast r * i" by (simp add: word_of_int_uint)
  then have "sint (b + ucast r * i) = signed_take_bit 63 (sint b + uint r * sint i)"
    using sint_sbintrunc'[of "sint b + uint r * sint i", where 'a = 64] by simp
  also have "\<dots> = sint b + uint r * sint i"
    by (rule signed_take_bit_int_eq_self) (use hi lo pos(1) in simp_all)
  finally show ?thesis .
qed

lemma linear_mono:
  fixes b i :: Duration
  assumes "in_range b i" "r < r'"
  shows "sint (b + ucast r * i) < sint (b + ucast (r' :: u32) * i)"
proof -
  have "uint r * sint i < uint r' * sint i"
    using assms by (intro mult_strict_right_mono) (simp_all add: in_range_def word_less_def)
  then show ?thesis by (simp add: sint_linear[OF assms(1)])
qed

text \<open>The timeouts do not wrap around: when the base, plus the increment for the largest round, is a duration, with the defaults
  of five and two seconds and half a second for zero fields, then for every height and all 32-bit rounds each of the
  four timeouts is exactly its base plus the round times its increment, is not negative, and is larger in every later round.\<close>

theorem timeouts_grow_linearly:
  assumes "in_range (or_default (5 * Second) (ProposalBase s)) (or_default (500 * Millisecond) (ProposalIncrement s))"
    and "in_range (or_default (5 * Second) (PrevoteDelayBase s)) (or_default (500 * Millisecond) (PrevoteDelayIncrement s))"
    and "in_range (or_default (5 * Second) (PrecommitDelayBase s)) (or_default (500 * Millisecond) (PrecommitDelayIncrement s))"
    and "in_range (or_default (2 * Second) (CommitWaitBase s)) (or_default (500 * Millisecond) (CommitWaitIncrement s))"
  shows "sint (ProposalTimeout s h r) =
      sint (or_default (5 * Second) (ProposalBase s)) + uint r * sint (or_default (500 * Millisecond) (ProposalIncrement s)) \<and>
    sint (PrevoteDelayTimeout s h r) =
      sint (or_default (5 * Second) (PrevoteDelayBase s)) + uint r * sint (or_default (500 * Millisecond) (PrevoteDelayIncrement s)) \<and>
    sint (PrecommitDelayTimeout s h r) =
      sint (or_default (5 * Second) (PrecommitDelayBase s)) + uint r * sint (or_default (500 * Millisecond) (PrecommitDelayIncrement s)) \<and>
    sint (CommitWaitTimeout s h r) =
      sint (or_default (2 * Second) (CommitWaitBase s)) + uint r * sint (or_default (500 * Millisecond) (CommitWaitIncrement s)) \<and>
    (\<forall>f \<in> {ProposalTimeout s, PrevoteDelayTimeout s, PrecommitDelayTimeout s, CommitWaitTimeout s}.
       0 \<le> sint (f h r) \<and> (\<forall>r' > r. sint (f h r) < sint (f h r')))"
proof -
  have eq: "ProposalTimeout s h' r' = or_default (5 * Second) (ProposalBase s) + ucast r' * or_default (500 * Millisecond) (ProposalIncrement s)"
    "PrevoteDelayTimeout s h' r' = or_default (5 * Second) (PrevoteDelayBase s) + ucast r' * or_default (500 * Millisecond) (PrevoteDelayIncrement s)"
    "PrecommitDelayTimeout s h' r' = or_default (5 * Second) (PrecommitDelayBase s) + ucast r' * or_default (500 * Millisecond) (PrecommitDelayIncrement s)"
    "CommitWaitTimeout s h' r' = or_default (2 * Second) (CommitWaitBase s) + ucast r' * or_default (500 * Millisecond) (CommitWaitIncrement s)" for h' r'
    by (simp_all add: ProposalTimeout_def PrevoteDelayTimeout_def PrecommitDelayTimeout_def CommitWaitTimeout_def or_default_def Let_def)
  have pos: "0 \<le> sint (b + ucast r * i)" if "in_range b i" for b i
    using that sint_linear[OF that, of r] by (simp add: in_range_def)
  show ?thesis using assms pos linear_mono sint_linear by (simp add: eq)
qed

text \<open>All fields zero: after the last round, a timeout of about 68 years.\<close>

theorem timeouts_grow_linearly_witness:
  "sint (ProposalTimeout \<lparr>ProposalBase = 0, ProposalIncrement = 0, PrevoteDelayBase = 0, PrevoteDelayIncrement = 0,
     PrecommitDelayBase = 0, PrecommitDelayIncrement = 0, CommitWaitBase = 0, CommitWaitIncrement = 0\<rparr> 7 (- 1)) = 2147483652500000000"
proof -
  have range: "in_range (5 * Second) (500 * Millisecond)" "in_range (2 * Second) (500 * Millisecond)"
    by (simp_all add: in_range_def Second_def Millisecond_def)
  have "sint (5 * Second) = 5000000000" "sint (500 * Millisecond) = 500000000" "uint (- 1 :: u32) = 4294967295"
    by (simp_all add: Second_def Millisecond_def unsigned_minus_1_eq_mask mask_eq_exp_minus_1)
  then show ?thesis
    using timeouts_grow_linearly[of "\<lparr>ProposalBase = 0, ProposalIncrement = 0, PrevoteDelayBase = 0, PrevoteDelayIncrement = 0,
     PrecommitDelayBase = 0, PrecommitDelayIncrement = 0, CommitWaitBase = 0, CommitWaitIncrement = 0\<rparr>" 7 "- 1"] range
    by (simp add: or_default_def)
qed

section \<open>The timer service\<close>

text \<open>The goroutine of \<open>background\<close>: waiting for a request; answered request \<open>n\<close> and not yet in the second \<open>select\<close>; parked
  in it; or stopped by its panic. Timers are numbered; \<open>tw_pending\<close> says that the client waits with a request that is
  not taken; \<open>tw_fired\<close> that the running timer has fired unnoticed; \<open>tw_cancelled\<close> are the closed cancel channels, and
  \<open>tw_elapsed\<close> the closed channels by which a client sees that its timer elapsed.\<close>

datatype timer_state = TimerIdle | TimerAnswered nat | TimerParked nat | TimerPanicked

record timer_world =
  tw_state :: timer_state
  tw_next :: nat
  tw_pending :: bool
  tw_fired :: bool
  tw_cancelled :: "nat set"
  tw_elapsed :: "nat set"

datatype timer_event = GetTimer | Taken | CancelCalled nat | TimerFired | Parks | SeesCancel | SeesTimer | SeesRequest

definition initialTimer :: timer_world where
  "initialTimer = \<lparr>tw_state = TimerIdle, tw_next = 0, tw_pending = False, tw_fired = False, tw_cancelled = {}, tw_elapsed = {}\<rparr>"

text \<open>The client asks for a timer only when it has none: the last one was cancelled by it or has elapsed.\<close>

definition may_request :: "timer_world \<Rightarrow> bool" where
  "may_request w \<longleftrightarrow> \<not> tw_pending w \<and> (tw_next w = 0 \<or> tw_next w - 1 \<in> tw_cancelled w \<union> tw_elapsed w)"

definition startTimerN :: "timer_world \<Rightarrow> timer_world" where
  "startTimerN w = w\<lparr>tw_state := TimerAnswered (tw_next w), tw_next := tw_next w + 1, tw_pending := False, tw_fired := False\<rparr>"

definition elapseN :: "nat \<Rightarrow> timer_world \<Rightarrow> timer_world" where
  "elapseN n w = w\<lparr>tw_state := TimerIdle, tw_fired := False, tw_elapsed := insert n (tw_elapsed w)\<rparr>"

definition stopN :: "timer_world \<Rightarrow> timer_world" where
  "stopN w = w\<lparr>tw_state := TimerIdle, tw_fired := False\<rparr>"

inductive timer_step :: "timer_world \<Rightarrow> timer_event \<Rightarrow> timer_world \<Rightarrow> bool" where
  request_idle: "may_request w \<Longrightarrow> tw_state w = TimerIdle \<Longrightarrow> timer_step w GetTimer (startTimerN w)"
| request_busy: "may_request w \<Longrightarrow> tw_state w = TimerAnswered n \<Longrightarrow> timer_step w GetTimer (w\<lparr>tw_pending := True\<rparr>)"
| request_parked: "may_request w \<Longrightarrow> tw_state w = TimerParked n \<Longrightarrow> timer_step w GetTimer (w\<lparr>tw_state := TimerPanicked\<rparr>)"
| taken: "tw_pending w \<Longrightarrow> tw_state w = TimerIdle \<Longrightarrow> timer_step w Taken (startTimerN w)"
| cancel: "n < tw_next w \<Longrightarrow> tw_state w \<noteq> TimerParked n \<Longrightarrow> timer_step w (CancelCalled n) (w\<lparr>tw_cancelled := insert n (tw_cancelled w)\<rparr>)"
| cancel_parked: "tw_state w = TimerParked n \<Longrightarrow> timer_step w (CancelCalled n) (stopN (w\<lparr>tw_cancelled := insert n (tw_cancelled w)\<rparr>))"
| fired: "tw_state w = TimerAnswered n \<Longrightarrow> timer_step w TimerFired (w\<lparr>tw_fired := True\<rparr>)"
| fired_parked: "tw_state w = TimerParked n \<Longrightarrow> timer_step w TimerFired (elapseN n w)"
| parks: "tw_state w = TimerAnswered n \<Longrightarrow> n \<notin> tw_cancelled w \<Longrightarrow> \<not> tw_pending w \<Longrightarrow> \<not> tw_fired w \<Longrightarrow>
     timer_step w Parks (w\<lparr>tw_state := TimerParked n\<rparr>)"
| sees_cancel: "tw_state w = TimerAnswered n \<Longrightarrow> n \<in> tw_cancelled w \<Longrightarrow> timer_step w SeesCancel (stopN w)"
| sees_timer: "tw_state w = TimerAnswered n \<Longrightarrow> tw_fired w \<Longrightarrow> timer_step w SeesTimer (elapseN n w)"
| sees_request: "tw_state w = TimerAnswered n \<Longrightarrow> tw_pending w \<Longrightarrow> timer_step w SeesRequest (w\<lparr>tw_state := TimerPanicked\<rparr>)"

inductive_cases timer_stepE: "timer_step w e w'"

inductive timer_run :: "timer_event list \<Rightarrow> timer_world \<Rightarrow> bool" where
  empty: "timer_run [] initialTimer"
| snoc: "timer_run es w \<Longrightarrow> timer_step w e w' \<Longrightarrow> timer_run (es @ [e]) w'"

text \<open>A run in which no timer is cancelled between its answer and the moment the goroutine has reached its \<open>select\<close>.\<close>

inductive calm_run :: "timer_event list \<Rightarrow> timer_world \<Rightarrow> bool" where
  empty: "calm_run [] initialTimer"
| snoc: "calm_run es w \<Longrightarrow> timer_step w e w' \<Longrightarrow> (\<And>n. e = CancelCalled n \<Longrightarrow> tw_state w \<noteq> TimerAnswered n) \<Longrightarrow> calm_run (es @ [e]) w'"

text \<open>One timer at most is running; a timer that runs has not elapsed.\<close>

definition timer_inv :: "timer_world \<Rightarrow> bool" where
  "timer_inv w \<longleftrightarrow> (\<forall>n. tw_state w \<in> {TimerAnswered n, TimerParked n} \<longrightarrow> tw_next w = Suc n \<and> n \<notin> tw_elapsed w) \<and>
     (\<forall>n. tw_state w = TimerParked n \<longrightarrow> n \<notin> tw_cancelled w \<and> \<not> tw_pending w) \<and>
     (\<forall>n \<in> tw_elapsed w \<union> tw_cancelled w. n < tw_next w)"

lemma timer_step_inv: "timer_step w e w' \<Longrightarrow> timer_inv w \<Longrightarrow> timer_inv w'"
  by (erule timer_stepE) (auto simp: timer_inv_def startTimerN_def elapseN_def stopN_def intro: less_SucI)

lemma timer_run_inv: "timer_run es w \<Longrightarrow> timer_inv w"
proof (induction rule: timer_run.induct)
  case (snoc es w e w')
  then show ?case using timer_step_inv by blast
qed (simp add: initialTimer_def timer_inv_def)

lemma calm_timer_run: "calm_run es w \<Longrightarrow> timer_run es w"
  by (induction rule: calm_run.induct) (auto intro: timer_run.intros)

lemma calm_run_inv:
  "calm_run es w \<Longrightarrow> tw_state w \<noteq> TimerPanicked \<and> \<not> tw_pending w \<and> (\<forall>n. tw_state w = TimerAnswered n \<longrightarrow> n \<notin> tw_cancelled w)"
proof (induction rule: calm_run.induct)
  case (snoc es w e w')
  have inv: "timer_inv w" using timer_run_inv[OF calm_timer_run[OF snoc.hyps(1)]] .
  have mr: "tw_state w = TimerIdle" if "may_request w"
    using that inv snoc.IH by (cases "tw_state w") (auto simp: may_request_def timer_inv_def)
  from snoc.hyps(2) show ?case
    using snoc.IH mr inv snoc.hyps(3)
    by cases (auto simp: timer_inv_def startTimerN_def elapseN_def stopN_def)
qed (simp add: initialTimer_def)

text \<open>(C11) The timer service keeps its one timer: in every run the client holds at most one timer that has neither elapsed nor been
  stopped, a channel is closed only for a timer that was started, and, as long as no timer is cancelled between the
  answer and the moment the service has reached its \<open>select\<close>, a client that asks for a timer only after it cancelled
  the last one or saw it elapse never makes the service panic or wait.\<close>

theorem round_timer_safe:
  assumes "calm_run es w"
  shows "tw_state w \<noteq> TimerPanicked \<and> \<not> tw_pending w \<and>
    (\<forall>n. tw_state w \<in> {TimerAnswered n, TimerParked n} \<longrightarrow> tw_next w = Suc n \<and> n \<notin> tw_elapsed w) \<and>
    (\<forall>n. n \<in> tw_elapsed w \<longrightarrow> n < tw_next w)"
  using calm_run_inv[OF assms] timer_run_inv[OF calm_timer_run[OF assms]] by (simp add: timer_inv_def)

theorem round_timer_safe_witness:
  "\<exists>w. calm_run [GetTimer, Parks, CancelCalled 0, GetTimer] w \<and> tw_next w = 2 \<and> tw_state w \<noteq> TimerPanicked"
proof -
  let ?w1 = "startTimerN initialTimer" let ?w2 = "?w1\<lparr>tw_state := TimerParked 0\<rparr>"
  let ?w3 = "stopN (?w2\<lparr>tw_cancelled := insert 0 (tw_cancelled ?w2)\<rparr>)"
  have "calm_run ([] @ [GetTimer]) ?w1"
    by (rule calm_run.snoc[OF calm_run.empty timer_step.request_idle]) (simp_all add: initialTimer_def may_request_def)
  then have "calm_run (([] @ [GetTimer]) @ [Parks]) ?w2"
    by (rule calm_run.snoc[OF _ timer_step.parks]) (simp_all add: initialTimer_def startTimerN_def)
  then have "calm_run ((([] @ [GetTimer]) @ [Parks]) @ [CancelCalled 0]) ?w3"
    by (rule calm_run.snoc[OF _ timer_step.cancel_parked]) simp_all
  then have run: "calm_run (((([] @ [GetTimer]) @ [Parks]) @ [CancelCalled 0]) @ [GetTimer]) (startTimerN ?w3)"
    by (rule calm_run.snoc[OF _ timer_step.request_idle]) (simp_all add: initialTimer_def startTimerN_def stopN_def may_request_def)
  then show ?thesis using round_timer_safe[OF run] by (intro exI[of _ "startTimerN ?w3"]) (simp add: startTimerN_def stopN_def initialTimer_def)
qed

text \<open>A cancellation right after the answer can make the service panic although the client follows the rules: the service
  finds both the cancelled channel and the next request ready and takes the request.\<close>

theorem round_timer_race_panics:
  "\<exists>w. timer_run [GetTimer, CancelCalled 0, GetTimer, SeesRequest] w \<and> tw_state w = TimerPanicked"
proof -
  let ?w1 = "startTimerN initialTimer" let ?w2 = "?w1\<lparr>tw_cancelled := insert 0 (tw_cancelled ?w1)\<rparr>" let ?w3 = "?w2\<lparr>tw_pending := True\<rparr>"
  have "timer_run ([] @ [GetTimer]) ?w1"
    by (rule timer_run.snoc[OF timer_run.empty timer_step.request_idle]) (simp_all add: initialTimer_def may_request_def)
  then have "timer_run (([] @ [GetTimer]) @ [CancelCalled 0]) ?w2"
    by (rule timer_run.snoc[OF _ timer_step.cancel]) (simp_all add: initialTimer_def startTimerN_def)
  then have "timer_run ((([] @ [GetTimer]) @ [CancelCalled 0]) @ [GetTimer]) ?w3"
    by (rule timer_run.snoc[OF _ timer_step.request_busy]) (simp_all add: initialTimer_def startTimerN_def may_request_def)
  then have "timer_run (((([] @ [GetTimer]) @ [CancelCalled 0]) @ [GetTimer]) @ [SeesRequest]) (?w3\<lparr>tw_state := TimerPanicked\<rparr>)"
    by (rule timer_run.snoc[OF _ timer_step.sees_request]) (simp_all add: initialTimer_def startTimerN_def)
  then show ?thesis by (intro exI[of _ "?w3\<lparr>tw_state := TimerPanicked\<rparr>"]) simp
qed

end
