(* ===== verification/TxBuffer.thy ===== *)
theory TxBuffer
  imports Prelude
begin

text \<open>
  The transaction buffer of \<open>gdriver/gtxbuf\<close>: the working state with its cached chain state, the requests that its kernel
  handles, and its relation to a buffer without a cache that applies all its transactions again for every request. How a
  transaction changes the chain state, and which transactions a list of rejected ones deletes, are functions of the
  application, so they are parameters.
\<close>

section \<open>The working state\<close>

record ('s, 't) workingState =
  BaseState :: 's
  curState :: 's
  isUpdated :: bool
  Txs :: "'t list"
  addTx :: "'s \<Rightarrow> 't \<Rightarrow> go_error + 's"
  txDeleter :: "'t list \<Rightarrow> 't \<Rightarrow> bool"

record 't rebaseResponse =
  Invalidated :: "'t list"
  rb_Err :: "go_error option"

definition CheckAddTx :: "'t \<Rightarrow> ('s, 't) workingState \<Rightarrow> go_error option \<times> ('s, 't) workingState" where
  "CheckAddTx tx w =
     (let cur = (if isUpdated w then curState w else BaseState w) in
      case addTx w cur tx of
        Inl err \<Rightarrow> (Some err, w)
      | Inr newState \<Rightarrow> (None, w\<lparr>curState := newState, isUpdated := True, Txs := Txs w @ [tx]\<rparr>))"

definition Buffered :: "'t list \<Rightarrow> ('s, 't) workingState \<Rightarrow> 't list" where
  "Buffered dst w = dst @ Txs w"

text \<open>\<open>errors.As\<close> with a \<open>TxInvalidError\<close>.\<close>

fun isTxInvalid :: "go_error \<Rightarrow> bool" where
  "isTxInvalid (TxInvalidError m) = True"
| "isTxInvalid (JoinedErrors a b) = (isTxInvalid a \<or> isTxInvalid b)"
| "isTxInvalid e = False"

text \<open>The loop over the transactions; it ends early with an error that does not invalidate just the transaction.\<close>

fun Rebase_loop :: "'t list \<Rightarrow> 't list \<Rightarrow> ('s, 't) workingState \<Rightarrow> (go_error + 't list) \<times> ('s, 't) workingState" where
  "Rebase_loop [] invalidated w = (Inr invalidated, w)"
| "Rebase_loop (tx # txs) invalidated w =
     (case addTx w (curState w) tx of
        Inl err \<Rightarrow> if isTxInvalid err then Rebase_loop txs (invalidated @ [tx]) w else (Inl err, w)
      | Inr newState \<Rightarrow> Rebase_loop txs invalidated (w\<lparr>curState := newState, isUpdated := True\<rparr>))"

definition Rebase :: "'s \<Rightarrow> 't list \<Rightarrow> ('s, 't) workingState \<Rightarrow> 't rebaseResponse \<times> ('s, 't) workingState" where
  "Rebase newBase applied w0 =
     (let w = w0\<lparr>BaseState := newBase, curState := newBase, isUpdated := False\<rparr> in
      if Txs w = [] then (\<lparr>Invalidated = [], rb_Err = None\<rparr>, w)
      else
        let w1 = (if applied \<noteq> [] then w\<lparr>Txs := filter (\<lambda>tx. \<not> txDeleter w applied tx) (Txs w)\<rparr> else w) in
        case Rebase_loop (Txs w1) [] w1 of
          (Inl err, w2) \<Rightarrow> (\<lparr>Invalidated = [], rb_Err = Some err\<rparr>, w2)
        | (Inr invalidated, w2) \<Rightarrow>
            (\<lparr>Invalidated = invalidated, rb_Err = None\<rparr>,
             if invalidated \<noteq> [] then w2\<lparr>Txs := filter (\<lambda>tx. \<not> txDeleter w2 invalidated tx) (Txs w2)\<rparr> else w2))"

section \<open>The kernel\<close>

datatype ('s, 't) buf_request = AddTxRequest 't | BufferedRequest "'t list" | RebaseRequest 's "'t list"

datatype 't buf_response = AddTxResponse "go_error option" | BufferedResponse "'t list" | RebaseResponse "'t rebaseResponse"

text \<open>The zero value of the chain state is in \<open>curState\<close> until it is first updated.\<close>

definition initialWorkingState :: "('s \<Rightarrow> 't \<Rightarrow> go_error + 's) \<Rightarrow> ('t list \<Rightarrow> 't \<Rightarrow> bool) \<Rightarrow> 's \<Rightarrow> 's \<Rightarrow> ('s, 't) workingState" where
  "initialWorkingState add deleter zero base =
     \<lparr>BaseState = base, curState = zero, isUpdated = False, Txs = [], addTx = add, txDeleter = deleter\<rparr>"

fun handleRequest :: "('s, 't) buf_request \<Rightarrow> ('s, 't) workingState \<Rightarrow> 't buf_response \<times> ('s, 't) workingState" where
  "handleRequest (AddTxRequest tx) w = (case CheckAddTx tx w of (err, w') \<Rightarrow> (AddTxResponse err, w'))"
| "handleRequest (BufferedRequest dst) w = (BufferedResponse (Buffered dst w), w)"
| "handleRequest (RebaseRequest base applied) w = (case Rebase base applied w of (resp, w') \<Rightarrow> (RebaseResponse resp, w'))"

fun buffer_kernel :: "('s, 't) buf_request list \<Rightarrow> ('s, 't) workingState \<Rightarrow> 't buf_response list \<times> ('s, 't) workingState" where
  "buffer_kernel [] w = ([], w)"
| "buffer_kernel (req # reqs) w = (case handleRequest req w of (resp, w1) \<Rightarrow>
     (case buffer_kernel reqs w1 of (resps, w2) \<Rightarrow> (resp # resps, w2)))"

section \<open>The buffer without a cache\<close>

text \<open>Its state is the base state and the transactions; it applies them in order.\<close>

fun apply_txs :: "('s \<Rightarrow> 't \<Rightarrow> go_error + 's) \<Rightarrow> 's \<Rightarrow> 't list \<Rightarrow> go_error + 's" where
  "apply_txs add s [] = Inr s"
| "apply_txs add s (tx # txs) = errbind (add s tx) (\<lambda>s'. apply_txs add s' txs)"

text \<open>The transactions that are still valid one after the other, and the ones that are not.\<close>

fun revalidate :: "('s \<Rightarrow> 't \<Rightarrow> go_error + 's) \<Rightarrow> 's \<Rightarrow> 't list \<Rightarrow> go_error + 't list \<times> 't list" where
  "revalidate add s [] = Inr ([], [])"
| "revalidate add s (tx # txs) =
     (case add s tx of
        Inl err \<Rightarrow> if isTxInvalid err then errbind (revalidate add s txs) (\<lambda>(kept, invalid). Inr (kept, tx # invalid)) else Inl err
      | Inr s' \<Rightarrow> errbind (revalidate add s' txs) (\<lambda>(kept, invalid). Inr (tx # kept, invalid)))"

fun plain_handle :: "('s \<Rightarrow> 't \<Rightarrow> go_error + 's) \<Rightarrow> ('s, 't) buf_request \<Rightarrow> 's \<times> 't list \<Rightarrow> 't buf_response \<times> ('s \<times> 't list)" where
  "plain_handle add (AddTxRequest tx) (base, txs) =
     (case errbind (apply_txs add base txs) (\<lambda>s. add s tx) of
        Inl err \<Rightarrow> (AddTxResponse (Some err), (base, txs))
      | Inr _ \<Rightarrow> (AddTxResponse None, (base, txs @ [tx])))"
| "plain_handle add (BufferedRequest dst) (base, txs) = (BufferedResponse (dst @ txs), (base, txs))"
| "plain_handle add (RebaseRequest base' applied) (base, txs) =
     (case revalidate add base' (filter (\<lambda>tx. tx \<notin> set applied) txs) of
        Inl err \<Rightarrow> (RebaseResponse \<lparr>Invalidated = [], rb_Err = Some err\<rparr>, (base', txs))
      | Inr (kept, invalid) \<Rightarrow> (RebaseResponse \<lparr>Invalidated = invalid, rb_Err = None\<rparr>, (base', kept)))"

fun plain_kernel :: "('s \<Rightarrow> 't \<Rightarrow> go_error + 's) \<Rightarrow> ('s, 't) buf_request list \<Rightarrow> 's \<times> 't list \<Rightarrow> 't buf_response list \<times> ('s \<times> 't list)" where
  "plain_kernel add [] a = ([], a)"
| "plain_kernel add (req # reqs) a = (case plain_handle add req a of (resp, a1) \<Rightarrow>
     (case plain_kernel add reqs a1 of (resps, a2) \<Rightarrow> (resp # resps, a2)))"

text \<open>No transaction is added while it is in the buffer, and no rebase fails.\<close>

fun regular :: "('s \<Rightarrow> 't \<Rightarrow> go_error + 's) \<Rightarrow> ('s, 't) buf_request \<Rightarrow> 's \<times> 't list \<Rightarrow> bool" where
  "regular add (AddTxRequest tx) (base, txs) \<longleftrightarrow> tx \<notin> set txs"
| "regular add (BufferedRequest dst) a \<longleftrightarrow> True"
| "regular add (RebaseRequest base' applied) (base, txs) \<longleftrightarrow> (\<exists>res. revalidate add base' (filter (\<lambda>tx. tx \<notin> set applied) txs) = Inr res)"

fun regular_run :: "('s \<Rightarrow> 't \<Rightarrow> go_error + 's) \<Rightarrow> ('s, 't) buf_request list \<Rightarrow> 's \<times> 't list \<Rightarrow> bool" where
  "regular_run add [] a \<longleftrightarrow> True"
| "regular_run add (req # reqs) a \<longleftrightarrow> regular add req a \<and> regular_run add reqs (snd (plain_handle add req a))"

section \<open>Refinement\<close>

definition current :: "('s, 't) workingState \<Rightarrow> 's" where
  "current w = (if isUpdated w then curState w else BaseState w)"

text \<open>The deleter reports exactly the transactions of the list it was made from.\<close>

definition exact_deleter :: "('t list \<Rightarrow> 't \<Rightarrow> bool) \<Rightarrow> bool" where
  "exact_deleter deleter \<longleftrightarrow> (\<forall>reject tx. deleter reject tx \<longleftrightarrow> tx \<in> set reject)"

definition refines :: "('s \<Rightarrow> 't \<Rightarrow> go_error + 's) \<Rightarrow> ('t list \<Rightarrow> 't \<Rightarrow> bool) \<Rightarrow> ('s, 't) workingState \<Rightarrow> 's \<times> 't list \<Rightarrow> bool" where
  "refines add deleter w a \<longleftrightarrow> addTx w = add \<and> txDeleter w = deleter \<and> BaseState w = fst a \<and> Txs w = snd a \<and> distinct (snd a) \<and>
     apply_txs add (fst a) (snd a) = Inr (current w)"

lemma apply_txs_snoc: "apply_txs add s (txs @ [tx]) = errbind (apply_txs add s txs) (\<lambda>s'. add s' tx)"
  by (induction txs arbitrary: s) (simp_all add: errbind_def split: sum.split)

lemma Rebase_loop_revalidate:
  assumes "addTx w = add"
  shows "revalidate add (curState w) txs = Inr (kept, invalid) \<Longrightarrow>
    \<exists>s u. Rebase_loop txs acc w = (Inr (acc @ invalid), w\<lparr>curState := s, isUpdated := u\<rparr>) \<and>
      apply_txs add (curState w) kept = Inr s \<and> (u \<longleftrightarrow> isUpdated w \<or> kept \<noteq> [])"
  using assms
proof (induction txs arbitrary: w acc kept invalid)
  case Nil
  then show ?case by (intro exI[of _ "curState w"] exI[of _ "isUpdated w"]) auto
next
  case (Cons tx txs)
  show ?case
  proof (cases "add (curState w) tx")
    case (Inl err)
    then obtain invalid' where rest: "revalidate add (curState w) txs = Inr (kept, invalid')" "invalid = tx # invalid'" "isTxInvalid err"
      using Cons.prems(1) by (auto split: if_splits)
    from Cons.IH[OF rest(1) Cons.prems(2), of "acc @ [tx]"] show ?thesis using Inl rest Cons.prems(2) by auto
  next
    case (Inr s')
    then obtain kept' where rest: "revalidate add s' txs = Inr (kept', invalid)" "kept = tx # kept'"
      using Cons.prems(1) by auto
    from Cons.IH[of "w\<lparr>curState := s', isUpdated := True\<rparr>" kept' invalid acc] show ?thesis using Inr rest Cons.prems(2) by auto
  qed
qed

lemma revalidate_split:
  assumes "revalidate add s txs = Inr (kept, invalid)" "distinct txs"
  shows "kept = filter (\<lambda>tx. tx \<notin> set invalid) txs" "set invalid \<subseteq> set txs" "set kept \<subseteq> set txs" "set kept \<inter> set invalid = {}"
proof -
  have "set kept \<union> set invalid = set txs \<and> set kept \<inter> set invalid = {} \<and> kept = filter (\<lambda>tx. tx \<notin> set invalid) txs"
    using assms
  proof (induction txs arbitrary: s kept invalid)
    case (Cons tx txs)
    show ?case
    proof (cases "add s tx")
      case (Inl err)
      then obtain invalid' where rest: "revalidate add s txs = Inr (kept, invalid')" "invalid = tx # invalid'"
        using Cons.prems(1) by (auto split: if_splits)
      have IH: "set kept \<union> set invalid' = set txs" "set kept \<inter> set invalid' = {}" "kept = filter (\<lambda>tx. tx \<notin> set invalid') txs"
        using Cons.IH[OF rest(1)] Cons.prems(2) by (auto simp only: distinct.simps)
      have "filter (\<lambda>x. x \<noteq> tx \<and> x \<notin> set invalid') txs = filter (\<lambda>x. x \<notin> set invalid') txs"
        by (rule filter_cong) (use Cons.prems(2) in auto)
      then show ?thesis using IH rest Cons.prems(2) by auto
    next
      case (Inr s')
      then obtain kept' where rest: "revalidate add s' txs = Inr (kept', invalid)" "kept = tx # kept'"
        using Cons.prems(1) by auto
      have IH: "set kept' \<union> set invalid = set txs" "set kept' \<inter> set invalid = {}" "kept' = filter (\<lambda>tx. tx \<notin> set invalid) txs"
        using Cons.IH[OF rest(1)] Cons.prems(2) by (auto simp only: distinct.simps)
      then show ?thesis using rest Cons.prems(2) by auto
    qed
  qed simp
  then show "kept = filter (\<lambda>tx. tx \<notin> set invalid) txs" "set invalid \<subseteq> set txs" "set kept \<subseteq> set txs" "set kept \<inter> set invalid = {}" by auto
qed

lemma handle_refines:
  assumes del: "exact_deleter deleter" and R: "refines add deleter w a" and reg: "regular add req a"
  shows "fst (handleRequest req w) = fst (plain_handle add req a) \<and> refines add deleter (snd (handleRequest req w)) (snd (plain_handle add req a))"
proof -
  have deletes: "deleter reject tx \<longleftrightarrow> tx \<in> set reject" for reject tx using del by (simp add: exact_deleter_def)
  obtain base txs where a: "a = (base, txs)" by fastforce
  have w: "addTx w = add" "txDeleter w = deleter" "BaseState w = base" "Txs w = txs" "distinct txs" "apply_txs add base txs = Inr (current w)"
    using R by (simp_all add: refines_def a)
  show ?thesis
  proof (cases req)
    case (AddTxRequest tx)
    show ?thesis
    proof (cases "add (current w) tx")
      case (Inl err)
      then show ?thesis using AddTxRequest R w by (simp add: a CheckAddTx_def current_def)
    next
      case (Inr s)
      then have "apply_txs add base (txs @ [tx]) = Inr s" using w by (simp add: apply_txs_snoc)
      then show ?thesis using AddTxRequest Inr w reg by (simp add: a CheckAddTx_def refines_def current_def)
    qed
  next
    case (BufferedRequest dst)
    then show ?thesis using R w by (simp add: a Buffered_def)
  next
    case (RebaseRequest base' applied)
    let ?txs = "filter (\<lambda>tx. tx \<notin> set applied) txs"
    obtain kept invalid where rev: "revalidate add base' ?txs = Inr (kept, invalid)"
      using reg RebaseRequest by (auto simp: a)
    let ?w1 = "w\<lparr>BaseState := base', curState := base', isUpdated := False, Txs := ?txs\<rparr>"
    obtain s u where loop: "Rebase_loop ?txs [] ?w1 = (Inr invalid, ?w1\<lparr>curState := s, isUpdated := u\<rparr>)"
      "apply_txs add base' kept = Inr s" "u \<longleftrightarrow> kept \<noteq> []"
      using Rebase_loop_revalidate[of ?w1 add ?txs kept invalid "[]"] w rev by auto
    have d: "distinct ?txs" using w by simp
    have kept: "kept = filter (\<lambda>tx. tx \<notin> set invalid) ?txs" by (rule revalidate_split(1)[OF rev d])
    have same: "w\<lparr>BaseState := base', curState := base', isUpdated := False\<rparr> = ?w1" if "applied = []" using that w by simp
    let ?w2 = "?w1\<lparr>curState := s, isUpdated := u, Txs := kept\<rparr>"
    have "Rebase base' applied w = (\<lparr>Invalidated = invalid, rb_Err = None\<rparr>, ?w2)"
    proof (cases "txs = []")
      case True
      then have "kept = []" "invalid = []" "s = base'" "\<not> u" using rev loop kept by auto
      then show ?thesis using True w by (simp add: Rebase_def Let_def)
    next
      case False
      let ?w0 = "w\<lparr>BaseState := base', curState := base', isUpdated := False\<rparr>"
      have w1: "(if applied \<noteq> [] then ?w0\<lparr>Txs := filter (\<lambda>tx. \<not> txDeleter ?w0 applied tx) (Txs ?w0)\<rparr> else ?w0) = ?w1"
        using same w by (simp add: deletes)
      have "Txs ?w0 \<noteq> []" using False w by simp
      then have "Rebase base' applied w = (case Rebase_loop (Txs ?w1) [] ?w1 of
          (Inl err, w2) \<Rightarrow> (\<lparr>Invalidated = [], rb_Err = Some err\<rparr>, w2)
        | (Inr invalidated, w2) \<Rightarrow> (\<lparr>Invalidated = invalidated, rb_Err = None\<rparr>,
             if invalidated \<noteq> [] then w2\<lparr>Txs := filter (\<lambda>tx. \<not> txDeleter w2 invalidated tx) (Txs w2)\<rparr> else w2))"
        unfolding Rebase_def Let_def w1 by (simp only: if_False)
      then show ?thesis using loop(1) w kept by (simp add: deletes)
    qed
    moreover have "refines add deleter ?w2 (base', kept)"
      using w loop kept d by (auto simp: refines_def current_def)
    ultimately show ?thesis using RebaseRequest rev by (simp add: a)
  qed
qed

lemma kernel_refines:
  assumes "exact_deleter deleter" "refines add deleter w a" "regular_run add reqs a"
  shows "fst (buffer_kernel reqs w) = fst (plain_kernel add reqs a) \<and> refines add deleter (snd (buffer_kernel reqs w)) (snd (plain_kernel add reqs a))"
  using assms(2,3)
proof (induction reqs arbitrary: w a)
  case (Cons req reqs)
  have step: "fst (handleRequest req w) = fst (plain_handle add req a)" "refines add deleter (snd (handleRequest req w)) (snd (plain_handle add req a))"
    using handle_refines[OF assms(1), of add w a req] Cons.prems by simp_all
  show ?case using Cons.IH[OF step(2)] Cons.prems(2) step(1) by (simp add: split_beta)
qed simp

lemma initial_refines: "refines add deleter (initialWorkingState add deleter zero base) (base, [])"
  by (simp add: refines_def initialWorkingState_def current_def)

section \<open>Properties\<close>

text \<open>A ledger with a balance: a transaction takes an amount, and is invalid when the balance is too small.\<close>

definition ex_add :: "nat \<Rightarrow> nat \<Rightarrow> go_error + nat" where
  "ex_add balance amount = (if amount \<le> balance then Inr (balance - amount) else Inl (TxInvalidError ''balance too small''))"

definition ex_deleter :: "nat list \<Rightarrow> nat \<Rightarrow> bool" where
  "ex_deleter reject tx \<longleftrightarrow> tx \<in> set reject"

text \<open>(C10) The buffer refines a buffer without a cache: when the application's deleter reports exactly the rejected transactions, no
  transaction is added while it is buffered and no rebase fails, every request is answered as by a buffer that keeps only the base
  state and the transactions and applies all of them again for every request. A rebase keeps exactly the transactions that are not
  applied and stay valid one after the other, in their order.\<close>

theorem buffer_refines_recomputation:
  assumes "exact_deleter deleter" and "regular_run add reqs (base, [])"
  shows "fst (buffer_kernel reqs (initialWorkingState add deleter zero base)) = fst (plain_kernel add reqs (base, [])) \<and>
    Txs (snd (buffer_kernel reqs (initialWorkingState add deleter zero base))) = snd (snd (plain_kernel add reqs (base, [])))"
  using kernel_refines[OF assms(1) initial_refines assms(2)] by (simp add: refines_def)

theorem buffer_refines_recomputation_witness:
  "fst (buffer_kernel [AddTxRequest 3, AddTxRequest 9, AddTxRequest 4, RebaseRequest 5 [], BufferedRequest []] (initialWorkingState ex_add ex_deleter 0 10)) =
     [AddTxResponse None, AddTxResponse (Some (TxInvalidError ''balance too small'')), AddTxResponse None,
      RebaseResponse \<lparr>Invalidated = [4], rb_Err = None\<rparr>, BufferedResponse [3]]"
proof -
  let ?reqs = "[AddTxRequest 3, AddTxRequest 9, AddTxRequest 4, RebaseRequest 5 [], BufferedRequest []] :: (nat, nat) buf_request list"
  have "regular_run ex_add ?reqs (10, [])" by (simp add: ex_add_def)
  moreover have "exact_deleter ex_deleter" by (simp add: exact_deleter_def ex_deleter_def)
  ultimately have "fst (buffer_kernel ?reqs (initialWorkingState ex_add ex_deleter 0 10)) = fst (plain_kernel ex_add ?reqs (10, []))"
    using buffer_refines_recomputation[of ex_deleter ex_add ?reqs 10 0] by blast
  then
  show ?thesis by (simp add: ex_add_def)
qed

text \<open>A transaction that is buffered twice can leave the buffer with a state that its transactions do not lead to: when
  a rebase finds only the second copy invalid, both are deleted by value while the effect of the first stays in the
  cached state, so that a transaction that the remaining buffer allows is refused.\<close>

theorem duplicate_transaction_corrupts_buffer:
  "(let (resps, w) = buffer_kernel [AddTxRequest 3, AddTxRequest 3, RebaseRequest 5 []] (initialWorkingState ex_add ex_deleter 0 10) in
    Txs w = [] \<and> current w = 2 \<and> fst (CheckAddTx 4 w) = Some (TxInvalidError ''balance too small'') \<and>
    apply_txs ex_add (BaseState w) (Txs w @ [4]) = Inr 1)"
  by code_simp

end
