(* ===== verification/NetDag.thy ===== *)
theory NetDag
  imports Prelude
begin

text \<open>
  The fixed tree of \<open>gnetdag/fixedtree.go\<close>: entries of a slice arranged in layers, each \<open>BranchFactor\<close> times as wide as the
  one before. The loops of the code are \<open>partial_function\<close>s, so that the value \<open>None\<close> is a loop that does not end,
  which is what a branch factor of zero gives. Integers are unbounded: the code documents overflow as undefined.
\<close>

section \<open>The code\<close>

record FixedTree =
  BranchFactor :: int

partial_function (option) Layer_loop :: "int \<Rightarrow> int \<Rightarrow> int \<Rightarrow> int \<Rightarrow> int \<Rightarrow> int option" where
  "Layer_loop bf entryIdx layer layerWidth entriesSoFar =
     (if entryIdx < entriesSoFar then Some layer
      else Layer_loop bf entryIdx (layer + 1) (layerWidth * bf) (entriesSoFar + layerWidth * bf))"

declare Layer_loop.simps [code]

definition Layer :: "FixedTree \<Rightarrow> int \<Rightarrow> int option" where
  "Layer t entryIdx = (if entryIdx = 0 then Some 0
     else Layer_loop (BranchFactor t) entryIdx 1 (BranchFactor t) (1 + BranchFactor t))"

text \<open>The loop of \<open>Parent\<close> over \<open>parentLayer - 1\<close>: the entries before the parent layer and the width of the layer before it.\<close>

primrec ancestors :: "int \<Rightarrow> nat \<Rightarrow> int \<times> int \<Rightarrow> int \<times> int" where
  "ancestors bf 0 acc = acc"
| "ancestors bf (Suc n) acc = (case acc of (ancestorEntries, ancestorWidth) \<Rightarrow>
     ancestors bf n (ancestorEntries + ancestorWidth * bf, ancestorWidth * bf))"

definition Parent :: "FixedTree \<Rightarrow> int \<Rightarrow> int option" where
  "Parent t entryIdx =
     (if entryIdx = 0 then Some (-1)
      else if entryIdx \<le> BranchFactor t then Some 0
      else case Layer t entryIdx of
             None \<Rightarrow> None
           | Some curLayer \<Rightarrow>
               (let parentLayer = curLayer - 1 in
                case ancestors (BranchFactor t) (nat (parentLayer - 1)) (1, 1) of (ancestorEntries, ancestorWidth) \<Rightarrow>
                  let parentLayerWidth = ancestorWidth * BranchFactor t;
                      parentOffset = (entryIdx - parentLayerWidth - ancestorEntries) div BranchFactor t in
                  Some (ancestorEntries + parentOffset)))"

partial_function (option) FirstChild_loop :: "int \<Rightarrow> int \<Rightarrow> int \<Rightarrow> int \<Rightarrow> int option" where
  "FirstChild_loop bf entryIdx curLayerWidth entriesBeforeCurLayer =
     (if entryIdx \<le> entriesBeforeCurLayer + curLayerWidth
      then Some (entriesBeforeCurLayer + curLayerWidth + (entryIdx - entriesBeforeCurLayer) * bf)
      else FirstChild_loop bf entryIdx (curLayerWidth * bf) (entriesBeforeCurLayer + curLayerWidth))"

declare FirstChild_loop.simps [code]

definition FirstChild :: "FixedTree \<Rightarrow> int \<Rightarrow> int option" where
  "FirstChild t entryIdx = (if entryIdx = 0 then Some 1 else FirstChild_loop (BranchFactor t) entryIdx (BranchFactor t) 1)"

section \<open>Layers\<close>

text \<open>The number of entries in the first \<open>n\<close> layers.\<close>

primrec entries :: "int \<Rightarrow> nat \<Rightarrow> int" where
  "entries bf 0 = 0"
| "entries bf (Suc n) = entries bf n + bf ^ n"

lemma entries_geometric: "bf * entries bf n + 1 = entries bf (Suc n)"
  by (induction n) (simp_all add: algebra_simps)

lemma entries_ge: "1 \<le> bf \<Longrightarrow> int n \<le> entries bf n"
proof (induction n)
  case (Suc n)
  have "1 \<le> bf ^ n" using Suc.prems by (simp add: one_le_power)
  then show ?case using Suc.IH[OF Suc.prems] by simp
qed simp

lemma entries_mono: "1 \<le> bf \<Longrightarrow> m \<le> n \<Longrightarrow> entries bf m \<le> entries bf n"
  by (induction n) (auto simp: le_Suc_eq intro: order_trans)

text \<open>The layer of an entry by the number of entries before it.\<close>

lemma Layer_loop_layer:
  assumes bf: "1 \<le> bf" and i: "entries bf l \<le> i" "i < entries bf (Suc l)" and k: "k \<le> l"
  shows "Layer_loop bf i (int k) (bf ^ k) (entries bf (Suc k)) = Some (int l)"
  using k
proof (induction "l - k" arbitrary: k)
  case 0
  then show ?case using i by (subst Layer_loop.simps) simp
next
  case (Suc d)
  then have "k < l" by simp
  then have "entries bf (Suc k) \<le> i" using entries_mono[OF bf, of "Suc k" l] i(1) by linarith
  moreover have "Layer_loop bf i (int (Suc k)) (bf ^ Suc k) (entries bf (Suc (Suc k))) = Some (int l)"
    using Suc.hyps(2) \<open>k < l\<close> by (intro Suc.hyps(1)) simp_all
  moreover have "Layer_loop bf i (int k) (bf ^ k) (entries bf (Suc k)) =
      Layer_loop bf i (int (Suc k)) (bf ^ Suc k) (entries bf (Suc (Suc k)))" if "entries bf (Suc k) \<le> i"
  proof -
    have "entries bf (Suc (Suc k)) = entries bf (Suc k) + bf ^ k * bf" "bf ^ Suc k = bf ^ k * bf" "int (Suc k) = int k + 1" by simp_all
    then show ?thesis using that Layer_loop.simps[of bf i "int k" "bf ^ k" "entries bf (Suc k)"] by (simp only: not_less[symmetric] if_False)
  qed
  ultimately show ?case by (simp only: simp_thms)
qed

lemma layer_exists:
  assumes "1 \<le> bf" "0 \<le> i"
  obtains l where "entries bf l \<le> i" "i < entries bf (Suc l)"
proof -
  have "i < entries bf (Suc (nat i))" using entries_ge[OF assms(1), of "Suc (nat i)"] assms(2) by linarith
  define n where "n = (LEAST n. i < entries bf n)"
  have n: "i < entries bf n" unfolding n_def by (rule LeastI) fact
  then obtain l where l: "n = Suc l" using assms(2) by (cases n) auto
  then have "\<not> i < entries bf l" using not_less_Least[of l "\<lambda>n. i < entries bf n"] by (simp add: n_def)
  then show ?thesis using that[of l] n l by simp
qed

lemma Layer_spec:
  assumes bf: "1 \<le> BranchFactor t" and i: "entries (BranchFactor t) l \<le> i" "i < entries (BranchFactor t) (Suc l)"
  shows "Layer t i = Some (int l)"
proof (cases l)
  case 0
  then show ?thesis using i by (simp add: Layer_def)
next
  case (Suc k)
  have "1 \<le> entries (BranchFactor t) l" using entries_mono[OF bf, of 1 l] Suc by simp
  then show ?thesis using Layer_loop_layer[OF bf i, of 1] Suc i by (simp add: Layer_def)
qed

lemma ancestors_value: "ancestors bf n (entries bf (Suc k), bf ^ k) = (entries bf (Suc (k + n)), bf ^ (k + n))"
proof (induction n arbitrary: k)
  case (Suc n)
  have "(entries bf (Suc k) + bf ^ k * bf, bf ^ k * bf) = (entries bf (Suc (Suc k)), bf ^ Suc k)" by simp
  then show ?case using Suc[of "Suc k"] by (simp only: ancestors.simps prod.case add_Suc_right add_Suc)
qed simp

section \<open>Equivalence with the index arithmetic of a complete tree\<close>

lemma Parent_spec:
  assumes bf: "1 \<le> BranchFactor t" and i: "1 \<le> i"
  shows "Parent t i = Some ((i - 1) div BranchFactor t)"
proof (cases "i \<le> BranchFactor t")
  case True
  then show ?thesis using i by (simp add: Parent_def)
next
  case False
  let ?b = "BranchFactor t"
  obtain l where l: "entries ?b l \<le> i" "i < entries ?b (Suc l)" using layer_exists[OF bf, of i] i by auto
  have "2 \<le> l"
  proof (rule ccontr)
    assume "\<not> 2 \<le> l"
    then have "Suc l \<le> 2" by simp
    then have "i < entries ?b 2" using l(2) entries_mono[OF bf, of "Suc l" 2] by linarith
    then show False using False by (simp add: numeral_2_eq_2)
  qed
  then obtain m where m: "l = Suc (Suc m)" by (metis le_iff_add add_2_eq_Suc)
  have anc: "ancestors ?b (nat (int l - 1 - 1)) (1, 1) = (entries ?b (Suc m), ?b ^ m)"
    using ancestors_value[of ?b m 0] m by simp
  have geo: "?b * entries ?b (Suc m) + 1 = entries ?b (Suc m) + ?b ^ m * ?b"
    using entries_geometric[of ?b "Suc m"] by (simp add: mult.commute)
  have "i - ?b ^ m * ?b - entries ?b (Suc m) = (i - 1) - ?b * entries ?b (Suc m)" using geo by linarith
  moreover have "(i - 1 - ?b * entries ?b (Suc m)) div ?b = (i - 1) div ?b - entries ?b (Suc m)"
    using bf div_mult_self2[of ?b "i - 1" "- entries ?b (Suc m)"] by (simp del: entries.simps)
  ultimately have "(i - ?b ^ m * ?b - entries ?b (Suc m)) div ?b = (i - 1) div ?b - entries ?b (Suc m)" by (simp only:)
  then show ?thesis using False i Layer_spec[OF bf l] anc by (simp add: Parent_def Let_def)
qed

lemma FirstChild_loop_spec:
  assumes bf: "1 \<le> bf" and i: "entries bf l \<le> i" "i < entries bf (Suc l)" and k: "1 \<le> k" "k \<le> l"
  shows "FirstChild_loop bf i (bf ^ k) (entries bf k) = Some (bf * i + 1)"
  using k
proof (induction "l - k" arbitrary: k rule: less_induct)
  case less
  have w: "entries bf (Suc k) = entries bf k + bf ^ k" by simp
  show ?case
  proof (cases "i \<le> entries bf k + bf ^ k")
    case True
    have "bf * entries bf k + 1 = entries bf k + bf ^ k" using entries_geometric[of bf k] by simp
    then have "entries bf k + bf ^ k + (i - entries bf k) * bf = bf * i + 1" by (simp add: algebra_simps)
    then show ?thesis using True by (subst FirstChild_loop.simps) simp
  next
    case False
    then have "k < l" using i(2) less.prems by (metis entries.simps(2) le_neq_implies_less linorder_not_le nle_le)
    then have "FirstChild_loop bf i (bf ^ Suc k) (entries bf (Suc k)) = Some (bf * i + 1)"
      using less.prems by (intro less.hyps) simp_all
    then show ?thesis using False by (subst FirstChild_loop.simps) (simp add: mult.commute)
  qed
qed

lemma FirstChild_spec:
  assumes bf: "1 \<le> BranchFactor t" and i: "0 \<le> i"
  shows "FirstChild t i = Some (BranchFactor t * i + 1)"
proof (cases "i = 0")
  case False
  obtain l where l: "entries (BranchFactor t) l \<le> i" "i < entries (BranchFactor t) (Suc l)" using layer_exists[OF bf i] .
  then have "1 \<le> l" using False i by (cases l) simp_all
  then show ?thesis using FirstChild_loop_spec[OF bf l, of 1] False by (simp add: FirstChild_def)
qed (simp add: FirstChild_def)

text \<open>Taking the parent moves one layer up.\<close>

lemma int_div_less:
  fixes x b y :: int
  assumes "x < b * y" "1 \<le> b"
  shows "x div b < y"
proof (rule ccontr)
  assume "\<not> x div b < y"
  then have "b * y \<le> b * (x div b)" using assms(2) by simp
  moreover have "b * (x div b) \<le> x" using mult_div_mod_eq[of b x] pos_mod_sign[of b x] assms(2) by linarith
  ultimately show False using assms(1) by simp
qed

lemma parent_layer:
  assumes bf: "1 \<le> bf" and i: "entries bf (Suc l) \<le> i" "i < entries bf (Suc (Suc l))"
  shows "entries bf l \<le> (i - 1) div bf" "(i - 1) div bf < entries bf (Suc l)"
proof -
  have lo: "bf * entries bf l \<le> i - 1" using i(1) entries_geometric[of bf l] by linarith
  have hi: "i - 1 < bf * entries bf (Suc l)" using i(2) entries_geometric[of bf "Suc l"] by linarith
  show "entries bf l \<le> (i - 1) div bf" using zdiv_mono1[OF lo, of bf] bf by simp
  show "(i - 1) div bf < entries bf (Suc l)" using hi bf by (intro int_div_less) (simp_all only:)
qed

lemma climb:
  assumes bf: "1 \<le> bf" and i: "entries bf l \<le> i" "i < entries bf (Suc l)"
  shows "((\<lambda>j. (j - 1) div bf) ^^ l) i = 0"
  using i
proof (induction l arbitrary: i)
  case (Suc l)
  then show ?case using parent_layer[OF bf Suc.prems] by (simp add: funpow_Suc_right del: funpow.simps entries.simps)
qed simp

text \<open>(C19) The layer by layer loops of the fixed tree end for every positive branch factor and compute the index arithmetic
  of a complete tree: the parent of entry \<open>i > 0\<close> is \<open>(i - 1) div bf\<close>, the first child of \<open>i\<close> is \<open>bf * i + 1\<close>, the layer is the
  number of times the parent has to be taken to reach entry 0, and the parents of the \<open>bf\<close> entries that start at the first child of
  \<open>i\<close>, and of no other entry, are \<open>i\<close>.\<close>

theorem fixed_tree_is_complete_tree:
  assumes bf: "1 \<le> BranchFactor t" and i: "0 \<le> i"
  shows "FirstChild t i = Some (BranchFactor t * i + 1) \<and> (i \<noteq> 0 \<longrightarrow> Parent t i = Some ((i - 1) div BranchFactor t)) \<and>
    (\<exists>l. Layer t i = Some (int l) \<and> ((\<lambda>j. (j - 1) div BranchFactor t) ^^ l) i = 0) \<and>
    (\<forall>c \<ge> 1. Parent t c = Some i \<longleftrightarrow> BranchFactor t * i + 1 \<le> c \<and> c < BranchFactor t * i + 1 + BranchFactor t)"
proof -
  let ?b = "BranchFactor t"
  have child: "Parent t c = Some i \<longleftrightarrow> ?b * i + 1 \<le> c \<and> c < ?b * i + 1 + ?b" if "1 \<le> c" for c
  proof -
    have "(c - 1) div ?b = i \<longleftrightarrow> ?b * i \<le> c - 1 \<and> c - 1 < ?b * i + ?b"
    proof
      assume "(c - 1) div ?b = i"
      then have "?b * i + (c - 1) mod ?b = c - 1" using mult_div_mod_eq[of ?b "c - 1"] by simp
      then show "?b * i \<le> c - 1 \<and> c - 1 < ?b * i + ?b"
        using bf pos_mod_bound[of ?b "c - 1"] pos_mod_sign[of ?b "c - 1"] by linarith
    next
      assume "?b * i \<le> c - 1 \<and> c - 1 < ?b * i + ?b"
      then show "(c - 1) div ?b = i" using bf by (intro int_div_pos_eq[of _ _ _ "c - 1 - ?b * i"]) auto
    qed
    then show ?thesis using Parent_spec[OF bf that] by auto
  qed
  obtain l where l: "entries ?b l \<le> i" "i < entries ?b (Suc l)" using layer_exists[OF bf i] .
  have "((\<lambda>j. (j - 1) div ?b) ^^ l) i = 0" using climb[OF bf l] .
  then show ?thesis using FirstChild_spec[OF bf i] Parent_spec[OF bf] child Layer_spec[OF bf l] i by auto
qed

theorem fixed_tree_is_complete_tree_witness:
  "Parent \<lparr>BranchFactor = 3\<rparr> 12 = Some 3 \<and> FirstChild \<lparr>BranchFactor = 3\<rparr> 3 = Some 10"
  using fixed_tree_is_complete_tree[of "\<lparr>BranchFactor = 3\<rparr>" 12] fixed_tree_is_complete_tree[of "\<lparr>BranchFactor = 3\<rparr>" 3] by simp


end
