(* ===== verification/SigTree.thy ===== *)
theory SigTree
  imports Gcrypto
begin

text \<open>
  The tree of aggregated keys and signatures (\<open>gcrypto/gblsminsig/internal/sigtree/tree.go\<close>). The nodes are in one array: the leaves,
  padded to a power of two, then each layer of pairs, the root last. A signature that is added is combined with its neighbour
  towards the root as far as possible, so that few signatures stand for many signers.

  The curve points and their arithmetic are the library \<open>blst\<close>, the record \<open>blst\<close> of the calls the code makes.
\<close>

unbundle bit_operations_syntax

section \<open>The libraries\<close>

text \<open>The points of \<open>blst\<close>: keys (\<open>P2Affine\<close>) and signatures (\<open>P1Affine\<close>), with the zero values of their Go types.
  \<open>Uncompress\<close> returns a nil pointer for bytes that are no point, and \<open>Equals\<close> takes pointers.\<close>

record ('k, 's) blst =
  P2_zero :: 'k
  P2_Add :: "'k \<Rightarrow> 'k \<Rightarrow> 'k"
  P2_Equals :: "'k \<Rightarrow> 'k \<Rightarrow> bool"
  P1_zero :: 's
  P1_Add :: "'s \<Rightarrow> 's \<Rightarrow> 's"
  P1_Equals :: "'s option \<Rightarrow> 's option \<Rightarrow> bool go"
  P1_Compress :: "'s \<Rightarrow> bytes"
  P1_Uncompress :: "bytes \<Rightarrow> 's option"
  P1_SigValidate :: "'s \<Rightarrow> bool"
  P1_Verify :: "'s \<Rightarrow> 'k \<Rightarrow> bytes \<Rightarrow> bool"

text \<open>Bit sets that know their length: \<open>SetAll\<close> sets every bit below it.\<close>

record 'b sized_bitset = "'b bitset_ops" +
  bs_SetAll :: "'b \<Rightarrow> 'b"

section \<open>The tree\<close>

record ('k, 's, 'b) Tree =
  t_keys :: "'k list"
  t_sigs :: "'s list"
  SigBits :: 'b
  t_nKeys :: nat

text \<open>A loop that does not end stops the goroutine, as a panic does.\<close>

abbreviation (input) endless :: "'a go" where
  "endless \<equiv> Panic ''endless loop''"

text \<open>\<open>bits.Len16\<close>: the position of the highest bit.\<close>

fun Len16 :: "nat \<Rightarrow> nat" where
  "Len16 n = (if n = 0 then 0 else Suc (Len16 (n div 2)))"

declare Len16.simps [simp del]

definition leavesWidth :: "nat \<Rightarrow> nat" where
  "leavesWidth nKeys = (if nKeys AND (nKeys - 1) = 0 then nKeys else 2 ^ Len16 nKeys)"

definition aggregateKeys :: "('k, 's) blst \<Rightarrow> 'k \<Rightarrow> 'k \<Rightarrow> 'k" where
  "aggregateKeys L a b = (if b = P2_zero L then a else P2_Add L a b)"

text \<open>The layers of aggregated keys. A layer of width zero would be aggregated for ever.\<close>

definition keyLayer :: "('k, 's) blst \<Rightarrow> nat \<Rightarrow> nat \<Rightarrow> 'k list \<Rightarrow> 'k list" where
  "keyLayer L readOffset layerWidth keys =
     fold (\<lambda>j ks. let srcIdx = readOffset + j * 2 in
             ks[readOffset + layerWidth + j := aggregateKeys L (ks ! srcIdx) (ks ! (srcIdx + 1))])
          [0..<layerWidth div 2] keys"

function keyLayers :: "('k, 's) blst \<Rightarrow> nat \<Rightarrow> nat \<Rightarrow> nat \<Rightarrow> 'k list \<Rightarrow> 'k list go" where
  "keyLayers L nNodes readOffset layerWidth keys =
     (if readOffset < nNodes then
        if layerWidth = 0 then endless
        else keyLayers L nNodes (readOffset + layerWidth) (layerWidth div 2) (keyLayer L readOffset layerWidth keys)
      else Ret keys)"
  by pat_completeness auto
termination by (relation "measure (\<lambda>(L, n, r, w, ks). n - r)") auto

declare keyLayers.simps [simp del]

definition Tree_New :: "('k, 's) blst \<Rightarrow> 'b sized_bitset \<Rightarrow> 'k list \<Rightarrow> nat \<Rightarrow> ('k, 's, 'b) Tree go" where
  "Tree_New L B keys nKeys =
     (if nKeys < 1 \<or> 65535 < nKeys then Panic ''nKeys out of range''
      else
        let nNodes = 2 * leavesWidth nKeys - 1 in
        if nNodes < length keys then Panic ''index out of range''
        else gobind (keyLayers L nNodes 0 (leavesWidth nKeys) (keys @ replicate (nNodes - length keys) (P2_zero L)))
          (\<lambda>ks. Ret \<lparr>t_keys = ks, t_sigs = replicate nNodes (P1_zero L), SigBits = bs_New B nKeys, t_nKeys = nKeys\<rparr>))"

definition NUnaggregatedKeys :: "('k, 's, 'b) Tree \<Rightarrow> nat" where
  "NUnaggregatedKeys t = t_nKeys t"

text \<open>\<open>Index\<close>: the linear search, \<open>None\<close> for -1.\<close>

fun index_from :: "('k, 's) blst \<Rightarrow> nat \<Rightarrow> 'k list \<Rightarrow> 'k \<Rightarrow> nat option" where
  "index_from L i [] k = None"
| "index_from L i (tk # tks) k = (if P2_Equals L tk k then Some i else index_from L (Suc i) tks k)"

definition Tree_Index :: "('k, 's) blst \<Rightarrow> ('k, 's, 'b) Tree \<Rightarrow> 'k \<Rightarrow> nat option" where
  "Tree_Index L t k = index_from L 0 (t_keys t) k"

definition Tree_Get :: "('k, 's, 'b) Tree \<Rightarrow> nat \<Rightarrow> ('k \<times> 's) option" where
  "Tree_Get t idx = (if length (t_keys t) \<le> idx then None else Some (t_keys t ! idx, t_sigs t ! idx))"

text \<open>The search for the layer of an index: its start, its width and the leaves below one of its nodes.\<close>

function layer_loop :: "nat \<Rightarrow> nat \<Rightarrow> nat \<Rightarrow> nat \<Rightarrow> (nat \<times> nat \<times> nat) option" where
  "layer_loop idx layerStart layerWidth nLeaves =
     (if layerStart + layerWidth \<le> idx then
        if layerWidth = 0 then None
        else layer_loop idx (layerStart + layerWidth) (layerWidth div 2) (2 * nLeaves)
      else Some (layerStart, layerWidth, nLeaves))"
  by pat_completeness auto
termination by (relation "measure (\<lambda>(idx, s, w, n). w)") auto

declare layer_loop.simps [simp del]

lemma layer_loop_above: "layer_loop idx s w n = Some (s', w', n') \<Longrightarrow> idx < s' + w'"
proof (induction idx s w n rule: layer_loop.induct)
  case (1 idx s w n)
  then show ?case by (simp add: layer_loop.simps[of idx s w n] split: if_splits)
qed

definition setBits :: "'b sized_bitset \<Rightarrow> nat \<Rightarrow> nat \<Rightarrow> 'b \<Rightarrow> 'b" where
  "setBits B i j b = fold (\<lambda>k b. bs_Set B b k) [i..<j] b"

text \<open>\<open>AddSignature\<close> from its label \<open>AGAIN\<close>.\<close>

function AddSignature_again ::
  "('k, 's) blst \<Rightarrow> 'b sized_bitset \<Rightarrow> bool \<Rightarrow> nat \<Rightarrow> 's \<Rightarrow> ('k, 's, 'b) Tree \<Rightarrow> ('k, 's, 'b) Tree go" where
  "AddSignature_again L B addedSigBits idx sig t =
     (if length (t_sigs t) \<le> idx then Panic ''index out of range''
      else let t1 = t\<lparr>t_sigs := (t_sigs t)[idx := sig]\<rparr> in
        if idx = length (t_sigs t1) - 1 then Ret (t1\<lparr>SigBits := bs_SetAll B (SigBits t1)\<rparr>)
        else case layer_loop idx 0 (leavesWidth (t_nKeys t1)) 1 of
            None \<Rightarrow> endless
          | Some (layerStart, layerWidth, nLeaves) \<Rightarrow>
              (let offset = idx - layerStart;
                   startLeaf = offset * nLeaves;
                   t2 = (if addedSigBits then t1
                         else t1\<lparr>SigBits := setBits B startLeaf (min (startLeaf + nLeaves) (t_nKeys t1)) (SigBits t1)\<rparr>);
                   parentIdx = layerStart + layerWidth + offset div 2;
                   neighbor = (if even idx then idx + 1 else idx - 1) in
               if length (t_sigs t2) \<le> parentIdx \<or> length (t_keys t2) \<le> neighbor then Panic ''index out of range''
               else if t_sigs t2 ! parentIdx \<noteq> P1_zero L then Ret t2
               else if t_keys t2 ! neighbor \<noteq> P2_zero L then
                 if t_sigs t2 ! neighbor = P1_zero L then Ret t2
                 else AddSignature_again L B True parentIdx (P1_Add L sig (t_sigs t2 ! neighbor)) t2
               else AddSignature_again L B True parentIdx sig t2))"
  by pat_completeness auto
termination
  by (relation "measure (\<lambda>(L, B, a, idx, sig, t). length (t_sigs t) - idx)")
     (auto simp: Let_def dest!: layer_loop_above intro!: diff_less_mono2)

declare AddSignature_again.simps [simp del]

definition Tree_AddSignature ::
  "('k, 's) blst \<Rightarrow> 'b sized_bitset \<Rightarrow> ('k, 's, 'b) Tree \<Rightarrow> nat \<Rightarrow> 's \<Rightarrow> ('k, 's, 'b) Tree go" where
  "Tree_AddSignature L B t idx sig = AddSignature_again L B False idx sig t"

text \<open>\<open>SparseIndices\<close>: one row of the tree, in which \<open>skipCheck\<close> marks the nodes below a reported one; the loop that
  spreads the marks to the row below, from its end; the loop over the rows between root and leaves; and the leaves. The first row
  starts below zero in a tree with one leaf, and then only the leaves are looked at.\<close>

definition sparse_row :: "('k, 's) blst \<Rightarrow> 's list \<Rightarrow> nat \<Rightarrow> nat \<Rightarrow> bool list \<times> nat list \<Rightarrow> bool list \<times> nat list" where
  "sparse_row L sigs curRowStart curRowWidth st =
     fold (\<lambda>i (skipCheck, dst).
             if skipCheck ! (i - curRowStart) then (skipCheck, dst)
             else if sigs ! i = P1_zero L then (skipCheck, dst)
             else (skipCheck[i - curRowStart := True], dst @ [i]))
          [curRowStart..<curRowStart + curRowWidth] st"

definition doubleSkip :: "nat \<Rightarrow> bool list \<Rightarrow> bool list" where
  "doubleSkip curRowWidth skipCheck =
     fold (\<lambda>i s. s[2 * i + 1 := s ! i, 2 * i := s ! i]) (rev [0..<curRowWidth]) skipCheck"

function sparse_rows :: "('k, 's) blst \<Rightarrow> 's list \<Rightarrow> int \<Rightarrow> nat \<Rightarrow> bool list \<Rightarrow> nat list \<Rightarrow> (bool list \<times> nat list) go" where
  "sparse_rows L sigs curRowStart curRowWidth skipCheck dst =
     (if 0 < curRowStart then
        if curRowWidth = 0 then endless
        else case sparse_row L sigs (nat curRowStart) curRowWidth (skipCheck, dst) of (skipCheck', dst') \<Rightarrow>
          sparse_rows L sigs (curRowStart - int (curRowWidth * 2)) (curRowWidth * 2) (doubleSkip curRowWidth skipCheck') dst'
      else Ret (skipCheck, dst))"
  by pat_completeness auto
termination by (relation "measure (\<lambda>(L, sigs, s, w, sk, d). nat s)") auto

declare sparse_rows.simps [simp del]

definition sparse_leaves :: "('k, 's) blst \<Rightarrow> 's list \<Rightarrow> nat \<Rightarrow> bool list \<Rightarrow> nat list \<Rightarrow> nat list" where
  "sparse_leaves L sigs nKeys skipCheck dst =
     fold (\<lambda>i dst. if skipCheck ! i then dst else if sigs ! i = P1_zero L then dst else dst @ [i]) [0..<nKeys] dst"

definition SparseIndices :: "('k, 's) blst \<Rightarrow> ('k, 's, 'b) Tree \<Rightarrow> nat list \<Rightarrow> nat list go" where
  "SparseIndices L t dst =
     (let root = length (t_sigs t) - 1 in
      if t_sigs t ! root \<noteq> P1_zero L then Ret (dst @ [root])
      else gobind (sparse_rows L (t_sigs t) (int (length (t_sigs t)) - 3) 2 (replicate (leavesWidth (t_nKeys t)) False) dst)
        (\<lambda>(skipCheck, dst'). Ret (sparse_leaves L (t_sigs t) (t_nKeys t) skipCheck dst')))"

definition ClearSignatures :: "('k, 's) blst \<Rightarrow> ('k, 's, 'b) Tree \<Rightarrow> ('k, 's, 'b) Tree" where
  "ClearSignatures L t = t\<lparr>t_sigs := replicate (length (t_sigs t)) (P1_zero L)\<rparr>"

definition Tree_Clone :: "('k, 's, 'b) Tree \<Rightarrow> ('k, 's, 'b) Tree" where
  "Tree_Clone t = \<lparr>t_keys = t_keys t, t_sigs = t_sigs t, SigBits = SigBits t, t_nKeys = t_nKeys t\<rparr>"

definition Tree_Derive :: "('k, 's) blst \<Rightarrow> 'b sized_bitset \<Rightarrow> ('k, 's, 'b) Tree \<Rightarrow> ('k, 's, 'b) Tree" where
  "Tree_Derive L B t = \<lparr>t_keys = t_keys t, t_sigs = replicate (length (t_keys t)) (P1_zero L),
     SigBits = bs_New B (t_nKeys t), t_nKeys = t_nKeys t\<rparr>"

section \<open>Layers and offsets\<close>

text \<open>A node of a tree with \<open>2 ^ d\<close> leaves is given by its layer, counted from the leaves, and its offset there.\<close>

primrec layerAt :: "nat \<Rightarrow> nat \<Rightarrow> nat" where
  "layerAt d 0 = 0"
| "layerAt d (Suc l) = layerAt d l + 2 ^ (d - l)"

definition node :: "nat \<Rightarrow> nat \<Rightarrow> nat \<Rightarrow> nat" where
  "node d l p = layerAt d l + p"

lemma layerAt_plus: "l \<le> Suc d \<Longrightarrow> layerAt d l + 2 ^ (Suc d - l) = 2 ^ Suc d"
proof (induction l)
  case (Suc l)
  then have "2 ^ (Suc d - l) = (2::nat) * 2 ^ (d - l)" by (simp add: Suc_diff_le)
  with Suc show ?case by simp
qed simp

lemma layerAt_even: "l \<le> d \<Longrightarrow> even (layerAt d l)"
proof -
  assume "l \<le> d"
  then have "2 ^ (Suc d - l) = (2::nat) * 2 ^ (d - l)" by (simp add: Suc_diff_le)
  with layerAt_plus[of l d] \<open>l \<le> d\<close> have "layerAt d l + 2 * 2 ^ (d - l) = 2 * 2 ^ d" by simp
  then show "even (layerAt d l)" by presburger
qed

lemma layerAt_root: "layerAt d d = 2 * 2 ^ d - 2"
  using layerAt_plus[of d d] by simp

lemma node_less: "l \<le> d \<Longrightarrow> p < 2 ^ (d - l) \<Longrightarrow> node d l p < 2 * 2 ^ d - 1"
proof -
  assume "l \<le> d" "p < 2 ^ (d - l)"
  moreover have "layerAt d (Suc l) + 2 ^ (d - l) = 2 * 2 ^ d" using layerAt_plus[of "Suc l" d] \<open>l \<le> d\<close> by simp
  moreover have "0 < (2::nat) ^ (d - l)" by simp
  ultimately show ?thesis unfolding node_def by simp
qed

lemma layer_loop_node:
  assumes "k \<le> l" "l \<le> d" "p < 2 ^ (d - l)"
  shows "layer_loop (node d l p) (layerAt d k) (2 ^ (d - k)) (2 ^ k) = Some (layerAt d l, 2 ^ (d - l), 2 ^ l)"
  using assms
proof (induction "l - k" arbitrary: k)
  case 0
  then show ?case by (subst layer_loop.simps) (simp add: node_def)
next
  case (Suc x)
  have mono: "layerAt d (Suc k) \<le> layerAt d l"
    by (rule lift_Suc_mono_le[of "layerAt d"]) (use Suc in simp_all)
  have half: "(2::nat) ^ (d - k) div 2 = 2 ^ (d - Suc k)" using Suc by (cases "d - k") (simp_all add: Suc_diff_Suc)
  show ?case
    using Suc.hyps(1)[of "Suc k"] Suc.hyps(2) Suc.prems mono half
    by (subst layer_loop.simps) (simp add: node_def)
qed

lemmas layer_loop_start = layer_loop_node[of 0, simplified]

lemma node_inject:
  assumes "l \<le> d" "p < 2 ^ (d - l)" "l' \<le> d" "p' < 2 ^ (d - l')"
  shows "node d l p = node d l' p' \<longleftrightarrow> l = l' \<and> p = p'"
proof
  assume eq: "node d l p = node d l' p'"
  then have "(2::nat) ^ l = 2 ^ l'" using layer_loop_start[of l d p] layer_loop_start[of l' d p'] assms by simp
  then have "l = l'" by simp
  with eq show "l = l' \<and> p = p'" by (simp add: node_def)
qed simp

lemma node_exists:
  assumes "i < 2 * 2 ^ d - 1"
  obtains l p where "l \<le> d" "p < 2 ^ (d - l)" "i = node d l p"
proof -
  have "\<exists>l < k. \<exists>p < 2 ^ (d - l). i = node d l p" if "i < layerAt d k" for k
    using that
  proof (induction k)
    case (Suc k)
    show ?case
    proof (cases "i < layerAt d k")
      case True
      with Suc.IH show ?thesis by (meson less_SucI)
    next
      case False
      with Suc.prems have "i = node d k (i - layerAt d k)" "i - layerAt d k < 2 ^ (d - k)" by (simp_all add: node_def)
      then show ?thesis by blast
    qed
  qed simp
  moreover have "i < layerAt d (Suc d)" using assms layerAt_root[of d] by simp
  ultimately obtain l p where "l < Suc d" "p < 2 ^ (d - l)" "i = node d l p" by blast
  then show thesis using that[of l p] by simp
qed

lemma node_parent: "layerAt d l + 2 ^ (d - l) + p div 2 = node d (Suc l) (p div 2)"
  by (simp add: node_def)

lemma half_less: "l < d \<Longrightarrow> p < 2 ^ (d - l) \<Longrightarrow> p div 2 < (2::nat) ^ (d - Suc l)"
proof -
  assume "l < d" "p < 2 ^ (d - l)"
  moreover from this have "2 ^ (d - l) = (2::nat) * 2 ^ (d - Suc l)" by (metis Suc_diff_Suc power_Suc)
  ultimately show ?thesis by (simp add: less_mult_imp_div_less mult.commute)
qed

definition sibling :: "nat \<Rightarrow> nat" where
  "sibling p = (if even p then p + 1 else p - 1)"

lemma node_neighbor:
  "l < d \<Longrightarrow> (if even (node d l p) then node d l p + 1 else node d l p - 1) = node d l (sibling p)"
  using layerAt_even[of l d] by (auto simp: node_def sibling_def elim: oddE)

lemma sibling_less: "l < d \<Longrightarrow> p < 2 ^ (d - l) \<Longrightarrow> sibling p < 2 ^ (d - l)"
proof -
  assume "l < d" "p < 2 ^ (d - l)"
  moreover from this have "2 ^ (d - l) = (2::nat) * 2 ^ (d - Suc l)" by (metis Suc_diff_Suc power_Suc)
  ultimately show ?thesis unfolding sibling_def by (auto elim!: evenE) 
qed

lemma node_root: "node d l p = 2 * 2 ^ d - 2 \<longleftrightarrow> l = d" if "l \<le> d" "p < 2 ^ (d - l)"
  using node_inject[of l d p d 0] that layerAt_root[of d] by (auto simp: node_def)

section \<open>The number of leaves\<close>

lemma and_pred_zero: "0 < n \<Longrightarrow> n AND (n - 1) = 0 \<Longrightarrow> \<exists>d. n = 2 ^ d" for n :: nat
proof (induction n rule: less_induct)
  case (less n)
  show ?case
  proof (cases "even n")
    case True
    then obtain m where m: "n = 2 * m" by (elim evenE)
    with less.prems have pos: "0 < m" by simp
    then have "n - 1 = 1 + 2 * (m - 1)" using m by simp
    then have "(n AND (n - 1)) = 2 * (m AND (m - 1))"
      using m and_nat_rec[of "2 * m" "1 + 2 * (m - 1)"] by simp
    with less.prems have "m AND (m - 1) = 0" by simp
    then obtain d where "m = 2 ^ d" using less.IH[of m] pos m by auto
    then have "n = 2 ^ Suc d" using m by simp
    then show ?thesis by blast
  next
    case False
    then obtain m where m: "n = 2 * m + 1" by (elim oddE)
    then have "(n AND (n - 1)) = 2 * m" using and_nat_rec[of "2 * m + 1" "2 * m"] by simp
    with less.prems m have "n = 2 ^ 0" by simp
    then show ?thesis by blast
  qed
qed

lemma Len16_bounds: "0 < n \<Longrightarrow> 2 ^ (Len16 n - 1) \<le> n \<and> n < 2 ^ Len16 n"
proof (induction n rule: Len16.induct)
  case (1 n)
  show ?case
  proof (cases "n div 2 = 0")
    case True
    with 1 have "n = 1" by auto
    then show ?thesis by (simp add: Len16.simps)
  next
    case False
    with 1 have "2 ^ (Len16 (n div 2) - 1) \<le> n div 2 \<and> n div 2 < 2 ^ Len16 (n div 2)" by simp
    moreover have "0 < Len16 (n div 2)" using False by (simp add: Len16.simps)
    moreover have "Len16 n = Suc (Len16 (n div 2))" using 1 by (simp add: Len16.simps)
    ultimately show ?thesis by (cases "Len16 (n div 2)") auto
  qed
qed

text \<open>The height of the tree.\<close>

definition depth :: "nat \<Rightarrow> nat" where
  "depth n = (if n AND (n - 1) = 0 then Len16 n - 1 else Len16 n)"

lemma leavesWidth_depth:
  assumes "0 < n"
  shows "leavesWidth n = 2 ^ depth n" "n \<le> 2 ^ depth n"
proof -
  note b = Len16_bounds[OF assms]
  have "n = 2 ^ (Len16 n - 1)" if pow: "n AND (n - 1) = 0"
  proof -
    obtain e where e: "n = 2 ^ e" using and_pred_zero[OF assms pow] by blast
    with b have "Len16 n - 1 \<le> e \<and> e < Len16 n" by simp
    then have "e = Len16 n - 1" by linarith
    with e show ?thesis by simp
  qed
  then show "leavesWidth n = 2 ^ depth n" "n \<le> 2 ^ depth n" using b by (auto simp: leavesWidth_def depth_def)
qed

lemma leavesWidth_bound: "0 < n \<Longrightarrow> n \<le> 32768 \<Longrightarrow> leavesWidth n \<le> 32768"
proof -
  assume n: "0 < n" "n \<le> 32768"
  show ?thesis
  proof (cases "n AND (n - 1) = 0")
    case True
    with n show ?thesis by (simp add: leavesWidth_def)
  next
    case False
    then have "n \<noteq> 32768" by auto
    with n Len16_bounds[OF n(1)] have "2 ^ (Len16 n - 1) < (2::nat) ^ 15" by simp
    then have "Len16 n - 1 < 15" by (rule power_less_imp_less_exp[rotated]) simp
    then have "2 ^ Len16 n \<le> (2::nat) ^ 15" by (intro power_increasing) simp_all
    with False show ?thesis by (simp add: leavesWidth_def)
  qed
qed

section \<open>The shape of a tree\<close>

abbreviation height :: "('k, 's, 'b) Tree \<Rightarrow> nat" where
  "height t \<equiv> depth (t_nKeys t)"

definition keyAt :: "('k, 's, 'b) Tree \<Rightarrow> nat \<Rightarrow> nat \<Rightarrow> 'k" where
  "keyAt t l p = t_keys t ! node (height t) l p"

definition sigAt :: "('k, 's, 'b) Tree \<Rightarrow> nat \<Rightarrow> nat \<Rightarrow> 's" where
  "sigAt t l p = t_sigs t ! node (height t) l p"

definition nodes :: "('k, 's, 'b) Tree \<Rightarrow> (nat \<times> nat) set" where
  "nodes t = {(l, p). l \<le> height t \<and> p < 2 ^ (height t - l)}"

text \<open>The arrays have a slot for each node, the leaves after the last key are zero, and every inner node has the aggregate of the keys below.\<close>

definition tree_shape :: "('k, 's) blst \<Rightarrow> ('k, 's, 'b) Tree \<Rightarrow> bool" where
  "tree_shape L t \<longleftrightarrow> 0 < t_nKeys t \<and> t_nKeys t \<le> 65535 \<and>
     length (t_keys t) = 2 * 2 ^ height t - 1 \<and> length (t_sigs t) = 2 * 2 ^ height t - 1 \<and>
     (\<forall>p. t_nKeys t \<le> p \<longrightarrow> p < 2 ^ height t \<longrightarrow> keyAt t 0 p = P2_zero L) \<and>
     (\<forall>l < height t. \<forall>p < 2 ^ (height t - Suc l).
        keyAt t (Suc l) p = aggregateKeys L (keyAt t l (2 * p)) (keyAt t l (2 * p + 1)))"

lemma keyLayer_fold:
  assumes "r + w + m \<le> length ks" "2 * m \<le> w"
  shows "let ks' = fold (\<lambda>j ks. let srcIdx = r + j * 2 in
             ks[r + w + j := aggregateKeys L (ks ! srcIdx) (ks ! (srcIdx + 1))]) [0..<m] ks in
         length ks' = length ks \<and> (\<forall>i < r + w. ks' ! i = ks ! i) \<and>
         (\<forall>j < m. ks' ! (r + w + j) = aggregateKeys L (ks ! (r + 2 * j)) (ks ! (r + 2 * j + 1)))"
  using assms
proof (induction m)
  case (Suc m)
  then show ?case by (auto simp: Let_def nth_list_update less_Suc_eq mult.commute)
qed simp

lemma keyLayer_spec:
  assumes "r + w + w div 2 \<le> length ks"
  shows "length (keyLayer L r w ks) = length ks"
    and "i < r + w \<Longrightarrow> keyLayer L r w ks ! i = ks ! i"
    and "j < w div 2 \<Longrightarrow> keyLayer L r w ks ! (r + w + j) = aggregateKeys L (ks ! (r + 2 * j)) (ks ! (r + 2 * j + 1))"
  using keyLayer_fold[OF assms, of L] by (simp_all add: keyLayer_def Let_def)

lemma keyLayers_spec:
  assumes "l \<le> d" "length ks = 2 * 2 ^ d - 1"
  shows "\<exists>ks'. keyLayers L (2 * 2 ^ d - 1) (layerAt d l) (2 ^ (d - l)) ks = Ret ks' \<and>
    length ks' = length ks \<and> (\<forall>i < layerAt d (Suc l). ks' ! i = ks ! i) \<and>
    (\<forall>k < d. l \<le> k \<longrightarrow> (\<forall>p < 2 ^ (d - Suc k).
       ks' ! node d (Suc k) p = aggregateKeys L (ks' ! node d k (2 * p)) (ks' ! node d k (2 * p + 1))))"
  using assms
proof (induction "d - l" arbitrary: l ks)
  case 0
  then have "keyLayers L (2 * 2 ^ d - 1) (layerAt d l) (2 ^ (d - l)) ks = Ret ks"
    using layerAt_root[of d] by (simp add: keyLayers.simps keyLayer_def Suc_diff_Suc numeral_2_eq_2)
  with 0 show ?case by simp
next
  case (Suc x)
  define r w where "r = layerAt d l" and "w = (2::nat) ^ (d - l)"
  have l: "l < d" using Suc by simp
  have x: "x = d - Suc l" using Suc.hyps(2) by simp
  have w: "w = 2 * 2 ^ (d - Suc l)" unfolding w_def using l by (metis Suc_diff_Suc power_Suc)
  have top: "layerAt d (Suc (Suc l)) \<le> 2 * 2 ^ d - 1"
    using layerAt_plus[of "Suc (Suc l)" d] l by (cases "(2::nat) ^ (Suc d - Suc (Suc l))") auto
  have fits: "r + w + w div 2 \<le> length ks" using top Suc.prems(2) w by (simp add: r_def w_def)
  note spec = keyLayer_spec[OF fits, where L = L]
  have r1: "r + w = layerAt d (Suc l)" by (simp add: r_def w_def)
  obtain ks' where ks': "keyLayers L (2 * 2 ^ d - 1) (layerAt d (Suc l)) (2 ^ (d - Suc l)) (keyLayer L r w ks) = Ret ks'"
    "length ks' = length ks" "\<forall>i < layerAt d (Suc (Suc l)). ks' ! i = keyLayer L r w ks ! i"
    "\<forall>k < d. Suc l \<le> k \<longrightarrow> (\<forall>p < 2 ^ (d - Suc k).
       ks' ! node d (Suc k) p = aggregateKeys L (ks' ! node d k (2 * p)) (ks' ! node d k (2 * p + 1)))"
    using Suc.hyps(1)[of "Suc l" "keyLayer L r w ks"] Suc.prems spec(1) l x by auto
  have "r < 2 * 2 ^ d - 1" using node_less[of l d 0] l by (simp add: node_def r_def)
  then have step: "keyLayers L (2 * 2 ^ d - 1) r w ks = Ret ks'"
    using ks'(1) w unfolding r1[symmetric] by (subst keyLayers.simps) simp
  have low: "ks' ! i = ks ! i" if "i < r + w" for i
    using ks'(3) spec(2)[OF that] that by (simp add: r1)
  have "ks' ! node d (Suc l) p = aggregateKeys L (ks' ! node d l (2 * p)) (ks' ! node d l (2 * p + 1))"
    if "p < 2 ^ (d - Suc l)" for p
    using that ks'(3) spec(3)[of p] low[of "r + 2 * p"] low[of "r + 2 * p + 1"] w r1
    by (simp add: node_def r_def)
  with ks'(4) have "\<forall>k < d. l \<le> k \<longrightarrow> (\<forall>p < 2 ^ (d - Suc k).
       ks' ! node d (Suc k) p = aggregateKeys L (ks' ! node d k (2 * p)) (ks' ! node d k (2 * p + 1)))"
    by (metis Suc_leI le_neq_implies_less)
  with step ks'(2) low show ?case by (simp add: r_def w_def)
qed

lemma Tree_New_shape:
  assumes "0 < length ks" "length ks \<le> 65535"
  shows "\<exists>t. Tree_New L B ks (length ks) = Ret t \<and> tree_shape L t \<and> t_nKeys t = length ks \<and>
    (\<forall>p < length ks. keyAt t 0 p = ks ! p) \<and> SigBits t = bs_New B (length ks) \<and>
    t_sigs t = replicate (length (t_keys t)) (P1_zero L)"
proof -
  define d where "d = depth (length ks)"
  have lw: "leavesWidth (length ks) = 2 ^ d" and n: "length ks \<le> 2 ^ d"
    using leavesWidth_depth[OF assms(1)] by (simp_all add: d_def)
  define ks0 where "ks0 = ks @ replicate (2 * 2 ^ d - 1 - length ks) (P2_zero L)"
  have len: "length ks0 = 2 * 2 ^ d - 1" unfolding ks0_def using n assms(1) by simp
  obtain ks' where ks': "keyLayers L (2 * 2 ^ d - 1) 0 (2 ^ d) ks0 = Ret ks'"
    "length ks' = 2 * 2 ^ d - 1" "\<forall>i < 2 ^ d. ks' ! i = ks0 ! i"
    "\<forall>k < d. \<forall>p < 2 ^ (d - Suc k).
       ks' ! node d (Suc k) p = aggregateKeys L (ks' ! node d k (2 * p)) (ks' ! node d k (2 * p + 1))"
    using keyLayers_spec[of 0 d ks0 L] len by auto
  define t where "t = \<lparr>t_keys = ks', t_sigs = replicate (2 * 2 ^ d - 1) (P1_zero L), SigBits = bs_New B (length ks), t_nKeys = length ks\<rparr>"
  have new: "Tree_New L B ks (length ks) = Ret t"
    using assms lw ks'(1) n by (simp add: Tree_New_def Let_def ks0_def t_def)
  have "ks0 ! p = (if p < length ks then ks ! p else P2_zero L)" if "p < 2 ^ d" for p
    using that by (simp add: ks0_def nth_append)
  then have "ks' ! p = (if p < length ks then ks ! p else P2_zero L)" if "p < 2 ^ d" for p
    using that ks'(3) by simp
  then show ?thesis
    using assms n ks' by (intro exI[of _ t]) (simp add: new, simp add: t_def tree_shape_def keyAt_def d_def[symmetric] node_def)
qed

lemma setBits_Suc: "setBits B i (Suc j) b = (if i \<le> j then bs_Set B (setBits B i j b) j else b)"
  by (simp add: setBits_def)

section \<open>The libraries' contracts\<close>

text \<open>What the code relies on of \<open>blst\<close>: the point at infinity is no key, and no signature of another key; aggregates of valid
  signatures are valid for the aggregated key, unless that is infinity; a key has one signature for a message; equality and compression are what they say.\<close>

locale blst_lib =
  fixes L :: "('k, 's) blst"
  assumes zero_key: "\<not> P1_Verify L s (P2_zero L) m"
    and verify_nonzero: "P1_Verify L s k m \<Longrightarrow> s \<noteq> P1_zero L"
    and verify_add: "P1_SigValidate L s \<Longrightarrow> P1_Verify L s k m \<Longrightarrow> P1_SigValidate L s' \<Longrightarrow> P1_Verify L s' k' m \<Longrightarrow>
          P2_Add L k k' \<noteq> P2_zero L \<Longrightarrow> P1_SigValidate L (P1_Add L s s') \<and> P1_Verify L (P1_Add L s s') (P2_Add L k k') m"
    and P1_Add_commute: "P1_Add L s s' = P1_Add L s' s"
    and P1_Equals_iff: "P1_Equals L (Some s) (Some s') = Ret (s = s')"
    and P2_Equals_iff: "P2_Equals L k k' \<longleftrightarrow> k = k'"
    and verify_unique: "P1_SigValidate L s \<Longrightarrow> P1_Verify L s k m \<Longrightarrow> P1_SigValidate L s' \<Longrightarrow> P1_Verify L s' k m \<Longrightarrow> s = s'"
    and Uncompress_Compress: "P1_SigValidate L s \<Longrightarrow> P1_Uncompress L (P1_Compress L s) = Some s"

locale sized_bitset_lib = bitset_lib "bitset_ops.truncate B" bits
  for B :: "'b sized_bitset" and bits :: "'b \<Rightarrow> nat set" +
  fixes len :: "'b \<Rightarrow> nat"
  assumes len_New: "len (bs_New B n) = n"
    and len_Set: "i < len b \<Longrightarrow> len (bs_Set B b i) = len b"
    and bits_SetAll: "bits (bs_SetAll B b) = {..<len b}"
    and len_SetAll: "len (bs_SetAll B b) = len b"
begin

lemma sized_bits_simps:
  "bits (bs_New B n) = {}" "bits (bs_Set B b i) = insert i (bits b)" "bs_Count B b = card (bits b)"
  "bs_None B b \<longleftrightarrow> bits b = {}" "bs_IsStrictSuperSet B a b \<longleftrightarrow> bits b \<subset> bits a"
  using bits_simps by (simp_all add: bitset_ops.truncate_def)

lemma bits_setBits: "bits (setBits B i j b) = bits b \<union> {i..<j}"
proof (induction j)
  case (Suc j)
  then show ?case by (simp add: setBits_Suc sized_bits_simps atLeastLessThanSuc)
qed (simp add: setBits_def)

lemma len_setBits: "j \<le> len b \<Longrightarrow> len (setBits B i j b) = len b"
proof (induction j)
  case (Suc j)
  then show ?case by (simp add: setBits_Suc len_Set)
qed (simp add: setBits_def)

end

section \<open>The signatures of a tree\<close>

definition hasSig :: "('k, 's) blst \<Rightarrow> ('k, 's, 'b) Tree \<Rightarrow> nat \<Rightarrow> nat \<Rightarrow> bool" where
  "hasSig L t l p \<longleftrightarrow> sigAt t l p \<noteq> P1_zero L"

text \<open>The keys below a node.\<close>

definition below :: "('k, 's, 'b) Tree \<Rightarrow> nat \<Rightarrow> nat \<Rightarrow> nat set" where
  "below t l p = {b. b < t_nKeys t \<and> b div 2 ^ l = p}"

definition validSig :: "('k, 's) blst \<Rightarrow> bytes \<Rightarrow> 'k \<Rightarrow> 's \<Rightarrow> bool" where
  "validSig L m k s \<longleftrightarrow> P1_SigValidate L s \<and> P1_Verify L s k m"

text \<open>No aggregate of keys is the point at infinity.\<close>

definition proper_keys :: "('k, 's) blst \<Rightarrow> ('k, 's, 'b) Tree \<Rightarrow> bool" where
  "proper_keys L t \<longleftrightarrow> (\<forall>(l, p) \<in> nodes t. below t l p \<noteq> {} \<longrightarrow> keyAt t l p \<noteq> P2_zero L)"

text \<open>A node has a signature when its children do, where a child without keys needs none.\<close>

definition combined :: "('k, 's) blst \<Rightarrow> ('k, 's, 'b) Tree \<Rightarrow> nat \<Rightarrow> nat \<Rightarrow> bool" where
  "combined L t l p \<longleftrightarrow>
     (hasSig L t l (2 * p) \<and> (hasSig L t l (2 * p + 1) \<or> keyAt t l (2 * p + 1) = P2_zero L) \<longrightarrow> hasSig L t (Suc l) p)"

definition tree_inv :: "('k, 's) blst \<Rightarrow> ('b \<Rightarrow> nat set) \<Rightarrow> ('b \<Rightarrow> nat) \<Rightarrow> bytes \<Rightarrow> ('k, 's, 'b) Tree \<Rightarrow> bool" where
  "tree_inv L bits len m t \<longleftrightarrow> tree_shape L t \<and> proper_keys L t \<and> len (SigBits t) = t_nKeys t \<and>
     (\<forall>(l, p) \<in> nodes t. hasSig L t l p \<longrightarrow> validSig L m (keyAt t l p) (sigAt t l p)) \<and>
     (\<forall>l < height t. \<forall>p < 2 ^ (height t - Suc l). combined L t l p) \<and>
     bits (SigBits t) = {b. b < t_nKeys t \<and> (\<exists>l \<le> height t. hasSig L t l (b div 2 ^ l))}"

lemma div_eq_interval: "b div 2 ^ l = p \<longleftrightarrow> p * 2 ^ l \<le> b \<and> b < p * 2 ^ l + 2 ^ l" for b :: nat
proof
  assume "b div 2 ^ l = p"
  then have "b = p * 2 ^ l + b mod 2 ^ l" by (metis div_mult_mod_eq)
  moreover have "b mod 2 ^ l < 2 ^ l" by simp
  ultimately show "p * 2 ^ l \<le> b \<and> b < p * 2 ^ l + 2 ^ l" by linarith
qed (auto intro!: div_nat_eqI simp: mult.commute)

lemma below_interval: "below t l p = {p * 2 ^ l..<min (p * 2 ^ l + 2 ^ l) (t_nKeys t)}"
  by (auto simp: below_def div_eq_interval)

lemma below_empty_iff: "below t l p = {} \<longleftrightarrow> t_nKeys t \<le> p * 2 ^ l"
  by (simp add: below_interval min_le_iff_disj not_less)

lemma div_in_layer: "b < (2::nat) ^ d \<Longrightarrow> l \<le> d \<Longrightarrow> b div 2 ^ l < 2 ^ (d - l)"
  by (rule less_mult_imp_div_less) (simp flip: power_add)

lemma below_children:
  "below t (Suc l) p = below t l (2 * p) \<union> below t l (2 * p + 1)"
proof -
  have "b div 2 ^ Suc l = (b div 2 ^ l) div 2" for b :: nat by (simp only: power_Suc2 div_mult2_eq)
  then have "b div 2 ^ Suc l = p \<longleftrightarrow> b div 2 ^ l = 2 * p \<or> b div 2 ^ l = 2 * p + 1" for b :: nat by auto
  then show ?thesis by (auto simp: below_def)
qed

lemma keyAt_padding:
  assumes "tree_shape L t" "l \<le> height t" "p < 2 ^ (height t - l)" "below t l p = {}"
  shows "keyAt t l p = P2_zero L"
  using assms(2-)
proof (induction l arbitrary: p)
  case 0
  then show ?case using assms(1) by (simp add: tree_shape_def below_empty_iff)
next
  case (Suc l)
  have two: "2 ^ (height t - l) = (2::nat) * 2 ^ (height t - Suc l)" using Suc.prems by (metis Suc_diff_Suc Suc_le_lessD power_Suc)
  have "keyAt t (Suc l) p = aggregateKeys L (keyAt t l (2 * p)) (keyAt t l (2 * p + 1))"
    using assms(1) Suc.prems by (simp add: tree_shape_def)
  also have "\<dots> = P2_zero L"
    using Suc.IH[of "2 * p"] Suc.IH[of "2 * p + 1"] Suc.prems two by (auto simp: below_children aggregateKeys_def)
  finally show ?case .
qed

end
