(* ===== verification/SigTreeProps.thy ===== *)
theory SigTreeProps
  imports SigTree
begin

text \<open>
  The signature tree is exact: every added signature is combined towards the root, the signature bits are the keys below the added
  nodes, and the sparse indices are the largest complete subtrees.
\<close>

section \<open>Adding a signature\<close>

locale sigtree = blst_lib L + sized_bitset_lib B bits len
  for L :: "('k, 's) blst" and B :: "'b sized_bitset" and bits :: "'b \<Rightarrow> nat set" and len :: "'b \<Rightarrow> nat"
begin

abbreviation treeInv :: "bytes \<Rightarrow> ('k, 's, 'b) Tree \<Rightarrow> bool" where
  "treeInv m t \<equiv> tree_inv L bits len m t"

text \<open>The invariant between two rounds of the loop: a signature for node \<open>(l, p)\<close> is still to be stored, and only there
  children may be combined in advance.\<close>

definition adding :: "bytes \<Rightarrow> bool \<Rightarrow> nat \<Rightarrow> nat \<Rightarrow> ('k, 's, 'b) Tree \<Rightarrow> bool" where
  "adding m added l p t \<longleftrightarrow> tree_shape L t \<and> proper_keys L t \<and> len (SigBits t) = t_nKeys t \<and> (l, p) \<in> nodes t \<and>
     (\<forall>(l, p) \<in> nodes t. hasSig L t l p \<longrightarrow> validSig L m (keyAt t l p) (sigAt t l p)) \<and>
     (\<forall>k < height t. \<forall>q < 2 ^ (height t - Suc k). (Suc k, q) \<noteq> (l, p) \<longrightarrow> combined L t k q) \<and>
     bits (SigBits t) = {b. b < t_nKeys t \<and> (\<exists>l \<le> height t. hasSig L t l (b div 2 ^ l))} \<union> (if added then below t l p else {})"

definition store :: "nat \<Rightarrow> nat \<Rightarrow> 's \<Rightarrow> ('k, 's, 'b) Tree \<Rightarrow> ('k, 's, 'b) Tree" where
  "store l p s t = t\<lparr>t_sigs := (t_sigs t)[node (height t) l p := s]\<rparr>"

lemma store_simps [simp]:
  "t_keys (store l p s t) = t_keys t" "t_nKeys (store l p s t) = t_nKeys t" "SigBits (store l p s t) = SigBits t"
  "length (t_sigs (store l p s t)) = length (t_sigs t)" "keyAt (store l p s t) = keyAt t" "nodes (store l p s t) = nodes t"
  "below (store l p s t) = below t"
  by (simp_all add: store_def keyAt_def nodes_def below_def fun_eq_iff)

lemma SigBits_simps [simp]:
  "keyAt (t\<lparr>SigBits := b\<rparr>) = keyAt t" "sigAt (t\<lparr>SigBits := b\<rparr>) = sigAt t" "nodes (t\<lparr>SigBits := b\<rparr>) = nodes t"
  "below (t\<lparr>SigBits := b\<rparr>) = below t" "hasSig L (t\<lparr>SigBits := b\<rparr>) = hasSig L t" "combined L (t\<lparr>SigBits := b\<rparr>) = combined L t"
  "tree_shape L (t\<lparr>SigBits := b\<rparr>) = tree_shape L t" "proper_keys L (t\<lparr>SigBits := b\<rparr>) = proper_keys L t"
  by (simp_all add: keyAt_def sigAt_def nodes_def below_def fun_eq_iff hasSig_def combined_def tree_shape_def proper_keys_def)

lemma shape_store [simp]: "tree_shape L (store l p s t) = tree_shape L t"
  by (simp add: tree_shape_def)

lemma proper_store [simp]: "proper_keys L (store l p s t) = proper_keys L t"
  by (simp add: proper_keys_def)

lemma sigAt_store:
  assumes "tree_shape L t" "(l, p) \<in> nodes t" "(k, q) \<in> nodes t"
  shows "sigAt (store l p s t) k q = (if (k, q) = (l, p) then s else sigAt t k q)"
proof -
  have r: "node (height t) l p < length (t_sigs t)"
    using assms(1,2) node_less by (auto simp: tree_shape_def nodes_def)
  have "node (height t) k q = node (height t) l p \<longleftrightarrow> (k, q) = (l, p)"
    using node_inject[of k "height t" q l p] assms(2,3) by (auto simp: nodes_def)
  then show ?thesis using r unfolding sigAt_def store_def by (auto simp: nth_list_update)
qed

text \<open>What storing a valid signature does to the nodes.\<close>

lemma hasSig_store:
  assumes "tree_shape L t" "(l, p) \<in> nodes t" "(k, q) \<in> nodes t" "s \<noteq> P1_zero L"
  shows "hasSig L (store l p s t) k q \<longleftrightarrow> (k, q) = (l, p) \<or> hasSig L t k q"
  using assms sigAt_store[OF assms(1-3)] by (auto simp: hasSig_def)

lemma node_of_key: "tree_shape L t \<Longrightarrow> b < t_nKeys t \<Longrightarrow> l \<le> height t \<Longrightarrow> (l, b div 2 ^ l) \<in> nodes t"
  using leavesWidth_depth[of "t_nKeys t"] by (auto simp: nodes_def tree_shape_def intro!: div_in_layer)

lemma bits_store:
  assumes "tree_shape L t" "(l, p) \<in> nodes t" "s \<noteq> P1_zero L"
  shows "{b. b < t_nKeys t \<and> (\<exists>k \<le> height t. hasSig L (store l p s t) k (b div 2 ^ k))} =
    {b. b < t_nKeys t \<and> (\<exists>k \<le> height t. hasSig L t k (b div 2 ^ k))} \<union> below t l p"
proof -
  have "hasSig L (store l p s t) k (b div 2 ^ k) \<longleftrightarrow> k = l \<and> b div 2 ^ l = p \<or> hasSig L t k (b div 2 ^ k)"
    if "b < t_nKeys t" "k \<le> height t" for b k
    using hasSig_store[OF assms(1,2) node_of_key[OF assms(1) that] assms(3)] by auto
  moreover have "l \<le> height t" using assms(2) by (simp add: nodes_def)
  ultimately show ?thesis unfolding below_def by blast
qed

lemma nodes_Suc: "l < height t \<Longrightarrow> q < 2 ^ (height t - Suc l) \<Longrightarrow>
  (Suc l, q) \<in> nodes t \<and> (l, 2 * q) \<in> nodes t \<and> (l, 2 * q + 1) \<in> nodes t"
proof -
  assume l: "l < height t" "q < 2 ^ (height t - Suc l)"
  then have "2 ^ (height t - l) = (2::nat) * 2 ^ (height t - Suc l)" by (metis Suc_diff_Suc power_Suc)
  with l show ?thesis by (simp add: nodes_def)
qed

lemma store_parts:
  assumes "adding m added l p t" "validSig L m (keyAt t l p) s" "bits (SigBits t) \<union> below t l p = bits b"
  shows "(k, q) \<in> nodes t \<Longrightarrow> hasSig L (store l p s t) k q \<Longrightarrow> validSig L m (keyAt t k q) (sigAt (store l p s t) k q)"
    and "k < height t \<Longrightarrow> q < 2 ^ (height t - Suc k) \<Longrightarrow> \<not> (k = l \<and> q = p div 2) \<Longrightarrow> combined L (store l p s t) k q"
    and "bits b = {b. b < t_nKeys t \<and> (\<exists>k \<le> height t. hasSig L (store l p s t) k (b div 2 ^ k))}"
proof -
  have shape: "tree_shape L t" and lp: "(l, p) \<in> nodes t" using assms(1) by (simp_all add: adding_def)
  have nz: "s \<noteq> P1_zero L" using assms(2) verify_nonzero by (auto simp: validSig_def)
  show "validSig L m (keyAt t k q) (sigAt (store l p s t) k q)" if "(k, q) \<in> nodes t" "hasSig L (store l p s t) k q"
    using that hasSig_store[OF shape lp that(1) nz] sigAt_store[OF shape lp that(1)] assms(1,2) by (auto simp: adding_def)
  show "combined L (store l p s t) k q" if k: "k < height t" "q < 2 ^ (height t - Suc k)" and other: "\<not> (k = l \<and> q = p div 2)"
  proof (cases "(Suc k, q) = (l, p)")
    case True
    with nodes_Suc[OF k] hasSig_store[OF shape lp _ nz] show ?thesis by (auto simp: combined_def)
  next
    case False
    have "(k, 2 * q) \<noteq> (l, p)" "(k, 2 * q + 1) \<noteq> (l, p)" using other by auto
    moreover have "combined L t k q" using assms(1) k False by (simp add: adding_def)
    ultimately show ?thesis
      using nodes_Suc[OF k] hasSig_store[OF shape lp _ nz] False unfolding combined_def by (simp, blast)
  qed
  show "bits b = {b. b < t_nKeys t \<and> (\<exists>k \<le> height t. hasSig L (store l p s t) k (b div 2 ^ k))}"
    using assms(1,3) bits_store[OF shape lp nz] by (auto simp: adding_def split: if_splits)
qed

lemma store_inv:
  assumes "adding m added l p t" "validSig L m (keyAt t l p) s" "bits (SigBits t) \<union> below t l p = bits b" "len b = t_nKeys t"
    and "l < height t \<Longrightarrow> combined L (store l p s t) l (p div 2)"
  shows "tree_inv L bits len m ((store l p s t)\<lparr>SigBits := b\<rparr>)"
  using assms(1,4,5) store_parts[OF assms(1-3)] by (auto simp: tree_inv_def adding_def)

lemma store_again:
  assumes "adding m added l p t" "validSig L m (keyAt t l p) s" "bits (SigBits t) \<union> below t l p = bits b" "len b = t_nKeys t"
    and "(Suc l, p div 2) \<in> nodes t" "below t (Suc l) (p div 2) \<subseteq> bits b"
  shows "adding m True (Suc l) (p div 2) ((store l p s t)\<lparr>SigBits := b\<rparr>)"
  using assms(1,4-) store_parts[OF assms(1-3)] unfolding adding_def by (simp add: Un_absorb2) blast

text \<open>One round of the loop in terms of layers and offsets.\<close>

lemma again_step:
  fixes s :: 's and added :: bool
  assumes shape: "tree_shape L t" and lp: "(l, p) \<in> nodes t" and l: "l < height t"
  defines "t2 \<equiv> (store l p s t)\<lparr>SigBits := (if added then SigBits t else setBits B (p * 2 ^ l) (min (p * 2 ^ l + 2 ^ l) (t_nKeys t)) (SigBits t))\<rparr>"
  shows "AddSignature_again L B added (node (height t) l p) s t =
    (if hasSig L t2 (Suc l) (p div 2) then Ret t2
     else if keyAt t l (sibling p) \<noteq> P2_zero L then
       if \<not> hasSig L t2 l (sibling p) then Ret t2
       else AddSignature_again L B True (node (height t) (Suc l) (p div 2)) (P1_Add L s (sigAt t2 l (sibling p))) t2
     else AddSignature_again L B True (node (height t) (Suc l) (p div 2)) s t2)"
proof -
  have p: "p < 2 ^ (height t - l)" and n: "0 < t_nKeys t" using lp shape by (auto simp: nodes_def tree_shape_def)
  have len: "length (t_sigs t) = 2 * 2 ^ height t - 1" "length (t_keys t) = 2 * 2 ^ height t - 1" using shape by (auto simp: tree_shape_def)
  have r: "node (height t) l p < 2 * 2 ^ height t - 1" using node_less[of l "height t" p] p l by simp
  have root: "node (height t) l p \<noteq> 2 * 2 ^ height t - 1 - 1" using node_root[of l "height t" p] p l by simp
  have par: "node (height t) (Suc l) (p div 2) < 2 * 2 ^ height t - 1"
    using node_less[of "Suc l" "height t"] half_less[OF l p] l by simp
  have nb: "node (height t) l (sibling p) < 2 * 2 ^ height t - 1"
    using node_less[of l "height t"] sibling_less[OF l p] l by simp
  have layer: "layer_loop (node (height t) l p) 0 (leavesWidth (t_nKeys t)) (Suc 0) = Some (layerAt (height t) l, 2 ^ (height t - l), 2 ^ l)"
    using layer_loop_start[of l "height t" p] p l leavesWidth_depth(1)[OF n] by simp
  have offset: "node (height t) l p - layerAt (height t) l = p" by (simp add: node_def)
  have same: "(store l p s t)\<lparr>SigBits := SigBits t\<rparr> = store l p s t" by (cases t) (simp add: store_def)
  show ?thesis
    using r root par nb layer offset unfolding t2_def
    by (subst AddSignature_again.simps, cases added)
       (simp_all add: store_def[symmetric] Let_def len node_neighbor[OF l] node_parent same hasSig_def sigAt_def keyAt_def)
qed

lemma validSig_add:
  assumes "validSig L m k s" "validSig L m k' s'" "aggregateKeys L k k' \<noteq> P2_zero L"
  shows "validSig L m (aggregateKeys L k k') (P1_Add L s s') \<and> validSig L m (aggregateKeys L k k') (P1_Add L s' s)"
proof -
  have "k' \<noteq> P2_zero L" using assms(2) zero_key by (auto simp: validSig_def)
  with assms show ?thesis using verify_add[of s k m s' k'] P1_Add_commute[of s s'] by (simp add: validSig_def aggregateKeys_def)
qed

lemma sibling_cases: "p = 2 * (p div 2) \<and> sibling p = 2 * (p div 2) + 1 \<or> p = 2 * (p div 2) + 1 \<and> sibling p = 2 * (p div 2)"
  by (cases "even p") (auto simp: sibling_def elim!: oddE)

lemma below_parent: "below t (Suc l) (p div 2) = below t l p \<union> below t l (sibling p)"
  using sibling_cases[of p] below_children[of t l "p div 2"] by (metis sup_commute)

lemma key_parent: "tree_shape L t \<Longrightarrow> l < height t \<Longrightarrow> p < 2 ^ (height t - l) \<Longrightarrow>
  keyAt t (Suc l) (p div 2) = aggregateKeys L (keyAt t l (2 * (p div 2))) (keyAt t l (2 * (p div 2) + 1))"
  using half_less[of l "height t" p] by (simp add: tree_shape_def)

text \<open>Padding is to the right: a node next to padding has the key of its parent.\<close>

lemma sibling_padding:
  assumes "tree_shape L t" "proper_keys L t" "l < height t" "p < 2 ^ (height t - l)"
    and "validSig L m (keyAt t l p) s" "keyAt t l (sibling p) = P2_zero L"
  shows "below t l (sibling p) = {}" "keyAt t (Suc l) (p div 2) = keyAt t l p"
proof -
  have sib: "(l, sibling p) \<in> nodes t" using sibling_less[OF assms(3,4)] assms(3) by (simp add: nodes_def)
  then show empty: "below t l (sibling p) = {}" using assms(2,6) by (auto simp: proper_keys_def)
  have "p \<noteq> 2 * (p div 2) + 1"
  proof
    assume "p = 2 * (p div 2) + 1"
    with sibling_cases[of p] have "sibling p \<le> p" by auto
    then have "sibling p * 2 ^ l \<le> p * 2 ^ l" by simp
    then have "below t l p = {}" using empty unfolding below_empty_iff by (rule order_trans[rotated])
    then have "keyAt t l p = P2_zero L" using keyAt_padding[OF assms(1)] assms(3,4) by simp
    then show False using assms(5) zero_key by (simp add: validSig_def)
  qed
  with sibling_cases[of p] assms(6) key_parent[OF assms(1,3,4)] show "keyAt t (Suc l) (p div 2) = keyAt t l p"
    by (auto simp: aggregateKeys_def)
qed

lemma sibling_combine:
  assumes "tree_shape L t" "proper_keys L t" "l < height t" "p < 2 ^ (height t - l)"
    and "validSig L m (keyAt t l p) s" "validSig L m (keyAt t l (sibling p)) s'"
  shows "validSig L m (keyAt t (Suc l) (p div 2)) (P1_Add L s s')"
proof -
  have "keyAt t l p \<noteq> P2_zero L" using assms(5) zero_key by (auto simp: validSig_def)
  then have "below t l p \<noteq> {}" using keyAt_padding[OF assms(1)] assms(3,4) by auto
  moreover have "(Suc l, p div 2) \<in> nodes t" using half_less[OF assms(3,4)] assms(3) by (simp add: nodes_def)
  ultimately have "keyAt t (Suc l) (p div 2) \<noteq> P2_zero L" using assms(2) by (auto simp: proper_keys_def below_parent)
  then show ?thesis
    using sibling_cases[of p] key_parent[OF assms(1,3,4)] validSig_add[OF assms(5,6)] validSig_add[OF assms(6,5)] by auto
qed

lemma again_spec:
  assumes "adding m added l p t" "validSig L m (keyAt t l p) s"
  shows "\<exists>t'. AddSignature_again L B added (node (height t) l p) s t = Ret t' \<and> treeInv m t' \<and>
    bits (SigBits t') = bits (SigBits t) \<union> below t l p \<and> t_keys t' = t_keys t \<and> t_nKeys t' = t_nKeys t"
  using assms
proof (induction "height t - l" arbitrary: added l p t s)
  case 0
  then have shape: "tree_shape L t" and lp: "(l, p) \<in> nodes t" and l: "l = height t" by (auto simp: adding_def nodes_def)
  have root: "node (height t) l p = 2 * 2 ^ height t - 2" using node_root lp l by (auto simp: nodes_def)
  have all: "below t l p = {..<t_nKeys t}"
    using lp l leavesWidth_depth(2)[of "t_nKeys t"] by (auto simp: below_def nodes_def)
  have sub: "bits (SigBits t) \<subseteq> {..<t_nKeys t}" using 0 by (auto simp: adding_def below_def split: if_splits)
  have len: "length (t_sigs t) = 2 * 2 ^ height t - 1" "len (SigBits t) = t_nKeys t" using shape 0 by (auto simp: tree_shape_def adding_def)
  have "0 < (2::nat) ^ height t" by simp
  then have last: "\<not> length (t_sigs t) \<le> node (height t) l p" "node (height t) l p = length (t_sigs t) - Suc 0"
    unfolding root len by linarith+
  define t' where "t' = (store l p s t)\<lparr>SigBits := bs_SetAll B (SigBits t)\<rparr>"
  have "AddSignature_again L B added (node (height t) l p) s t = Ret t'"
    using last by (subst AddSignature_again.simps) (simp add: store_def Let_def t'_def)
  moreover have "treeInv m t'"
    unfolding t'_def using 0 all sub len l by (intro store_inv) (auto simp: bits_SetAll len_SetAll)
  ultimately show ?case using all sub len by (auto simp: t'_def bits_SetAll)
next
  case (Suc x)
  have shape: "tree_shape L t" and lp: "(l, p) \<in> nodes t" and l: "l < height t" and n: "len (SigBits t) = t_nKeys t"
    and pk: "proper_keys L t" using Suc by (auto simp: adding_def)
  have p: "p < 2 ^ (height t - l)" using lp by (simp add: nodes_def)
  have nz: "s \<noteq> P1_zero L" using Suc.prems(2) verify_nonzero by (auto simp: validSig_def)
  define b where "b = (if added then SigBits t else setBits B (p * 2 ^ l) (min (p * 2 ^ l + 2 ^ l) (t_nKeys t)) (SigBits t))"
  define t2 where "t2 = (store l p s t)\<lparr>SigBits := b\<rparr>"
  have bits: "bits (SigBits t) \<union> below t l p = bits b" "len b = t_nKeys t"
    using Suc.prems(1) n by (auto simp: b_def bits_setBits len_setBits below_interval adding_def)
  have par: "(Suc l, p div 2) \<in> nodes t" using half_less[OF l p] l by (simp add: nodes_def)
  have sib: "(l, sibling p) \<in> nodes t" using sibling_less[OF l p] l by (simp add: nodes_def)
  have sig2: "hasSig L t2 k q \<longleftrightarrow> (k, q) = (l, p) \<or> hasSig L t k q" if "(k, q) \<in> nodes t" for k q
    using hasSig_store[OF shape lp that nz] by (simp add: t2_def)
  note step = again_step[OF shape lp l, of added s, folded b_def, folded t2_def]
  have stop: ?case if "combined L t2 l (p div 2)" "AddSignature_again L B added (node (height t) l p) s t = Ret t2"
    using that store_inv[OF Suc.prems bits] bits by (auto simp: t2_def)
  have go: ?case if s': "validSig L m (keyAt t (Suc l) (p div 2)) s'" and "below t (Suc l) (p div 2) \<subseteq> bits b"
    and again: "AddSignature_again L B added (node (height t) l p) s t = AddSignature_again L B True (node (height t) (Suc l) (p div 2)) s' t2" for s'
  proof -
    have ad: "adding m True (Suc l) (p div 2) t2"
      unfolding t2_def using Suc.prems bits par that(2) by (rule store_again)
    have "\<exists>t'. AddSignature_again L B True (node (height t2) (Suc l) (p div 2)) s' t2 = Ret t' \<and> treeInv m t' \<and>
        bits (SigBits t') = bits (SigBits t2) \<union> below t2 (Suc l) (p div 2) \<and> t_keys t' = t_keys t2 \<and> t_nKeys t' = t_nKeys t2"
      by (rule Suc.hyps(1)) (use Suc.hyps(2) ad s' in \<open>simp_all add: t2_def\<close>)
    with again that(2) bits show ?thesis by (auto simp: t2_def)
  qed
  show ?case
  proof (cases "hasSig L t2 (Suc l) (p div 2)")
    case True
    with stop step show ?thesis by (simp add: combined_def)
  next
    case nopar: False
    have own: "below t l p \<subseteq> bits b" using bits(1) by blast
    show ?thesis
    proof (cases "keyAt t l (sibling p) = P2_zero L")
      case True
      note pad = sibling_padding[OF shape pk l p Suc.prems(2) True]
      show ?thesis using go[of s] Suc.prems(2) pad own nopar step True by (simp add: below_parent)
    next
      case nb: False
      show ?thesis
      proof (cases "hasSig L t2 l (sibling p)")
        case False
        with sibling_cases[of p] nb nopar stop step show ?thesis by (auto simp: combined_def t2_def)
      next
        case True
        have ne: "sibling p \<noteq> p" using sibling_cases[of p] by auto
        then have old: "hasSig L t l (sibling p)" using True sig2[OF sib] by simp
        then have v: "validSig L m (keyAt t l (sibling p)) (sigAt t2 l (sibling p))"
          using Suc.prems(1) sib ne sigAt_store[OF shape lp sib] by (auto simp: adding_def t2_def)
        have "below t l (sibling p) \<subseteq> {b. b < t_nKeys t \<and> (\<exists>l \<le> height t. hasSig L t l (b div 2 ^ l))}"
          using old l unfolding below_def by (auto intro!: exI[of _ l])
        also have "\<dots> \<subseteq> bits (SigBits t)" using Suc.prems(1) by (simp add: adding_def)
        also have "\<dots> \<subseteq> bits b" using bits(1) by blast
        finally show ?thesis
          using go[OF sibling_combine[OF shape pk l p Suc.prems(2) v]] own nopar step nb True by (simp add: below_parent)
      qed
    qed
  qed
qed

end

context sigtree
begin

lemma AddSignature_spec:
  assumes "treeInv m t" "(l, p) \<in> nodes t" "validSig L m (keyAt t l p) s"
  shows "\<exists>t'. Tree_AddSignature L B t (node (height t) l p) s = Ret t' \<and> treeInv m t' \<and>
    bits (SigBits t') = bits (SigBits t) \<union> below t l p \<and> t_keys t' = t_keys t \<and> t_nKeys t' = t_nKeys t"
proof -
  have "adding m False l p t" using assms(1,2) by (auto simp: tree_inv_def adding_def)
  from again_spec[OF this assms(3)] show ?thesis by (simp add: Tree_AddSignature_def)
qed

lemma fresh_inv:
  assumes "tree_shape L t" "proper_keys L t" "SigBits t = bs_New B (t_nKeys t)" "t_sigs t = replicate (length (t_keys t)) (P1_zero L)"
  shows "treeInv m t" "bits (SigBits t) = {}"
proof -
  have none: "\<not> hasSig L t l p" if "(l, p) \<in> nodes t" for l p
    using that assms(1,4) node_less[of l "height t" p] by (auto simp: hasSig_def sigAt_def nodes_def tree_shape_def)
  have comb: "combined L t l p" if "l < height t" "p < 2 ^ (height t - Suc l)" for l p
    using none[of l "2 * p"] nodes_Suc[OF that] by (simp add: combined_def)
  show "bits (SigBits t) = {}" using assms(3) by (simp add: sized_bits_simps)
  then show "treeInv m t"
    using assms none comb node_of_key[OF assms(1)] unfolding tree_inv_def by (auto simp: len_New)
qed

section \<open>The sparse indices\<close>

definition covered :: "('k, 's, 'b) Tree \<Rightarrow> nat \<Rightarrow> nat \<Rightarrow> bool" where
  "covered t l p \<longleftrightarrow> (\<exists>k. l \<le> k \<and> k \<le> height t \<and> hasSig L t k (p div 2 ^ (k - l)))"

lemma covered_rec: "l \<le> height t \<Longrightarrow> covered t l p \<longleftrightarrow> hasSig L t l p \<or> l < height t \<and> covered t (Suc l) (p div 2)"
proof -
  assume l: "l \<le> height t"
  have half: "p div 2 ^ (k - l) = p div 2 div 2 ^ (k - Suc l)" if "Suc l \<le> k" for k
    using that by (metis Suc_diff_Suc Suc_le_lessD div_mult2_eq power_Suc)
  show ?thesis
  proof
    assume "covered t l p"
    then obtain k where k: "l \<le> k" "k \<le> height t" "hasSig L t k (p div 2 ^ (k - l))" by (auto simp: covered_def)
    then show "hasSig L t l p \<or> l < height t \<and> covered t (Suc l) (p div 2)"
      using half[of k] by (cases "k = l") (auto simp: covered_def intro!: exI[of _ k])
  next
    assume "hasSig L t l p \<or> l < height t \<and> covered t (Suc l) (p div 2)"
    then show "covered t l p"
    proof
      assume "hasSig L t l p"
      with l show ?thesis by (auto simp: covered_def intro!: exI[of _ l])
    next
      assume "l < height t \<and> covered t (Suc l) (p div 2)"
      then obtain k where "Suc l \<le> k" "k \<le> height t" "hasSig L t k (p div 2 div 2 ^ (k - Suc l))" by (auto simp: covered_def)
      with half[of k] show ?thesis by (auto simp: covered_def intro!: exI[of _ k])
    qed
  qed
qed

lemma below_left: "below t (Suc l) p \<noteq> {} \<Longrightarrow> below t l (2 * p) \<noteq> {}"
  by (auto simp: below_empty_iff)

text \<open>Signatures cover a node exactly when all the keys below it have signed.\<close>

lemma covered_iff:
  assumes "treeInv m t" "(l, p) \<in> nodes t" "below t l p \<noteq> {}"
  shows "covered t l p \<longleftrightarrow> below t l p \<subseteq> bits (SigBits t)"
proof
  have bits: "bits (SigBits t) = {b. b < t_nKeys t \<and> (\<exists>l \<le> height t. hasSig L t l (b div 2 ^ l))}"
    using assms(1) by (simp add: tree_inv_def)
  {
    assume "covered t l p"
    then obtain k where k: "l \<le> k" "k \<le> height t" "hasSig L t k (p div 2 ^ (k - l))" by (auto simp: covered_def)
    have "b div 2 ^ l div 2 ^ (k - l) = b div 2 ^ k" for b :: nat
      using k(1) by (metis div_mult2_eq le_add_diff_inverse power_add)
    then show "below t l p \<subseteq> bits (SigBits t)" using k unfolding bits below_def by auto
  }
  assume "below t l p \<subseteq> bits (SigBits t)"
  then show "covered t l p" using assms(2,3)
  proof (induction l arbitrary: p)
    case 0
    then have "p \<in> bits (SigBits t)" by (auto simp: below_def)
    then show ?case by (auto simp: bits covered_def)
  next
    case (Suc l)
    have l: "l < height t" "p < 2 ^ (height t - Suc l)" using Suc.prems by (auto simp: nodes_def)
    note kids = nodes_Suc[OF l]
    have sub: "below t l (2 * p) \<subseteq> bits (SigBits t)" "below t l (2 * p + 1) \<subseteq> bits (SigBits t)"
      using Suc.prems(1) unfolding below_children by blast+
    have left: "covered t l (2 * p)" using Suc.IH[OF sub(1)] below_left[OF Suc.prems(3)] kids by blast
    show ?case
    proof (cases "covered t (Suc l) p")
      case False
      then have sigl: "hasSig L t l (2 * p)" using left covered_rec[of l t "2 * p"] l by simp
      have "hasSig L t l (2 * p + 1) \<or> keyAt t l (2 * p + 1) = P2_zero L"
      proof (cases "below t l (2 * p + 1) = {}")
        case True
        then show ?thesis using keyAt_padding[of L t l "2 * p + 1"] assms(1) kids by (auto simp: tree_inv_def nodes_def)
      next
        case ne: False
        then have "covered t l (2 * p + 1)" using Suc.IH[OF sub(2)] kids by blast
        then show ?thesis using False covered_rec[of l t "2 * p + 1"] l by simp
      qed
      with sigl have "hasSig L t (Suc l) p" using assms(1) l by (auto simp: tree_inv_def combined_def)
      then show ?thesis using covered_rec[of "Suc l" t p] l by simp
    qed
  qed
qed

text \<open>The topmost signatures are at the largest complete subtrees.\<close>

definition topmost :: "('k, 's, 'b) Tree \<Rightarrow> nat \<Rightarrow> nat \<Rightarrow> bool" where
  "topmost t l p \<longleftrightarrow> hasSig L t l p \<and> \<not> (l < height t \<and> covered t (Suc l) (p div 2))"

lemma treeInv_valid: "treeInv m t \<Longrightarrow> (l, p) \<in> nodes t \<Longrightarrow> hasSig L t l p \<Longrightarrow> validSig L m (keyAt t l p) (sigAt t l p)"
  unfolding tree_inv_def by auto

lemma treeInv_shape: "treeInv m t \<Longrightarrow> tree_shape L t"
  by (simp add: tree_inv_def)

lemma hasSig_below:
  assumes "treeInv m t" "(l, p) \<in> nodes t" "hasSig L t l p"
  shows "below t l p \<noteq> {}"
proof
  assume "below t l p = {}"
  then have "keyAt t l p = P2_zero L"
    using keyAt_padding[OF treeInv_shape[OF assms(1)], of l p] assms(2) by (simp add: nodes_def)
  with treeInv_valid[OF assms] zero_key show False by (simp add: validSig_def)
qed

lemma topmost_iff:
  assumes "treeInv m t" "(l, p) \<in> nodes t"
  shows "topmost t l p \<longleftrightarrow> below t l p \<noteq> {} \<and> below t l p \<subseteq> bits (SigBits t) \<and>
    (l = height t \<or> \<not> below t (Suc l) (p div 2) \<subseteq> bits (SigBits t))"
proof (cases "below t l p = {}")
  case True
  then show ?thesis using hasSig_below[OF assms] by (auto simp: topmost_def)
next
  case ne: False
  have l: "l \<le> height t" "p < 2 ^ (height t - l)" using assms(2) by (auto simp: nodes_def)
  have up: "covered t (Suc l) (p div 2) \<longleftrightarrow> below t (Suc l) (p div 2) \<subseteq> bits (SigBits t)" if "l < height t"
  proof -
    have "below t (Suc l) (p div 2) \<noteq> {}" using ne below_children[of t l "p div 2"] by (cases "even p") (auto elim!: oddE)
    moreover have "(Suc l, p div 2) \<in> nodes t" using half_less[OF that l(2)] that by (simp add: nodes_def)
    ultimately show ?thesis using covered_iff[OF assms(1)] by blast
  qed
  have "covered t l p \<longleftrightarrow> below t l p \<subseteq> bits (SigBits t)" using covered_iff[OF assms ne] .
  then show ?thesis using up ne l covered_rec[OF l(1), of p] unfolding topmost_def by (cases "l = height t") auto
qed

end

lemma sparse_row_spec:
  assumes "w \<le> length sk"
  shows "\<exists>sk'. sparse_row L sigs r w (sk, dst) =
      (sk', dst @ map ((+) r) (filter (\<lambda>j. \<not> sk ! j \<and> sigs ! (r + j) \<noteq> P1_zero L) [0..<w])) \<and>
    length sk' = length sk \<and> (\<forall>j < length sk. sk' ! j \<longleftrightarrow> sk ! j \<or> j < w \<and> sigs ! (r + j) \<noteq> P1_zero L)"
  using assms
proof (induction w)
  case 0
  then show ?case by (simp add: sparse_row_def)
next
  case (Suc w)
  then obtain sk' where sk': "sparse_row L sigs r w (sk, dst) =
      (sk', dst @ map ((+) r) (filter (\<lambda>j. \<not> sk ! j \<and> sigs ! (r + j) \<noteq> P1_zero L) [0..<w]))"
    "length sk' = length sk" "\<forall>j < length sk. sk' ! j \<longleftrightarrow> sk ! j \<or> j < w \<and> sigs ! (r + j) \<noteq> P1_zero L" by auto
  have step: "sparse_row L sigs r (Suc w) st = (case sparse_row L sigs r w st of (skipCheck, dst) \<Rightarrow>
      if skipCheck ! w then (skipCheck, dst) else if sigs ! (r + w) = P1_zero L then (skipCheck, dst)
      else (skipCheck[w := True], dst @ [r + w]))" for st
    by (simp add: sparse_row_def split: prod.split)
  show ?case using sk' Suc.prems by (auto simp: step nth_list_update less_Suc_eq)
qed

lemma doubleSkip_spec:
  assumes "2 * w \<le> length sk"
  shows "length (doubleSkip w sk) = length sk \<and> (\<forall>j < 2 * w. doubleSkip w sk ! j = sk ! (j div 2)) \<and>
    (\<forall>j < length sk. 2 * w \<le> j \<longrightarrow> doubleSkip w sk ! j = sk ! j)"
  using assms
proof (induction w arbitrary: sk)
  case 0
  then show ?case by (simp add: doubleSkip_def)
next
  case (Suc w)
  define s1 where "s1 = sk[2 * w + 1 := sk ! w, 2 * w := sk ! w]"
  have step: "doubleSkip (Suc w) sk = doubleSkip w s1" by (simp add: doubleSkip_def s1_def)
  have IH: "length (doubleSkip w s1) = length sk" "\<And>j. j < 2 * w \<Longrightarrow> doubleSkip w s1 ! j = s1 ! (j div 2)"
    "\<And>j. j < length sk \<Longrightarrow> 2 * w \<le> j \<Longrightarrow> doubleSkip w s1 ! j = s1 ! j"
    using Suc.IH[of s1] Suc.prems by (simp_all add: s1_def)
  have old: "s1 ! (j div 2) = sk ! (j div 2)" if "j < 2 * w" for j
  proof -
    have "j div 2 < w" using that by simp
    then show ?thesis unfolding s1_def by simp
  qed
  have "doubleSkip (Suc w) sk ! j = sk ! (j div 2)" if "j < 2 * Suc w" for j
  proof (cases "j < 2 * w")
    case True
    with IH(2) old step show ?thesis by simp
  next
    case False
    then have "j = 2 * w \<or> j = 2 * w + 1" using that by auto
    then consider "j = 2 * w" | "j = 2 * w + 1" by blast
    then show ?thesis using IH(3)[of j] Suc.prems step by cases (simp_all add: s1_def)
  qed
  moreover have "doubleSkip (Suc w) sk ! j = sk ! j" if "j < length sk" "2 * Suc w \<le> j" for j
    using IH(3)[of j] that step by (simp add: s1_def)
  ultimately show ?case using IH(1) step by simp
qed

lemma fold_append_filter: "fold (\<lambda>i dst. if P i then dst else if Q i then dst else dst @ [i]) xs dst = dst @ filter (\<lambda>i. \<not> P i \<and> \<not> Q i) xs"
  by (induction xs arbitrary: dst) auto

context sigtree
begin

text \<open>The reported nodes of one layer, and of the layers from \<open>l\<close> down to \<open>k\<close>.\<close>

definition tops :: "('k, 's, 'b) Tree \<Rightarrow> nat \<Rightarrow> nat list" where
  "tops t l = map (node (height t) l) (filter (topmost t l) [0..<2 ^ (height t - l)])"

lemma rows_spec:
  assumes shape: "tree_shape L t" and "l < height t" "length sk = 2 ^ height t"
    and sk: "\<forall>j < 2 ^ (height t - l). sk ! j \<longleftrightarrow> covered t (Suc l) (j div 2)"
  shows "\<exists>sk'. sparse_rows L (t_sigs t) (int (layerAt (height t) l)) (2 ^ (height t - l)) sk dst =
      Ret (sk', dst @ concat (map (tops t) (rev [1..<Suc l]))) \<and>
    (\<forall>j < 2 ^ height t. sk' ! j \<longleftrightarrow> 0 < height t \<and> covered t 1 (j div 2))"
  using assms(2-)
proof (induction l arbitrary: sk dst)
  case 0
  then show ?case by (auto simp: sparse_rows.simps intro!: exI[of _ sk])
next
  case (Suc l)
  define d w where "d = height t" and "w = (2::nat) ^ (d - Suc l)"
  have ld: "Suc l < d" using Suc.prems by (simp add: d_def)
  have two: "2 ^ (d - l) = 2 * w" unfolding w_def using ld by (metis Suc_diff_Suc Suc_lessD power_Suc)
  have "2 * w \<le> (2::nat) ^ d" unfolding two[symmetric] by (intro power_increasing) simp_all
  then have fits: "2 * w \<le> length sk" using Suc.prems(2) by (simp add: d_def)
  have sig: "t_sigs t ! (layerAt d (Suc l) + j) \<noteq> P1_zero L \<longleftrightarrow> hasSig L t (Suc l) j" for j
    by (simp add: hasSig_def sigAt_def node_def d_def)
  have skl: "sk ! j \<longleftrightarrow> covered t (Suc (Suc l)) (j div 2)" if "j < w" for j using Suc.prems(3) that by (simp add: w_def d_def)
  obtain sk1 where row: "sparse_row L (t_sigs t) (layerAt d (Suc l)) w (sk, dst) =
      (sk1, dst @ map ((+) (layerAt d (Suc l))) (filter (\<lambda>j. \<not> sk ! j \<and> hasSig L t (Suc l) j) [0..<w]))"
    and sk1: "length sk1 = length sk" "\<forall>j < length sk. sk1 ! j \<longleftrightarrow> sk ! j \<or> j < w \<and> hasSig L t (Suc l) j"
    using sparse_row_spec[of w sk L "t_sigs t" "layerAt d (Suc l)" dst] fits unfolding sig by auto
  have found: "map ((+) (layerAt d (Suc l))) (filter (\<lambda>j. \<not> sk ! j \<and> hasSig L t (Suc l) j) [0..<w]) = tops t (Suc l)"
    using skl ld by (auto simp: tops_def topmost_def node_def d_def w_def intro!: map_cong filter_cong)
  have cov: "sk1 ! j \<longleftrightarrow> covered t (Suc l) j" if "j < w" for j
    using that sk1(2) fits skl[OF that] covered_rec[of "Suc l" t j] ld by (auto simp: d_def)
  define sk2 where "sk2 = doubleSkip w sk1"
  have dbl: "length sk2 = length sk" "\<And>j. j < 2 * w \<Longrightarrow> sk2 ! j = sk1 ! (j div 2)"
    using doubleSkip_spec[of w sk1] sk1(1) fits by (simp_all add: sk2_def)
  have sk2: "\<forall>j < 2 ^ (height t - l). sk2 ! j \<longleftrightarrow> covered t (Suc l) (j div 2)"
    using dbl(2) cov two by (simp add: d_def)
  have start: "int (layerAt d (Suc l)) - int (2 * w) = int (layerAt d l)" using two by simp
  have pos: "0 < layerAt d (Suc l)" "w \<noteq> 0" by (simp_all add: w_def)
  have "sparse_rows L (t_sigs t) (int (layerAt d (Suc l))) w sk dst =
      sparse_rows L (t_sigs t) (int (layerAt d l)) (2 ^ (d - l)) sk2 (dst @ tops t (Suc l))"
    using pos by (subst sparse_rows.simps)
      (simp only: row found start two mult.commute[of w 2] of_nat_0_less_iff nat_int if_True if_False prod.case sk2_def)
  then show ?case
    using Suc.IH[of sk2 "dst @ tops t (Suc l)"] Suc.prems sk2 dbl(1) by (auto simp: d_def w_def)
qed

end

context sigtree
begin

lemma covered_root: "hasSig L t (height t) 0 \<Longrightarrow> l \<le> height t \<Longrightarrow> p < 2 ^ (height t - l) \<Longrightarrow> covered t l p"
  by (auto simp: covered_def intro!: exI[of _ "height t"])

lemma root_covers:
  assumes "hasSig L t (height t) 0"
  shows "concat (map (tops t) (rev [0..<Suc (height t)])) = [node (height t) (height t) 0]"
proof -
  have "tops t l = []" if "l < height t" for l
    using that covered_root[OF assms, of "Suc l"] half_less[OF that] by (auto simp: tops_def topmost_def filter_empty_conv)
  then have "concat (map (tops t) (rev [0..<height t])) = []" by simp
  moreover have "tops t (height t) = [node (height t) (height t) 0]" using assms by (simp add: tops_def topmost_def)
  ultimately show ?thesis by simp
qed

lemma leaves_spec:
  assumes "treeInv m t" "\<forall>j < 2 ^ height t. sk ! j \<longleftrightarrow> 0 < height t \<and> covered t 1 (j div 2)"
  shows "sparse_leaves L (t_sigs t) (t_nKeys t) sk dst = dst @ tops t 0"
proof -
  have n: "t_nKeys t \<le> 2 ^ height t" using treeInv_shape[OF assms(1)] leavesWidth_depth(2) by (simp add: tree_shape_def)
  have "topmost t 0 p \<longleftrightarrow> \<not> sk ! p \<and> t_sigs t ! p \<noteq> P1_zero L" if "p < 2 ^ height t" for p
    using assms(2) that by (auto simp: topmost_def hasSig_def sigAt_def node_def)
  moreover have "\<not> topmost t 0 p" if "t_nKeys t \<le> p" "p < 2 ^ height t" for p
    using hasSig_below[OF assms(1), of 0 p] that by (auto simp: topmost_def nodes_def below_empty_iff)
  ultimately have "filter (topmost t 0) [0..<2 ^ height t] = filter (\<lambda>p. \<not> sk ! p \<and> t_sigs t ! p \<noteq> P1_zero L) [0..<t_nKeys t]"
    using n upt_add_eq_append[of 0 "t_nKeys t" "2 ^ height t - t_nKeys t"]
    by (auto simp: filter_empty_conv intro!: filter_cong)
  moreover have "node (height t) 0 = id" by (simp add: node_def fun_eq_iff)
  ultimately show ?thesis by (simp add: sparse_leaves_def fold_append_filter tops_def)
qed

lemma SparseIndices_tops:
  assumes "treeInv m t"
  shows "SparseIndices L t dst = Ret (dst @ concat (map (tops t) (rev [0..<Suc (height t)])))"
proof -
  define d where "d = height t"
  have shape: "tree_shape L t" and n: "0 < t_nKeys t" using treeInv_shape[OF assms] by (auto simp: tree_shape_def)
  have len: "length (t_sigs t) = 2 * 2 ^ d - 1" using shape by (simp add: tree_shape_def d_def)
  have root: "length (t_sigs t) - 1 = node d d 0" using len layerAt_root[of d] by (simp add: node_def)
  have lw: "leavesWidth (t_nKeys t) = 2 ^ d" using leavesWidth_depth(1)[OF n] by (simp add: d_def)
  show ?thesis
  proof (cases "hasSig L t d 0")
    case True
    then show ?thesis
      using root_covers[of t] root by (simp add: SparseIndices_def Let_def hasSig_def sigAt_def d_def)
  next
    case False
    then have "\<not> hasSig L t (height t) 0" by (simp add: d_def)
    moreover have "t_sigs t ! (length (t_sigs t) - 1) = P1_zero L" using False root by (simp add: hasSig_def sigAt_def d_def)
    ultimately have start: "SparseIndices L t dst =
        gobind (sparse_rows L (t_sigs t) (int (length (t_sigs t)) - 3) 2 (replicate (2 ^ d) False) dst)
          (\<lambda>(sk, dst'). Ret (sparse_leaves L (t_sigs t) (t_nKeys t) sk dst'))"
      by (simp add: SparseIndices_def Let_def lw)
    have notop: "tops t d = []" using False by (simp add: tops_def topmost_def d_def)
    show ?thesis
    proof (cases d)
      case 0
      then have "sparse_rows L (t_sigs t) (int (length (t_sigs t)) - 3) 2 (replicate (2 ^ d) False) dst = Ret ([False], dst)"
        using len by (simp add: sparse_rows.simps)
      then show ?thesis
        using start leaves_spec[OF assms, of "[False]" dst] 0 by (simp add: d_def)
    next
      case (Suc l)
      have pos: "int (length (t_sigs t)) - 3 = int (layerAt d l)"
      proof -
        have "layerAt d l + 4 = 2 * 2 ^ d" using layerAt_plus[of l d] Suc by simp
        then have "length (t_sigs t) = layerAt d l + 3" using len by linarith
        then show ?thesis by simp
      qed
      have "\<forall>j < 2 ^ (height t - l). replicate (2 ^ d) False ! j \<longleftrightarrow> covered t (Suc l) (j div 2)"
      proof (intro allI impI)
        fix j :: nat assume "j < 2 ^ (height t - l)"
        then have "j < 2" using Suc by (simp add: d_def)
        moreover have "2 \<le> (2::nat) ^ d" using Suc by simp
        ultimately have "j div 2 = 0" "j < 2 ^ d" by simp_all
        then show "replicate (2 ^ d) False ! j \<longleftrightarrow> covered t (Suc l) (j div 2)"
          using covered_rec[of "Suc l" t "j div 2"] False Suc by (simp add: d_def)
      qed
      then obtain sk where rows: "sparse_rows L (t_sigs t) (int (layerAt d l)) 2 (replicate (2 ^ d) False) dst =
          Ret (sk, dst @ concat (map (tops t) (rev [1..<Suc l])))"
        and sk: "\<forall>j < 2 ^ height t. sk ! j \<longleftrightarrow> 0 < height t \<and> covered t 1 (j div 2)"
        using rows_spec[OF shape, of l "replicate (2 ^ d) False" dst] Suc by (auto simp: d_def)
      have "rev [0..<Suc d] = d # rev [1..<Suc l] @ [0]"
        using Suc upt_conv_Cons[of 0 "Suc l"] by simp
      then show ?thesis
        using start pos rows leaves_spec[OF assms sk] notop by (simp add: d_def)
    qed
  qed
qed

text \<open>The nodes whose keys have all signed while those of their parents have not, from the root to the leaves.\<close>

lemma SparseIndices_exact:
  assumes "treeInv m t"
  shows "SparseIndices L t dst = Ret (dst @ concat (map (\<lambda>l. map (node (height t) l) (filter (\<lambda>p.
      below t l p \<noteq> {} \<and> below t l p \<subseteq> bits (SigBits t) \<and> (l = height t \<or> \<not> below t (Suc l) (p div 2) \<subseteq> bits (SigBits t)))
        [0..<2 ^ (height t - l)])) (rev [0..<Suc (height t)])))"
proof -
  have "tops t l = map (node (height t) l) (filter (\<lambda>p. below t l p \<noteq> {} \<and> below t l p \<subseteq> bits (SigBits t) \<and>
      (l = height t \<or> \<not> below t (Suc l) (p div 2) \<subseteq> bits (SigBits t))) [0..<2 ^ (height t - l)])" if "l \<le> height t" for l
    using topmost_iff[OF assms] that unfolding tops_def by (intro map_cong filter_cong) (auto simp: nodes_def)
  then show ?thesis
    unfolding SparseIndices_tops[OF assms] by (intro arg_cong[where f = "\<lambda>x. Ret (dst @ concat x)"] map_cong refl) (auto simp del: upt_Suc)
qed

end

section \<open>Instances of the libraries\<close>

text \<open>Integers as points, where the signature of a key is its multiple by the length of the message.\<close>

definition ref_Compress :: "int \<Rightarrow> bytes" where
  "ref_Compress n = (if n < 0 then CHR ''-'' else CHR ''+'') # replicate (nat \<bar>n\<bar>) (CHR ''1'')"

definition ref_Uncompress :: "bytes \<Rightarrow> int option" where
  "ref_Uncompress b = (case b of [] \<Rightarrow> None
     | c # cs \<Rightarrow> if list_all ((=) (CHR ''1'')) cs
         then if c = CHR ''+'' then Some (int (length cs)) else if c = CHR ''-'' then Some (- int (length cs)) else None
         else None)"

definition ref_blst :: "(int, int) blst" where
  "ref_blst = \<lparr>P2_zero = 0, P2_Add = (+), P2_Equals = (=), P1_zero = 0, P1_Add = (+),
     P1_Equals = (\<lambda>a b. case (a, b) of (Some x, Some y) \<Rightarrow> Ret (x = y) | _ \<Rightarrow> Panic ''nil pointer''),
     P1_Compress = ref_Compress, P1_Uncompress = ref_Uncompress, P1_SigValidate = (\<lambda>s. True),
     P1_Verify = (\<lambda>s k m. k \<noteq> 0 \<and> s = k * (1 + int (length m)))\<rparr>"

definition ref_sized :: "(nat \<times> nat list) sized_bitset" where
  "ref_sized = \<lparr>
     bs_New = (\<lambda>n. (n, [])),
     bs_Set = (\<lambda>(n, b) i. (max n (Suc i), bs_Set ref_bitset b i)),
     bs_Test = (\<lambda>(n, b) i. bs_Test ref_bitset b i),
     bs_Count = (\<lambda>(n, b). bs_Count ref_bitset b),
     bs_None = (\<lambda>(n, b). bs_None ref_bitset b),
     bs_NextSet = (\<lambda>(n, b) i. bs_NextSet ref_bitset b i),
     bs_IsStrictSuperSet = (\<lambda>(n, a) (m, b). bs_IsStrictSuperSet ref_bitset a b),
     bs_SetAll = (\<lambda>(n, b). (n, [0..<n]))\<rparr>"

lemma ref_sized_lib: "sized_bitset_lib ref_sized (\<lambda>b. set (snd b)) fst"
proof (unfold_locales, goal_cases)
  case (7 b i j)
  then show ?case using rbs.NextSet_Some by (auto simp: ref_sized_def bitset_ops.truncate_def split: prod.splits)
next
  case (8 b i)
  then show ?case using rbs.NextSet_None by (auto simp: ref_sized_def bitset_ops.truncate_def split: prod.splits)
qed (auto simp: ref_sized_def bitset_ops.truncate_def rbs.bits_simps split: prod.splits)

lemma ref_blst_lib: "blst_lib ref_blst"
  by unfold_locales (auto simp: ref_blst_def ref_Compress_def ref_Uncompress_def list_all_iff distrib_right)

interpretation ref_tree: sigtree ref_blst ref_sized "\<lambda>b. set (snd b)" fst
  using ref_blst_lib ref_sized_lib by (rule sigtree.intro)

section \<open>Signers and indices\<close>

text \<open>The keys that a node of a tree with \<open>n\<close> keys stands for.\<close>

definition keysUnder :: "nat \<Rightarrow> nat \<Rightarrow> nat set" where
  "keysUnder n i = {b. b < n \<and> (\<exists>l \<le> depth n. i = node (depth n) l (b div 2 ^ l))}"

text \<open>The largest complete subtrees for a set of signers, from the root to the leaves: nodes with keys, of which all have signed,
  while not all keys of the parent have.\<close>

definition complete_nodes :: "nat \<Rightarrow> nat set \<Rightarrow> nat list" where
  "complete_nodes n S = concat (map (\<lambda>l. map (node (depth n) l) (filter (\<lambda>p.
      keysUnder n (node (depth n) l p) \<noteq> {} \<and> keysUnder n (node (depth n) l p) \<subseteq> S \<and>
      (l = depth n \<or> \<not> keysUnder n (node (depth n) (Suc l) (p div 2)) \<subseteq> S))
        [0..<2 ^ (depth n - l)])) (rev [0..<Suc (depth n)]))"

lemma depth_bound: "0 < n \<Longrightarrow> b < n \<Longrightarrow> b < 2 ^ depth n"
  using leavesWidth_depth(2)[of n] by simp

lemma keysUnder_node:
  assumes "0 < t_nKeys t" "(l, p) \<in> nodes t"
  shows "keysUnder (t_nKeys t) (node (height t) l p) = below t l p"
proof -
  have "node (height t) l p = node (height t) k (b div 2 ^ k) \<longleftrightarrow> k = l \<and> b div 2 ^ l = p"
    if "b < t_nKeys t" "k \<le> height t" for b k
    using node_inject[of l "height t" p k "b div 2 ^ k"] div_in_layer[OF depth_bound[OF assms(1) that(1)] that(2)] assms(2) that
    by (auto simp: nodes_def)
  moreover have "l \<le> height t" using assms(2) by (simp add: nodes_def)
  ultimately show ?thesis unfolding keysUnder_def below_def by blast
qed

context sigtree
begin

lemma treeInv_nKeys: "treeInv m t \<Longrightarrow> 0 < t_nKeys t" "treeInv m t \<Longrightarrow> length (t_keys t) = 2 * 2 ^ height t - 1"
  by (simp_all add: tree_inv_def tree_shape_def)

lemma nodeE:
  assumes "treeInv m t" "i < length (t_keys t)"
  obtains l p where "(l, p) \<in> nodes t" "i = node (height t) l p"
proof -
  obtain l p where "l \<le> height t" "p < 2 ^ (height t - l)" "i = node (height t) l p"
    using node_exists[of i "height t"] assms treeInv_nKeys(2)[OF assms(1)] by metis
  then show thesis using that by (simp add: nodes_def)
qed

lemma SparseIndices_complete:
  assumes "treeInv m t"
  shows "SparseIndices L t dst = Ret (dst @ complete_nodes (t_nKeys t) (bits (SigBits t)))"
proof -
  note n = treeInv_nKeys(1)[OF assms]
  have here: "keysUnder (t_nKeys t) (node (height t) l p) = below t l p" if "l \<le> height t" "p < 2 ^ (height t - l)" for l p
    using that keysUnder_node[OF n, of l p] by (simp add: nodes_def)
  have up: "keysUnder (t_nKeys t) (node (height t) (Suc l) (p div 2)) = below t (Suc l) (p div 2)" if "l < height t" "p < 2 ^ (height t - l)" for l p
    using that here[of "Suc l" "p div 2"] half_less[of l "height t" p] by simp
  show ?thesis
    unfolding SparseIndices_exact[OF assms] complete_nodes_def
    by (intro arg_cong[where f = "\<lambda>x. Ret (dst @ concat x)"] map_cong filter_cong refl)
       (use here up in \<open>force simp: less_Suc_eq_le simp del: upt_Suc\<close>)
qed

lemma AddSignature_index:
  assumes "treeInv m t" "i < length (t_keys t)" "validSig L m (t_keys t ! i) s"
  shows "\<exists>t'. Tree_AddSignature L B t i s = Ret t' \<and> treeInv m t' \<and>
    bits (SigBits t') = bits (SigBits t) \<union> keysUnder (t_nKeys t) i \<and> t_keys t' = t_keys t \<and> t_nKeys t' = t_nKeys t"
proof -
  obtain l p where lp: "(l, p) \<in> nodes t" "i = node (height t) l p" using nodeE assms(1,2) .
  then show ?thesis
    using AddSignature_spec[OF assms(1) lp(1)] assms(3) keysUnder_node[OF treeInv_nKeys(1)[OF assms(1)] lp(1)] by (simp add: keyAt_def)
qed

lemma sig_index:
  assumes "treeInv m t" "i < length (t_keys t)" "t_sigs t ! i \<noteq> P1_zero L"
  shows "validSig L m (t_keys t ! i) (t_sigs t ! i)" "keysUnder (t_nKeys t) i \<subseteq> bits (SigBits t)"
proof -
  obtain l p where lp: "(l, p) \<in> nodes t" "i = node (height t) l p" using nodeE assms(1,2) .
  then have sig: "hasSig L t l p" using assms(3) by (simp add: hasSig_def sigAt_def)
  then show "validSig L m (t_keys t ! i) (t_sigs t ! i)" using treeInv_valid[OF assms(1) lp(1)] lp(2) by (simp add: keyAt_def sigAt_def)
  have "covered t l p" using sig covered_rec[of l t p] lp(1) by (simp add: nodes_def)
  then show "keysUnder (t_nKeys t) i \<subseteq> bits (SigBits t)"
    using covered_iff[OF assms(1) lp(1) hasSig_below[OF assms(1) lp(1) sig]] keysUnder_node[OF treeInv_nKeys(1)[OF assms(1)] lp(1)] lp(2) by simp
qed

lemma complete_nodes_sigs:
  assumes "treeInv m t" "i \<in> set (complete_nodes (t_nKeys t) (bits (SigBits t)))"
  shows "i < length (t_keys t) \<and> t_sigs t ! i \<noteq> P1_zero L"
proof -
  have "complete_nodes (t_nKeys t) (bits (SigBits t)) = concat (map (tops t) (rev [0..<Suc (height t)]))"
    using SparseIndices_complete[OF assms(1), of "[]"] SparseIndices_tops[OF assms(1), of "[]"] by simp
  then obtain l p where "l \<le> height t" "p < 2 ^ (height t - l)" "topmost t l p" "i = node (height t) l p"
    using assms(2) by (auto simp: tops_def less_Suc_eq_le simp del: upt_Suc)
  then show ?thesis
    using node_less[of l "height t" p] treeInv_nKeys(2)[OF assms(1)] by (simp add: topmost_def hasSig_def sigAt_def)
qed

lemma covered_topmost:
  assumes "l \<le> height t" "covered t l p"
  shows "\<exists>k. l \<le> k \<and> k \<le> height t \<and> topmost t k (p div 2 ^ (k - l))"
  using assms
proof (induction "height t - l" arbitrary: l p)
  case 0
  then show ?case using covered_rec[of l t p] by (auto simp: topmost_def intro!: exI[of _ l])
next
  case (Suc x)
  have l: "x = height t - Suc l" "Suc l \<le> height t" using Suc.hyps(2) by linarith+
  show ?case
  proof (cases "covered t (Suc l) (p div 2)")
    case True
    then obtain k where k: "Suc l \<le> k" "k \<le> height t" "topmost t k (p div 2 div 2 ^ (k - Suc l))"
      using Suc.hyps(1)[of "Suc l" "p div 2"] l by auto
    have "p div 2 div 2 ^ (k - Suc l) = p div 2 ^ (k - l)"
      using k(1) by (metis Suc_diff_Suc Suc_le_lessD div_mult2_eq power_Suc)
    with k show ?thesis by (auto intro!: exI[of _ k])
  next
    case False
    then show ?thesis using Suc.prems covered_rec[of l t p] by (auto simp: topmost_def intro!: exI[of _ l])
  qed
qed

text \<open>The reported nodes stand for all signers.\<close>

lemma complete_nodes_cover:
  assumes "treeInv m t"
  shows "(\<Union>i \<in> set (complete_nodes (t_nKeys t) (bits (SigBits t))). keysUnder (t_nKeys t) i) = bits (SigBits t)"
proof
  show "(\<Union>i \<in> set (complete_nodes (t_nKeys t) (bits (SigBits t))). keysUnder (t_nKeys t) i) \<subseteq> bits (SigBits t)"
    using complete_nodes_sigs[OF assms] sig_index(2)[OF assms] by blast
  show "bits (SigBits t) \<subseteq> (\<Union>i \<in> set (complete_nodes (t_nKeys t) (bits (SigBits t))). keysUnder (t_nKeys t) i)"
  proof
    fix b assume b: "b \<in> bits (SigBits t)"
    then have bn: "b < t_nKeys t" "covered t 0 b" using assms by (auto simp: tree_inv_def covered_def)
    then obtain k where k: "k \<le> height t" "topmost t k (b div 2 ^ k)" using covered_topmost[of 0 t b] by auto
    have kn: "b div 2 ^ k < 2 ^ (height t - k)"
      using div_in_layer[OF depth_bound[OF treeInv_nKeys(1)[OF assms] bn(1)] k(1)] .
    have "complete_nodes (t_nKeys t) (bits (SigBits t)) = concat (map (tops t) (rev [0..<Suc (height t)]))"
      using SparseIndices_complete[OF assms, of "[]"] SparseIndices_tops[OF assms, of "[]"] by simp
    moreover have "node (height t) k (b div 2 ^ k) \<in> set (tops t k)" using k kn by (simp add: tops_def)
    ultimately have "node (height t) k (b div 2 ^ k) \<in> set (complete_nodes (t_nKeys t) (bits (SigBits t)))"
      using k(1) by (auto simp: less_Suc_eq_le simp del: upt_Suc)
    moreover have "b \<in> keysUnder (t_nKeys t) (node (height t) k (b div 2 ^ k))" using bn(1) k(1) by (auto simp: keysUnder_def)
    ultimately show "b \<in> (\<Union>i \<in> set (complete_nodes (t_nKeys t) (bits (SigBits t))). keysUnder (t_nKeys t) i)" by blast
  qed
qed

lemma add_all:
  assumes "treeInv m t" "\<forall>(i, s) \<in> set adds. i < length (t_keys t) \<and> validSig L m (t_keys t ! i) s"
  shows "\<exists>t'. gofold (\<lambda>(i, s) t. Tree_AddSignature L B t i s) adds t = Ret t' \<and> treeInv m t' \<and>
    bits (SigBits t') = bits (SigBits t) \<union> (\<Union>(i, s) \<in> set adds. keysUnder (t_nKeys t) i) \<and> t_nKeys t' = t_nKeys t"
  using assms
proof (induction adds arbitrary: t)
  case (Cons a adds)
  obtain i s where a: "a = (i, s)" by (cases a)
  obtain t1 where t1: "Tree_AddSignature L B t i s = Ret t1" "treeInv m t1" "bits (SigBits t1) = bits (SigBits t) \<union> keysUnder (t_nKeys t) i"
    "t_keys t1 = t_keys t" "t_nKeys t1 = t_nKeys t" using AddSignature_index[OF Cons.prems(1), of i s] Cons.prems(2) a by auto
  then show ?case using Cons.IH[of t1] Cons.prems(2) a by auto
qed simp

end

text \<open>(C13) The signature tree is exact and its compact form is canonical: for every number of keys up to 65535, after any sequence of verified
  signatures for single keys or aggregates, in any order, \<open>AddSignature\<close> has ended each time; the signers are exactly the keys below the nodes that
  were added; and \<open>SparseIndices\<close> lists exactly the largest complete subtrees of the signers, root first, whichever signatures
  led there.\<close>

theorem sparse_indices_canonical:
  assumes "blst_lib L" "sized_bitset_lib B bits len" "0 < length ks" "length ks \<le> 65535"
    and "\<And>t. Tree_New L B ks (length ks) = Ret t \<Longrightarrow> proper_keys L t \<and>
           (\<forall>(i, s) \<in> set adds. i < length (t_keys t) \<and> validSig L m (t_keys t ! i) s)"
  shows "\<exists>t. gobind (Tree_New L B ks (length ks)) (gofold (\<lambda>(i, s) t. Tree_AddSignature L B t i s) adds) = Ret t \<and>
    bits (SigBits t) = (\<Union>(i, s) \<in> set adds. keysUnder (length ks) i) \<and>
    SparseIndices L t dst = Ret (dst @ complete_nodes (length ks) (bits (SigBits t)))"
proof -
  have lib: "sigtree L B bits len" using assms(1,2) by (rule sigtree.intro)
  obtain t where t: "Tree_New L B ks (length ks) = Ret t" "tree_shape L t" "t_nKeys t = length ks"
    "SigBits t = bs_New B (length ks)" "t_sigs t = replicate (length (t_keys t)) (P1_zero L)"
    using Tree_New_shape[OF assms(3,4)] by blast
  then have fresh: "tree_inv L bits len m t" "bits (SigBits t) = {}"
    using assms(5) sigtree.fresh_inv(1)[OF lib, of t m] sigtree.fresh_inv(2)[OF lib, of t] by simp_all
  then obtain t' where "gofold (\<lambda>(i, s) t. Tree_AddSignature L B t i s) adds t = Ret t'" "tree_inv L bits len m t'"
    "bits (SigBits t') = (\<Union>(i, s) \<in> set adds. keysUnder (length ks) i)" "t_nKeys t' = length ks"
    using sigtree.add_all[OF lib fresh(1), of adds] assms(5)[OF t(1)] t(3) by auto
  with t(1) sigtree.SparseIndices_complete[OF lib, of m t' dst] show ?thesis by auto
qed

lemma proper_keysI:
  assumes "tree_shape L t" "\<And>i. i < length (t_keys t) \<Longrightarrow> t_keys t ! i = P2_zero L \<Longrightarrow> keysUnder (t_nKeys t) i = {}"
  shows "proper_keys L t"
proof -
  have "keyAt t l p \<noteq> P2_zero L" if lp: "(l, p) \<in> nodes t" and "below t l p \<noteq> {}" for l p
    using assms(2)[of "node (height t) l p"] node_less[of l "height t" p] keysUnder_node[of t l p] that assms(1)
    by (auto simp: keyAt_def tree_shape_def nodes_def)
  then show ?thesis by (auto simp: proper_keys_def)
qed

text \<open>Three keys and the aggregate of the first two.\<close>

lemma ex_depth: "depth 3 = 2" "leavesWidth 3 = 4"
  by (simp_all add: depth_def leavesWidth_def Len16.simps)

lemma ref_sel [simp]: "P2_zero ref_blst = 0" "P1_zero ref_blst = 0" "P2_Add ref_blst = (+)" "bs_New ref_sized n = (n, [])"
  by (simp_all add: ref_blst_def ref_sized_def)

lemma ex_upt: "[0..<2] = [0, Suc 0]" "[0..<Suc 0] = [0]"
  by (simp_all add: numeral_2_eq_2)

lemma ex_keys: "keyLayers ref_blst 7 0 4 [1, 2, 3, 0, 0, 0, 0] = Ret [1, 2, 3, 0, 3, 3, 6]"
  by (simp add: keyLayers.simps[of ref_blst 7] keyLayer_def aggregateKeys_def ex_upt)

lemma ex_tree: "Tree_New ref_blst ref_sized [1, 2, 3] (length [1, 2, 3 :: int]) = Ret
   \<lparr>t_keys = [1, 2, 3, 0, 3, 3, 6], t_sigs = [0, 0, 0, 0, 0, 0, 0], SigBits = (3, []), t_nKeys = 3\<rparr>"
proof -
  have "length [1, 2, 3 :: int] = 3" "replicate 4 x = [x, x, x, x]" "replicate 7 x = [x, x, x, x, x, x, x]" for x :: int
    by (simp_all add: numeral_nat)
  then show ?thesis using ex_keys by (simp only: Tree_New_def ex_depth Let_def) simp
qed

lemma ex_proper:
  assumes "Tree_New ref_blst ref_sized [1, 2, 3] (length [1, 2, 3 :: int]) = Ret t"
  shows "proper_keys ref_blst t"
proof (rule proper_keysI)
  show "tree_shape ref_blst t" using Tree_New_shape[of "[1, 2, 3 :: int]" ref_blst ref_sized] assms by simp
  have keys: "t_keys t = [1, 2, 3, 0, 3, 3, 6]" "t_nKeys t = 3" using assms unfolding ex_tree by auto
  fix i assume "i < length (t_keys t)" "t_keys t ! i = P2_zero ref_blst"
  then have "i = 3" unfolding keys by (auto simp: less_Suc_eq ref_blst_def numeral_nat)
  moreover have "layerAt 2 l + b div 2 ^ l \<noteq> 3" if "l \<le> 2" "b < 3" for l b
  proof -
    have "l = 0 \<or> l = 1 \<or> l = 2" using that(1) by arith
    moreover have "layerAt 2 2 = 6" by code_simp
    ultimately show ?thesis using that(2) by auto
  qed
  ultimately show "keysUnder (t_nKeys t) i = {}" unfolding keys(2)
    by (force simp: keysUnder_def ex_depth node_def)
qed

lemma ex_layer: "layer_loop 4 0 (leavesWidth 3) (Suc 0) = Some (4, 2, 2)"
  by (simp add: ex_depth layer_loop.simps)

theorem sparse_indices_canonical_witness:
  "\<exists>t. gobind (Tree_New ref_blst ref_sized [1, 2, 3] (length [1, 2, 3 :: int]))
       (gofold (\<lambda>(i, s) t. Tree_AddSignature ref_blst ref_sized t i s) [(4, 6)]) = Ret t \<and>
     set (snd (SigBits t)) = keysUnder (length [1, 2, 3 :: int]) 4 \<and> SparseIndices ref_blst t [] = Ret [4]"
proof -
  let ?t = "\<lparr>t_keys = [1, 2, 3, 0, 3, 3, 6], t_sigs = [0, 0, 0, 0, 6, 0, 0], SigBits = (3, [1, 0]), t_nKeys = 3\<rparr> :: (int, int, nat \<times> nat list) Tree"
  let ?run = "gobind (Tree_New ref_blst ref_sized [1, 2, 3] (length [1, 2, 3 :: int]))
       (gofold (\<lambda>(i, s) t. Tree_AddSignature ref_blst ref_sized t i s) [(4, 6)])"
  have run: "?run = Ret ?t"
    unfolding ex_tree
    by (simp add: Tree_AddSignature_def AddSignature_again.simps ex_layer setBits_def ref_sized_def ref_bitset_def ref_blst_def)
       (simp add: numeral_2_eq_2)
  have idx: "SparseIndices ref_blst ?t [] = Ret [4]" by code_simp
  obtain t where t: "?run = Ret t" "set (snd (SigBits t)) = (\<Union>(i, s) \<in> set [(4, 6 :: int)]. keysUnder (length [1, 2, 3 :: int]) i)"
    using sparse_indices_canonical[OF ref_blst_lib ref_sized_lib, of "[1, 2, 3]" "[(4, 6)]" "''m''" "[]"] ex_proper ex_tree
    by (auto simp: validSig_def ref_blst_def)
  have "t = ?t" using t(1) run by (metis go.inject(2))
  with t idx show ?thesis by (intro exI[of _ t]) simp
qed

end
