(* ===== verification/BlsProof.thy ===== *)
theory BlsProof
  imports SigTreeProps SimpleProof
begin

text \<open>
  The BLS signature proof of \<open>gcrypto/gblsminsig/signatureproof.go\<close>: a message, a hash of the keys and a signature tree. Merging takes
  signatures of single keys and of aggregates; the sparse form holds one signature for each of the largest complete subtrees.
  The methods change the tree behind their value receiver, so the model returns the changed proof.
\<close>

section \<open>The proof\<close>

record ('k, 's, 'b) BlsSignatureProof =
  bp_msg :: bytes
  bp_sigTree :: "('k, 's, 'b) Tree"
  bp_keyHash :: bytes

text \<open>A value of the interface \<open>gcrypto.PubKey\<close>: a key of this package or one of another type.\<close>

datatype 'k anyPubKey = BlsPubKey 'k | OtherPubKey string

text \<open>\<open>PubKey.Verify\<close> of \<open>bls.go\<close>. The domain separation tag is fixed and part of \<open>P1_Verify\<close>.\<close>

definition bls_Verify :: "('k, 's) blst \<Rightarrow> 'k \<Rightarrow> bytes \<Rightarrow> bytes \<Rightarrow> bool" where
  "bls_Verify L k msg sig = (case P1_Uncompress L sig of
     None \<Rightarrow> False
   | Some p1a \<Rightarrow> if \<not> P1_SigValidate L p1a then False else P1_Verify L p1a k msg)"

text \<open>The map \<open>keyIdxs\<close> that \<open>NewSignatureProof\<close> fills is never read; its error is always nil.\<close>

definition NewSignatureProof ::
  "('k, 's) blst \<Rightarrow> 'b sized_bitset \<Rightarrow> bytes \<Rightarrow> 'k list \<Rightarrow> bytes \<Rightarrow> ('k, 's, 'b) BlsSignatureProof go" where
  "NewSignatureProof L B msg trustedKeys pubKeyHash =
     gobind (Tree_New L B trustedKeys (length trustedKeys))
       (\<lambda>sigTree. Ret \<lparr>bp_msg = msg, bp_sigTree = sigTree, bp_keyHash = pubKeyHash\<rparr>)"

text \<open>\<open>Get\<close> with its three results: out of range it gives zero values.\<close>

definition treeGet :: "('k, 's) blst \<Rightarrow> ('k, 's, 'b) Tree \<Rightarrow> nat \<Rightarrow> 'k \<times> 's \<times> bool" where
  "treeGet L t idx = (case Tree_Get t idx of None \<Rightarrow> (P2_zero L, P1_zero L, False) | Some (k, s) \<Rightarrow> (k, s, True))"

definition bls_AddSignature ::
  "('k, 's) blst \<Rightarrow> 'b sized_bitset \<Rightarrow> ('k, 's, 'b) BlsSignatureProof \<Rightarrow> bytes \<Rightarrow> 'k anyPubKey \<Rightarrow>
   (go_error option \<times> ('k, 's, 'b) BlsSignatureProof) go" where
  "bls_AddSignature L B p sig key = (case key of
     OtherPubKey ty \<Rightarrow> Ret (Some (OtherError ''expected type gblsminsig.PubKey''), p)
   | BlsPubKey pk \<Rightarrow>
       (case Tree_Index L (bp_sigTree p) pk of
          None \<Rightarrow> Ret (Some ErrUnknownKey, p)
        | Some idx \<Rightarrow>
            (let gotSigP1 = P1_Uncompress L sig in
             case treeGet L (bp_sigTree p) idx of (_, haveSigP1, _) \<Rightarrow>
               if haveSigP1 \<noteq> P1_zero L then
                 gobind (P1_Equals L gotSigP1 (Some haveSigP1)) (\<lambda>eq.
                   Ret (if \<not> eq then Some (OtherError ''incoming signature differed'') else None, p))
               else if \<not> bls_Verify L pk (bp_msg p) sig then Ret (Some ErrInvalidSignature, p)
               else case gotSigP1 of
                   None \<Rightarrow> Panic ''nil pointer dereference''
                 | Some s \<Rightarrow> gobind (Tree_AddSignature L B (bp_sigTree p) idx s) (\<lambda>t. Ret (None, p\<lparr>bp_sigTree := t\<rparr>)))))"

definition bls_Matches :: "('k, 's, 'b) BlsSignatureProof \<Rightarrow> ('k, 's, 'b) BlsSignatureProof \<Rightarrow> bool" where
  "bls_Matches p other = (if bp_msg p \<noteq> bp_msg other then False else if bp_keyHash p \<noteq> bp_keyHash other then False else True)"

text \<open>One iteration of the loop of \<open>Merge\<close> over the sparse indices of the other proof.\<close>

definition bls_Merge_step ::
  "('k, 's) blst \<Rightarrow> 'b sized_bitset \<Rightarrow> ('k, 's, 'b) BlsSignatureProof \<Rightarrow> nat \<Rightarrow>
   SignatureProofMergeResult \<times> ('k, 's, 'b) BlsSignatureProof \<Rightarrow> (SignatureProofMergeResult \<times> ('k, 's, 'b) BlsSignatureProof) go" where
  "bls_Merge_step L B other oID st = (case st of (res, p) \<Rightarrow>
     case treeGet L (bp_sigTree other) oID of (_, otherSig, _) \<Rightarrow>
     case treeGet L (bp_sigTree p) oID of (haveKey, haveSig, _) \<Rightarrow>
       if haveSig = P1_zero L then
         if \<not> bls_Verify L haveKey (bp_msg p) (P1_Compress L otherSig) then Ret (res\<lparr>AllValidSignatures := False\<rparr>, p)
         else
           (let countBefore = bs_Count B (SigBits (bp_sigTree p)) in
            gobind (Tree_AddSignature L B (bp_sigTree p) oID otherSig) (\<lambda>t.
              Ret (if countBefore < bs_Count B (SigBits t) then res\<lparr>IncreasedSignatures := True\<rparr> else res, p\<lparr>bp_sigTree := t\<rparr>)))
       else
         gobind (P1_Equals L (Some haveSig) (Some otherSig)) (\<lambda>eq.
           Ret (if \<not> eq then res\<lparr>AllValidSignatures := False\<rparr> else res, p)))"

definition bls_Merge ::
  "('k, 's) blst \<Rightarrow> 'b sized_bitset \<Rightarrow> ('k, 's, 'b) BlsSignatureProof \<Rightarrow> ('k, 's, 'b) BlsSignatureProof \<Rightarrow>
   (SignatureProofMergeResult \<times> ('k, 's, 'b) BlsSignatureProof) go" where
  "bls_Merge L B p other =
     (if \<not> bls_Matches p other then Ret (zeroMergeResult, p)
      else
        let pb = SigBits (bp_sigTree p); ob = SigBits (bp_sigTree other);
            looksLikeStrictSuperset = (bs_None B ob \<and> bs_None B pb \<or> bs_IsStrictSuperSet B ob pb) in
        gobind (SparseIndices L (bp_sigTree other) []) (\<lambda>otherIDs.
        gobind (gofold (bls_Merge_step L B other) otherIDs (zeroMergeResult\<lparr>AllValidSignatures := True\<rparr>, p)) (\<lambda>(res, p').
          Ret (res\<lparr>WasStrictSuperset := looksLikeStrictSuperset \<and> AllValidSignatures res\<rparr>, p'))))"

text \<open>One iteration of the loop of \<open>MergeSparse\<close>; \<open>countBefore\<close> is the number of signers before the loop.\<close>

definition bls_MergeSparse_step ::
  "('k, 's) blst \<Rightarrow> 'b sized_bitset \<Rightarrow> nat \<Rightarrow> SparseSignature \<Rightarrow>
   SignatureProofMergeResult \<times> ('k, 's, 'b) BlsSignatureProof \<Rightarrow> (SignatureProofMergeResult \<times> ('k, 's, 'b) BlsSignatureProof) go" where
  "bls_MergeSparse_step L B countBefore ss st = (case st of (res, p) \<Rightarrow>
     if length (KeyID ss) \<noteq> 2 then Ret (res\<lparr>AllValidSignatures := False\<rparr>, p)
     else gobind (Uint16 (KeyID ss)) (\<lambda>w.
       let id = unat w in
       case treeGet L (bp_sigTree p) id of (haveKey, haveSig, ok) \<Rightarrow>
         if \<not> ok then Ret (res\<lparr>AllValidSignatures := False\<rparr>, p)
         else if haveSig = P1_zero L then
           if \<not> bls_Verify L haveKey (bp_msg p) (Sig ss) then Ret (res\<lparr>AllValidSignatures := False\<rparr>, p)
           else (case P1_Uncompress L (Sig ss) of
               None \<Rightarrow> Panic ''nil pointer dereference''
             | Some sig \<Rightarrow> gobind (Tree_AddSignature L B (bp_sigTree p) id sig) (\<lambda>t.
                 Ret (if countBefore < bs_Count B (SigBits t) then res\<lparr>IncreasedSignatures := True\<rparr> else res, p\<lparr>bp_sigTree := t\<rparr>)))
         else gobind (P1_Equals L (Some haveSig) (P1_Uncompress L (Sig ss))) (\<lambda>eq.
           Ret (if \<not> eq then res\<lparr>AllValidSignatures := False\<rparr> else res, p))))"

definition bls_MergeSparse ::
  "('k, 's) blst \<Rightarrow> 'b sized_bitset \<Rightarrow> ('k, 's, 'b) BlsSignatureProof \<Rightarrow> SparseSignatureProof \<Rightarrow>
   (SignatureProofMergeResult \<times> ('k, 's, 'b) BlsSignatureProof) go" where
  "bls_MergeSparse L B p s =
     (if ssp_PubKeyHash s \<noteq> bp_keyHash p then Ret (zeroMergeResult, p)
      else
        let countBefore = bs_Count B (SigBits (bp_sigTree p)) in
        gobind (gofold (bls_MergeSparse_step L B countBefore) (ssp_Signatures s) (zeroMergeResult\<lparr>AllValidSignatures := True\<rparr>, p)) (\<lambda>(res, p').
          Ret (res\<lparr>IncreasedSignatures := countBefore < bs_Count B (SigBits (bp_sigTree p'))\<rparr>, p')))"

definition bls_HasSparseKeyID :: "('k, 's) blst \<Rightarrow> ('k, 's, 'b) BlsSignatureProof \<Rightarrow> bytes \<Rightarrow> (bool \<times> bool) go" where
  "bls_HasSparseKeyID L p keyID =
     (if length keyID \<noteq> 2 then Ret (False, False)
      else gobind (Uint16 keyID) (\<lambda>w.
        case treeGet L (bp_sigTree p) (unat w) of (_, sig, ok) \<Rightarrow>
          if \<not> ok then Ret (False, False) else Ret (sig \<noteq> P1_zero L, True)))"

text \<open>\<open>AsSparse\<close>: the key ID is the index, cut to 16 bits.\<close>

definition bls_AsSparse :: "('k, 's) blst \<Rightarrow> ('k, 's, 'b) BlsSignatureProof \<Rightarrow> SparseSignatureProof go" where
  "bls_AsSparse L p =
     gobind (SparseIndices L (bp_sigTree p) []) (\<lambda>ids.
       Ret \<lparr>ssp_PubKeyHash = bp_keyHash p,
            ssp_Signatures = map (\<lambda>id. case treeGet L (bp_sigTree p) id of (_, sig, _) \<Rightarrow>
              \<lparr>KeyID = PutUint16 (word_of_nat id), Sig = P1_Compress L sig\<rparr>) ids\<rparr>)"

definition bls_Clone :: "('k, 's, 'b) BlsSignatureProof \<Rightarrow> ('k, 's, 'b) BlsSignatureProof" where
  "bls_Clone p = \<lparr>bp_msg = bp_msg p, bp_sigTree = Tree_Clone (bp_sigTree p), bp_keyHash = bp_keyHash p\<rparr>"

definition bls_Derive :: "('k, 's) blst \<Rightarrow> 'b sized_bitset \<Rightarrow> ('k, 's, 'b) BlsSignatureProof \<Rightarrow> ('k, 's, 'b) BlsSignatureProof" where
  "bls_Derive L B p = \<lparr>bp_msg = bp_msg p, bp_sigTree = Tree_Derive L B (bp_sigTree p), bp_keyHash = bp_keyHash p\<rparr>"

definition bls_SignatureBitSet :: "('k, 's, 'b) BlsSignatureProof \<Rightarrow> 'b" where
  "bls_SignatureBitSet p = SigBits (bp_sigTree p)"

section \<open>What merging adds\<close>

text \<open>An entry of a sparse proof that names a node and holds a valid signature for its key.\<close>

definition validEntry :: "('k, 's) blst \<Rightarrow> ('k, 's, 'b) BlsSignatureProof \<Rightarrow> SparseSignature \<Rightarrow> bool" where
  "validEntry L p ss \<longleftrightarrow> length (KeyID ss) = 2 \<and> sparse_index ss < length (t_keys (bp_sigTree p)) \<and>
     bls_Verify L (t_keys (bp_sigTree p) ! sparse_index ss) (bp_msg p) (Sig ss)"

definition sameKeys :: "('k, 's, 'b) BlsSignatureProof \<Rightarrow> ('k, 's, 'b) BlsSignatureProof \<Rightarrow> bool" where
  "sameKeys p q \<longleftrightarrow> t_keys (bp_sigTree p) = t_keys (bp_sigTree q) \<and> t_nKeys (bp_sigTree p) = t_nKeys (bp_sigTree q) \<and>
     bp_msg p = bp_msg q \<and> bp_keyHash p = bp_keyHash q"

lemma validEntry_sameKeys: "sameKeys p q \<Longrightarrow> validEntry L p ss = validEntry L q ss"
  by (simp add: sameKeys_def validEntry_def)

definition proof_inv :: "('k, 's) blst \<Rightarrow> ('b \<Rightarrow> nat set) \<Rightarrow> ('b \<Rightarrow> nat) \<Rightarrow> ('k, 's, 'b) BlsSignatureProof \<Rightarrow> bool" where
  "proof_inv L bits len p \<longleftrightarrow> tree_inv L bits len (bp_msg p) (bp_sigTree p)"

context sigtree
begin

abbreviation proofInv :: "('k, 's, 'b) BlsSignatureProof \<Rightarrow> bool" where
  "proofInv p \<equiv> proof_inv L bits len p"

definition blsSigners :: "('k, 's, 'b) BlsSignatureProof \<Rightarrow> nat set" where
  "blsSigners p = bits (SigBits (bp_sigTree p))"

lemma count_grew:
  assumes "bits a \<subseteq> bits b"
  shows "bs_Count B a < bs_Count B b \<longleftrightarrow> bits b \<noteq> bits a"
  using assms finite_bits[of b] psubset_card_mono[of "bits b" "bits a"] by (auto simp: sized_bits_simps psubset_eq)

lemma bls_Verify_iff: "bls_Verify L k m sig \<longleftrightarrow> (\<exists>s. P1_Uncompress L sig = Some s \<and> validSig L m k s)"
  by (auto simp: bls_Verify_def validSig_def split: option.splits)

lemma bls_Verify_Compress: "validSig L m k s \<Longrightarrow> bls_Verify L k m (P1_Compress L s)"
  using Uncompress_Compress by (auto simp: bls_Verify_iff validSig_def)

lemma validSig_unique: "validSig L m k s \<Longrightarrow> validSig L m k s' \<Longrightarrow> s = s'"
  using verify_unique by (auto simp: validSig_def)

text \<open>Storing a verified signature at an index that has none.\<close>

lemma add_to_proof:
  assumes "proofInv p" "i < length (t_keys (bp_sigTree p))" "validSig L (bp_msg p) (t_keys (bp_sigTree p) ! i) s"
  obtains t where "Tree_AddSignature L B (bp_sigTree p) i s = Ret t" "proofInv (p\<lparr>bp_sigTree := t\<rparr>)" "sameKeys (p\<lparr>bp_sigTree := t\<rparr>) p"
    "bits (SigBits t) = blsSigners p \<union> keysUnder (t_nKeys (bp_sigTree p)) i"
proof -
  obtain t where t: "Tree_AddSignature L B (bp_sigTree p) i s = Ret t" "treeInv (bp_msg p) t"
    "bits (SigBits t) = bits (SigBits (bp_sigTree p)) \<union> keysUnder (t_nKeys (bp_sigTree p)) i" "t_keys t = t_keys (bp_sigTree p)"
    "t_nKeys t = t_nKeys (bp_sigTree p)"
    using AddSignature_index[of "bp_msg p" "bp_sigTree p" i s] assms by (auto simp: proof_inv_def)
  then show thesis by (intro that[of t]) (simp_all add: proof_inv_def sameKeys_def blsSigners_def)
qed

lemma have_index:
  assumes "proofInv p" "i < length (t_keys (bp_sigTree p))" "t_sigs (bp_sigTree p) ! i \<noteq> P1_zero L"
  shows "validSig L (bp_msg p) (t_keys (bp_sigTree p) ! i) (t_sigs (bp_sigTree p) ! i)"
    "keysUnder (t_nKeys (bp_sigTree p)) i \<subseteq> blsSigners p"
  using sig_index[of "bp_msg p" "bp_sigTree p" i] assms by (simp_all add: proof_inv_def blsSigners_def)

lemma MergeSparse_step_spec:
  assumes "proofInv p" "P1_Uncompress L (Sig ss) \<noteq> None"
  shows "\<exists>res' p'. bls_MergeSparse_step L B n ss (res, p) = Ret (res', p') \<and> proofInv p' \<and> sameKeys p' p \<and>
    AllValidSignatures res' = (AllValidSignatures res \<and> validEntry L p ss) \<and> WasStrictSuperset res' = WasStrictSuperset res \<and>
    blsSigners p' = blsSigners p \<union> (if validEntry L p ss then keysUnder (t_nKeys (bp_sigTree p)) (sparse_index ss) else {})"
proof (cases "length (KeyID ss) = 2")
  case False
  then show ?thesis using assms by (simp add: bls_MergeSparse_step_def validEntry_def sameKeys_def)
next
  case len: True
  obtain w where w: "Uint16 (KeyID ss) = Ret w" using len Uint16_returnsE[of "KeyID ss"] by auto
  have id: "sparse_index ss = unat w" by (simp add: sparse_index_def w)
  show ?thesis
  proof (cases "unat w < length (t_keys (bp_sigTree p))")
    case False
    then show ?thesis using assms len w by (simp add: bls_MergeSparse_step_def validEntry_def sameKeys_def id treeGet_def Tree_Get_def)
  next
    case rng: True
    define k s where "k = t_keys (bp_sigTree p) ! unat w" and "s = t_sigs (bp_sigTree p) ! unat w"
    have get: "treeGet L (bp_sigTree p) (unat w) = (k, s, True)" using rng by (simp add: treeGet_def Tree_Get_def k_def s_def)
    obtain g where g: "P1_Uncompress L (Sig ss) = Some g" using assms(2) by auto
    have ve: "validEntry L p ss \<longleftrightarrow> validSig L (bp_msg p) k g" using len rng g by (simp add: validEntry_def id k_def bls_Verify_iff)
    show ?thesis
    proof (cases "s = P1_zero L")
      case none: True
      show ?thesis
      proof (cases "validSig L (bp_msg p) k g")
        case False
        then show ?thesis using assms len w get none ve g by (simp add: bls_MergeSparse_step_def bls_Verify_iff sameKeys_def)
      next
        case True
        then obtain t where "Tree_AddSignature L B (bp_sigTree p) (unat w) g = Ret t" "proofInv (p\<lparr>bp_sigTree := t\<rparr>)"
          "sameKeys (p\<lparr>bp_sigTree := t\<rparr>) p" "bits (SigBits t) = blsSigners p \<union> keysUnder (t_nKeys (bp_sigTree p)) (unat w)"
          using add_to_proof[OF assms(1) rng] unfolding k_def by metis
        then show ?thesis using True len w get none ve g id by (simp add: bls_MergeSparse_step_def bls_Verify_iff blsSigners_def)
      qed
    next
      case got: False
      note h = have_index[OF assms(1) rng got[unfolded s_def], folded k_def s_def]
      have "s = g \<longleftrightarrow> validSig L (bp_msg p) k g" using h(1) validSig_unique by blast
      then show ?thesis
        using assms(1) len w get got ve g h(2) id
        by (auto simp: bls_MergeSparse_step_def P1_Equals_iff sameKeys_def)
    qed
  qed
qed

lemma MergeSparse_loop:
  assumes "proofInv p" "\<forall>ss \<in> set sigs. P1_Uncompress L (Sig ss) \<noteq> None"
  shows "\<exists>res' p'. gofold (bls_MergeSparse_step L B n) sigs (res, p) = Ret (res', p') \<and> proofInv p' \<and> sameKeys p' p \<and>
    AllValidSignatures res' = (AllValidSignatures res \<and> (\<forall>ss \<in> set sigs. validEntry L p ss)) \<and> WasStrictSuperset res' = WasStrictSuperset res \<and>
    blsSigners p' = blsSigners p \<union> (\<Union>ss \<in> {ss \<in> set sigs. validEntry L p ss}. keysUnder (t_nKeys (bp_sigTree p)) (sparse_index ss))"
  using assms
proof (induction sigs arbitrary: res p)
  case Nil
  then show ?case by (simp add: sameKeys_def)
next
  case (Cons ss sigs)
  obtain r1 p1 where 1: "bls_MergeSparse_step L B n ss (res, p) = Ret (r1, p1)" "proofInv p1" "sameKeys p1 p"
    "AllValidSignatures r1 = (AllValidSignatures res \<and> validEntry L p ss)" "WasStrictSuperset r1 = WasStrictSuperset res"
    "blsSigners p1 = blsSigners p \<union> (if validEntry L p ss then keysUnder (t_nKeys (bp_sigTree p)) (sparse_index ss) else {})"
    using MergeSparse_step_spec[OF Cons.prems(1), of ss n res] Cons.prems(2) by (simp del: sup_assoc) blast
  obtain r2 p2 where 2: "gofold (bls_MergeSparse_step L B n) sigs (r1, p1) = Ret (r2, p2)" "proofInv p2" "sameKeys p2 p1"
    "AllValidSignatures r2 = (AllValidSignatures r1 \<and> (\<forall>ss \<in> set sigs. validEntry L p1 ss))" "WasStrictSuperset r2 = WasStrictSuperset r1"
    "blsSigners p2 = blsSigners p1 \<union> (\<Union>ss \<in> {ss \<in> set sigs. validEntry L p1 ss}. keysUnder (t_nKeys (bp_sigTree p1)) (sparse_index ss))"
    using Cons.IH[OF 1(2), of r1] Cons.prems(2) by (simp del: sup_assoc) blast
  have ve: "validEntry L p1 = validEntry L p" "t_nKeys (bp_sigTree p1) = t_nKeys (bp_sigTree p)"
    using validEntry_sameKeys[OF 1(3)] 1(3) by (auto simp: sameKeys_def fun_eq_iff)
  have "sameKeys p2 p" using 1(3) 2(3) by (simp add: sameKeys_def)
  moreover have "gofold (bls_MergeSparse_step L B n) (ss # sigs) (res, p) = Ret (r2, p2)" using 1(1) 2(1) by simp
  moreover have "blsSigners p2 = blsSigners p \<union> (\<Union>s \<in> {s \<in> set (ss # sigs). validEntry L p s}. keysUnder (t_nKeys (bp_sigTree p)) (sparse_index s))"
    unfolding 2(6) 1(6) ve by auto
  ultimately show ?case using 1(4,5) 2(2,4,5) ve by auto
qed

lemma Merge_step_spec:
  assumes "proofInv p" "proofInv other" "sameKeys p other" "i < length (t_keys (bp_sigTree other))" "t_sigs (bp_sigTree other) ! i \<noteq> P1_zero L"
  shows "\<exists>p'. bls_Merge_step L B other i (res, p) =
      Ret (res\<lparr>IncreasedSignatures := (IncreasedSignatures res \<or> blsSigners p' \<noteq> blsSigners p)\<rparr>, p') \<and> proofInv p' \<and> sameKeys p' p \<and>
    blsSigners p' = blsSigners p \<union> keysUnder (t_nKeys (bp_sigTree p)) i"
proof -
  define k s g where "k = t_keys (bp_sigTree p) ! i" and "s = t_sigs (bp_sigTree p) ! i" and "g = t_sigs (bp_sigTree other) ! i"
  have rng: "i < length (t_keys (bp_sigTree p))" using assms(3,4) by (simp add: sameKeys_def)
  have v: "validSig L (bp_msg p) k g" using have_index(1)[OF assms(2,4,5)] assms(3) by (simp add: sameKeys_def k_def g_def)
  have get: "treeGet L (bp_sigTree p) i = (k, s, True)" "fst (snd (treeGet L (bp_sigTree other) i)) = g"
    using rng assms(4) by (simp_all add: treeGet_def Tree_Get_def k_def s_def g_def)
  have step: "bls_Merge_step L B other i (res, p) =
      (if s = P1_zero L then gobind (Tree_AddSignature L B (bp_sigTree p) i g) (\<lambda>t.
         Ret (if bs_Count B (SigBits (bp_sigTree p)) < bs_Count B (SigBits t) then res\<lparr>IncreasedSignatures := True\<rparr> else res, p\<lparr>bp_sigTree := t\<rparr>))
       else gobind (P1_Equals L (Some s) (Some g)) (\<lambda>eq. Ret (if \<not> eq then res\<lparr>AllValidSignatures := False\<rparr> else res, p)))"
    using get bls_Verify_Compress[OF v] by (cases "treeGet L (bp_sigTree other) i") (simp add: bls_Merge_step_def Let_def)
  show ?thesis
  proof (cases "s = P1_zero L")
    case True
    obtain t where t: "Tree_AddSignature L B (bp_sigTree p) i g = Ret t" "proofInv (p\<lparr>bp_sigTree := t\<rparr>)" "sameKeys (p\<lparr>bp_sigTree := t\<rparr>) p"
      "bits (SigBits t) = blsSigners p \<union> keysUnder (t_nKeys (bp_sigTree p)) i"
      using add_to_proof[OF assms(1) rng v[unfolded k_def]] .
    have "bs_Count B (SigBits (bp_sigTree p)) < bs_Count B (SigBits t) \<longleftrightarrow> bits (SigBits t) \<noteq> blsSigners p"
      using t(4) count_grew[of "SigBits (bp_sigTree p)" "SigBits t"] by (simp add: blsSigners_def)
    with t True step show ?thesis by (intro exI[of _ "p\<lparr>bp_sigTree := t\<rparr>"]) (auto simp: blsSigners_def)
  next
    case False
    note h = have_index[OF assms(1) rng False[unfolded s_def], folded k_def s_def]
    have "s = g" using h(1) v validSig_unique by blast
    with False step h(2) assms(1) show ?thesis
      by (intro exI[of _ p]) (auto simp: P1_Equals_iff sameKeys_def)
  qed
qed

lemma Merge_loop:
  assumes "proofInv p" "proofInv other" "sameKeys p other"
    and "\<forall>i \<in> set ids. i < length (t_keys (bp_sigTree other)) \<and> t_sigs (bp_sigTree other) ! i \<noteq> P1_zero L"
  shows "\<exists>p'. gofold (bls_Merge_step L B other) ids (res, p) =
      Ret (res\<lparr>IncreasedSignatures := (IncreasedSignatures res \<or> blsSigners p' \<noteq> blsSigners p)\<rparr>, p') \<and> proofInv p' \<and> sameKeys p' p \<and>
    blsSigners p' = blsSigners p \<union> (\<Union>i \<in> set ids. keysUnder (t_nKeys (bp_sigTree p)) i)"
  using assms(1,3,4)
proof (induction ids arbitrary: res p)
  case Nil
  then show ?case by (intro exI[of _ p]) (simp add: sameKeys_def)
next
  case (Cons i ids)
  obtain p1 where 1: "bls_Merge_step L B other i (res, p) =
      Ret (res\<lparr>IncreasedSignatures := (IncreasedSignatures res \<or> blsSigners p1 \<noteq> blsSigners p)\<rparr>, p1)" "proofInv p1" "sameKeys p1 p"
    "blsSigners p1 = blsSigners p \<union> keysUnder (t_nKeys (bp_sigTree p)) i"
    using Merge_step_spec[OF Cons.prems(1) assms(2) Cons.prems(2), of i res] Cons.prems(3) by auto
  have same: "sameKeys p1 other" using 1(3) Cons.prems(2) by (simp add: sameKeys_def)
  obtain p2 where 2: "gofold (bls_Merge_step L B other) ids (res\<lparr>IncreasedSignatures := (IncreasedSignatures res \<or> blsSigners p1 \<noteq> blsSigners p)\<rparr>, p1) =
      Ret (res\<lparr>IncreasedSignatures := ((IncreasedSignatures res \<or> blsSigners p1 \<noteq> blsSigners p) \<or> blsSigners p2 \<noteq> blsSigners p1)\<rparr>, p2)"
    "proofInv p2" "sameKeys p2 p1" "blsSigners p2 = blsSigners p1 \<union> (\<Union>i \<in> set ids. keysUnder (t_nKeys (bp_sigTree p1)) i)"
    using Cons.IH[OF 1(2) same, of "res\<lparr>IncreasedSignatures := (IncreasedSignatures res \<or> blsSigners p1 \<noteq> blsSigners p)\<rparr>"] Cons.prems(3) by auto
  have grow: "blsSigners p \<subseteq> blsSigners p1" "blsSigners p1 \<subseteq> blsSigners p2" using 1(4) 2(4) by auto
  then have inc: "(blsSigners p1 \<noteq> blsSigners p \<or> blsSigners p2 \<noteq> blsSigners p1) \<longleftrightarrow> blsSigners p2 \<noteq> blsSigners p" by blast
  have "gofold (bls_Merge_step L B other) (i # ids) (res, p) =
      Ret (res\<lparr>IncreasedSignatures := (IncreasedSignatures res \<or> blsSigners p2 \<noteq> blsSigners p)\<rparr>, p2)"
    using 1(1) 2(1) by (simp only: gofold.simps gobind.simps disj_assoc inc)
  moreover have "sameKeys p2 p" using 1(3) 2(3) by (simp add: sameKeys_def)
  moreover have "blsSigners p2 = blsSigners p \<union> (\<Union>i \<in> set (i # ids). keysUnder (t_nKeys (bp_sigTree p)) i)"
    using 1(3,4) 2(4) by (auto simp: sameKeys_def)
  ultimately show ?case using 2(2) by blast
qed

lemma Merge_spec:
  assumes "proofInv p" "proofInv other" "sameKeys p other"
  shows "\<exists>p'. bls_Merge L B p other = Ret (\<lparr>AllValidSignatures = True, IncreasedSignatures = (\<not> blsSigners other \<subseteq> blsSigners p),
      WasStrictSuperset = (blsSigners p \<subset> blsSigners other \<or> blsSigners p = {} \<and> blsSigners other = {})\<rparr>, p') \<and>
    proofInv p' \<and> sameKeys p' p \<and> blsSigners p' = blsSigners p \<union> blsSigners other"
proof -
  define ids where "ids = complete_nodes (t_nKeys (bp_sigTree other)) (blsSigners other)"
  have inv: "treeInv (bp_msg other) (bp_sigTree other)" using assms(2) by (simp add: proof_inv_def)
  have idx: "SparseIndices L (bp_sigTree other) [] = Ret ids"
    using SparseIndices_complete[OF inv, of "[]"] by (simp add: ids_def blsSigners_def)
  have sigs: "\<forall>i \<in> set ids. i < length (t_keys (bp_sigTree other)) \<and> t_sigs (bp_sigTree other) ! i \<noteq> P1_zero L"
    using complete_nodes_sigs[OF inv] by (simp add: ids_def blsSigners_def)
  have cover: "(\<Union>i \<in> set ids. keysUnder (t_nKeys (bp_sigTree p)) i) = blsSigners other"
    using complete_nodes_cover[OF inv] assms(3) by (simp add: ids_def blsSigners_def sameKeys_def)
  obtain p' where "gofold (bls_Merge_step L B other) ids (zeroMergeResult\<lparr>AllValidSignatures := True\<rparr>, p) =
      Ret (zeroMergeResult\<lparr>AllValidSignatures := True, IncreasedSignatures := (blsSigners p' \<noteq> blsSigners p)\<rparr>, p')"
    "proofInv p'" "sameKeys p' p" "blsSigners p' = blsSigners p \<union> blsSigners other"
    using Merge_loop[OF assms sigs, of "zeroMergeResult\<lparr>AllValidSignatures := True\<rparr>"] cover by auto
  with idx assms(3) show ?thesis
    by (intro exI[of _ p']) (auto simp: bls_Merge_def bls_Matches_def sameKeys_def Let_def sized_bits_simps blsSigners_def)
qed

lemma MergeSparse_spec:
  assumes "proofInv p" "ssp_PubKeyHash s = bp_keyHash p" "\<forall>ss \<in> set (ssp_Signatures s). P1_Uncompress L (Sig ss) \<noteq> None"
  shows "\<exists>p'. bls_MergeSparse L B p s = Ret (\<lparr>AllValidSignatures = (\<forall>ss \<in> set (ssp_Signatures s). validEntry L p ss),
      IncreasedSignatures = (blsSigners p' \<noteq> blsSigners p), WasStrictSuperset = False\<rparr>, p') \<and> proofInv p' \<and> sameKeys p' p \<and>
    blsSigners p' = blsSigners p \<union> (\<Union>ss \<in> {ss \<in> set (ssp_Signatures s). validEntry L p ss}. keysUnder (t_nKeys (bp_sigTree p)) (sparse_index ss))"
proof -
  obtain r p' where p': "gofold (bls_MergeSparse_step L B (bs_Count B (SigBits (bp_sigTree p)))) (ssp_Signatures s)
      (zeroMergeResult\<lparr>AllValidSignatures := True\<rparr>, p) = Ret (r, p')" "proofInv p'" "sameKeys p' p"
    "AllValidSignatures r = (\<forall>ss \<in> set (ssp_Signatures s). validEntry L p ss)" "WasStrictSuperset r = False"
    "blsSigners p' = blsSigners p \<union> (\<Union>ss \<in> {ss \<in> set (ssp_Signatures s). validEntry L p ss}. keysUnder (t_nKeys (bp_sigTree p)) (sparse_index ss))"
    using MergeSparse_loop[OF assms(1,3), of "bs_Count B (SigBits (bp_sigTree p))" "zeroMergeResult\<lparr>AllValidSignatures := True\<rparr>"] by auto
  have "bs_Count B (SigBits (bp_sigTree p)) < bs_Count B (SigBits (bp_sigTree p')) \<longleftrightarrow> blsSigners p' \<noteq> blsSigners p"
    using p'(6) count_grew[of "SigBits (bp_sigTree p)" "SigBits (bp_sigTree p')"] by (simp add: blsSigners_def)
  then have "bls_MergeSparse L B p s = Ret (r\<lparr>IncreasedSignatures := (blsSigners p' \<noteq> blsSigners p)\<rparr>, p')"
    using p'(1) assms(2) by (simp add: bls_MergeSparse_def Let_def)
  moreover have "r\<lparr>IncreasedSignatures := (blsSigners p' \<noteq> blsSigners p)\<rparr> =
      \<lparr>AllValidSignatures = (\<forall>ss \<in> set (ssp_Signatures s). validEntry L p ss), IncreasedSignatures = (blsSigners p' \<noteq> blsSigners p), WasStrictSuperset = False\<rparr>"
    using p'(4,5) by (cases r) simp
  ultimately show ?thesis using p'(2,3,6) by auto
qed

section \<open>The sparse form\<close>

lemma Derive_spec:
  assumes "proofInv p"
  shows "proofInv (bls_Derive L B p)" "blsSigners (bls_Derive L B p) = {}" "sameKeys (bls_Derive L B p) p"
proof -
  have shape: "tree_shape L (bp_sigTree p)" "proper_keys L (bp_sigTree p)" using assms by (simp_all add: proof_inv_def tree_inv_def)
  then have "tree_shape L (Tree_Derive L B (bp_sigTree p))" "proper_keys L (Tree_Derive L B (bp_sigTree p))"
    by (simp_all add: tree_shape_def proper_keys_def Tree_Derive_def keyAt_def nodes_def below_def)
  note fresh = fresh_inv(1)[OF this, of "bp_msg p"] fresh_inv(2)[OF this]
  then show "proofInv (bls_Derive L B p)" "blsSigners (bls_Derive L B p) = {}"
    by (simp_all add: bls_Derive_def proof_inv_def Tree_Derive_def blsSigners_def)
  show "sameKeys (bls_Derive L B p) p" by (simp add: bls_Derive_def sameKeys_def Tree_Derive_def)
qed

definition sparseEntry :: "('k, 's, 'b) BlsSignatureProof \<Rightarrow> nat \<Rightarrow> SparseSignature" where
  "sparseEntry p i = \<lparr>KeyID = PutUint16 (word_of_nat i), Sig = P1_Compress L (t_sigs (bp_sigTree p) ! i)\<rparr>"

lemma AsSparse_spec:
  assumes "proofInv p"
  shows "bls_AsSparse L p = Ret \<lparr>ssp_PubKeyHash = bp_keyHash p,
    ssp_Signatures = map (sparseEntry p) (complete_nodes (t_nKeys (bp_sigTree p)) (blsSigners p))\<rparr>"
proof -
  have inv: "treeInv (bp_msg p) (bp_sigTree p)" using assms by (simp add: proof_inv_def)
  show ?thesis
    using SparseIndices_complete[OF inv, of "[]"] complete_nodes_sigs[OF inv]
    by (simp add: bls_AsSparse_def blsSigners_def sparseEntry_def treeGet_def Tree_Get_def) (meson not_le)
qed

lemma Uncompress_entry:
  assumes "proofInv p" "i \<in> set (complete_nodes (t_nKeys (bp_sigTree p)) (blsSigners p))"
  shows "P1_Uncompress L (Sig (sparseEntry p i)) = Some (t_sigs (bp_sigTree p) ! i)"
    "validSig L (bp_msg p) (t_keys (bp_sigTree p) ! i) (t_sigs (bp_sigTree p) ! i)"
proof -
  have i: "i < length (t_keys (bp_sigTree p)) \<and> t_sigs (bp_sigTree p) ! i \<noteq> P1_zero L"
    using complete_nodes_sigs assms by (simp add: proof_inv_def blsSigners_def)
  then show "validSig L (bp_msg p) (t_keys (bp_sigTree p) ! i) (t_sigs (bp_sigTree p) ! i)"
    using have_index(1)[OF assms(1)] by blast
  then show "P1_Uncompress L (Sig (sparseEntry p i)) = Some (t_sigs (bp_sigTree p) ! i)"
    using Uncompress_Compress by (simp add: sparseEntry_def validSig_def)
qed

lemma sparse_roundtrip:
  assumes "proofInv p" "t_nKeys (bp_sigTree p) \<le> 32768"
  shows "\<exists>s q. bls_AsSparse L p = Ret s \<and>
    bls_MergeSparse L B (bls_Derive L B p) s =
      Ret (\<lparr>AllValidSignatures = True, IncreasedSignatures = (blsSigners p \<noteq> {}), WasStrictSuperset = False\<rparr>, q) \<and>
    proofInv q \<and> sameKeys q p \<and> blsSigners q = blsSigners p"
proof -
  define ids where "ids = complete_nodes (t_nKeys (bp_sigTree p)) (blsSigners p)"
  define s where "s = \<lparr>ssp_PubKeyHash = bp_keyHash p, ssp_Signatures = map (sparseEntry p) ids\<rparr>"
  note D = Derive_spec[OF assms(1)]
  have inv: "treeInv (bp_msg p) (bp_sigTree p)" using assms by (simp add: proof_inv_def)
  have n: "0 < t_nKeys (bp_sigTree p)" using treeInv_nKeys(1)[OF inv] .
  have "length (t_keys (bp_sigTree p)) \<le> 65535"
    using treeInv_nKeys(2)[OF inv] leavesWidth_bound[OF n assms(2)] leavesWidth_depth(1)[OF n] by simp
  then have rng: "i < 65536" if "i \<in> set ids" for i
    using complete_nodes_sigs[OF inv] that by (fastforce simp: ids_def blsSigners_def)
  have si: "sparse_index (sparseEntry p i) = i" if "i \<in> set ids" for i
    using rng[OF that] by (simp add: sparse_index_def sparseEntry_def unat_of_nat)
  have ve: "validEntry L (bls_Derive L B p) (sparseEntry p i)" if "i \<in> set ids" for i
  proof -
    note u = Uncompress_entry[OF assms(1) that[unfolded ids_def]]
    have "i < length (t_keys (bp_sigTree p))" using complete_nodes_sigs[OF inv] that by (simp add: ids_def blsSigners_def)
    then show ?thesis
      using u si[OF that] validEntry_sameKeys[OF D(3), of L "sparseEntry p i"]
      by (auto simp: validEntry_def bls_Verify_iff sparseEntry_def)
  qed
  have "\<forall>ss \<in> set (ssp_Signatures s). P1_Uncompress L (Sig ss) \<noteq> None"
    using Uncompress_entry(1)[OF assms(1)] by (auto simp: s_def ids_def)
  then obtain q where q: "bls_MergeSparse L B (bls_Derive L B p) s =
      Ret (\<lparr>AllValidSignatures = (\<forall>ss \<in> set (ssp_Signatures s). validEntry L (bls_Derive L B p) ss),
        IncreasedSignatures = (blsSigners q \<noteq> {}), WasStrictSuperset = False\<rparr>, q)" "proofInv q" "sameKeys q (bls_Derive L B p)"
    "blsSigners q = (\<Union>ss \<in> {ss \<in> set (ssp_Signatures s). validEntry L (bls_Derive L B p) ss}. keysUnder (t_nKeys (bp_sigTree p)) (sparse_index ss))"
    using MergeSparse_spec[OF D(1), of s] D(2,3) by (auto simp: s_def sameKeys_def)
  have "blsSigners q = (\<Union>i \<in> set ids. keysUnder (t_nKeys (bp_sigTree p)) i)"
    using q(4) ve si by (auto simp: s_def)
  also have "\<dots> = blsSigners p" using complete_nodes_cover[OF inv] by (simp add: ids_def blsSigners_def)
  finally have bits: "blsSigners q = blsSigners p" .
  have "sameKeys q p" using q(3) D(3) by (simp add: sameKeys_def)
  moreover have "\<forall>ss \<in> set (ssp_Signatures s). validEntry L (bls_Derive L B p) ss" using ve by (auto simp: s_def)
  moreover have "bls_AsSparse L p = Ret s" using AsSparse_spec[OF assms(1)] by (simp add: s_def ids_def)
  ultimately show ?thesis using q bits by (intro exI[of _ s] exI[of _ q]) simp
qed

end

end
