(* ===== verification/BlsProps.thy ===== *)
theory BlsProps
  imports BlsProof
begin

text \<open>
  The BLS proof over any libraries that keep their contracts: merging is exact, the sparse form restores the proof for up to 32768 keys,
  and loses it for more.
\<close>

section \<open>More keys than key IDs\<close>

lemma depth_large:
  assumes "32768 < n" "n \<le> 65535"
  shows "depth n = 16"
proof -
  have b: "2 ^ (Len16 n - 1) \<le> n" "n < 2 ^ Len16 n" using Len16_bounds[of n] assms(1) by simp_all
  have "(2::nat) ^ 15 < 2 ^ Len16 n" using assms(1) b(2) by simp
  then have lo: "15 < Len16 n" by (rule power_less_imp_less_exp[rotated]) simp
  have "(2::nat) ^ (Len16 n - 1) < 2 ^ 16" using assms(2) b(1) by simp
  then have "Len16 n - 1 < 16" by (rule power_less_imp_less_exp[rotated]) simp
  with lo have len: "Len16 n = 16" by simp
  have "n AND (n - 1) \<noteq> 0"
  proof
    assume z: "n AND (n - 1) = 0"
    then obtain e where e: "n = 2 ^ e" using and_pred_zero[of n] assms(1) by auto
    have "(2::nat) ^ 15 < 2 ^ e" "(2::nat) ^ e < 2 ^ 16" using assms e by simp_all
    then have "15 < e \<and> e < 16" using power_strict_increasing_iff[of "2::nat" 15 e] power_strict_increasing_iff[of "2::nat" e 16] by linarith
    then show False by linarith
  qed
  with len show ?thesis by (simp add: depth_def)
qed

context sigtree
begin

lemma complete_all:
  assumes "treeInv m t" "bits (SigBits t) = {..<t_nKeys t}"
  shows "complete_nodes (t_nKeys t) (bits (SigBits t)) = [node (height t) (height t) 0]"
proof -
  have root: "(height t, 0) \<in> nodes t" by (simp add: nodes_def)
  have "below t (height t) 0 \<noteq> {}" using treeInv_nKeys(1)[OF assms(1)] by (simp add: below_empty_iff)
  then have "covered t (height t) 0"
    using covered_iff[OF assms(1) root] assms(2) by (auto simp: below_def)
  then have "hasSig L t (height t) 0" using covered_rec[of "height t" t 0] by simp
  from root_covers[OF this] show ?thesis
    using SparseIndices_complete[OF assms(1), of "[]"] SparseIndices_tops[OF assms(1), of "[]"] by simp
qed

lemma large_sets:
  assumes "proofInv p" "32768 < t_nKeys (bp_sigTree p)" "t_nKeys (bp_sigTree p) \<le> 65534" "blsSigners p = {..<t_nKeys (bp_sigTree p)}"
  shows "\<exists>s q. bls_AsSparse L p = Ret s \<and>
    bls_MergeSparse L B (bls_Derive L B p) s =
      Ret (\<lparr>AllValidSignatures = False, IncreasedSignatures = False, WasStrictSuperset = False\<rparr>, q) \<and> blsSigners q = {}"
proof -
  define t where "t = bp_sigTree p"
  have inv: "treeInv (bp_msg p) t" and d: "height t = 16"
    using assms depth_large[of "t_nKeys t"] by (simp_all add: proof_inv_def t_def)
  note D = Derive_spec[OF assms(1)]
  have root: "node 16 16 0 = 131070" using layerAt_root[of 16] by (simp add: node_def)
  have ids: "complete_nodes (t_nKeys t) (blsSigners p) = [131070]"
    using complete_all[OF inv] assms(4) d root by (simp add: t_def blsSigners_def)
  define e where "e = sparseEntry p 131070"
  have as: "bls_AsSparse L p = Ret \<lparr>ssp_PubKeyHash = bp_keyHash p, ssp_Signatures = [e]\<rparr>"
    using AsSparse_spec[OF assms(1)] ids by (simp add: t_def e_def)
  have "sparse_index e = 65534" by (simp add: e_def sparse_index_def sparseEntry_def unat_of_nat)
  moreover have "t_keys t ! 65534 = P2_zero L"
  proof -
    have "keyAt t 0 65534 = P2_zero L"
      using keyAt_padding[OF treeInv_shape[OF inv], of 0 65534] d assms(3) by (simp add: below_empty_iff t_def)
    then show ?thesis by (simp add: keyAt_def node_def)
  qed
  moreover have "\<not> bls_Verify L (P2_zero L) m sig" for m sig using zero_key by (auto simp: bls_Verify_iff validSig_def)
  ultimately have bad: "\<not> validEntry L (bls_Derive L B p) e"
    using validEntry_sameKeys[OF D(3), of L e] by (simp add: validEntry_def t_def)
  have "P1_Uncompress L (Sig e) \<noteq> None"
    using Uncompress_entry(1)[OF assms(1), of 131070] ids by (simp add: t_def e_def)
  then obtain q where "bls_MergeSparse L B (bls_Derive L B p) \<lparr>ssp_PubKeyHash = bp_keyHash p, ssp_Signatures = [e]\<rparr> =
      Ret (\<lparr>AllValidSignatures = False, IncreasedSignatures = (blsSigners q \<noteq> {}), WasStrictSuperset = False\<rparr>, q)" "blsSigners q = {}"
    using MergeSparse_spec[OF D(1), of "\<lparr>ssp_PubKeyHash = bp_keyHash p, ssp_Signatures = [e]\<rparr>"] bad D(2,3) by (auto simp: sameKeys_def)
  with as show ?thesis by auto
qed

end

section \<open>Examples\<close>

text \<open>Keys that are positive integers have positive aggregates.\<close>

lemma positive_proper:
  assumes "tree_shape ref_blst t" "\<And>p. p < t_nKeys t \<Longrightarrow> 0 < keyAt t 0 p"
  shows "proper_keys ref_blst t"
proof -
  have "0 < keyAt t l p" if "(l, p) \<in> nodes t" "below t l p \<noteq> {}" for l p
    using that
  proof (induction l arbitrary: p)
    case 0
    then show ?case using assms(2) by (simp add: below_empty_iff)
  next
    case (Suc l)
    have l: "l < height t" "p < 2 ^ (height t - Suc l)" using Suc.prems(1) by (auto simp: nodes_def)
    have two: "2 ^ (height t - l) = (2::nat) * 2 ^ (height t - Suc l)" using l by (metis Suc_diff_Suc power_Suc)
    have kids: "(l, 2 * p) \<in> nodes t" "(l, 2 * p + 1) \<in> nodes t" using l two by (simp_all add: nodes_def)
    have left: "0 < keyAt t l (2 * p)" using Suc.IH[OF kids(1)] Suc.prems(2) by (auto simp: below_empty_iff)
    have "0 < keyAt t l (2 * p + 1) \<or> keyAt t l (2 * p + 1) = 0"
      using Suc.IH[OF kids(2)] keyAt_padding[OF assms(1), of l "2 * p + 1"] kids(2) by (auto simp: nodes_def)
    moreover have "keyAt t (Suc l) p = aggregateKeys ref_blst (keyAt t l (2 * p)) (keyAt t l (2 * p + 1))"
      using assms(1) l by (simp add: tree_shape_def)
    ultimately show ?case using left by (auto simp: aggregateKeys_def)
  qed
  then show ?thesis by (fastforce simp: proper_keys_def)
qed

text \<open>A proof for the given number of keys in which the first or all have signed.\<close>

lemma ex_proof:
  assumes "0 < n" "n \<le> 65535"
  obtains t where "Tree_New ref_blst ref_sized (replicate n 1) n = Ret t"
    "tree_inv ref_blst (\<lambda>b. set (snd b)) fst ''m'' t" "t_nKeys t = n" "snd (SigBits t) = []"
    "\<forall>p < n. keyAt t 0 p = 1"
proof -
  obtain t where t: "Tree_New ref_blst ref_sized (replicate n 1) n = Ret t" "tree_shape ref_blst t" "t_nKeys t = n"
    "\<forall>p < n. keyAt t 0 p = 1" "SigBits t = bs_New ref_sized n" "t_sigs t = replicate (length (t_keys t)) 0"
    using Tree_New_shape[of "replicate n (1::int)" ref_blst ref_sized] assms by auto
  have "proper_keys ref_blst t" by (rule positive_proper) (use t in simp_all)
  then show thesis using that[of t] t ref_tree.fresh_inv(1)[of t "''m''"] by simp
qed

lemma ex_signed:
  assumes "0 < n" "n \<le> 65535"
  obtains p where "proof_inv ref_blst (\<lambda>b. set (snd b)) fst p" "t_nKeys (bp_sigTree p) = n" "set (snd (SigBits (bp_sigTree p))) = {..<n}"
proof -
  obtain t where t: "tree_inv ref_blst (\<lambda>b. set (snd b)) fst ''m'' t" "t_nKeys t = n" "snd (SigBits t) = []" using ex_proof[OF assms] .
  have root: "(height t, 0) \<in> nodes t" by (simp add: nodes_def)
  have all: "below t (height t) 0 = {..<n}"
    using leavesWidth_depth(2)[OF assms(1)] t(2) by (auto simp: below_def)
  have "proper_keys ref_blst t" using t(1) by (simp add: tree_inv_def)
  with all assms(1) root have "keyAt t (height t) 0 \<noteq> 0" by (force simp: proper_keys_def)
  then have "validSig ref_blst ''m'' (keyAt t (height t) 0) (2 * keyAt t (height t) 0)" by (simp add: validSig_def ref_blst_def)
  then obtain t' where "tree_inv ref_blst (\<lambda>b. set (snd b)) fst ''m'' t'" "set (snd (SigBits t')) = {..<n}" "t_nKeys t' = n"
    using ref_tree.AddSignature_spec[OF t(1) root, of "2 * keyAt t (height t) 0"] t(2,3) all by auto
  then show thesis by (intro that[of "\<lparr>bp_msg = ''m'', bp_sigTree = t', bp_keyHash = ''h''\<rparr>"]) (simp_all add: proof_inv_def)
qed

section \<open>Properties\<close>

text \<open>Merging two proofs over the same keys is a union: every signature of the other proof is accepted, whichever aggregates either side holds;
  the signers are those of both; and the result says exactly whether signers were gained and whether the other proof had strictly more.\<close>

theorem bls_merge_exact:
  assumes "blst_lib L" "sized_bitset_lib B bits len" "proof_inv L bits len p" "proof_inv L bits len other" "sameKeys p other"
  shows "\<exists>p'. bls_Merge L B p other =
      Ret (\<lparr>AllValidSignatures = True, IncreasedSignatures = (\<not> bits (bls_SignatureBitSet other) \<subseteq> bits (bls_SignatureBitSet p)),
        WasStrictSuperset = (bits (bls_SignatureBitSet p) \<subset> bits (bls_SignatureBitSet other) \<or>
          bits (bls_SignatureBitSet p) = {} \<and> bits (bls_SignatureBitSet other) = {})\<rparr>, p') \<and>
    proof_inv L bits len p' \<and> sameKeys p' p \<and>
    bits (bls_SignatureBitSet p') = bits (bls_SignatureBitSet p) \<union> bits (bls_SignatureBitSet other)"
proof -
  have lib: "sigtree L B bits len" using assms(1,2) by (rule sigtree.intro)
  show ?thesis using sigtree.Merge_spec[OF lib assms(3-5)] by (simp add: sigtree.blsSigners_def[OF lib] bls_SignatureBitSet_def)
qed

theorem bls_merge_exact_witness:
  "\<exists>p q p'. set (snd (bls_SignatureBitSet p)) = {} \<and> set (snd (bls_SignatureBitSet q)) = {..<5} \<and>
     bls_Merge ref_blst ref_sized p q =
       Ret (\<lparr>AllValidSignatures = True, IncreasedSignatures = True, WasStrictSuperset = True\<rparr>, p') \<and> set (snd (bls_SignatureBitSet p')) = {..<5}"
proof -
  obtain q where q: "proof_inv ref_blst (\<lambda>b. set (snd b)) fst q" "t_nKeys (bp_sigTree q) = 5" "set (snd (SigBits (bp_sigTree q))) = {..<5}"
    using ex_signed[of 5] by auto
  note D = ref_tree.Derive_spec[OF q(1)]
  have "{..<5::nat} \<noteq> {}" by (simp add: lessThan_empty_iff)
  moreover have "set (snd (bls_SignatureBitSet (bls_Derive ref_blst ref_sized q))) = {}"
    using D(2) by (simp add: bls_SignatureBitSet_def ref_tree.blsSigners_def)
  moreover obtain p' where "bls_Merge ref_blst ref_sized (bls_Derive ref_blst ref_sized q) q =
      Ret (\<lparr>AllValidSignatures = True,
        IncreasedSignatures = (\<not> set (snd (bls_SignatureBitSet q)) \<subseteq> set (snd (bls_SignatureBitSet (bls_Derive ref_blst ref_sized q)))),
        WasStrictSuperset = (set (snd (bls_SignatureBitSet (bls_Derive ref_blst ref_sized q))) \<subset> set (snd (bls_SignatureBitSet q)) \<or>
          set (snd (bls_SignatureBitSet (bls_Derive ref_blst ref_sized q))) = {} \<and> set (snd (bls_SignatureBitSet q)) = {})\<rparr>, p')"
    "set (snd (bls_SignatureBitSet p')) = set (snd (bls_SignatureBitSet (bls_Derive ref_blst ref_sized q))) \<union> set (snd (bls_SignatureBitSet q))"
    using bls_merge_exact[OF ref_blst_lib ref_sized_lib D(1) q(1) D(3)] by blast
  moreover have "set (snd (bls_SignatureBitSet q)) = {..<5}" using q(3) by (simp add: bls_SignatureBitSet_def)
  ultimately show ?thesis
    by (intro exI[of _ "bls_Derive ref_blst ref_sized q"] exI[of _ q] exI[of _ p']) (simp add: psubset_eq)
qed

text \<open>(C17) Merging a sparse proof takes exactly the valid entries: an entry counts when its key ID has two bytes, names a node of the tree and its
  signature is valid for the key or aggregate of that node; the signers then gained are the keys below those nodes, other entries change
  nothing, and the result says whether all entries were valid and whether a signer was gained. The premise on the entries excludes bytes that are
  no curve point, which the code hands to \<open>Equals\<close> as a nil pointer when it has a signature already.\<close>

theorem bls_merge_sparse_exact:
  assumes "blst_lib L" "sized_bitset_lib B bits len" "proof_inv L bits len p" "ssp_PubKeyHash s = bp_keyHash p"
    and "\<forall>ss \<in> set (ssp_Signatures s). P1_Uncompress L (Sig ss) \<noteq> None"
  shows "\<exists>p'. bls_MergeSparse L B p s =
      Ret (\<lparr>AllValidSignatures = (\<forall>ss \<in> set (ssp_Signatures s). validEntry L p ss),
        IncreasedSignatures = (bits (bls_SignatureBitSet p') \<noteq> bits (bls_SignatureBitSet p)), WasStrictSuperset = False\<rparr>, p') \<and>
    proof_inv L bits len p' \<and> sameKeys p' p \<and>
    bits (bls_SignatureBitSet p') = bits (bls_SignatureBitSet p) \<union>
      (\<Union>ss \<in> {ss \<in> set (ssp_Signatures s). validEntry L p ss}. keysUnder (t_nKeys (bp_sigTree p)) (sparse_index ss))"
proof -
  have lib: "sigtree L B bits len" using assms(1,2) by (rule sigtree.intro)
  show ?thesis using sigtree.MergeSparse_spec[OF lib assms(3-5)] by (simp add: sigtree.blsSigners_def[OF lib] bls_SignatureBitSet_def)
qed

text \<open>Five keys; an entry for the aggregate of the first four, one for a node that does not exist and one with a key ID that is too short.\<close>

theorem bls_merge_sparse_exact_witness:
  "\<exists>p p'. t_nKeys (bp_sigTree p) = 5 \<and> bls_MergeSparse ref_blst ref_sized p
     \<lparr>ssp_PubKeyHash = ''h'', ssp_Signatures = [\<lparr>KeyID = PutUint16 12, Sig = ''+11111111''\<rparr>, \<lparr>KeyID = PutUint16 200, Sig = ''+1''\<rparr>, \<lparr>KeyID = ''x'', Sig = ''+''\<rparr>]\<rparr> =
     Ret (\<lparr>AllValidSignatures = False, IncreasedSignatures = True, WasStrictSuperset = False\<rparr>, p') \<and>
     set (snd (bls_SignatureBitSet p')) = {0, 1, 2, 3}"
proof -
  obtain t where t: "tree_inv ref_blst (\<lambda>b. set (snd b)) fst ''m'' t" "t_nKeys t = 5" "snd (SigBits t) = []" "\<forall>p < 5. keyAt t 0 p = 1"
    using ex_proof[of 5] by auto
  let ?p = "\<lparr>bp_msg = ''m'', bp_sigTree = t, bp_keyHash = ''h''\<rparr>"
  let ?e = "\<lparr>KeyID = PutUint16 12, Sig = ''+11111111''\<rparr>"
  let ?s = "\<lparr>ssp_PubKeyHash = ''h'', ssp_Signatures = [?e, \<lparr>KeyID = PutUint16 200, Sig = ''+1''\<rparr>, \<lparr>KeyID = ''x'', Sig = ''+''\<rparr>]\<rparr>"
  have d: "depth 5 = 3" by (simp add: depth_def Len16.simps)
  have len: "length (t_keys t) = 15" using ref_tree.treeInv_nKeys(2)[OF t(1)] t(2) d by simp
  have agg: "keyAt t (Suc l) q = aggregateKeys ref_blst (keyAt t l (2 * q)) (keyAt t l (2 * q + 1))" if "l < 3" "q < 2 ^ (3 - Suc l)" for l q
    using ref_tree.treeInv_shape[OF t(1)] t(2) d that by (simp add: tree_shape_def)
  have node: "node 3 2 0 = 12" using layerAt_plus[of 2 3] by (simp add: node_def)
  have one: "keyAt t 1 0 = 2" "keyAt t 1 1 = 2" using agg[of 0 0] agg[of 0 1] t(4) by (simp_all add: aggregateKeys_def)
  have "keyAt t 2 0 = 4" using agg[of 1 0] one by (simp add: aggregateKeys_def numeral_2_eq_2)
  then have key: "t_keys t ! 12 = 4" using t(2) d node by (simp add: keyAt_def)
  have ve: "validEntry ref_blst ?p ?e" "\<not> validEntry ref_blst ?p \<lparr>KeyID = PutUint16 200, Sig = ''+1''\<rparr>"
    "\<not> validEntry ref_blst ?p \<lparr>KeyID = ''x'', Sig = ''+''\<rparr>"
    using len key by (simp_all add: validEntry_def sparse_index_def bls_Verify_def ref_blst_def ref_Uncompress_def)
  then have set: "{ss \<in> set (ssp_Signatures ?s). validEntry ref_blst ?p ss} = {?e}" by auto
  have "keysUnder 5 12 = below t 2 0"
    using keysUnder_node[of t 2 0] t(2) d node by (simp add: nodes_def)
  also have "\<dots> = {0, 1, 2, 3}" using t(2) by (auto simp: below_interval)
  finally have under: "keysUnder 5 12 = {0, 1, 2, 3}" .
  have inv: "proof_inv ref_blst (\<lambda>b. set (snd b)) fst ?p" using t(1) by (simp add: proof_inv_def)
  have "\<forall>ss \<in> set (ssp_Signatures ?s). P1_Uncompress ref_blst (Sig ss) \<noteq> None" by (simp add: ref_blst_def ref_Uncompress_def)
  then obtain p' where "bls_MergeSparse ref_blst ref_sized ?p ?s =
      Ret (\<lparr>AllValidSignatures = (\<forall>ss \<in> set (ssp_Signatures ?s). validEntry ref_blst ?p ss),
        IncreasedSignatures = (set (snd (bls_SignatureBitSet p')) \<noteq> {}), WasStrictSuperset = False\<rparr>, p')"
    "set (snd (bls_SignatureBitSet p')) = keysUnder 5 12"
    using bls_merge_sparse_exact[OF ref_blst_lib ref_sized_lib inv, of ?s] set t(2,3)
    by (auto simp: bls_SignatureBitSet_def sparse_index_def)
  then show ?thesis using under ve t(2) by (intro exI[of _ ?p] exI[of _ p']) simp
qed

text \<open>(C18) The sparse form restores a proof: for up to 32768 keys, merging what \<open>AsSparse\<close> gives into an empty proof over the same keys accepts every entry
  and has the same signers, although it carries one signature per largest complete subtree.\<close>

theorem bls_sparse_roundtrip:
  assumes "blst_lib L" "sized_bitset_lib B bits len" "proof_inv L bits len p" "t_nKeys (bp_sigTree p) \<le> 32768"
  shows "\<exists>s q. bls_AsSparse L p = Ret s \<and>
    bls_MergeSparse L B (bls_Derive L B p) s =
      Ret (\<lparr>AllValidSignatures = True, IncreasedSignatures = (bits (bls_SignatureBitSet p) \<noteq> {}), WasStrictSuperset = False\<rparr>, q) \<and>
    proof_inv L bits len q \<and> sameKeys q p \<and> bits (bls_SignatureBitSet q) = bits (bls_SignatureBitSet p)"
proof -
  have lib: "sigtree L B bits len" using assms(1,2) by (rule sigtree.intro)
  show ?thesis using sigtree.sparse_roundtrip[OF lib assms(3,4)] by (simp add: sigtree.blsSigners_def[OF lib] bls_SignatureBitSet_def)
qed

theorem bls_sparse_roundtrip_witness:
  "\<exists>p s q. t_nKeys (bp_sigTree p) = 32768 \<and> bls_AsSparse ref_blst p = Ret s \<and>
     bls_MergeSparse ref_blst ref_sized (bls_Derive ref_blst ref_sized p) s =
       Ret (\<lparr>AllValidSignatures = True, IncreasedSignatures = True, WasStrictSuperset = False\<rparr>, q) \<and>
     set (snd (bls_SignatureBitSet q)) = {..<32768}"
proof -
  obtain p where p: "proof_inv ref_blst (\<lambda>b. set (snd b)) fst p" "t_nKeys (bp_sigTree p) = 32768"
    "set (snd (SigBits (bp_sigTree p))) = {..<32768}" using ex_signed[of 32768] by auto
  moreover have "{..<32768::nat} \<noteq> {}" by (simp add: lessThan_empty_iff)
  ultimately show ?thesis
    using bls_sparse_roundtrip[OF ref_blst_lib ref_sized_lib p(1)] by (auto simp: bls_SignatureBitSet_def)
qed

text \<open>(C35) With more than 32768 keys the key IDs of 16 bits are too short for the nodes of the tree: the sparse form of a proof that all keys have
  signed has the key ID of a leaf, and a receiver with the same keys, up to 65534, takes no signer from it.\<close>

theorem bls_large_sets_lose_votes:
  assumes "blst_lib L" "sized_bitset_lib B bits len" "proof_inv L bits len p"
    and "32768 < t_nKeys (bp_sigTree p)" "t_nKeys (bp_sigTree p) \<le> 65534" "bits (bls_SignatureBitSet p) = {..<t_nKeys (bp_sigTree p)}"
  shows "\<exists>s q. bls_AsSparse L p = Ret s \<and>
    bls_MergeSparse L B (bls_Derive L B p) s =
      Ret (\<lparr>AllValidSignatures = False, IncreasedSignatures = False, WasStrictSuperset = False\<rparr>, q) \<and>
    bits (bls_SignatureBitSet q) = {}"
proof -
  have lib: "sigtree L B bits len" using assms(1,2) by (rule sigtree.intro)
  show ?thesis using sigtree.large_sets[OF lib assms(3-5)] assms(6) by (simp add: sigtree.blsSigners_def[OF lib] bls_SignatureBitSet_def)
qed

theorem bls_large_sets_lose_votes_witness:
  "\<exists>p s q. set (snd (bls_SignatureBitSet p)) = {..<40000} \<and> bls_AsSparse ref_blst p = Ret s \<and>
     bls_MergeSparse ref_blst ref_sized (bls_Derive ref_blst ref_sized p) s =
       Ret (\<lparr>AllValidSignatures = False, IncreasedSignatures = False, WasStrictSuperset = False\<rparr>, q)"
proof -
  obtain p where p: "proof_inv ref_blst (\<lambda>b. set (snd b)) fst p" "t_nKeys (bp_sigTree p) = 40000"
    "set (snd (SigBits (bp_sigTree p))) = {..<40000}" using ex_signed[of 40000] by auto
  then show ?thesis
    using bls_large_sets_lose_votes[OF ref_blst_lib ref_sized_lib p(1)] by (auto simp: bls_SignatureBitSet_def)
qed

end
