(* ===== verification/Codec.thy ===== *)
theory Codec
  imports SparseVotes
begin

text \<open>
  The registry of key types (\<open>gcrypto/registry.go\<close>, \<open>ed25519.go\<close>, the registration of \<open>gblsminsig/bls.go\<close>) and the JSON codec of
  \<open>tm/tmcodec/tmjson\<close>, which converts headers, votes and consensus messages to structs of bytes and numbers and back.

  \<open>encoding/json\<close> is a record of the two functions for each struct that the codec hands to it; the type of its output is a parameter. A
  byte slice for which nil and empty differ is an option. An error that is wrapped with more text is the error itself. Slices have no capacity beyond
  their length, so that \<open>Unmarshal\<close> of the registry panics on fewer than eight bytes; a nil map is an empty map.
\<close>

section \<open>The key registry\<close>

type_synonym NewPubKeyFunc = "bytes \<Rightarrow> go_error + PubKey"

text \<open>The Go type of a key is named by \<open>TypeName\<close>, which is a constant of each type.\<close>

record Registry =
  byType :: "string \<rightharpoonup> string"
  byPrefix :: "string \<rightharpoonup> NewPubKeyFunc"

definition emptyRegistry :: Registry where
  "emptyRegistry = \<lparr>byType = Map.empty, byPrefix = Map.empty\<rparr>"

definition Registry_Register :: "Registry \<Rightarrow> string \<Rightarrow> string \<Rightarrow> NewPubKeyFunc \<Rightarrow> Registry" where
  "Registry_Register r name inst newFn = r\<lparr>byPrefix := (byPrefix r)(name \<mapsto> newFn), byType := (byType r)(inst \<mapsto> name)\<rparr>"

definition prefixSize :: nat where
  "prefixSize = 8"

text \<open>\<open>copy\<close> into an array of \<open>prefixSize\<close> zero bytes.\<close>

definition nameHeader :: "string \<Rightarrow> bytes" where
  "nameHeader prefix = take prefixSize prefix @ replicate (prefixSize - length prefix) (CHR 0x00)"

definition Registry_Marshal :: "Registry \<Rightarrow> PubKey \<Rightarrow> bytes go" where
  "Registry_Marshal r pubKey = (case byType r (TypeName pubKey) of
     None \<Rightarrow> Panic ''BUG: attempted to Marshal a public key that was never registered''
   | Some prefix \<Rightarrow> Ret (nameHeader prefix @ PubKeyBytes pubKey))"

text \<open>\<open>bytes.TrimRight\<close> with the zero byte.\<close>

definition trimRight :: "bytes \<Rightarrow> bytes" where
  "trimRight b = rev (dropWhile (\<lambda>c. c = CHR 0x00) (rev b))"

definition Registry_Unmarshal :: "Registry \<Rightarrow> bytes \<Rightarrow> (go_error + PubKey) go" where
  "Registry_Unmarshal r b =
     (if length b < prefixSize then Panic ''slice bounds out of range''
      else case byPrefix r (trimRight (take prefixSize b)) of
          None \<Rightarrow> Ret (Inl (OtherError ''no registered public key type for prefix''))
        | Some fn \<Rightarrow> Ret (fn (drop prefixSize b)))"

definition Registry_Decode :: "Registry \<Rightarrow> string \<Rightarrow> bytes \<Rightarrow> go_error + PubKey" where
  "Registry_Decode r typeName b = (case byPrefix r typeName of
     None \<Rightarrow> Inl (OtherError ''no registered public key type for name'')
   | Some fn \<Rightarrow> fn b)"

definition ed25519TypeName :: string where
  "ed25519TypeName = ''ed25519''"

definition NewEd25519PubKey :: NewPubKeyFunc where
  "NewEd25519PubKey b = Inr (PubKey ed25519TypeName b)"

definition RegisterEd25519 :: "Registry \<Rightarrow> Registry" where
  "RegisterEd25519 reg = Registry_Register reg ed25519TypeName ed25519TypeName NewEd25519PubKey"

text \<open>The key type of \<open>gblsminsig\<close>, whose points are those of \<open>blst\<close>.\<close>

record 'k p2_points =
  P2_COMPRESS_BYTES :: nat
  P2_Compress :: "'k \<Rightarrow> bytes"
  P2_Uncompress :: "bytes \<Rightarrow> 'k option"
  P2_KeyValidate :: "'k \<Rightarrow> bool"

definition keyTypeName :: string where
  "keyTypeName = ''bls-minsig''"

definition NewBlsPubKey :: "'k p2_points \<Rightarrow> NewPubKeyFunc" where
  "NewBlsPubKey P b =
     (if length b \<noteq> P2_COMPRESS_BYTES P then Inl (OtherError ''wrong number of compressed bytes'')
      else case P2_Uncompress P b of
          None \<Rightarrow> Inl (OtherError ''failed to decompress input'')
        | Some p2a \<Rightarrow> if \<not> P2_KeyValidate P p2a then Inl (OtherError ''input key failed validation'')
                     else Inr (PubKey keyTypeName (P2_Compress P p2a)))"

definition RegisterBls :: "'k p2_points \<Rightarrow> Registry \<Rightarrow> Registry" where
  "RegisterBls P reg = Registry_Register reg keyTypeName keyTypeName (NewBlsPubKey P)"

section \<open>The JSON structs\<close>

record jsonValidator =
  jv_PubKey :: bytes
  jv_Power :: u64

record jsonProofEntry =
  je_BlockHash :: bytes
  je_Signatures :: "SparseSignature list"

record jsonCommitProof =
  jcp_Round :: u32
  jcp_PubKeyHash :: "bytes option"
  jcp_Commits :: "jsonProofEntry list"

record jsonValidatorSet =
  jvs_Validators :: "jsonValidator list"
  jvs_PubKeyHash :: bytes
  jvs_VotePowerHash :: bytes

record jsonHeader =
  jh_Hash :: bytes
  jh_PrevBlockHash :: bytes
  jh_Height :: u64
  jh_PrevCommitProof :: jsonCommitProof
  jh_ValidatorSet :: jsonValidatorSet
  jh_NextValidatorSet :: jsonValidatorSet
  jh_DataID :: bytes
  jh_PrevAppStateHash :: bytes
  jh_UserAnnotation :: bytes
  jh_DriverAnnotation :: bytes

record jsonProposedHeader =
  jph_Header :: jsonHeader
  jph_Round :: u32
  jph_ProposerPubKey :: "bytes option"
  jph_Signature :: bytes
  jph_UserAnnotation :: bytes
  jph_DriverAnnotation :: bytes

record jsonCommittedHeader =
  jch_Header :: jsonHeader
  jch_Proof :: jsonCommitProof

record jsonSparseProof =
  jsp_Height :: u64
  jsp_Round :: u32
  jsp_PubKeyHash :: bytes
  jsp_Proofs :: "jsonProofEntry list"

text \<open>The raw messages of \<open>jsonConsensusMessage\<close> are encoded texts; an empty one is left out.\<close>

record 'j jsonConsensusMessage =
  jcm_ProposedHeader :: "'j option"
  jcm_PrevoteProof :: "'j option"
  jcm_PrecommitProof :: "'j option"

record ('a, 'j) json_type =
  json_Marshal :: "'a \<Rightarrow> go_error + 'j"
  json_Unmarshal :: "'j \<Rightarrow> go_error + 'a"

record 'j json =
  js_Header :: "(jsonHeader, 'j) json_type"
  js_ProposedHeader :: "(jsonProposedHeader, 'j) json_type"
  js_CommittedHeader :: "(jsonCommittedHeader, 'j) json_type"
  js_SparseProof :: "(jsonSparseProof, 'j) json_type"
  js_ConsensusMessage :: "('j jsonConsensusMessage, 'j) json_type"

section \<open>Conversions\<close>

text \<open>A loop that converts the entries of a slice and stops at the first error.\<close>

fun gotrymap :: "('x \<Rightarrow> ('e + 'y) go) \<Rightarrow> 'x list \<Rightarrow> ('e + 'y list) go" where
  "gotrymap f [] = Ret (Inr [])"
| "gotrymap f (x # xs) = gotry (f x) (\<lambda>y. gotry (gotrymap f xs) (\<lambda>ys. Ret (Inr (y # ys))))"

text \<open>A loop that converts the entries of a slice and may panic.\<close>

fun gomapM :: "('x \<Rightarrow> 'y go) \<Rightarrow> 'x list \<Rightarrow> 'y list go" where
  "gomapM f [] = Ret []"
| "gomapM f (x # xs) = gobind (f x) (\<lambda>y. gobind (gomapM f xs) (\<lambda>ys. Ret (y # ys)))"

definition toJSONValidator :: "Validator \<Rightarrow> Registry \<Rightarrow> jsonValidator go" where
  "toJSONValidator v reg = gobind (Registry_Marshal reg (val_PubKey v)) (\<lambda>b. Ret \<lparr>jv_PubKey = b, jv_Power = Power v\<rparr>)"

definition ToValidator :: "jsonValidator \<Rightarrow> Registry \<Rightarrow> (go_error + Validator) go" where
  "ToValidator jv reg = gotry (Registry_Unmarshal reg (jv_PubKey jv)) (\<lambda>k. Ret (Inr \<lparr>val_PubKey = k, Power = jv_Power jv\<rparr>))"

definition toJSONCommitProof :: "CommitProof \<Rightarrow> jsonCommitProof" where
  "toJSONCommitProof p = \<lparr>jcp_Round = cp_Round p, jcp_PubKeyHash = Some (cp_PubKeyHash p),
     jcp_Commits = map (\<lambda>(hash, sigs). \<lparr>je_BlockHash = hash, je_Signatures = sigs\<rparr>) (cp_Proofs p)\<rparr>"

text \<open>The loop that fills a map of proofs from the entries; \<open>string(nil)\<close> is the empty string.\<close>

definition entriesToMap :: "jsonProofEntry list \<Rightarrow> (bytes, SparseSignature list) gomap" where
  "entriesToMap es = fold (\<lambda>e. AList.update (je_BlockHash e) (je_Signatures e)) es []"

definition ToCommitProof :: "jsonCommitProof \<Rightarrow> CommitProof" where
  "ToCommitProof jcp = \<lparr>cp_Round = jcp_Round jcp, cp_PubKeyHash = (case jcp_PubKeyHash jcp of None \<Rightarrow> [] | Some h \<Rightarrow> h),
     cp_Proofs = entriesToMap (jcp_Commits jcp)\<rparr>"

definition toJSONHeader :: "Header \<Rightarrow> Registry \<Rightarrow> jsonHeader go" where
  "toJSONHeader b reg =
     gobind (gomapM (\<lambda>v. toJSONValidator v reg) (Validators (h_ValidatorSet b))) (\<lambda>jValidators.
     gobind (gomapM (\<lambda>v. toJSONValidator v reg) (Validators (NextValidatorSet b))) (\<lambda>jNextValidators.
       Ret \<lparr>jh_Hash = Hash b, jh_PrevBlockHash = PrevBlockHash b, jh_Height = h_Height b,
            jh_PrevCommitProof = toJSONCommitProof (h_PrevCommitProof b),
            jh_ValidatorSet = \<lparr>jvs_Validators = jValidators, jvs_PubKeyHash = vs_PubKeyHash (h_ValidatorSet b),
                               jvs_VotePowerHash = VotePowerHash (h_ValidatorSet b)\<rparr>,
            jh_NextValidatorSet = \<lparr>jvs_Validators = jNextValidators, jvs_PubKeyHash = vs_PubKeyHash (NextValidatorSet b),
                                   jvs_VotePowerHash = VotePowerHash (NextValidatorSet b)\<rparr>,
            jh_DataID = DataID b, jh_PrevAppStateHash = PrevAppStateHash b,
            jh_UserAnnotation = User (h_Annotations b), jh_DriverAnnotation = Driver (h_Annotations b)\<rparr>))"

definition ToHeader :: "jsonHeader \<Rightarrow> Registry \<Rightarrow> (go_error + Header) go" where
  "ToHeader jh reg =
     gotry (gotrymap (\<lambda>jv. ToValidator jv reg) (jvs_Validators (jh_ValidatorSet jh))) (\<lambda>validators.
     gotry (gotrymap (\<lambda>jv. ToValidator jv reg) (jvs_Validators (jh_NextValidatorSet jh))) (\<lambda>nextValidators.
       Ret (Inr \<lparr>Hash = jh_Hash jh, PrevBlockHash = jh_PrevBlockHash jh, h_Height = jh_Height jh,
         h_PrevCommitProof = (if jcp_PubKeyHash (jh_PrevCommitProof jh) \<noteq> None then ToCommitProof (jh_PrevCommitProof jh)
                              else \<lparr>cp_Round = 0, cp_PubKeyHash = [], cp_Proofs = []\<rparr>),
         h_ValidatorSet = \<lparr>Validators = validators, vs_PubKeyHash = jvs_PubKeyHash (jh_ValidatorSet jh),
                           VotePowerHash = jvs_VotePowerHash (jh_ValidatorSet jh)\<rparr>,
         NextValidatorSet = \<lparr>Validators = nextValidators, vs_PubKeyHash = jvs_PubKeyHash (jh_NextValidatorSet jh),
                             VotePowerHash = jvs_VotePowerHash (jh_NextValidatorSet jh)\<rparr>,
         DataID = jh_DataID jh, PrevAppStateHash = jh_PrevAppStateHash jh,
         h_Annotations = \<lparr>User = jh_UserAnnotation jh, Driver = jh_DriverAnnotation jh\<rparr>\<rparr>)))"

definition toJSONProposedHeader :: "ProposedHeader \<Rightarrow> Registry \<Rightarrow> jsonProposedHeader go" where
  "toJSONProposedHeader ph reg =
     gobind (toJSONHeader (ph_Header ph) reg) (\<lambda>jh.
       let jph = \<lparr>jph_Header = jh, jph_Round = ph_Round ph, jph_ProposerPubKey = None, jph_Signature = Signature ph,
                  jph_UserAnnotation = User (ph_Annotations ph), jph_DriverAnnotation = Driver (ph_Annotations ph)\<rparr> in
       case ProposerPubKey ph of
         None \<Rightarrow> Ret jph
       | Some k \<Rightarrow> gobind (Registry_Marshal reg k) (\<lambda>b. Ret (jph\<lparr>jph_ProposerPubKey := Some b\<rparr>)))"

definition ToProposedHeader :: "jsonProposedHeader \<Rightarrow> Registry \<Rightarrow> (go_error + ProposedHeader) go" where
  "ToProposedHeader jph reg =
     gotry (ToHeader (jph_Header jph) reg) (\<lambda>h.
     gotry (case jph_ProposerPubKey jph of
              None \<Rightarrow> Ret (Inr None)
            | Some b \<Rightarrow> gotry (Registry_Unmarshal reg b) (\<lambda>k. Ret (Inr (Some k)))) (\<lambda>pubKey.
       Ret (Inr \<lparr>ph_Header = h, ph_Round = jph_Round jph, ProposerPubKey = pubKey,
                 ph_Annotations = \<lparr>User = jph_UserAnnotation jph, Driver = jph_DriverAnnotation jph\<rparr>, Signature = jph_Signature jph\<rparr>)))"

definition toJSONCommittedHeader :: "CommittedHeader \<Rightarrow> Registry \<Rightarrow> jsonCommittedHeader go" where
  "toJSONCommittedHeader ch reg =
     gobind (toJSONHeader (ch_Header ch) reg) (\<lambda>jh. Ret \<lparr>jch_Header = jh, jch_Proof = toJSONCommitProof (ch_Proof ch)\<rparr>)"

definition ToCommittedHeader :: "jsonCommittedHeader \<Rightarrow> Registry \<Rightarrow> (go_error + CommittedHeader) go" where
  "ToCommittedHeader jch reg =
     gotry (ToHeader (jch_Header jch) reg) (\<lambda>h. Ret (Inr \<lparr>ch_Header = h, ch_Proof = ToCommitProof (jch_Proof jch)\<rparr>))"

section \<open>The codec\<close>

definition MarshalHeader :: "'j json \<Rightarrow> Registry \<Rightarrow> Header \<Rightarrow> (go_error + 'j) go" where
  "MarshalHeader J reg b = gobind (toJSONHeader b reg) (\<lambda>jh. Ret (json_Marshal (js_Header J) jh))"

definition UnmarshalHeader :: "'j json \<Rightarrow> Registry \<Rightarrow> 'j \<Rightarrow> (go_error + Header) go" where
  "UnmarshalHeader J reg b = gotry (Ret (json_Unmarshal (js_Header J) b)) (\<lambda>jh. ToHeader jh reg)"

definition MarshalProposedHeader :: "'j json \<Rightarrow> Registry \<Rightarrow> ProposedHeader \<Rightarrow> (go_error + 'j) go" where
  "MarshalProposedHeader J reg ph = gobind (toJSONProposedHeader ph reg) (\<lambda>jph. Ret (json_Marshal (js_ProposedHeader J) jph))"

definition UnmarshalProposedHeader :: "'j json \<Rightarrow> Registry \<Rightarrow> 'j \<Rightarrow> (go_error + ProposedHeader) go" where
  "UnmarshalProposedHeader J reg b = gotry (Ret (json_Unmarshal (js_ProposedHeader J) b)) (\<lambda>jph. ToProposedHeader jph reg)"

definition MarshalCommittedHeader :: "'j json \<Rightarrow> Registry \<Rightarrow> CommittedHeader \<Rightarrow> (go_error + 'j) go" where
  "MarshalCommittedHeader J reg ch = gobind (toJSONCommittedHeader ch reg) (\<lambda>jch. Ret (json_Marshal (js_CommittedHeader J) jch))"

definition UnmarshalCommittedHeader :: "'j json \<Rightarrow> Registry \<Rightarrow> 'j \<Rightarrow> (go_error + CommittedHeader) go" where
  "UnmarshalCommittedHeader J reg b = gotry (Ret (json_Unmarshal (js_CommittedHeader J) b)) (\<lambda>jch. ToCommittedHeader jch reg)"

text \<open>The entries of a vote are sorted by block hash.\<close>

definition MarshalPrevoteProof :: "'j json \<Rightarrow> PrevoteSparseProof \<Rightarrow> go_error + 'j" where
  "MarshalPrevoteProof J p = json_Marshal (js_SparseProof J)
     \<lparr>jsp_Height = svp_Height p, jsp_Round = svp_Round p, jsp_PubKeyHash = svp_PubKeyHash p,
      jsp_Proofs = sort_key je_BlockHash (map (\<lambda>(blockHash, sigs). \<lparr>je_BlockHash = blockHash, je_Signatures = sigs\<rparr>) (svp_Proofs p))\<rparr>"

definition UnmarshalPrevoteProof :: "'j json \<Rightarrow> 'j \<Rightarrow> go_error + PrevoteSparseProof" where
  "UnmarshalPrevoteProof J b = errbind (json_Unmarshal (js_SparseProof J) b) (\<lambda>jsp.
     Inr \<lparr>svp_Height = jsp_Height jsp, svp_Round = jsp_Round jsp, svp_PubKeyHash = jsp_PubKeyHash jsp,
          svp_Proofs = entriesToMap (jsp_Proofs jsp)\<rparr>)"

definition MarshalPrecommitProof :: "'j json \<Rightarrow> PrecommitSparseProof \<Rightarrow> go_error + 'j" where
  "MarshalPrecommitProof J p = json_Marshal (js_SparseProof J)
     \<lparr>jsp_Height = svp_Height p, jsp_Round = svp_Round p, jsp_PubKeyHash = svp_PubKeyHash p,
      jsp_Proofs = sort_key je_BlockHash (map (\<lambda>(blockHash, sigs). \<lparr>je_BlockHash = blockHash, je_Signatures = sigs\<rparr>) (svp_Proofs p))\<rparr>"

definition UnmarshalPrecommitProof :: "'j json \<Rightarrow> 'j \<Rightarrow> go_error + PrecommitSparseProof" where
  "UnmarshalPrecommitProof J b = errbind (json_Unmarshal (js_SparseProof J) b) (\<lambda>jsp.
     Inr \<lparr>svp_Height = jsp_Height jsp, svp_Round = jsp_Round jsp, svp_PubKeyHash = jsp_PubKeyHash jsp,
          svp_Proofs = entriesToMap (jsp_Proofs jsp)\<rparr>)"

record ConsensusMessage =
  cmsg_ProposedHeader :: "ProposedHeader option"
  cmsg_PrevoteProof :: "PrevoteSparseProof option"
  cmsg_PrecommitProof :: "PrecommitSparseProof option"

definition MarshalConsensusMessage :: "'j json \<Rightarrow> Registry \<Rightarrow> ConsensusMessage \<Rightarrow> (go_error + 'j) go" where
  "MarshalConsensusMessage J reg m =
     (let none = \<lparr>jcm_ProposedHeader = None, jcm_PrevoteProof = None, jcm_PrecommitProof = None\<rparr> in
      case cmsg_ProposedHeader m of
        Some ph \<Rightarrow> gotry (MarshalProposedHeader J reg ph) (\<lambda>b. Ret (json_Marshal (js_ConsensusMessage J) (none\<lparr>jcm_ProposedHeader := Some b\<rparr>)))
      | None \<Rightarrow> (case cmsg_PrevoteProof m of
          Some p \<Rightarrow> gotry (Ret (MarshalPrevoteProof J p)) (\<lambda>b. Ret (json_Marshal (js_ConsensusMessage J) (none\<lparr>jcm_PrevoteProof := Some b\<rparr>)))
        | None \<Rightarrow> (case cmsg_PrecommitProof m of
            Some p \<Rightarrow> gotry (Ret (MarshalPrecommitProof J p)) (\<lambda>b. Ret (json_Marshal (js_ConsensusMessage J) (none\<lparr>jcm_PrecommitProof := Some b\<rparr>)))
          | None \<Rightarrow> Ret (json_Marshal (js_ConsensusMessage J) none))))"

text \<open>Unmarshalling sets one field of the message it is given.\<close>

definition UnmarshalConsensusMessage :: "'j json \<Rightarrow> Registry \<Rightarrow> 'j \<Rightarrow> ConsensusMessage \<Rightarrow> (go_error + ConsensusMessage) go" where
  "UnmarshalConsensusMessage J reg b m =
     gotry (Ret (json_Unmarshal (js_ConsensusMessage J) b)) (\<lambda>jcm.
       case jcm_ProposedHeader jcm of
         Some r \<Rightarrow> gotry (UnmarshalProposedHeader J reg r) (\<lambda>ph. Ret (Inr (m\<lparr>cmsg_ProposedHeader := Some ph\<rparr>)))
       | None \<Rightarrow> (case jcm_PrevoteProof jcm of
           Some r \<Rightarrow> gotry (Ret (UnmarshalPrevoteProof J r)) (\<lambda>p. Ret (Inr (m\<lparr>cmsg_PrevoteProof := Some p\<rparr>)))
         | None \<Rightarrow> (case jcm_PrecommitProof jcm of
             Some r \<Rightarrow> gotry (Ret (UnmarshalPrecommitProof J r)) (\<lambda>p. Ret (Inr (m\<lparr>cmsg_PrecommitProof := Some p\<rparr>)))
           | None \<Rightarrow> Ret (Inr m))))"

section \<open>Round trips\<close>

text \<open>A key that the registry restores.\<close>

definition restores :: "Registry \<Rightarrow> PubKey \<Rightarrow> bool" where
  "restores reg k \<longleftrightarrow> (\<exists>b. Registry_Marshal reg k = Ret b \<and> Registry_Unmarshal reg b = Ret (Inr k))"

lemma restoresE:
  assumes "restores reg k"
  obtains b where "Registry_Marshal reg k = Ret b" "Registry_Unmarshal reg b = Ret (Inr k)"
  using assms by (auto simp: restores_def)

lemma length_nameHeader [simp]: "length (nameHeader name) = prefixSize"
  by (simp add: nameHeader_def)

lemma trimRight_nameHeader:
  assumes "length name \<le> prefixSize" "name = [] \<or> last name \<noteq> CHR 0x00"
  shows "trimRight (nameHeader name) = name"
proof -
  have "dropWhile (\<lambda>c. c = CHR 0x00) (replicate n (CHR 0x00) @ rev name) = rev name" for n
    using assms(2) by (cases name rule: rev_cases) (simp_all add: dropWhile_append)
  then show ?thesis using assms(1) by (simp add: trimRight_def nameHeader_def)
qed

text \<open>A key that fits into the prefix of the registry: its type is registered under a name of at most eight bytes that does not end with a zero
  byte, and the constructor registered for the name makes the key of its bytes. This holds for ed25519 keys, not for BLS keys.\<close>

definition storable :: "Registry \<Rightarrow> PubKey \<Rightarrow> bool" where
  "storable reg k \<longleftrightarrow> (case byType reg (TypeName k) of
     None \<Rightarrow> False
   | Some name \<Rightarrow> length name \<le> prefixSize \<and> (name = [] \<or> last name \<noteq> CHR 0x00) \<and>
       (case byPrefix reg name of None \<Rightarrow> False | Some newFn \<Rightarrow> newFn (PubKeyBytes k) = Inr k))"

lemma storable_restores:
  assumes "storable reg k"
  shows "restores reg k"
proof -
  obtain name newFn where reg: "byType reg (TypeName k) = Some name" "byPrefix reg name = Some newFn" "newFn (PubKeyBytes k) = Inr k"
    and name: "length name \<le> prefixSize" "name = [] \<or> last name \<noteq> CHR 0x00"
    using assms by (auto simp: storable_def split: option.splits)
  show ?thesis using reg trimRight_nameHeader[OF name] by (simp add: restores_def Registry_Marshal_def Registry_Unmarshal_def)
qed

lemma ed25519_storable: "storable (RegisterEd25519 reg) (PubKey ed25519TypeName b)"
  by (simp add: storable_def RegisterEd25519_def Registry_Register_def NewEd25519PubKey_def prefixSize_def ed25519TypeName_def)

lemma bls_not_storable: "\<not> storable (RegisterBls P reg) (PubKey keyTypeName b)"
  by (simp add: storable_def RegisterBls_def Registry_Register_def prefixSize_def keyTypeName_def)

text \<open>The contract of \<open>encoding/json\<close> for the structs of the codec: a value is restored from its text. The raw messages that it is given have to be texts it made:
  others it may refuse or write differently.\<close>

definition json_restores :: "('a, 'j) json_type \<Rightarrow> bool" where
  "json_restores T \<longleftrightarrow> (\<forall>x. \<exists>b. json_Marshal T x = Inr b \<and> json_Unmarshal T b = Inr x)"

definition json_text :: "'j json \<Rightarrow> 'j \<Rightarrow> bool" where
  "json_text J b \<longleftrightarrow> (\<exists>x. json_Marshal (js_ProposedHeader J) x = Inr b) \<or> (\<exists>x. json_Marshal (js_SparseProof J) x = Inr b)"

definition raw_messages :: "'j jsonConsensusMessage \<Rightarrow> 'j set" where
  "raw_messages m = set_option (jcm_ProposedHeader m) \<union> set_option (jcm_PrevoteProof m) \<union> set_option (jcm_PrecommitProof m)"

locale json_lib =
  fixes J :: "'j json"
  assumes restores_Header: "json_restores (js_Header J)"
    and restores_ProposedHeader: "json_restores (js_ProposedHeader J)"
    and restores_CommittedHeader: "json_restores (js_CommittedHeader J)"
    and restores_SparseProof: "json_restores (js_SparseProof J)"
    and restores_ConsensusMessage: "\<forall>b \<in> raw_messages m. json_text J b \<Longrightarrow>
      \<exists>c. json_Marshal (js_ConsensusMessage J) m = Inr c \<and> json_Unmarshal (js_ConsensusMessage J) c = Inr m"

lemma json_restoresE:
  assumes "json_restores T"
  obtains b where "json_Marshal T x = Inr b" "json_Unmarshal T b = Inr x"
  using assms by (auto simp: json_restores_def)

lemma gomapM_roundtrip:
  assumes "\<And>x. x \<in> set xs \<Longrightarrow> \<exists>y. f x = Ret y \<and> g y = Ret (Inr x)"
  shows "\<exists>ys. gomapM f xs = Ret ys \<and> gotrymap g ys = Ret (Inr xs)"
  using assms
proof (induction xs)
  case (Cons x xs)
  obtain y where "f x = Ret y" "g y = Ret (Inr x)" using Cons.prems[of x] by auto
  moreover obtain ys where "gomapM f xs = Ret ys" "gotrymap g ys = Ret (Inr xs)" using Cons by (meson list.set_intros(2))
  ultimately show ?case by (intro exI[of _ "y # ys"]) simp
qed simp

lemma entriesToMap_acc:
  assumes "distinct (map fst (acc @ m))"
  shows "fold (\<lambda>e. AList.update (je_BlockHash e) (je_Signatures e)) (map (\<lambda>(h, sigs). \<lparr>je_BlockHash = h, je_Signatures = sigs\<rparr>) m) acc = acc @ m"
  using assms
proof (induction m arbitrary: acc)
  case (Cons e m)
  obtain h v where e: "e = (h, v)" by (cases e)
  have "AList.update h v acc = acc @ [e]" using Cons.prems e by (subst AList_update_fresh) auto
  then show ?case using Cons.IH[of "acc @ [e]"] Cons.prems e by simp
qed simp

lemma entriesToMap_entries:
  "gomap_ok m \<Longrightarrow> entriesToMap (map (\<lambda>(h, sigs). \<lparr>je_BlockHash = h, je_Signatures = sigs\<rparr>) m) = m"
  using entriesToMap_acc[of "[]" m] by (simp add: entriesToMap_def gomap_ok_def)

lemma CommitProof_roundtrip: "gomap_ok (cp_Proofs p) \<Longrightarrow> ToCommitProof (toJSONCommitProof p) = p"
  by (cases p) (simp add: ToCommitProof_def toJSONCommitProof_def entriesToMap_entries)

lemma record_etas [simp]:
  "\<lparr>User = User a, Driver = Driver a\<rparr> = a"
  "\<lparr>Validators = Validators vs, vs_PubKeyHash = vs_PubKeyHash vs, VotePowerHash = VotePowerHash vs\<rparr> = vs"
  "\<lparr>val_PubKey = val_PubKey v, Power = Power v\<rparr> = v"
  "\<lparr>Hash = Hash h, PrevBlockHash = PrevBlockHash h, h_Height = h_Height h, h_PrevCommitProof = h_PrevCommitProof h,
    h_ValidatorSet = h_ValidatorSet h, NextValidatorSet = NextValidatorSet h, DataID = DataID h,
    PrevAppStateHash = PrevAppStateHash h, h_Annotations = h_Annotations h\<rparr> = h"
  "\<lparr>ph_Header = ph_Header ph, ph_Round = ph_Round ph, ProposerPubKey = ProposerPubKey ph,
    ph_Annotations = ph_Annotations ph, Signature = Signature ph\<rparr> = ph"
  "\<lparr>ch_Header = ch_Header ch, ch_Proof = ch_Proof ch\<rparr> = ch"
  by simp_all

text \<open>What a header needs to be restored: keys that fit into the prefix of the registry, and a map, which is a list of entries with distinct keys.\<close>

definition header_ok :: "Registry \<Rightarrow> Header \<Rightarrow> bool" where
  "header_ok reg h \<longleftrightarrow> (\<forall>v \<in> set (Validators (h_ValidatorSet h)) \<union> set (Validators (NextValidatorSet h)). storable reg (val_PubKey v)) \<and>
     gomap_ok (cp_Proofs (h_PrevCommitProof h))"

lemma validators_roundtrip:
  assumes "\<forall>v \<in> set vs. storable reg (val_PubKey v)"
  obtains js where "gomapM (\<lambda>v. toJSONValidator v reg) vs = Ret js" "gotrymap (\<lambda>jv. ToValidator jv reg) js = Ret (Inr vs)"
proof -
  have "\<exists>y. toJSONValidator v reg = Ret y \<and> ToValidator y reg = Ret (Inr v)" if "v \<in> set vs" for v
  proof -
    have "restores reg (val_PubKey v)" using storable_restores assms that by blast
    then obtain b where "Registry_Marshal reg (val_PubKey v) = Ret b" "Registry_Unmarshal reg b = Ret (Inr (val_PubKey v))"
      by (rule restoresE)
    then show ?thesis by (simp add: toJSONValidator_def ToValidator_def)
  qed
  then show thesis using gomapM_roundtrip[of vs "\<lambda>v. toJSONValidator v reg" "\<lambda>jv. ToValidator jv reg"] that by blast
qed

lemma Header_roundtrip:
  assumes "header_ok reg h"
  obtains jh where "toJSONHeader h reg = Ret jh" "ToHeader jh reg = Ret (Inr h)"
proof -
  obtain j1 where 1: "gomapM (\<lambda>v. toJSONValidator v reg) (Validators (h_ValidatorSet h)) = Ret j1"
    "gotrymap (\<lambda>jv. ToValidator jv reg) j1 = Ret (Inr (Validators (h_ValidatorSet h)))"
    using validators_roundtrip[of "Validators (h_ValidatorSet h)" reg] assms by (auto simp: header_ok_def)
  obtain j2 where 2: "gomapM (\<lambda>v. toJSONValidator v reg) (Validators (NextValidatorSet h)) = Ret j2"
    "gotrymap (\<lambda>jv. ToValidator jv reg) j2 = Ret (Inr (Validators (NextValidatorSet h)))"
    using validators_roundtrip[of "Validators (NextValidatorSet h)" reg] assms by (auto simp: header_ok_def)
  define jh where "jh = \<lparr>jh_Hash = Hash h, jh_PrevBlockHash = PrevBlockHash h, jh_Height = h_Height h,
      jh_PrevCommitProof = toJSONCommitProof (h_PrevCommitProof h),
      jh_ValidatorSet = \<lparr>jvs_Validators = j1, jvs_PubKeyHash = vs_PubKeyHash (h_ValidatorSet h), jvs_VotePowerHash = VotePowerHash (h_ValidatorSet h)\<rparr>,
      jh_NextValidatorSet = \<lparr>jvs_Validators = j2, jvs_PubKeyHash = vs_PubKeyHash (NextValidatorSet h), jvs_VotePowerHash = VotePowerHash (NextValidatorSet h)\<rparr>,
      jh_DataID = DataID h, jh_PrevAppStateHash = PrevAppStateHash h,
      jh_UserAnnotation = User (h_Annotations h), jh_DriverAnnotation = Driver (h_Annotations h)\<rparr>"
  have "toJSONHeader h reg = Ret jh" using 1(1) 2(1) by (simp add: toJSONHeader_def jh_def)
  moreover have "jcp_PubKeyHash (toJSONCommitProof (h_PrevCommitProof h)) \<noteq> None" by (simp add: toJSONCommitProof_def)
  then have "ToHeader jh reg = Ret (Inr h)"
    using 1(2) 2(2) assms CommitProof_roundtrip[of "h_PrevCommitProof h"] by (simp add: ToHeader_def header_ok_def jh_def)
  ultimately show thesis by (rule that)
qed

definition proposed_ok :: "Registry \<Rightarrow> ProposedHeader \<Rightarrow> bool" where
  "proposed_ok reg ph \<longleftrightarrow> header_ok reg (ph_Header ph) \<and> (case ProposerPubKey ph of None \<Rightarrow> True | Some k \<Rightarrow> storable reg k)"

lemma ProposedHeader_roundtrip:
  assumes "proposed_ok reg ph"
  obtains jph where "toJSONProposedHeader ph reg = Ret jph" "ToProposedHeader jph reg = Ret (Inr ph)"
proof -
  obtain jh where jh: "toJSONHeader (ph_Header ph) reg = Ret jh" "ToHeader jh reg = Ret (Inr (ph_Header ph))"
    using Header_roundtrip assms by (auto simp: proposed_ok_def)
  show thesis
  proof (cases "ProposerPubKey ph")
    case None
    then show thesis using jh record_etas(5)[of ph]
      by (intro that[of "\<lparr>jph_Header = jh, jph_Round = ph_Round ph, jph_ProposerPubKey = None, jph_Signature = Signature ph,
          jph_UserAnnotation = User (ph_Annotations ph), jph_DriverAnnotation = Driver (ph_Annotations ph)\<rparr>"])
         (simp_all add: toJSONProposedHeader_def ToProposedHeader_def Let_def)
  next
    case (Some k)
    then obtain b where "Registry_Marshal reg k = Ret b" "Registry_Unmarshal reg b = Ret (Inr k)"
      using assms by (auto simp: proposed_ok_def elim: restoresE[OF storable_restores])
    with Some jh show thesis using record_etas(5)[of ph]
      by (intro that[of "\<lparr>jph_Header = jh, jph_Round = ph_Round ph, jph_ProposerPubKey = Some b, jph_Signature = Signature ph,
          jph_UserAnnotation = User (ph_Annotations ph), jph_DriverAnnotation = Driver (ph_Annotations ph)\<rparr>"])
         (simp_all add: toJSONProposedHeader_def ToProposedHeader_def Let_def)
  qed
qed

lemma insort_key_map: "insort_key f (g x) (map g xs) = map g (insort_key (\<lambda>x. f (g x)) x xs)"
  by (induction xs) auto

lemma sort_key_map: "sort_key f (map g xs) = map g (sort_key (\<lambda>x. f (g x)) xs)"
  by (induction xs) (simp_all add: insort_key_map)

text \<open>The entries of a vote in the order in which they are sent.\<close>

definition sortedVotes :: "SparseVoteProof \<Rightarrow> SparseVoteProof" where
  "sortedVotes p = p\<lparr>svp_Proofs := sort_key fst (svp_Proofs p)\<rparr>"

lemma sortedVotes_same:
  assumes "gomap_ok (svp_Proofs p)"
  shows "gomap_ok (svp_Proofs (sortedVotes p))" "map_of (svp_Proofs (sortedVotes p)) = map_of (svp_Proofs p)"
proof -
  have "distinct (map fst (sort_key fst (svp_Proofs p)))"
    using assms by (simp add: gomap_ok_def distinct_map)
  then show "gomap_ok (svp_Proofs (sortedVotes p))" "map_of (svp_Proofs (sortedVotes p)) = map_of (svp_Proofs p)"
    using assms by (simp_all add: gomap_ok_def sortedVotes_def map_of_inject_set)
qed

lemma sortedVotes_unique:
  assumes "gomap_ok (svp_Proofs p)" "gomap_ok (svp_Proofs q)" "map_of (svp_Proofs p) = map_of (svp_Proofs q)"
  shows "sort_key fst (svp_Proofs p) = sort_key fst (svp_Proofs q)"
proof (rule sort_key_inj_key_eq)
  have "set (svp_Proofs p) = set (svp_Proofs q)" using assms by (simp add: gomap_ok_def map_of_inject_set)
  moreover have "distinct (svp_Proofs p)" "distinct (svp_Proofs q)" using assms by (simp_all add: gomap_ok_def distinct_map)
  ultimately show "mset (svp_Proofs p) = mset (sort_key fst (svp_Proofs q))" by (simp add: set_eq_iff_mset_eq_distinct)
  show "inj_on fst (set (svp_Proofs p))" using assms(1) by (simp add: gomap_ok_def distinct_map)
qed simp

lemma sorted_entries:
  "sort_key je_BlockHash (map (\<lambda>(h, sigs). \<lparr>je_BlockHash = h, je_Signatures = sigs\<rparr>) m) =
   map (\<lambda>(h, sigs). \<lparr>je_BlockHash = h, je_Signatures = sigs\<rparr>) (sort_key fst m)"
  unfolding sort_key_map by (rule arg_cong2[where f = map]) (auto intro!: arg_cong[where f = "\<lambda>f. sort_key f m"])

context json_lib
begin

lemma vote_roundtrip:
  assumes "gomap_ok (svp_Proofs p)"
  shows "\<exists>b. MarshalPrevoteProof J p = Inr b \<and> UnmarshalPrevoteProof J b = Inr (sortedVotes p)"
    "\<exists>b. MarshalPrecommitProof J p = Inr b \<and> UnmarshalPrecommitProof J b = Inr (sortedVotes p)"
proof -
  define x where "x = \<lparr>jsp_Height = svp_Height p, jsp_Round = svp_Round p, jsp_PubKeyHash = svp_PubKeyHash p,
      jsp_Proofs = map (\<lambda>(h, sigs). \<lparr>je_BlockHash = h, je_Signatures = sigs\<rparr>) (sort_key fst (svp_Proofs p))\<rparr>"
  obtain b where b: "json_Marshal (js_SparseProof J) x = Inr b" "json_Unmarshal (js_SparseProof J) b = Inr x"
    using json_restoresE[OF restores_SparseProof] .
  have m: "entriesToMap (jsp_Proofs x) = sort_key fst (svp_Proofs p)"
    using sortedVotes_same(1)[OF assms] by (simp add: x_def entriesToMap_entries sortedVotes_def)
  show "\<exists>b. MarshalPrevoteProof J p = Inr b \<and> UnmarshalPrevoteProof J b = Inr (sortedVotes p)"
    "\<exists>b. MarshalPrecommitProof J p = Inr b \<and> UnmarshalPrecommitProof J b = Inr (sortedVotes p)"
    using b m by (simp_all add: MarshalPrevoteProof_def UnmarshalPrevoteProof_def MarshalPrecommitProof_def UnmarshalPrecommitProof_def
        sorted_entries sortedVotes_def x_def)
qed

lemma header_codec_roundtrip:
  assumes "header_ok reg h"
  shows "\<exists>b. MarshalHeader J reg h = Ret (Inr b) \<and> UnmarshalHeader J reg b = Ret (Inr h)"
proof -
  obtain jh where jh: "toJSONHeader h reg = Ret jh" "ToHeader jh reg = Ret (Inr h)" using Header_roundtrip[OF assms] .
  obtain b where "json_Marshal (js_Header J) jh = Inr b" "json_Unmarshal (js_Header J) b = Inr jh"
    using json_restoresE[OF restores_Header] .
  with jh show ?thesis by (simp add: MarshalHeader_def UnmarshalHeader_def)
qed

lemma proposed_codec_roundtrip:
  assumes "proposed_ok reg ph"
  shows "\<exists>b. MarshalProposedHeader J reg ph = Ret (Inr b) \<and> UnmarshalProposedHeader J reg b = Ret (Inr ph)"
proof -
  obtain jph where jph: "toJSONProposedHeader ph reg = Ret jph" "ToProposedHeader jph reg = Ret (Inr ph)" using ProposedHeader_roundtrip[OF assms] .
  obtain b where "json_Marshal (js_ProposedHeader J) jph = Inr b" "json_Unmarshal (js_ProposedHeader J) b = Inr jph"
    using json_restoresE[OF restores_ProposedHeader] .
  with jph show ?thesis by (simp add: MarshalProposedHeader_def UnmarshalProposedHeader_def)
qed

lemma committed_codec_roundtrip:
  assumes "header_ok reg (ch_Header ch)" "gomap_ok (cp_Proofs (ch_Proof ch))"
  shows "\<exists>b. MarshalCommittedHeader J reg ch = Ret (Inr b) \<and> UnmarshalCommittedHeader J reg b = Ret (Inr ch)"
proof -
  obtain jh where jh: "toJSONHeader (ch_Header ch) reg = Ret jh" "ToHeader jh reg = Ret (Inr (ch_Header ch))" using Header_roundtrip[OF assms(1)] .
  define jch where "jch = \<lparr>jch_Header = jh, jch_Proof = toJSONCommitProof (ch_Proof ch)\<rparr>"
  obtain b where "json_Marshal (js_CommittedHeader J) jch = Inr b" "json_Unmarshal (js_CommittedHeader J) b = Inr jch"
    using json_restoresE[OF restores_CommittedHeader] .
  with jh show ?thesis
    using CommitProof_roundtrip[OF assms(2)]
    by (simp add: MarshalCommittedHeader_def UnmarshalCommittedHeader_def toJSONCommittedHeader_def ToCommittedHeader_def jch_def)
qed

end

text \<open>Messages with one field, as the interface asks for, and the message that arrives: the entries of votes are in order of their hashes.\<close>

definition message_ok :: "Registry \<Rightarrow> ConsensusMessage \<Rightarrow> bool" where
  "message_ok reg m \<longleftrightarrow> (case (cmsg_ProposedHeader m, cmsg_PrevoteProof m, cmsg_PrecommitProof m) of
     (Some ph, None, None) \<Rightarrow> proposed_ok reg ph
   | (None, Some p, None) \<Rightarrow> gomap_ok (svp_Proofs p)
   | (None, None, Some p) \<Rightarrow> gomap_ok (svp_Proofs p)
   | _ \<Rightarrow> False)"

definition arrived :: "ConsensusMessage \<Rightarrow> ConsensusMessage" where
  "arrived m = \<lparr>cmsg_ProposedHeader = cmsg_ProposedHeader m, cmsg_PrevoteProof = map_option sortedVotes (cmsg_PrevoteProof m),
                 cmsg_PrecommitProof = map_option sortedVotes (cmsg_PrecommitProof m)\<rparr>"

abbreviation emptyMessage :: ConsensusMessage where
  "emptyMessage \<equiv> \<lparr>cmsg_ProposedHeader = None, cmsg_PrevoteProof = None, cmsg_PrecommitProof = None\<rparr>"

context json_lib
begin

lemma vote_message_roundtrip:
  assumes p: "gomap_ok (svp_Proofs p)"
    and m: "m = emptyMessage\<lparr>cmsg_PrevoteProof := Some p\<rparr> \<or> m = emptyMessage\<lparr>cmsg_PrecommitProof := Some p\<rparr>"
  shows "\<exists>b. MarshalConsensusMessage J reg m = Ret (Inr b) \<and> UnmarshalConsensusMessage J reg b emptyMessage = Ret (Inr (arrived m))"
proof -
  obtain b1 b2 where b: "MarshalPrevoteProof J p = Inr b1" "UnmarshalPrevoteProof J b1 = Inr (sortedVotes p)"
    "MarshalPrecommitProof J p = Inr b2" "UnmarshalPrecommitProof J b2 = Inr (sortedVotes p)"
    using vote_roundtrip[OF p] by blast
  have t: "json_text J b1" "json_text J b2" using b(1,3) by (auto simp: json_text_def MarshalPrevoteProof_def MarshalPrecommitProof_def)
  obtain c1 where c1: "json_Marshal (js_ConsensusMessage J) \<lparr>jcm_ProposedHeader = None, jcm_PrevoteProof = Some b1, jcm_PrecommitProof = None\<rparr> = Inr c1"
    "json_Unmarshal (js_ConsensusMessage J) c1 = Inr \<lparr>jcm_ProposedHeader = None, jcm_PrevoteProof = Some b1, jcm_PrecommitProof = None\<rparr>"
    using restores_ConsensusMessage[of "\<lparr>jcm_ProposedHeader = None, jcm_PrevoteProof = Some b1, jcm_PrecommitProof = None\<rparr>"] t by (auto simp: raw_messages_def)
  obtain c2 where c2: "json_Marshal (js_ConsensusMessage J) \<lparr>jcm_ProposedHeader = None, jcm_PrevoteProof = None, jcm_PrecommitProof = Some b2\<rparr> = Inr c2"
    "json_Unmarshal (js_ConsensusMessage J) c2 = Inr \<lparr>jcm_ProposedHeader = None, jcm_PrevoteProof = None, jcm_PrecommitProof = Some b2\<rparr>"
    using restores_ConsensusMessage[of "\<lparr>jcm_ProposedHeader = None, jcm_PrevoteProof = None, jcm_PrecommitProof = Some b2\<rparr>"] t by (auto simp: raw_messages_def)
  show ?thesis
    using m b c1 c2 by (elim disjE) (simp_all add: MarshalConsensusMessage_def UnmarshalConsensusMessage_def arrived_def)
qed

lemma header_message_roundtrip:
  assumes ph: "proposed_ok reg ph" and m: "m = emptyMessage\<lparr>cmsg_ProposedHeader := Some ph\<rparr>"
  shows "\<exists>b. MarshalConsensusMessage J reg m = Ret (Inr b) \<and> UnmarshalConsensusMessage J reg b emptyMessage = Ret (Inr m)"
proof -
  obtain b where b: "MarshalProposedHeader J reg ph = Ret (Inr b)" "UnmarshalProposedHeader J reg b = Ret (Inr ph)"
    using proposed_codec_roundtrip[OF ph] by blast
  have t: "json_text J b" using b(1) by (auto simp: json_text_def MarshalProposedHeader_def gobind_Ret_iff)
  obtain c where c: "json_Marshal (js_ConsensusMessage J) \<lparr>jcm_ProposedHeader = Some b, jcm_PrevoteProof = None, jcm_PrecommitProof = None\<rparr> = Inr c"
    "json_Unmarshal (js_ConsensusMessage J) c = Inr \<lparr>jcm_ProposedHeader = Some b, jcm_PrevoteProof = None, jcm_PrecommitProof = None\<rparr>"
    using restores_ConsensusMessage[of "\<lparr>jcm_ProposedHeader = Some b, jcm_PrevoteProof = None, jcm_PrecommitProof = None\<rparr>"] t by (auto simp: raw_messages_def)
  show ?thesis using m b c by (simp add: MarshalConsensusMessage_def UnmarshalConsensusMessage_def)
qed

lemma message_roundtrip:
  assumes "message_ok reg m"
  shows "(\<exists>b. MarshalConsensusMessage J reg m = Ret (Inr b) \<and> UnmarshalConsensusMessage J reg b emptyMessage = Ret (Inr (arrived m))) \<and>
    (\<forall>p. cmsg_PrevoteProof m = Some p \<or> cmsg_PrecommitProof m = Some p \<longrightarrow> map_of (svp_Proofs (sortedVotes p)) = map_of (svp_Proofs p))"
proof -
  obtain x y z where m: "m = \<lparr>cmsg_ProposedHeader = x, cmsg_PrevoteProof = y, cmsg_PrecommitProof = z\<rparr>" by (cases m)
  consider (header) ph where "proposed_ok reg ph" "m = emptyMessage\<lparr>cmsg_ProposedHeader := Some ph\<rparr>"
    | (vote) p where "gomap_ok (svp_Proofs p)" "m = emptyMessage\<lparr>cmsg_PrevoteProof := Some p\<rparr> \<or> m = emptyMessage\<lparr>cmsg_PrecommitProof := Some p\<rparr>"
    using assms unfolding m message_ok_def by (auto split: option.splits)
  then show ?thesis
  proof cases
    case header
    then have "arrived m = m" by (simp add: arrived_def)
    with header_message_roundtrip[OF header] header(2) show ?thesis by simp
  next
    case vote
    with vote_message_roundtrip[OF vote] sortedVotes_same(2)[OF vote(1)] show ?thesis by (elim disjE) simp_all
  qed
qed

end

text \<open>(C14) Consensus messages survive the codec: a proposed header, a prevote or a precommit message that is marshalled and unmarshalled into an empty message is
  the same message, with every field of the header, both validator sets, the previous commit proof and the annotations, where the entries of votes come
  in order of their block hashes and are the same map; committed headers survive likewise. The keys of the validators and of the proposer have to be of a
  type that is registered under a name of at most eight bytes, as ed25519 keys are and BLS keys are not, and \<open>encoding/json\<close> has to
  restore the structs it is given.\<close>

theorem consensus_message_roundtrip:
  assumes "json_lib J" "message_ok reg m"
    and "header_ok reg (ch_Header ch)" "gomap_ok (cp_Proofs (ch_Proof ch))"
  shows "(\<exists>b. MarshalConsensusMessage J reg m = Ret (Inr b) \<and> UnmarshalConsensusMessage J reg b emptyMessage = Ret (Inr (arrived m))) \<and>
    (\<forall>p. cmsg_PrevoteProof m = Some p \<or> cmsg_PrecommitProof m = Some p \<longrightarrow> map_of (svp_Proofs (sortedVotes p)) = map_of (svp_Proofs p)) \<and>
    (\<exists>b. MarshalCommittedHeader J reg ch = Ret (Inr b) \<and> UnmarshalCommittedHeader J reg b = Ret (Inr ch))"
  using json_lib.message_roundtrip[OF assms(1,2)] json_lib.committed_codec_roundtrip[OF assms(1,3,4)] by blast

text \<open>Texts that remember the struct they were made of.\<close>

datatype ref_text = RHeader jsonHeader | RProposed jsonProposedHeader | RCommitted jsonCommittedHeader | RSparse jsonSparseProof
  | RMessage "ref_text option" "ref_text option" "ref_text option"

definition ref_json :: "ref_text json" where
  "ref_json = \<lparr>
     js_Header = \<lparr>json_Marshal = (\<lambda>x. Inr (RHeader x)), json_Unmarshal = (\<lambda>b. case b of RHeader x \<Rightarrow> Inr x | _ \<Rightarrow> Inl (OtherError ''json''))\<rparr>,
     js_ProposedHeader = \<lparr>json_Marshal = (\<lambda>x. Inr (RProposed x)), json_Unmarshal = (\<lambda>b. case b of RProposed x \<Rightarrow> Inr x | _ \<Rightarrow> Inl (OtherError ''json''))\<rparr>,
     js_CommittedHeader = \<lparr>json_Marshal = (\<lambda>x. Inr (RCommitted x)), json_Unmarshal = (\<lambda>b. case b of RCommitted x \<Rightarrow> Inr x | _ \<Rightarrow> Inl (OtherError ''json''))\<rparr>,
     js_SparseProof = \<lparr>json_Marshal = (\<lambda>x. Inr (RSparse x)), json_Unmarshal = (\<lambda>b. case b of RSparse x \<Rightarrow> Inr x | _ \<Rightarrow> Inl (OtherError ''json''))\<rparr>,
     js_ConsensusMessage = \<lparr>json_Marshal = (\<lambda>m. Inr (RMessage (jcm_ProposedHeader m) (jcm_PrevoteProof m) (jcm_PrecommitProof m))),
       json_Unmarshal = (\<lambda>b. case b of RMessage x y z \<Rightarrow> Inr \<lparr>jcm_ProposedHeader = x, jcm_PrevoteProof = y, jcm_PrecommitProof = z\<rparr>
         | _ \<Rightarrow> Inl (OtherError ''json''))\<rparr>\<rparr>"

interpretation ref_json: json_lib ref_json
  by unfold_locales (simp_all add: ref_json_def json_restores_def)

definition ex_codec_header :: Header where
  "ex_codec_header = zeroHeader\<lparr>Hash := ''x'', h_Height := 3,
     h_ValidatorSet := \<lparr>Validators = [\<lparr>val_PubKey = PubKey ''ed25519'' ''k'', Power = 5\<rparr>], vs_PubKeyHash = ''h'', VotePowerHash = ''p''\<rparr>\<rparr>"

definition ex_codec_vote :: SparseVoteProof where
  "ex_codec_vote = \<lparr>svp_Height = 3, svp_Round = 0, svp_PubKeyHash = ''h'',
     svp_Proofs = [(''y'', []), (''x'', [\<lparr>KeyID = PutUint16 0, Sig = ''s''\<rparr>])]\<rparr>"

theorem consensus_message_roundtrip_witness:
  "\<exists>b. MarshalConsensusMessage ref_json (RegisterEd25519 emptyRegistry) (emptyMessage\<lparr>cmsg_PrecommitProof := Some ex_codec_vote\<rparr>) = Ret (Inr b) \<and>
     UnmarshalConsensusMessage ref_json (RegisterEd25519 emptyRegistry) b emptyMessage =
       Ret (Inr (emptyMessage\<lparr>cmsg_PrecommitProof := Some (ex_codec_vote\<lparr>svp_Proofs := rev (svp_Proofs ex_codec_vote)\<rparr>)\<rparr>))"
proof -
  let ?m = "emptyMessage\<lparr>cmsg_PrecommitProof := Some ex_codec_vote\<rparr>"
  let ?ch = "\<lparr>ch_Header = ex_codec_header, ch_Proof = h_PrevCommitProof ex_codec_header\<rparr>"
  have ok: "message_ok (RegisterEd25519 emptyRegistry) ?m" by (simp add: message_ok_def ex_codec_vote_def gomap_ok_def)
  have hok: "header_ok (RegisterEd25519 emptyRegistry) (ch_Header ?ch)"
    using ed25519_storable[of emptyRegistry "''k''"]
    by (simp add: header_ok_def ex_codec_header_def zeroHeader_def zeroCommitProof_def zeroValidatorSet_def ed25519TypeName_def)
  have pok: "gomap_ok (cp_Proofs (ch_Proof ?ch))"
    by (simp add: ex_codec_header_def zeroHeader_def zeroCommitProof_def)
  have "sortedVotes ex_codec_vote = ex_codec_vote\<lparr>svp_Proofs := rev (svp_Proofs ex_codec_vote)\<rparr>"
    unfolding sortedVotes_def ex_codec_vote_def by simp
  then have "arrived ?m = emptyMessage\<lparr>cmsg_PrecommitProof := Some (ex_codec_vote\<lparr>svp_Proofs := rev (svp_Proofs ex_codec_vote)\<rparr>)\<rparr>"
    by (simp add: arrived_def)
  then show ?thesis
    using consensus_message_roundtrip[OF ref_json.json_lib_axioms ok hok pok] by simp
qed

section \<open>Keys that the registry does not restore\<close>

text \<open>The two key types of the repository, registered in either order.\<close>

definition fullRegistry :: "'k p2_points \<Rightarrow> Registry" where
  "fullRegistry P = RegisterBls P (RegisterEd25519 emptyRegistry)"

lemma fullRegistry_order: "RegisterEd25519 (RegisterBls P emptyRegistry) = fullRegistry P"
  by (simp add: fullRegistry_def RegisterBls_def RegisterEd25519_def Registry_Register_def emptyRegistry_def keyTypeName_def ed25519TypeName_def fun_upd_twist)

lemma fullRegistry_Marshal:
  "TypeName k \<in> {ed25519TypeName, keyTypeName} \<Longrightarrow> Registry_Marshal (fullRegistry P) k = Ret (nameHeader (TypeName k) @ PubKeyBytes k)"
  by (auto simp: Registry_Marshal_def fullRegistry_def RegisterBls_def RegisterEd25519_def Registry_Register_def)

lemma fullRegistry_Unmarshal:
  "Registry_Unmarshal (fullRegistry P) (nameHeader ed25519TypeName @ b) = Ret (Inr (PubKey ed25519TypeName b))"
  "Registry_Unmarshal (fullRegistry P) (nameHeader keyTypeName @ b) = Ret (Inl (OtherError ''no registered public key type for prefix''))"
  by (simp_all add: Registry_Unmarshal_def fullRegistry_def RegisterBls_def RegisterEd25519_def Registry_Register_def emptyRegistry_def
      nameHeader_def trimRight_def prefixSize_def ed25519TypeName_def keyTypeName_def NewEd25519PubKey_def)

lemma gomapM_map: "(\<And>x. x \<in> set xs \<Longrightarrow> f x = Ret (F x)) \<Longrightarrow> gomapM f xs = Ret (map F xs)"
  by (induction xs) auto

lemma gotrymap_fails:
  assumes "\<And>x. x \<in> set xs \<Longrightarrow> \<exists>r. g x = Ret r" "\<exists>x \<in> set xs. \<exists>e. g x = Ret (Inl e)"
  shows "\<exists>e. gotrymap g xs = Ret (Inl e)"
  using assms
proof (induction xs)
  case (Cons x xs)
  obtain r where r: "g x = Ret r" using Cons.prems(1)[of x] by auto
  show ?case
  proof (cases r)
    case (Inl e)
    with r show ?thesis by simp
  next
    case (Inr y)
    with r Cons.prems(2) have "\<exists>x \<in> set xs. \<exists>e. g x = Ret (Inl e)" by auto
    then obtain e where "gotrymap g xs = Ret (Inl e)" using Cons by (meson list.set_intros(2))
    with r Inr show ?thesis by simp
  qed
qed simp

text \<open>(C36) Headers with BLS validators do not survive the codec: the type name of BLS keys has ten bytes and the registry keeps eight. With both key types of the
  repository registered, in either order, every header whose validators have keys of these types is marshalled; but when one validator has a BLS key,
  unmarshalling returns an error, although the registry decodes the key by its type name.\<close>

theorem bls_header_not_restored:
  assumes "json_lib J" "\<forall>v \<in> set (Validators (h_ValidatorSet h)) \<union> set (Validators (NextValidatorSet h)). TypeName (val_PubKey v) \<in> {ed25519TypeName, keyTypeName}"
    and "v \<in> set (Validators (h_ValidatorSet h))" "TypeName (val_PubKey v) = keyTypeName"
    and "reg \<in> {RegisterBls P (RegisterEd25519 emptyRegistry), RegisterEd25519 (RegisterBls P emptyRegistry)}"
  shows "(\<exists>b e. MarshalHeader J reg h = Ret (Inr b) \<and> UnmarshalHeader J reg b = Ret (Inl e)) \<and>
    Registry_Decode reg (TypeName (val_PubKey v)) (PubKeyBytes (val_PubKey v)) = NewBlsPubKey P (PubKeyBytes (val_PubKey v))"
proof -
  have reg: "reg = fullRegistry P" using assms(5) fullRegistry_order[of P] by (auto simp: fullRegistry_def)
  define F where "F v = \<lparr>jv_PubKey = nameHeader (TypeName (val_PubKey v)) @ PubKeyBytes (val_PubKey v), jv_Power = Power v\<rparr>" for v :: Validator
  have to: "gomapM (\<lambda>v. toJSONValidator v reg) vs = Ret (map F vs)"
    if "set vs \<subseteq> set (Validators (h_ValidatorSet h)) \<union> set (Validators (NextValidatorSet h))" for vs
  proof (rule gomapM_map)
    fix v assume "v \<in> set vs"
    with that assms(2) have "TypeName (val_PubKey v) \<in> {ed25519TypeName, keyTypeName}" by blast
    then show "toJSONValidator v reg = Ret (F v)" by (simp add: toJSONValidator_def F_def reg fullRegistry_Marshal)
  qed
  obtain jh where jh: "toJSONHeader h reg = Ret jh" "jvs_Validators (jh_ValidatorSet jh) = map F (Validators (h_ValidatorSet h))"
    using to[of "Validators (h_ValidatorSet h)"] to[of "Validators (NextValidatorSet h)"] by (simp add: toJSONHeader_def)
  have "\<exists>e. gotrymap (\<lambda>jv. ToValidator jv reg) (map F (Validators (h_ValidatorSet h))) = Ret (Inl e)"
  proof (rule gotrymap_fails)
    fix x assume "x \<in> set (map F (Validators (h_ValidatorSet h)))"
    then obtain u where "x = F u" "TypeName (val_PubKey u) \<in> {ed25519TypeName, keyTypeName}" using assms(2) by auto
    then show "\<exists>r. ToValidator x reg = Ret r"
      by (auto simp: ToValidator_def F_def reg fullRegistry_Unmarshal)
  next
    have "ToValidator (F v) reg = Ret (Inl (OtherError ''no registered public key type for prefix''))"
      using assms(4) by (simp add: ToValidator_def F_def reg fullRegistry_Unmarshal)
    with assms(3) show "\<exists>x \<in> set (map F (Validators (h_ValidatorSet h))). \<exists>e. ToValidator x reg = Ret (Inl e)" by auto
  qed
  then obtain e where "ToHeader jh reg = Ret (Inl e)" using jh(2) by (auto simp: ToHeader_def)
  moreover obtain b where "json_Marshal (js_Header J) jh = Inr b" "json_Unmarshal (js_Header J) b = Inr jh"
    using json_restoresE[OF json_lib.restores_Header[OF assms(1)]] .
  ultimately have "\<exists>b e. MarshalHeader J reg h = Ret (Inr b) \<and> UnmarshalHeader J reg b = Ret (Inl e)"
    using jh(1) by (simp add: MarshalHeader_def UnmarshalHeader_def)
  moreover have "byPrefix reg keyTypeName = Some (NewBlsPubKey P)" by (simp add: reg fullRegistry_def RegisterBls_def Registry_Register_def)
  ultimately show ?thesis using assms(4) by (simp add: Registry_Decode_def)
qed

definition ref_p2 :: "bytes p2_points" where
  "ref_p2 = \<lparr>P2_COMPRESS_BYTES = 96, P2_Compress = id, P2_Uncompress = Some, P2_KeyValidate = (\<lambda>k. True)\<rparr>"

theorem bls_header_not_restored_witness:
  "\<exists>b e. MarshalHeader ref_json (RegisterEd25519 (RegisterBls ref_p2 emptyRegistry))
       (ex_codec_header\<lparr>h_ValidatorSet := \<lparr>Validators = [\<lparr>val_PubKey = PubKey ''bls-minsig'' (replicate 96 (CHR ''k'')), Power = 1\<rparr>], vs_PubKeyHash = [], VotePowerHash = []\<rparr>\<rparr>) = Ret (Inr b) \<and>
     UnmarshalHeader ref_json (RegisterEd25519 (RegisterBls ref_p2 emptyRegistry)) b = Ret (Inl e)"
proof -
  let ?v = "\<lparr>val_PubKey = PubKey ''bls-minsig'' (replicate 96 (CHR ''k'')), Power = 1\<rparr>"
  let ?h = "ex_codec_header\<lparr>h_ValidatorSet := \<lparr>Validators = [?v], vs_PubKeyHash = [], VotePowerHash = []\<rparr>\<rparr>"
  have "Validators (NextValidatorSet ?h) = []" by (simp add: ex_codec_header_def zeroHeader_def zeroValidatorSet_def)
  then show ?thesis
    using bls_header_not_restored[OF ref_json.json_lib_axioms, of ?h ?v "RegisterEd25519 (RegisterBls ref_p2 emptyRegistry)" ref_p2]
    by (simp add: keyTypeName_def)
qed

end
