(* ===== verification/Gossip.thy ===== *)
theory Gossip
  imports MirrorProps Codec
begin

text \<open>
  The gossip strategy \<open>tm/tmgossip/chattystrategy.go\<close>: what the mirror kernel reports on its gossip channel
  (\<open>NetworkViewUpdate\<close>, in \<open>ViewManagers\<close>) becomes messages to the network. The channels of the
  broadcaster are the list of what was sent; the context is cancelled after a number of sends, from which on
  \<open>SendC\<close> gives up. The bitset method \<open>InPlaceUnion\<close> is the parameter \<open>U\<close>.
\<close>

section \<open>Definitions\<close>

datatype gossip_msg = OutProposedHeader ProposedHeader | OutPrevotes PrevoteSparseProof | OutPrecommits PrecommitSparseProof

record broadcaster =
  cb_room :: nat
  cb_sent :: "gossip_msg list"

definition SendC :: "gossip_msg \<Rightarrow> broadcaster \<Rightarrow> bool \<times> broadcaster" where
  "SendC m s = (if cb_room s = 0 then (False, s) else (True, s\<lparr>cb_room := cb_room s - 1, cb_sent := cb_sent s @ [m]\<rparr>))"

text \<open>\<open>f && g\<close>, and \<open>if !f { return false }\<close> before \<open>g\<close>.\<close>

definition andThen :: "bool \<times> 's \<Rightarrow> ('s \<Rightarrow> bool \<times> 's) \<Rightarrow> bool \<times> 's" where
  "andThen r g = (if fst r then g (snd r) else r)"

fun sendHeaders :: "ProposedHeader list \<Rightarrow> broadcaster \<Rightarrow> bool \<times> broadcaster" where
  "sendHeaders [] s = (True, s)"
| "sendHeaders (ph # phs) s = andThen (SendC (OutProposedHeader ph) s) (sendHeaders phs)"

definition broadcastProposedBlocks :: "'p VersionedRoundView \<Rightarrow> broadcaster \<Rightarrow> bool \<times> broadcaster" where
  "broadcastProposedBlocks view s = sendHeaders (ProposedHeaders view) s"

definition broadcastPrevotes :: "('p, 'b) cmsp \<Rightarrow> 'p VersionedRoundView \<Rightarrow> broadcaster \<Rightarrow> bool \<times> broadcaster" where
  "broadcastPrevotes C view s =
     (if PrevoteProofs view = [] then (True, s)
      else case PrevoteProof_AsSparse C \<lparr>vp_Height = rv_Height view, vp_Round = rv_Round view, vp_Proofs = PrevoteProofs view\<rparr> of
          Inl err \<Rightarrow> (False, s)
        | Inr sparse \<Rightarrow> SendC (OutPrevotes sparse) s)"

definition broadcastPrecommits :: "('p, 'b) cmsp \<Rightarrow> 'p VersionedRoundView \<Rightarrow> broadcaster \<Rightarrow> bool \<times> broadcaster" where
  "broadcastPrecommits C view s =
     (if PrecommitProofs view = [] then (True, s)
      else case PrecommitProof_AsSparse C \<lparr>vp_Height = rv_Height view, vp_Round = rv_Round view, vp_Proofs = PrecommitProofs view\<rparr> of
          Inl err \<Rightarrow> (False, s)
        | Inr sparse \<Rightarrow> SendC (OutPrecommits sparse) s)"

definition broadcastAll :: "('p, 'b) cmsp \<Rightarrow> 'p VersionedRoundView \<Rightarrow> broadcaster \<Rightarrow> bool \<times> broadcaster" where
  "broadcastAll C view s =
     andThen (andThen (broadcastProposedBlocks view s) (broadcastPrevotes C view)) (broadcastPrecommits C view)"

text \<open>The union of the signature bit sets of all proofs, as one of the four loops builds it.\<close>

definition unionBits :: "('p, 'b) cmsp \<Rightarrow> 'b bitset_ops \<Rightarrow> ('b \<Rightarrow> 'b \<Rightarrow> 'b) \<Rightarrow> (bytes, 'p) gomap \<Rightarrow> 'b" where
  "unionBits C B U proofs = fold (\<lambda>(h, p) bs. U bs (cm_SignatureBitSet C p)) proofs (bs_New B 0)"

definition broadcastUpdatesOnly ::
  "('p, 'b) cmsp \<Rightarrow> 'b bitset_ops \<Rightarrow> ('b \<Rightarrow> 'b \<Rightarrow> 'b) \<Rightarrow> 'p VersionedRoundView \<Rightarrow> 'p VersionedRoundView \<Rightarrow> broadcaster \<Rightarrow> bool \<times> broadcaster" where
  "broadcastUpdatesOnly C B U prev cur s =
     andThen (andThen
       (if length (ProposedHeaders cur) \<noteq> length (ProposedHeaders prev) then broadcastProposedBlocks cur s else (True, s))
       (\<lambda>s. if bs_Count B (unionBits C B U (PrevoteProofs cur)) \<noteq> bs_Count B (unionBits C B U (PrevoteProofs prev))
            then broadcastPrevotes C cur s else (True, s)))
       (\<lambda>s. if bs_Count B (unionBits C B U (PrecommitProofs cur)) \<noteq> bs_Count B (unionBits C B U (PrecommitProofs prev))
            then broadcastPrecommits C cur s else (True, s))"

definition broadcastViewDiff ::
  "('p, 'b) cmsp \<Rightarrow> 'b bitset_ops \<Rightarrow> ('b \<Rightarrow> 'b \<Rightarrow> 'b) \<Rightarrow> 'p VersionedRoundView \<Rightarrow> 'p VersionedRoundView \<Rightarrow> broadcaster \<Rightarrow> bool \<times> broadcaster" where
  "broadcastViewDiff C B U prev cur s =
     (if rv_Height cur = rv_Height prev \<and> rv_Round cur = rv_Round prev
      then broadcastUpdatesOnly C B U prev cur s else broadcastAll C cur s)"

text \<open>The local variables of the kernel.\<close>

record 'p chatty_views =
  prevVotingView :: "'p VersionedRoundView"
  prevCommittingView :: "'p VersionedRoundView"
  prevNextRoundView :: "'p VersionedRoundView"

text \<open>A view that is not nil is broadcast and remembered; the kernel returns when that fails.\<close>

definition shareView ::
  "('v \<Rightarrow> broadcaster \<Rightarrow> bool \<times> broadcaster) \<Rightarrow> ('v \<Rightarrow> 'l \<Rightarrow> 'l) \<Rightarrow> 'v option \<Rightarrow> bool \<times> 'l \<times> broadcaster \<Rightarrow> bool \<times> 'l \<times> broadcaster" where
  "shareView cast upd view r = (case (r, view) of
     ((True, l, s), Some v) \<Rightarrow> (case cast v s of (ok, s') \<Rightarrow> (ok, if ok then upd v l else l, s'))
   | _ \<Rightarrow> r)"

text \<open>The first update; its \<open>NilVotedRound\<close> is not looked at.\<close>

definition chatty_first ::
  "('p, 'b) cmsp \<Rightarrow> 'p NetworkViewUpdate \<Rightarrow> broadcaster \<Rightarrow> (bool \<times> 'p chatty_views \<times> broadcaster) go" where
  "chatty_first C u s =
     (if nvu_Voting u = None then Panic ''TODO: handle nil voting view on first update''
      else Ret (shareView (broadcastAll C) (\<lambda>v l. l\<lparr>prevNextRoundView := v\<rparr>) (nvu_NextRound u)
             (shareView (broadcastAll C) (\<lambda>v l. l\<lparr>prevCommittingView := v\<rparr>) (nvu_Committing u)
             (shareView (broadcastAll C) (\<lambda>v l. l\<lparr>prevVotingView := v\<rparr>) (nvu_Voting u)
               (True, \<lparr>prevVotingView = zeroVRV, prevCommittingView = zeroVRV, prevNextRoundView = zeroVRV\<rparr>, s)))))"

definition chatty_update ::
  "('p, 'b) cmsp \<Rightarrow> 'b bitset_ops \<Rightarrow> ('b \<Rightarrow> 'b \<Rightarrow> 'b) \<Rightarrow> 'p NetworkViewUpdate \<Rightarrow> 'p chatty_views \<Rightarrow> broadcaster \<Rightarrow>
   bool \<times> 'p chatty_views \<times> broadcaster" where
  "chatty_update C B U u l s =
     shareView (broadcastViewDiff C B U (prevNextRoundView l)) (\<lambda>v l. l\<lparr>prevNextRoundView := v\<rparr>) (nvu_NextRound u)
     (shareView (broadcastViewDiff C B U (prevVotingView l)) (\<lambda>v l. l\<lparr>prevVotingView := v\<rparr>) (nvu_Voting u)
     (shareView (broadcastPrecommits C) (\<lambda>v l. l) (nvu_NilVotedRound u)
     (shareView (broadcastViewDiff C B U (prevCommittingView l)) (\<lambda>v l. l\<lparr>prevCommittingView := v\<rparr>) (nvu_Committing u)
       (True, l, s))))"

fun chatty_loop ::
  "('p, 'b) cmsp \<Rightarrow> 'b bitset_ops \<Rightarrow> ('b \<Rightarrow> 'b \<Rightarrow> 'b) \<Rightarrow> 'p NetworkViewUpdate list \<Rightarrow> bool \<times> 'p chatty_views \<times> broadcaster \<Rightarrow>
   bool \<times> 'p chatty_views \<times> broadcaster" where
  "chatty_loop C B U [] r = r"
| "chatty_loop C B U (u # us) (ok, l, s) = (if ok then chatty_loop C B U us (chatty_update C B U u l s) else (ok, l, s))"

text \<open>The kernel on the updates it receives before it waits for another; the flag tells that it still runs.\<close>

definition chatty_kernel ::
  "('p, 'b) cmsp \<Rightarrow> 'b bitset_ops \<Rightarrow> ('b \<Rightarrow> 'b \<Rightarrow> 'b) \<Rightarrow> 'p NetworkViewUpdate list \<Rightarrow> broadcaster \<Rightarrow> (bool \<times> broadcaster) go" where
  "chatty_kernel C B U us s = (case us of
     [] \<Rightarrow> Ret (True, s)
   | u # us' \<Rightarrow> gobind (chatty_first C u s) (\<lambda>r. Ret (case chatty_loop C B U us' r of (ok, l, s') \<Rightarrow> (ok, s'))))"

section \<open>What is sent when the context is not cancelled\<close>

definition delivers :: "(broadcaster \<Rightarrow> bool \<times> broadcaster) \<Rightarrow> gossip_msg list \<Rightarrow> bool" where
  "delivers f ms \<longleftrightarrow> (\<forall>s. length ms \<le> cb_room s \<longrightarrow>
     f s = (True, s\<lparr>cb_room := cb_room s - length ms, cb_sent := cb_sent s @ ms\<rparr>))"

lemma delivers_nothing: "delivers (Pair True) []"
  by (simp add: delivers_def)

lemma delivers_SendC: "delivers (SendC m) [m]"
  by (simp add: delivers_def SendC_def)

lemma delivers_andThen:
  assumes "delivers f ms" "delivers g ns"
  shows "delivers (\<lambda>s. andThen (f s) g) (ms @ ns)"
  using assms by (simp add: delivers_def andThen_def)

lemma delivers_if: "(b \<Longrightarrow> delivers f ms) \<Longrightarrow> delivers (\<lambda>s. if b then f s else (True, s)) (if b then ms else [])"
  using delivers_nothing by (cases b) (simp_all add: delivers_def)

lemma delivers_headers: "delivers (broadcastProposedBlocks view) (map OutProposedHeader (ProposedHeaders view))"
proof -
  have "delivers (sendHeaders phs) (map OutProposedHeader phs)" for phs
  proof (induction phs)
    case Nil
    then show ?case by (simp add: delivers_def)
  next
    case (Cons ph phs)
    from delivers_andThen[OF delivers_SendC[of "OutProposedHeader ph"] this] show ?case by (simp add: delivers_def)
  qed
  then show ?thesis by (simp add: delivers_def broadcastProposedBlocks_def)
qed

section \<open>The votes that are sent\<close>

definition keysOf :: "('p, 'm) RoundView_scheme \<Rightarrow> PubKey list" where
  "keysOf v = ValidatorsToPubKeys (Validators (rv_ValidatorSet v))"

definition sparseOf :: "'b SimpleProof VersionedRoundView \<Rightarrow> (bytes, 'b SimpleProof) gomap \<Rightarrow> SparseVoteProof" where
  "sparseOf v proofs = \<lparr>svp_Height = rv_Height v, svp_Round = rv_Round v, svp_PubKeyHash = vs_PubKeyHash (rv_ValidatorSet v),
     svp_Proofs = map (\<lambda>e. (fst e, ssp_Signatures (simple_AsSparse (snd e)))) proofs\<rparr>"

lemma AsSparse_ok:
  assumes "vote_map_ok V bits sb (rv_Height v) (rv_Round v) keys (vs_PubKeyHash (rv_ValidatorSet v)) proofs" "proofs \<noteq> []"
  shows "PrevoteProof_AsSparse (SimpleScheme V B) \<lparr>vp_Height = rv_Height v, vp_Round = rv_Round v, vp_Proofs = proofs\<rparr> = Inr (sparseOf v proofs)"
    "PrecommitProof_AsSparse (SimpleScheme V B) \<lparr>vp_Height = rv_Height v, vp_Round = rv_Round v, vp_Proofs = proofs\<rparr> = Inr (sparseOf v proofs)"
proof -
  have d: "distinct (map fst ([] @ proofs))" using assms by (simp add: vote_map_ok_def gomap_ok_def)
  have k: "sp_keyHash p = vs_PubKeyHash (rv_ValidatorSet v)" if "(h, p) \<in> set proofs" for h p
    using assms(1) that by (auto simp: vote_map_ok_def)
  note first = firstPubKeyHash_ok[OF assms, of B]
  show "PrevoteProof_AsSparse (SimpleScheme V B) \<lparr>vp_Height = rv_Height v, vp_Round = rv_Round v, vp_Proofs = proofs\<rparr> = Inr (sparseOf v proofs)"
    unfolding PrevoteProof_AsSparse_def Let_def VoteProof.simps first
    by (subst errfold_store[OF d, of _ "\<lambda>e. ssp_Signatures (simple_AsSparse (snd e))", simplified]) (auto simp: k sparseOf_def)
  show "PrecommitProof_AsSparse (SimpleScheme V B) \<lparr>vp_Height = rv_Height v, vp_Round = rv_Round v, vp_Proofs = proofs\<rparr> = Inr (sparseOf v proofs)"
    unfolding PrecommitProof_AsSparse_def Let_def VoteProof.simps first
    by (subst errfold_store[OF d, of _ "\<lambda>e. ssp_Signatures (simple_AsSparse (snd e))", simplified]) (auto simp: k sparseOf_def)
qed

text \<open>A receiver finds in the sparse form exactly the signers of the proof.\<close>

lemma valid_votes_AsSparse:
  assumes inv: "simple_inv V bits p" and exact: "simple_exact bits p"
    and dist: "distinct (map PubKeyBytes (sp_keys p))" and len: "length (sp_keys p) \<le> 65536"
  shows "valid_votes V (sp_keys p) (sp_msg p) (ssp_Signatures (simple_AsSparse p)) = bits (sp_bitset p)"
proof -
  have idxs: "sp_keyIdxs p = keyIndexes (sp_keys p)" using inv by (simp add: simple_inv_def)
  have entry: "length (KeyID (sparse_entry p e)) = 2 \<and> sparse_index (sparse_entry p e) < length (sp_keys p) \<and>
      V (sp_keys p ! sparse_index (sparse_entry p e)) (sp_msg p) (Sig (sparse_entry p e)) \<and>
      sp_keyIdxs p (PubKeyBytes (snd e)) = Some (sparse_index (sparse_entry p e))" if e: "e \<in> set (sp_sigs p)" for e
  proof -
    have "snd e \<in> set (sp_keys p)" "V (snd e) (sp_msg p) (fst e)" using e exact inv by (auto simp: simple_exact_def simple_inv_def)
    then show ?thesis using sparse_entry_index[OF idxs dist len, of "snd e" "fst e"] by (simp add: sparse_entry_def)
  qed
  have "valid_votes V (sp_keys p) (sp_msg p) (ssp_Signatures (simple_AsSparse p)) = (\<lambda>e. sparse_index (sparse_entry p e)) ` set (sp_sigs p)"
    using entry by (auto simp: valid_votes_def simple_AsSparse_entries)
  also have "\<dots> = {i. \<exists>e \<in> set (sp_sigs p). sp_keyIdxs p (PubKeyBytes (snd e)) = Some i}"
    using entry by (force simp: image_iff)
  also have "\<dots> = bits (sp_bitset p)"
    using exact by (auto simp: simple_exact_def case_prod_unfold)
  finally show ?thesis .
qed

definition announced ::
  "verifier \<Rightarrow> PubKey list \<Rightarrow> bytes \<Rightarrow> (SparseVoteProof \<Rightarrow> gossip_msg) \<Rightarrow> u64 \<Rightarrow> u32 \<Rightarrow> bytes \<Rightarrow> gossip_msg list \<Rightarrow> nat set" where
  "announced V keys msg mk ht rnd h sent = {i. \<exists>m sigs. mk m \<in> set sent \<and> svp_Height m = ht \<and> svp_Round m = rnd \<and>
     map_of (svp_Proofs m) h = Some sigs \<and> i \<in> valid_votes V keys msg sigs}"

lemma announced_mono: "set a \<subseteq> set b \<Longrightarrow> announced V keys msg mk ht rnd h a \<subseteq> announced V keys msg mk ht rnd h b"
  unfolding announced_def by blast

lemma map_of_map_values: "map_of (map (\<lambda>e. (fst e, f (snd e))) m) h = map_option f (map_of m h)"
  by (induction m) auto

lemma announced_sparseOf:
  assumes ok: "vote_map_ok V bits sb (rv_Height v) (rv_Round v) (keysOf v) (vs_PubKeyHash (rv_ValidatorSet v)) proofs"
    and m: "mk (sparseOf v proofs) \<in> set sent"
    and msg: "sb \<lparr>vt_Height = rv_Height v, vt_Round = rv_Round v, vt_BlockHash = h\<rparr> = Inr msg"
  shows "signers_of bits proofs h \<subseteq> announced V (keysOf v) msg mk (rv_Height v) (rv_Round v) h sent"
proof (cases "map_of proofs h")
  case None
  then show ?thesis by (simp add: signers_of_def)
next
  case (Some p)
  then have "(h, p) \<in> set proofs" by (rule map_of_SomeD)
  then have p: "simple_inv V bits p" "simple_exact bits p" "sp_keys p = keysOf v" "sp_msg p = msg"
    "distinct (map PubKeyBytes (sp_keys p))" "length (sp_keys p) \<le> 65536"
    using ok msg by (auto simp: vote_map_ok_def)
  have "valid_votes V (keysOf v) msg (ssp_Signatures (simple_AsSparse p)) = bits (sp_bitset p)"
    using valid_votes_AsSparse[OF p(1,2,5,6)] p by simp
  moreover have "map_of (svp_Proofs (sparseOf v proofs)) h = Some (ssp_Signatures (simple_AsSparse p))"
    using Some map_of_map_values[of "\<lambda>p. ssp_Signatures (simple_AsSparse p)" proofs h] by (simp add: sparseOf_def)
  ultimately show ?thesis using Some m by (fastforce simp: announced_def signers_of_def sparseOf_def)
qed

section \<open>Nothing is left unsaid\<close>

definition single_votes :: "('b \<Rightarrow> nat set) \<Rightarrow> (bytes, 'b SimpleProof) gomap \<Rightarrow> bool" where
  "single_votes bits proofs \<longleftrightarrow> (\<forall>h h'. signers_of bits proofs h \<inter> signers_of bits proofs h' \<noteq> {} \<longrightarrow> h = h')"

lemma unionBits_signers:
  assumes lib: "bitset_lib B bits" and U: "\<And>a b. bits (U a b) = bits a \<union> bits b" and ok: "gomap_ok proofs"
  shows "bits (unionBits (SimpleScheme V B) B U proofs) = (\<Union>h. signers_of bits proofs h)"
proof -
  have "bits (fold (\<lambda>(h, p) bs. U bs (cm_SignatureBitSet (SimpleScheme V B) p)) ps b) = bits b \<union> (\<Union>(h, p) \<in> set ps. bits (sp_bitset p))" for ps :: "(bytes, _) gomap" and b
    by (induction ps arbitrary: b) (auto simp: U)
  then have "bits (unionBits (SimpleScheme V B) B U proofs) = (\<Union>(h, p) \<in> set proofs. bits (sp_bitset p))"
    using bitset_lib.bits_New[OF lib] by (simp add: unionBits_def)
  also have "\<dots> = (\<Union>h. signers_of bits proofs h)"
  proof (intro equalityI subsetI)
    fix i
    assume "i \<in> (\<Union>(h, p) \<in> set proofs. bits (sp_bitset p))"
    then obtain h p where "(h, p) \<in> set proofs" "i \<in> bits (sp_bitset p)" by auto
    then have "i \<in> signers_of bits proofs h" using ok by (simp add: gomap_ok_def signers_of_def)
    then show "i \<in> (\<Union>h. signers_of bits proofs h)" by blast
  next
    fix i
    assume "i \<in> (\<Union>h. signers_of bits proofs h)"
    then obtain h p where "map_of proofs h = Some p" "i \<in> bits (sp_bitset p)" by (auto simp: signers_of_def split: option.splits)
    then show "i \<in> (\<Union>(h, p) \<in> set proofs. bits (sp_bitset p))" using map_of_SomeD by fastforce
  qed
  finally show ?thesis .
qed

lemma same_count_same_votes:
  assumes lib: "bitset_lib B bits" and U: "\<And>a b. bits (U a b) = bits a \<union> bits b" and ok: "gomap_ok prev" "gomap_ok cur"
    and grows: "\<And>h. signers_of bits prev h \<subseteq> signers_of bits cur h" and single: "single_votes bits cur"
    and count: "bs_Count B (unionBits (SimpleScheme V B) B U cur) = bs_Count B (unionBits (SimpleScheme V B) B U prev)"
  shows "signers_of bits cur h = signers_of bits prev h"
proof (intro equalityI subsetI)
  let ?all = "\<lambda>m. bits (unionBits (SimpleScheme V B) B U m)"
  note un = unionBits_signers[OF lib U ok(1), of V] unionBits_signers[OF lib U ok(2), of V]
  have "?all prev \<subseteq> ?all cur" using grows unfolding un by blast
  moreover have "card (?all cur) = card (?all prev)" using count bitset_lib.Count_eq[OF lib] by metis
  ultimately have same: "?all prev = ?all cur" using bitset_lib.finite_bits[OF lib] by (intro card_subset_eq) simp_all
  fix i
  assume i: "i \<in> signers_of bits cur h"
  then obtain h' where h': "i \<in> signers_of bits prev h'" using same unfolding un by blast
  then have "signers_of bits cur h \<inter> signers_of bits cur h' \<noteq> {}" using i grows[of h'] by blast
  then have "h = h'" using single unfolding single_votes_def by blast
  with h' show "i \<in> signers_of bits prev h" by simp
next
  fix i
  assume "i \<in> signers_of bits prev h"
  then show "i \<in> signers_of bits cur h" using grows by blast
qed

text \<open>A view as the engine builds it: its proofs are for its own height, round and validators, and no validator has voted twice.\<close>

definition gossip_view :: "verifier \<Rightarrow> ('b \<Rightarrow> nat set) \<Rightarrow> signature_scheme \<Rightarrow> 'b SimpleProof VersionedRoundView \<Rightarrow> bool" where
  "gossip_view V bits S v \<longleftrightarrow> rv_Height v \<noteq> 0 \<and>
     vote_map_ok V bits (\<lambda>vt. PrevoteSignBytes vt S) (rv_Height v) (rv_Round v) (keysOf v) (vs_PubKeyHash (rv_ValidatorSet v)) (PrevoteProofs v) \<and>
     vote_map_ok V bits (\<lambda>vt. PrecommitSignBytes vt S) (rv_Height v) (rv_Round v) (keysOf v) (vs_PubKeyHash (rv_ValidatorSet v)) (PrecommitProofs v) \<and>
     single_votes bits (PrevoteProofs v) \<and> single_votes bits (PrecommitProofs v)"

lemma gossip_viewD:
  assumes "gossip_view V bits S v"
  shows "vote_map_ok V bits (\<lambda>vt. PrevoteSignBytes vt S) (rv_Height v) (rv_Round v) (keysOf v) (vs_PubKeyHash (rv_ValidatorSet v)) (PrevoteProofs v)"
    "vote_map_ok V bits (\<lambda>vt. PrecommitSignBytes vt S) (rv_Height v) (rv_Round v) (keysOf v) (vs_PubKeyHash (rv_ValidatorSet v)) (PrecommitProofs v)"
    "single_votes bits (PrevoteProofs v)" "single_votes bits (PrecommitProofs v)" "rv_Height v \<noteq> 0"
    "gomap_ok (PrevoteProofs v)" "gomap_ok (PrecommitProofs v)"
  using assms by (simp_all add: gossip_view_def vote_map_ok_def)

text \<open>A later view of the same round has everything an earlier one has.\<close>

definition view_grows :: "('b \<Rightarrow> nat set) \<Rightarrow> 'b SimpleProof VersionedRoundView \<Rightarrow> 'b SimpleProof VersionedRoundView \<Rightarrow> bool" where
  "view_grows bits prev cur \<longleftrightarrow> (rv_Height cur = rv_Height prev \<and> rv_Round cur = rv_Round prev \<longrightarrow>
     rv_ValidatorSet cur = rv_ValidatorSet prev \<and> ProposedHeaders prev = take (length (ProposedHeaders prev)) (ProposedHeaders cur) \<and>
     (\<forall>h. signers_of bits (PrevoteProofs prev) h \<subseteq> signers_of bits (PrevoteProofs cur) h) \<and>
     (\<forall>h. signers_of bits (PrecommitProofs prev) h \<subseteq> signers_of bits (PrecommitProofs cur) h))"

text \<open>The votes of a view, or all of it, have been sent.\<close>

definition told_votes ::
  "verifier \<Rightarrow> ('b \<Rightarrow> nat set) \<Rightarrow> (VoteTarget \<Rightarrow> go_error + bytes) \<Rightarrow> (SparseVoteProof \<Rightarrow> gossip_msg) \<Rightarrow> gossip_msg list \<Rightarrow>
   'b SimpleProof VersionedRoundView \<Rightarrow> (bytes, 'b SimpleProof) gomap \<Rightarrow> bool" where
  "told_votes V bits sb mk sent v proofs \<longleftrightarrow> (\<forall>h msg. sb \<lparr>vt_Height = rv_Height v, vt_Round = rv_Round v, vt_BlockHash = h\<rparr> = Inr msg \<longrightarrow>
     signers_of bits proofs h \<subseteq> announced V (keysOf v) msg mk (rv_Height v) (rv_Round v) h sent)"

definition told ::
  "verifier \<Rightarrow> ('b \<Rightarrow> nat set) \<Rightarrow> signature_scheme \<Rightarrow> gossip_msg list \<Rightarrow> 'b SimpleProof VersionedRoundView \<Rightarrow> bool" where
  "told V bits S sent v \<longleftrightarrow> (\<forall>ph \<in> set (ProposedHeaders v). OutProposedHeader ph \<in> set sent) \<and>
     told_votes V bits (\<lambda>vt. PrevoteSignBytes vt S) OutPrevotes sent v (PrevoteProofs v) \<and>
     told_votes V bits (\<lambda>vt. PrecommitSignBytes vt S) OutPrecommits sent v (PrecommitProofs v)"

lemma toldD:
  assumes "told V bits S sent v"
  shows "\<forall>ph \<in> set (ProposedHeaders v). OutProposedHeader ph \<in> set sent"
    "told_votes V bits (\<lambda>vt. PrevoteSignBytes vt S) OutPrevotes sent v (PrevoteProofs v)"
    "told_votes V bits (\<lambda>vt. PrecommitSignBytes vt S) OutPrecommits sent v (PrecommitProofs v)"
  using assms by (simp_all add: told_def)

lemma told_votes_mono: "told_votes V bits sb mk a v proofs \<Longrightarrow> set a \<subseteq> set b \<Longrightarrow> told_votes V bits sb mk b v proofs"
  unfolding told_votes_def using announced_mono by blast

lemma told_mono: "told V bits S a v \<Longrightarrow> set a \<subseteq> set b \<Longrightarrow> told V bits S b v"
  unfolding told_def using told_votes_mono by blast

lemma told_votes_sent:
  assumes "vote_map_ok V bits sb (rv_Height v) (rv_Round v) (keysOf v) (vs_PubKeyHash (rv_ValidatorSet v)) proofs"
    and "proofs \<noteq> [] \<Longrightarrow> mk (sparseOf v proofs) \<in> set sent"
  shows "told_votes V bits sb mk sent v proofs"
proof (cases "proofs = []")
  case True
  then show ?thesis by (simp add: told_votes_def signers_of_def)
next
  case False
  then show ?thesis unfolding told_votes_def using announced_sparseOf[OF assms(1)] assms(2) by blast
qed

lemma told_votes_same:
  assumes "told_votes V bits sb mk sent prev pproofs" "rv_Height cur = rv_Height prev" "rv_Round cur = rv_Round prev"
    "rv_ValidatorSet cur = rv_ValidatorSet prev" "\<And>h. signers_of bits proofs h = signers_of bits pproofs h"
  shows "told_votes V bits sb mk sent cur proofs"
  using assms by (simp add: told_votes_def keysOf_def)

text \<open>The messages of a whole view and of a changed one.\<close>

definition voteMsgs :: "(SparseVoteProof \<Rightarrow> gossip_msg) \<Rightarrow> 'b SimpleProof VersionedRoundView \<Rightarrow> (bytes, 'b SimpleProof) gomap \<Rightarrow> gossip_msg list" where
  "voteMsgs mk v proofs = (if proofs = [] then [] else [mk (sparseOf v proofs)])"

lemma delivers_votes:
  assumes "gossip_view V bits S v"
  shows "delivers (broadcastPrevotes (SimpleScheme V B) v) (voteMsgs OutPrevotes v (PrevoteProofs v))"
    "delivers (broadcastPrecommits (SimpleScheme V B) v) (voteMsgs OutPrecommits v (PrecommitProofs v))"
  using assms AsSparse_ok(1)[of V bits _ v _ "PrevoteProofs v" B] AsSparse_ok(2)[of V bits _ v _ "PrecommitProofs v" B] delivers_SendC
  by (fastforce simp: gossip_view_def delivers_def broadcastPrevotes_def broadcastPrecommits_def voteMsgs_def)+

lemma broadcastAll_tells:
  assumes "gossip_view V bits S v"
  shows "\<exists>ms. delivers (broadcastAll (SimpleScheme V B) v) ms \<and> told V bits S ms v"
proof -
  let ?ms = "(map OutProposedHeader (ProposedHeaders v) @ voteMsgs OutPrevotes v (PrevoteProofs v)) @ voteMsgs OutPrecommits v (PrecommitProofs v)"
  have "delivers (broadcastAll (SimpleScheme V B) v) ?ms"
    unfolding broadcastAll_def[abs_def] by (intro delivers_andThen delivers_headers delivers_votes[OF assms])
  moreover have "told V bits S ?ms v"
    using assms unfolding told_def gossip_view_def by (auto simp: voteMsgs_def intro!: told_votes_sent)
  ultimately show ?thesis by blast
qed

lemma told_votes_update:
  assumes lib: "bitset_lib B bits" and U: "\<And>a b. bits (U a b) = bits a \<union> bits b" and ok: "gomap_ok pproofs"
    and cur: "vote_map_ok V bits sb (rv_Height cur) (rv_Round cur) (keysOf cur) (vs_PubKeyHash (rv_ValidatorSet cur)) proofs" "single_votes bits proofs"
    and prev: "told_votes V bits sb mk sent prev pproofs" "rv_Height cur = rv_Height prev" "rv_Round cur = rv_Round prev"
      "rv_ValidatorSet cur = rv_ValidatorSet prev" "\<And>h. signers_of bits pproofs h \<subseteq> signers_of bits proofs h"
    and new: "bs_Count B (unionBits (SimpleScheme V B) B U proofs) \<noteq> bs_Count B (unionBits (SimpleScheme V B) B U pproofs) \<Longrightarrow>
      set (voteMsgs mk cur proofs) \<subseteq> set sent"
  shows "told_votes V bits sb mk sent cur proofs"
proof (cases "bs_Count B (unionBits (SimpleScheme V B) B U proofs) = bs_Count B (unionBits (SimpleScheme V B) B U pproofs)")
  case True
  have "gomap_ok proofs" using cur(1) by (simp add: vote_map_ok_def)
  from same_count_same_votes[OF lib U ok this prev(5) cur(2) True] show ?thesis using told_votes_same[OF prev(1-4)] by blast
next
  case False
  then show ?thesis using new by (intro told_votes_sent[OF cur(1)]) (simp add: voteMsgs_def)
qed

lemma broadcastViewDiff_tells:
  assumes lib: "bitset_lib B bits" and U: "\<And>a b. bits (U a b) = bits a \<union> bits b"
    and prev: "told V bits S sent prev" "gomap_ok (PrevoteProofs prev)" "gomap_ok (PrecommitProofs prev)"
    and cur: "gossip_view V bits S cur" "view_grows bits prev cur"
  shows "\<exists>ms. delivers (broadcastViewDiff (SimpleScheme V B) B U prev cur) ms \<and> told V bits S (sent @ ms) cur"
proof (cases "rv_Height cur = rv_Height prev \<and> rv_Round cur = rv_Round prev")
  case False
  then have "broadcastViewDiff (SimpleScheme V B) B U prev cur = broadcastAll (SimpleScheme V B) cur" by (intro ext) (simp only: broadcastViewDiff_def if_False)
  then show ?thesis using broadcastAll_tells[OF cur(1), of B] told_mono[where b = "sent @ _"] by fastforce
next
  case True
  let ?C = "SimpleScheme V B"
  define p where "p \<longleftrightarrow> length (ProposedHeaders cur) \<noteq> length (ProposedHeaders prev)"
  define q where "q \<longleftrightarrow> bs_Count B (unionBits ?C B U (PrevoteProofs cur)) \<noteq> bs_Count B (unionBits ?C B U (PrevoteProofs prev))"
  define r where "r \<longleftrightarrow> bs_Count B (unionBits ?C B U (PrecommitProofs cur)) \<noteq> bs_Count B (unionBits ?C B U (PrecommitProofs prev))"
  define ms where "ms = ((if p then map OutProposedHeader (ProposedHeaders cur) else []) @ (if q then voteMsgs OutPrevotes cur (PrevoteProofs cur) else [])) @
    (if r then voteMsgs OutPrecommits cur (PrecommitProofs cur) else [])"
  have "delivers (broadcastUpdatesOnly ?C B U prev cur) ms"
    unfolding broadcastUpdatesOnly_def[abs_def] ms_def p_def[symmetric] q_def[symmetric] r_def[symmetric]
    by (intro delivers_andThen delivers_if delivers_headers delivers_votes[OF cur(1)])
  moreover have "broadcastViewDiff ?C B U prev cur = broadcastUpdatesOnly ?C B U prev cur" using True by (simp add: broadcastViewDiff_def fun_eq_iff)
  moreover have "told V bits S (sent @ ms) cur"
  proof -
    have g: "rv_ValidatorSet cur = rv_ValidatorSet prev" "ProposedHeaders prev = take (length (ProposedHeaders prev)) (ProposedHeaders cur)"
      "\<And>h. signers_of bits (PrevoteProofs prev) h \<subseteq> signers_of bits (PrevoteProofs cur) h"
      "\<And>h. signers_of bits (PrecommitProofs prev) h \<subseteq> signers_of bits (PrecommitProofs cur) h"
      using cur(2) True unfolding view_grows_def by blast+
    note t = toldD[OF told_mono[OF prev(1)], of "sent @ ms", simplified] and c = gossip_viewD[OF cur(1)]
    note hr = True[THEN conjunct1] True[THEN conjunct2]
    have "\<not> p \<Longrightarrow> ProposedHeaders cur = ProposedHeaders prev" using g(2) by (simp add: p_def)
    then have "\<forall>ph \<in> set (ProposedHeaders cur). OutProposedHeader ph \<in> set (sent @ ms)"
      using t(1) by (cases p) (auto simp: ms_def)
    moreover have "told_votes V bits (\<lambda>vt. PrevoteSignBytes vt S) OutPrevotes (sent @ ms) cur (PrevoteProofs cur)"
      by (rule told_votes_update[OF lib U prev(2) c(1,3) t(2) hr g(1,3)]) (simp add: ms_def q_def le_supI2)
    moreover have "told_votes V bits (\<lambda>vt. PrecommitSignBytes vt S) OutPrecommits (sent @ ms) cur (PrecommitProofs cur)"
      by (rule told_votes_update[OF lib U prev(3) c(2,4) t(3) hr g(1,4)]) (simp add: ms_def r_def le_supI2)
    ultimately show ?thesis by (simp add: told_def)
  qed
  ultimately show ?thesis by metis
qed

section \<open>The kernel\<close>

definition carries :: "(bool \<times> 'l \<times> broadcaster \<Rightarrow> bool \<times> 'l \<times> broadcaster) \<Rightarrow> 'l \<Rightarrow> 'l \<Rightarrow> gossip_msg list \<Rightarrow> bool" where
  "carries f l l' ms \<longleftrightarrow> (\<forall>s. length ms \<le> cb_room s \<longrightarrow>
     f (True, l, s) = (True, l', s\<lparr>cb_room := cb_room s - length ms, cb_sent := cb_sent s @ ms\<rparr>))"

lemma carries_comp:
  assumes "carries f l l' ms" "carries g l' l'' ns"
  shows "carries (\<lambda>r. g (f r)) l l'' (ms @ ns)"
  using assms by (simp add: carries_def)

lemma carries_share:
  "(\<And>v. view = Some v \<Longrightarrow> delivers (cast v) ms) \<Longrightarrow> (view = None \<Longrightarrow> ms = []) \<Longrightarrow>
   carries (shareView cast upd view) l (case view of None \<Rightarrow> l | Some v \<Rightarrow> upd v l) ms"
  by (cases view) (simp_all add: carries_def delivers_def shareView_def)

definition latest :: "'v \<Rightarrow> 'v option \<Rightarrow> 'v" where
  "latest prev view = (case view of None \<Rightarrow> prev | Some v \<Rightarrow> v)"

text \<open>A slot: the view that was last seen in it has been told.\<close>

definition slot_ok :: "verifier \<Rightarrow> ('b \<Rightarrow> nat set) \<Rightarrow> signature_scheme \<Rightarrow> gossip_msg list \<Rightarrow> 'b SimpleProof VersionedRoundView \<Rightarrow> bool" where
  "slot_ok V bits S sent v \<longleftrightarrow> told V bits S sent v \<and> gomap_ok (PrevoteProofs v) \<and> gomap_ok (PrecommitProofs v)"

definition next_ok :: "verifier \<Rightarrow> ('b \<Rightarrow> nat set) \<Rightarrow> signature_scheme \<Rightarrow> 'b SimpleProof VersionedRoundView \<Rightarrow> 'b SimpleProof VersionedRoundView option \<Rightarrow> bool" where
  "next_ok V bits S prev view \<longleftrightarrow> (case view of None \<Rightarrow> True | Some v \<Rightarrow> gossip_view V bits S v \<and> view_grows bits prev v)"

lemma slot_mono: "slot_ok V bits S a v \<Longrightarrow> set a \<subseteq> set b \<Longrightarrow> slot_ok V bits S b v"
  unfolding slot_ok_def using told_mono by blast

lemma slot_zero: "slot_ok V bits S sent zeroVRV"
  by (simp add: slot_ok_def told_def told_votes_def zeroVRV_def signers_of_def)

lemma share_diff_tells:
  assumes lib: "bitset_lib B bits" and U: "\<And>a b. bits (U a b) = bits a \<union> bits b"
    and prev: "slot_ok V bits S sent prev" and view: "next_ok V bits S prev view"
  shows "\<exists>ms. (\<forall>upd l. carries (shareView (broadcastViewDiff (SimpleScheme V B) B U prev) upd view) l (case view of None \<Rightarrow> l | Some v \<Rightarrow> upd v l) ms) \<and>
    slot_ok V bits S (sent @ ms) (latest prev view)"
proof (cases view)
  case None
  then show ?thesis using prev by (intro exI[of _ "[]"]) (simp add: latest_def carries_def shareView_def)
next
  case (Some v)
  then have v: "gossip_view V bits S v" "view_grows bits prev v" using view by (simp_all add: next_ok_def)
  have "told V bits S sent prev" "gomap_ok (PrevoteProofs prev)" "gomap_ok (PrecommitProofs prev)" using prev by (simp_all add: slot_ok_def)
  from broadcastViewDiff_tells[OF lib U this v]
  obtain ms where ms: "delivers (broadcastViewDiff (SimpleScheme V B) B U prev v) ms" "told V bits S (sent @ ms) v" by blast
  have "slot_ok V bits S (sent @ ms) v" using ms(2) gossip_viewD(6,7)[OF v(1)] by (simp add: slot_ok_def)
  moreover have "carries (shareView (broadcastViewDiff (SimpleScheme V B) B U prev) upd view) l (case view of None \<Rightarrow> l | Some v \<Rightarrow> upd v l) ms" for upd l
    using ms(1) Some by (intro carries_share) simp_all
  ultimately show ?thesis using Some by (auto simp: latest_def)
qed

lemma broadcastAll_diff:
  assumes "gossip_view V bits S v"
  shows "broadcastAll C v = broadcastViewDiff C B U zeroVRV v"
  using gossip_viewD(5)[OF assms] by (simp add: broadcastViewDiff_def fun_eq_iff zeroVRV_def)

definition remember :: "'p NetworkViewUpdate \<Rightarrow> 'p chatty_views \<Rightarrow> 'p chatty_views" where
  "remember u l = \<lparr>prevVotingView = latest (prevVotingView l) (nvu_Voting u), prevCommittingView = latest (prevCommittingView l) (nvu_Committing u),
     prevNextRoundView = latest (prevNextRoundView l) (nvu_NextRound u)\<rparr>"

definition slots_ok :: "verifier \<Rightarrow> ('b \<Rightarrow> nat set) \<Rightarrow> signature_scheme \<Rightarrow> gossip_msg list \<Rightarrow> 'b SimpleProof chatty_views \<Rightarrow> bool" where
  "slots_ok V bits S sent l \<longleftrightarrow> slot_ok V bits S sent (prevVotingView l) \<and> slot_ok V bits S sent (prevCommittingView l) \<and>
     slot_ok V bits S sent (prevNextRoundView l)"

definition update_ok :: "verifier \<Rightarrow> ('b \<Rightarrow> nat set) \<Rightarrow> signature_scheme \<Rightarrow> 'b SimpleProof chatty_views \<Rightarrow> 'b SimpleProof NetworkViewUpdate \<Rightarrow> bool" where
  "update_ok V bits S l u \<longleftrightarrow> next_ok V bits S (prevVotingView l) (nvu_Voting u) \<and> next_ok V bits S (prevCommittingView l) (nvu_Committing u) \<and>
     next_ok V bits S (prevNextRoundView l) (nvu_NextRound u) \<and> (case nvu_NilVotedRound u of None \<Rightarrow> True | Some v \<Rightarrow> gossip_view V bits S v)"

fun updates_ok :: "verifier \<Rightarrow> ('b \<Rightarrow> nat set) \<Rightarrow> signature_scheme \<Rightarrow> 'b SimpleProof chatty_views \<Rightarrow> 'b SimpleProof NetworkViewUpdate list \<Rightarrow> bool" where
  "updates_ok V bits S l [] \<longleftrightarrow> True"
| "updates_ok V bits S l (u # us) \<longleftrightarrow> update_ok V bits S l u \<and> updates_ok V bits S (remember u l) us"

abbreviation noViews :: "'p chatty_views" where
  "noViews \<equiv> \<lparr>prevVotingView = zeroVRV, prevCommittingView = zeroVRV, prevNextRoundView = zeroVRV\<rparr>"

lemma share_nil_tells:
  assumes "case view of None \<Rightarrow> True | Some v \<Rightarrow> gossip_view V bits S v"
  shows "\<exists>ms. (\<forall>l. carries (shareView (broadcastPrecommits (SimpleScheme V B)) (\<lambda>v l. l) view) l l ms) \<and>
    (\<forall>v. view = Some v \<longrightarrow> told_votes V bits (\<lambda>vt. PrecommitSignBytes vt S) OutPrecommits ms v (PrecommitProofs v))"
proof (cases view)
  case None
  then show ?thesis by (intro exI[of _ "[]"]) (simp add: carries_def shareView_def)
next
  case (Some v)
  then have v: "gossip_view V bits S v" using assms by simp
  have "told_votes V bits (\<lambda>vt. PrecommitSignBytes vt S) OutPrecommits (voteMsgs OutPrecommits v (PrecommitProofs v)) v (PrecommitProofs v)"
    by (rule told_votes_sent[OF gossip_viewD(2)[OF v]]) (simp add: voteMsgs_def)
  moreover have "carries (shareView (broadcastPrecommits (SimpleScheme V B)) (\<lambda>v l. l) view) l l (voteMsgs OutPrecommits v (PrecommitProofs v))" for l :: 'l
    using carries_share[of view "broadcastPrecommits (SimpleScheme V B)" "voteMsgs OutPrecommits v (PrecommitProofs v)" "\<lambda>v l. l" l] delivers_votes(2)[OF v] Some by simp
  ultimately show ?thesis using Some by blast
qed

text \<open>What has been told of one update.\<close>

definition told_update ::
  "verifier \<Rightarrow> ('b \<Rightarrow> nat set) \<Rightarrow> signature_scheme \<Rightarrow> gossip_msg list \<Rightarrow> 'b SimpleProof NetworkViewUpdate \<Rightarrow> bool" where
  "told_update V bits S sent u \<longleftrightarrow>
     (\<forall>v. nvu_Committing u = Some v \<or> nvu_Voting u = Some v \<or> nvu_NextRound u = Some v \<longrightarrow> told V bits S sent v)"

definition told_nil ::
  "verifier \<Rightarrow> ('b \<Rightarrow> nat set) \<Rightarrow> signature_scheme \<Rightarrow> gossip_msg list \<Rightarrow> 'b SimpleProof NetworkViewUpdate \<Rightarrow> bool" where
  "told_nil V bits S sent u \<longleftrightarrow>
     (\<forall>v. nvu_NilVotedRound u = Some v \<longrightarrow> told_votes V bits (\<lambda>vt. PrecommitSignBytes vt S) OutPrecommits sent v (PrecommitProofs v))"

lemma slots_told: "slots_ok V bits S sent (remember u l) \<Longrightarrow> told_update V bits S sent u"
  by (auto simp: slots_ok_def remember_def told_update_def slot_ok_def latest_def split: option.splits)

lemma chatty_update_tells:
  assumes lib: "bitset_lib B bits" and U: "\<And>a b. bits (U a b) = bits a \<union> bits b"
    and l: "slots_ok V bits S sent l" and u: "update_ok V bits S l u"
  shows "\<exists>ms. (\<forall>s. length ms \<le> cb_room s \<longrightarrow> chatty_update (SimpleScheme V B) B U u l s =
      (True, remember u l, s\<lparr>cb_room := cb_room s - length ms, cb_sent := cb_sent s @ ms\<rparr>)) \<and>
    slots_ok V bits S (sent @ ms) (remember u l) \<and> told_nil V bits S (sent @ ms) u"
proof -
  note diff = share_diff_tells[OF lib U]
  let ?cast = "broadcastViewDiff (SimpleScheme V B) B U"
  from l have l: "slot_ok V bits S sent (prevVotingView l)" "slot_ok V bits S sent (prevCommittingView l)" "slot_ok V bits S sent (prevNextRoundView l)"
    by (simp_all add: slots_ok_def)
  from u have u: "next_ok V bits S (prevVotingView l) (nvu_Voting u)" "next_ok V bits S (prevCommittingView l) (nvu_Committing u)"
    "next_ok V bits S (prevNextRoundView l) (nvu_NextRound u)" "case nvu_NilVotedRound u of None \<Rightarrow> True | Some v \<Rightarrow> gossip_view V bits S v"
    by (simp_all add: update_ok_def)
  from diff[OF l(2) u(2)] obtain m1 where
    m1: "\<And>upd (l' :: 'a SimpleProof chatty_views). carries (shareView (?cast (prevCommittingView l)) upd (nvu_Committing u)) l' (case nvu_Committing u of None \<Rightarrow> l' | Some v \<Rightarrow> upd v l') m1"
    "slot_ok V bits S (sent @ m1) (latest (prevCommittingView l) (nvu_Committing u))" by blast
  from share_nil_tells[OF u(4), where B = B] obtain m2 where
    m2: "\<And>l' :: 'a SimpleProof chatty_views. carries (shareView (broadcastPrecommits (SimpleScheme V B)) (\<lambda>v l. l) (nvu_NilVotedRound u)) l' l' m2"
    "\<And>v. nvu_NilVotedRound u = Some v \<Longrightarrow> told_votes V bits (\<lambda>vt. PrecommitSignBytes vt S) OutPrecommits m2 v (PrecommitProofs v)" by blast
  from diff[OF l(1) u(1)] obtain m3 where
    m3: "\<And>upd (l' :: 'a SimpleProof chatty_views). carries (shareView (?cast (prevVotingView l)) upd (nvu_Voting u)) l' (case nvu_Voting u of None \<Rightarrow> l' | Some v \<Rightarrow> upd v l') m3"
    "slot_ok V bits S (sent @ m3) (latest (prevVotingView l) (nvu_Voting u))" by blast
  from diff[OF l(3) u(3)] obtain m4 where
    m4: "\<And>upd (l' :: 'a SimpleProof chatty_views). carries (shareView (?cast (prevNextRoundView l)) upd (nvu_NextRound u)) l' (case nvu_NextRound u of None \<Rightarrow> l' | Some v \<Rightarrow> upd v l') m4"
    "slot_ok V bits S (sent @ m4) (latest (prevNextRoundView l) (nvu_NextRound u))" by blast
  let ?ms = "((m1 @ m2) @ m3) @ m4"
  have "chatty_update (SimpleScheme V B) B U u l s = (True, remember u l, s\<lparr>cb_room := cb_room s - length ?ms, cb_sent := cb_sent s @ ?ms\<rparr>)"
    if "length ?ms \<le> cb_room s" for s
    using that carries_comp[OF carries_comp[OF carries_comp[OF m1(1)[of "\<lambda>v l. l\<lparr>prevCommittingView := v\<rparr>" l] m2(1)] m3(1)[of "\<lambda>v l. l\<lparr>prevVotingView := v\<rparr>"]]
        m4(1)[of "\<lambda>v l. l\<lparr>prevNextRoundView := v\<rparr>"]]
    by (auto simp: chatty_update_def carries_def remember_def latest_def split: option.splits)
  moreover have "slots_ok V bits S (sent @ ?ms) (remember u l)"
    using slot_mono[OF m1(2), of "sent @ ?ms"] slot_mono[OF m3(2), of "sent @ ?ms"] slot_mono[OF m4(2), of "sent @ ?ms"]
    by (simp add: slots_ok_def remember_def subset_iff)
  moreover have "told_nil V bits S (sent @ ?ms) u"
    unfolding told_nil_def using told_votes_mono[OF m2(2), of _ "sent @ ?ms"] by (simp add: subset_iff)
  ultimately show ?thesis by blast
qed
lemma chatty_first_tells:
  assumes lib: "bitset_lib B bits" and U: "\<And>a b. bits (U a b) = bits a \<union> bits b"
    and u: "update_ok V bits S noViews u" "nvu_Voting u \<noteq> None"
  shows "\<exists>ms. (\<forall>s. length ms \<le> cb_room s \<longrightarrow> chatty_first (SimpleScheme V B) u s =
      Ret (True, remember u noViews, s\<lparr>cb_room := cb_room s - length ms, cb_sent := cb_sent s @ ms\<rparr>)) \<and>
    slots_ok V bits S ms (remember u noViews)"
proof -
  let ?C = "SimpleScheme V B" and ?cast = "broadcastViewDiff (SimpleScheme V B) B U zeroVRV"
  from u(1) have ok: "next_ok V bits S zeroVRV (nvu_Voting u)" "next_ok V bits S zeroVRV (nvu_Committing u)" "next_ok V bits S zeroVRV (nvu_NextRound u)"
    by (simp_all add: update_ok_def)
  have all: "shareView (broadcastAll ?C) upd view r = shareView ?cast upd view r" if "next_ok V bits S zeroVRV view" for upd view
    and r :: "bool \<times> 'a SimpleProof chatty_views \<times> broadcaster"
    using that broadcastAll_diff[of V bits S "the view" ?C B U] by (cases view; cases r; cases "fst r") (simp_all add: next_ok_def shareView_def)
  note diff = share_diff_tells[OF lib U slot_zero]
  from diff[OF ok(1), where sent = "[]"] obtain m1 where
    m1: "\<And>upd (l' :: 'a SimpleProof chatty_views). carries (shareView ?cast upd (nvu_Voting u)) l' (case nvu_Voting u of None \<Rightarrow> l' | Some v \<Rightarrow> upd v l') m1"
    "slot_ok V bits S m1 (latest zeroVRV (nvu_Voting u))" by auto
  from diff[OF ok(2), where sent = "[]"] obtain m2 where
    m2: "\<And>upd (l' :: 'a SimpleProof chatty_views). carries (shareView ?cast upd (nvu_Committing u)) l' (case nvu_Committing u of None \<Rightarrow> l' | Some v \<Rightarrow> upd v l') m2"
    "slot_ok V bits S m2 (latest zeroVRV (nvu_Committing u))" by auto
  from diff[OF ok(3), where sent = "[]"] obtain m3 where
    m3: "\<And>upd (l' :: 'a SimpleProof chatty_views). carries (shareView ?cast upd (nvu_NextRound u)) l' (case nvu_NextRound u of None \<Rightarrow> l' | Some v \<Rightarrow> upd v l') m3"
    "slot_ok V bits S m3 (latest zeroVRV (nvu_NextRound u))" by auto
  let ?ms = "(m1 @ m2) @ m3"
  have "chatty_first ?C u s = Ret (True, remember u noViews, s\<lparr>cb_room := cb_room s - length ?ms, cb_sent := cb_sent s @ ?ms\<rparr>)"
    if "length ?ms \<le> cb_room s" for s
    using that carries_comp[OF carries_comp[OF m1(1)[of "\<lambda>v l. l\<lparr>prevVotingView := v\<rparr>" noViews] m2(1)[of "\<lambda>v l. l\<lparr>prevCommittingView := v\<rparr>"]]
        m3(1)[of "\<lambda>v l. l\<lparr>prevNextRoundView := v\<rparr>"]] u(2)
    by (auto simp: chatty_first_def all ok carries_def remember_def latest_def split: option.splits)
  moreover have "slots_ok V bits S ?ms (remember u noViews)"
    using slot_mono[OF m1(2), of ?ms] slot_mono[OF m2(2), of ?ms] slot_mono[OF m3(2), of ?ms]
    by (simp add: slots_ok_def remember_def subset_iff)
  ultimately show ?thesis by blast
qed

lemma told_update_mono: "told_update V bits S a u \<Longrightarrow> set a \<subseteq> set b \<Longrightarrow> told_update V bits S b u"
  unfolding told_update_def using told_mono by blast

lemma told_nil_mono: "told_nil V bits S a u \<Longrightarrow> set a \<subseteq> set b \<Longrightarrow> told_nil V bits S b u"
  unfolding told_nil_def using told_votes_mono by blast

lemma chatty_loop_tells:
  assumes lib: "bitset_lib B bits" and U: "\<And>a b. bits (U a b) = bits a \<union> bits b"
    and "slots_ok V bits S sent l" "updates_ok V bits S l us"
  shows "\<exists>ms. (\<forall>s. length ms \<le> cb_room s \<longrightarrow> (\<exists>l'. chatty_loop (SimpleScheme V B) B U us (True, l, s) =
      (True, l', s\<lparr>cb_room := cb_room s - length ms, cb_sent := cb_sent s @ ms\<rparr>))) \<and>
    (\<forall>u \<in> set us. told_update V bits S (sent @ ms) u \<and> told_nil V bits S (sent @ ms) u)"
  using assms(3,4)
proof (induction us arbitrary: l sent)
  case Nil
  then show ?case by (intro exI[of _ "[]"]) simp
next
  case (Cons u us)
  from Cons.prems(2) have u: "update_ok V bits S l u" "updates_ok V bits S (remember u l) us" by simp_all
  from chatty_update_tells[OF lib U Cons.prems(1) u(1)] obtain m1 where
    m1: "\<And>s. length m1 \<le> cb_room s \<Longrightarrow> chatty_update (SimpleScheme V B) B U u l s =
      (True, remember u l, s\<lparr>cb_room := cb_room s - length m1, cb_sent := cb_sent s @ m1\<rparr>)"
    "slots_ok V bits S (sent @ m1) (remember u l)" "told_nil V bits S (sent @ m1) u" by blast
  from Cons.IH[OF m1(2) u(2)] obtain m2 where
    m2: "\<And>s. length m2 \<le> cb_room s \<Longrightarrow> (\<exists>l'. chatty_loop (SimpleScheme V B) B U us (True, remember u l, s) =
      (True, l', s\<lparr>cb_room := cb_room s - length m2, cb_sent := cb_sent s @ m2\<rparr>))"
    "\<And>u. u \<in> set us \<Longrightarrow> told_update V bits S ((sent @ m1) @ m2) u \<and> told_nil V bits S ((sent @ m1) @ m2) u" by blast
  have "\<exists>l'. chatty_loop (SimpleScheme V B) B U (u # us) (True, l, s) =
      (True, l', s\<lparr>cb_room := cb_room s - length (m1 @ m2), cb_sent := cb_sent s @ m1 @ m2\<rparr>)" if "length (m1 @ m2) \<le> cb_room s" for s
    using that m1(1)[of s] m2(1)[of "s\<lparr>cb_room := cb_room s - length m1, cb_sent := cb_sent s @ m1\<rparr>"] by simp
  moreover have "told_update V bits S (sent @ m1 @ m2) u" "told_nil V bits S (sent @ m1 @ m2) u"
    using told_update_mono[OF slots_told[OF m1(2)], of "sent @ m1 @ m2"] told_nil_mono[OF m1(3), of "sent @ m1 @ m2"] by (simp_all add: subset_iff)
  ultimately show ?case using m2(2) by (intro exI[of _ "m1 @ m2"]) auto
qed

text \<open>(C15) Gossip is complete for views as the engine builds them, that grow within a round and hold at most one vote of each validator: while the context is not
  cancelled, the kernel never stops, and of every committing, voting and next-round view it was given has been sent
  each proposed header, and for every block hash and every signer of a prevote or precommit a message of that height and round with a signature that verifies. Of the
  round that failed (\<open>NilVotedRound\<close>) of an update after the first one, the precommits have been sent; that of the first update is ignored by the code.\<close>

theorem gossip_complete:
  assumes lib: "bitset_lib B bits" and U: "\<And>a b. bits (U a b) = bits a \<union> bits b"
    and us: "us = u # rest" "nvu_Voting u \<noteq> None" "updates_ok V bits S noViews us"
  shows "\<exists>n ms. (\<forall>s. n \<le> cb_room s \<longrightarrow> (\<exists>s'. chatty_kernel (SimpleScheme V B) B U us s = Ret (True, s') \<and> cb_sent s' = cb_sent s @ ms)) \<and>
     (\<forall>w \<in> set us. told_update V bits S ms w) \<and> (\<forall>w \<in> set rest. told_nil V bits S ms w)"
proof -
  from us have ok: "update_ok V bits S noViews u" "updates_ok V bits S (remember u noViews) rest" by simp_all
  from chatty_first_tells[OF lib U ok(1) us(2)] obtain m1 where
    m1: "\<And>s. length m1 \<le> cb_room s \<Longrightarrow> chatty_first (SimpleScheme V B) u s =
      Ret (True, remember u noViews, s\<lparr>cb_room := cb_room s - length m1, cb_sent := cb_sent s @ m1\<rparr>)"
    "slots_ok V bits S m1 (remember u noViews)" by blast
  from chatty_loop_tells[OF lib U m1(2) ok(2)] obtain m2 where
    m2: "\<And>s. length m2 \<le> cb_room s \<Longrightarrow> (\<exists>l'. chatty_loop (SimpleScheme V B) B U rest (True, remember u noViews, s) =
      (True, l', s\<lparr>cb_room := cb_room s - length m2, cb_sent := cb_sent s @ m2\<rparr>))"
    "\<And>u. u \<in> set rest \<Longrightarrow> told_update V bits S (m1 @ m2) u \<and> told_nil V bits S (m1 @ m2) u" by blast
  have "\<exists>s'. chatty_kernel (SimpleScheme V B) B U us s = Ret (True, s') \<and> cb_sent s' = cb_sent s @ m1 @ m2" if room: "length m1 + length m2 \<le> cb_room s" for s
  proof -
    define s1 where "s1 = s\<lparr>cb_room := cb_room s - length m1, cb_sent := cb_sent s @ m1\<rparr>"
    have first: "chatty_first (SimpleScheme V B) u s = Ret (True, remember u noViews, s1)" using room m1(1)[of s] by (simp add: s1_def)
    have "length m2 \<le> cb_room s1" using room by (simp add: s1_def)
    from m2(1)[OF this] obtain l' where "chatty_loop (SimpleScheme V B) B U rest (True, remember u noViews, s1) =
        (True, l', s1\<lparr>cb_room := cb_room s1 - length m2, cb_sent := cb_sent s1 @ m2\<rparr>)" by blast
    with first show ?thesis by (simp add: chatty_kernel_def us(1) s1_def)
  qed
  moreover have "told_update V bits S (m1 @ m2) u"
    using told_update_mono[OF slots_told[OF m1(2)], of "m1 @ m2"] by simp
  ultimately show ?thesis using m2(2) us(1) by (intro exI[of _ "length m1 + length m2"] exI[of _ "m1 @ m2"]) auto
qed

text \<open>A round with a precommit of the second validator, which then gains one of the first, and the union of reference bitsets.\<close>

definition ref_union :: "nat list \<Rightarrow> nat list \<Rightarrow> nat list" where
  "ref_union a b = a @ b"

definition ex_gossip_view :: "(bytes, nat list SimpleProof) gomap \<Rightarrow> nat list SimpleProof VersionedRoundView" where
  "ex_gossip_view precommits = zeroVRV\<lparr>rv_Height := 1, rv_ValidatorSet := ex_valset, PrecommitProofs := precommits\<rparr>"

definition ex_update :: "(bytes, nat list SimpleProof) gomap \<Rightarrow> nat list SimpleProof NetworkViewUpdate" where
  "ex_update precommits = \<lparr>nvu_Committing = None, nvu_Voting = Some (ex_gossip_view precommits), nvu_NextRound = None, nvu_NilVotedRound = None\<rparr>"

lemma ex_gossip_view_ok:
  assumes "p \<in> {ex_proof, ex_both}"
  shows "gossip_view ex_V set ex_sigs (ex_gossip_view [(''x'', p)])"
proof -
  have key: "\<exists>k. PubKeyBytes k = ''a''" "\<exists>k. PubKeyBytes k \<noteq> ''a'' \<and> (PubKeyBytes k \<noteq> ''a'' \<longrightarrow> PubKeyBytes k = ''b'')"
    by (rule exI[of _ "PubKey ''t'' ''a''"], simp) (rule exI[of _ "PubKey ''t'' ''b''"], simp)
  have "simple_inv ex_V set p \<and> simple_exact set p \<and> sp_keys p = ValidatorsToPubKeys ex_vals \<and> sp_keyHash p = ''h'' \<and> sp_msg p = ''m''"
    using assms by (auto simp: key simple_inv_def simple_exact_def ex_both_def ex_proof_def ex_keyIndexes ex_V_def ValidatorsToPubKeys_def ex_vals_def gomap_ok_def)
  then show ?thesis
    by (auto simp: gossip_view_def ex_gossip_view_def zeroVRV_def vote_map_ok_def keysOf_def ex_valset_def PrecommitSignBytes_def PrevoteSignBytes_def ex_sigs_def
        single_votes_def signers_of_def gomap_ok_def ValidatorsToPubKeys_def ex_vals_def)
qed

theorem gossip_complete_witness:
  "\<exists>n ms. (\<forall>s. n \<le> cb_room s \<longrightarrow> (\<exists>s'. chatty_kernel (SimpleScheme ex_V ref_bitset) ref_bitset ref_union
      [ex_update [(''x'', ex_proof)], ex_update [(''x'', ex_both)]] s = Ret (True, s') \<and> cb_sent s' = cb_sent s @ ms)) \<and>
    {0, 1} \<subseteq> announced ex_V [PubKey ''t'' ''a'', PubKey ''t'' ''b''] ''m'' OutPrecommits 1 0 ''x'' ms"
proof -
  have U: "set (ref_union a b) = set a \<union> set b" for a b by (simp add: ref_union_def)
  have "view_grows set (ex_gossip_view [(''x'', ex_proof)]) (ex_gossip_view [(''x'', ex_both)])"
    by (auto simp: view_grows_def ex_gossip_view_def zeroVRV_def signers_of_def ex_both_def ex_proof_def)
  moreover have "view_grows set zeroVRV (ex_gossip_view [(''x'', ex_proof)])"
    by (simp add: view_grows_def ex_gossip_view_def zeroVRV_def)
  ultimately have ok: "updates_ok ex_V set ex_sigs noViews [ex_update [(''x'', ex_proof)], ex_update [(''x'', ex_both)]]"
    using ex_gossip_view_ok[of ex_proof] ex_gossip_view_ok[of ex_both] by (simp add: update_ok_def next_ok_def ex_update_def remember_def latest_def)
  have v: "nvu_Voting (ex_update [(''x'', ex_proof)]) \<noteq> None" by (simp add: ex_update_def)
  from gossip_complete[OF rbs.bitset_lib_axioms U refl v ok] obtain n ms where
    n: "\<forall>s. n \<le> cb_room s \<longrightarrow> (\<exists>s'. chatty_kernel (SimpleScheme ex_V ref_bitset) ref_bitset ref_union
      [ex_update [(''x'', ex_proof)], ex_update [(''x'', ex_both)]] s = Ret (True, s') \<and> cb_sent s' = cb_sent s @ ms)"
    and t: "told_update ex_V set ex_sigs ms (ex_update [(''x'', ex_both)])" by auto
  from t have "told ex_V set ex_sigs ms (ex_gossip_view [(''x'', ex_both)])" by (simp add: told_update_def ex_update_def)
  from toldD(3)[OF this]
  have "signers_of set [(''x'', ex_both)] ''x'' \<subseteq> announced ex_V [PubKey ''t'' ''a'', PubKey ''t'' ''b''] ''m'' OutPrecommits 1 0 ''x'' ms"
    by (simp add: told_votes_def PrecommitSignBytes_def ex_sigs_def keysOf_def ex_gossip_view_def zeroVRV_def ex_valset_def ex_vals_def ValidatorsToPubKeys_def)
  with n show ?thesis by (auto simp: signers_of_def ex_both_def)
qed

text \<open>(C37) What gossip does not tell: only the number of validators with a vote for some block is compared, so when the validators that vote for a further block have
  all voted before in the round, nothing is sent, and the new votes stay with this node until somebody else votes for the first time.\<close>

theorem second_votes_not_gossiped:
  assumes lib: "bitset_lib B bits" and U: "\<And>a b. bits (U a b) = bits a \<union> bits b"
    and "rv_Height cur = rv_Height prev" "rv_Round cur = rv_Round prev" "length (ProposedHeaders cur) = length (ProposedHeaders prev)"
    and "gomap_ok (PrevoteProofs prev)" "gomap_ok (PrevoteProofs cur)" "gomap_ok (PrecommitProofs prev)" "gomap_ok (PrecommitProofs cur)"
    and "(\<Union>h. signers_of bits (PrevoteProofs cur) h) = (\<Union>h. signers_of bits (PrevoteProofs prev) h)"
    and "(\<Union>h. signers_of bits (PrecommitProofs cur) h) = (\<Union>h. signers_of bits (PrecommitProofs prev) h)"
  shows "broadcastViewDiff (SimpleScheme V B) B U prev cur s = (True, s)"
  using assms unionBits_signers[OF lib U, of _ V] bitset_lib.Count_eq[OF lib]
  by (simp add: broadcastViewDiff_def broadcastUpdatesOnly_def andThen_def)

theorem second_votes_not_gossiped_witness:
  "\<forall>s. broadcastViewDiff (SimpleScheme ex_V ref_bitset) ref_bitset ref_union
     (ex_gossip_view [(''x'', ex_proof)]) (ex_gossip_view [(''x'', ex_proof), (''y'', ex_proof)]) s = (True, s)"
proof -
  let ?prev = "ex_gossip_view [(''x'', ex_proof)]" and ?cur = "ex_gossip_view [(''x'', ex_proof), (''y'', ex_proof)]"
  have U: "set (ref_union a b) = set a \<union> set b" for a b by (simp add: ref_union_def)
  have v: "rv_Height ?cur = rv_Height ?prev" "rv_Round ?cur = rv_Round ?prev" "length (ProposedHeaders ?cur) = length (ProposedHeaders ?prev)"
    "gomap_ok (PrevoteProofs ?prev)" "gomap_ok (PrevoteProofs ?cur)" "gomap_ok (PrecommitProofs ?prev)" "gomap_ok (PrecommitProofs ?cur)"
    "(\<Union>h. signers_of set (PrevoteProofs ?cur) h) = (\<Union>h. signers_of set (PrevoteProofs ?prev) h)"
    by (simp_all add: ex_gossip_view_def zeroVRV_def gomap_ok_def)
  have p: "(\<Union>h. signers_of set (PrecommitProofs ?cur) h) = (\<Union>h. signers_of set (PrecommitProofs ?prev) h)"
    by (auto simp: ex_gossip_view_def signers_of_def ex_proof_def split: if_splits)
  show ?thesis using second_votes_not_gossiped[OF rbs.bitset_lib_axioms U v p] by blast
qed

end
