(* ===== verification/Network.thy ===== *)
theory Network
  imports Gossip
begin

text \<open>
  The connection to the peer-to-peer network (\<open>tm/tmp2p/tmlibp2p/connection.go\<close>) between the gossip strategy, the codec and the
  handlers of the mirror, with the feedback mappers of \<open>tm/tmconsensus/feedbackmapper.go\<close> in between. The delivery of what was
  published to a peer is libp2p. Registering a topic validator succeeds here; the code only logs when it does not.
\<close>

section \<open>Definitions\<close>

datatype ValidationResult = ValidationAccept | ValidationReject | ValidationIgnore

definition exchangeFeedbackToLibp2p :: "Feedback \<Rightarrow> ValidationResult" where
  "exchangeFeedbackToLibp2p f = (case f of
     FeedbackAccepted \<Rightarrow> ValidationAccept
   | FeedbackRejected \<Rightarrow> ValidationReject
   | FeedbackIgnored \<Rightarrow> ValidationIgnore
   | _ \<Rightarrow> ValidationIgnore)"

text \<open>The interface \<open>ConsensusHandler\<close> over the state \<open>'w\<close> behind it; \<open>None\<close> is a call that has not returned.\<close>

record 'w ConsensusHandler =
  on_ProposedHeader :: "ProposedHeader \<Rightarrow> 'w \<Rightarrow> (Feedback \<times> 'w) option go"
  on_PrevoteProofs :: "PrevoteSparseProof \<Rightarrow> 'w \<Rightarrow> (Feedback \<times> 'w) option go"
  on_PrecommitProofs :: "PrecommitSparseProof \<Rightarrow> 'w \<Rightarrow> (Feedback \<times> 'w) option go"

definition mapResult :: "('r \<Rightarrow> Feedback go) \<Rightarrow> ('r \<times> 'w) option go \<Rightarrow> (Feedback \<times> 'w) option go" where
  "mapResult mapper out = gobind out (\<lambda>r. case r of
     None \<Rightarrow> Ret None | Some (res, w) \<Rightarrow> gobind (mapper res) (\<lambda>f. Ret (Some (f, w))))"

text \<open>The three handlers of the mirror with the headers it has handed to the kernel.\<close>

definition mirror_ProposedHeader ::
  "('p, 'b, 's) Kernel \<Rightarrow> verifier \<Rightarrow> (nat \<Rightarrow> ('p, 's) environment) \<Rightarrow> nat \<Rightarrow> ProposedHeader \<Rightarrow> ('p, 's) world \<times> ProposedHeader list \<Rightarrow>
   (HandleProposedHeaderResult \<times> ('p, 's) world \<times> ProposedHeader list) option go" where
  "mirror_ProposedHeader K V envs fuel ph wq = gobind (HandleProposedHeader K V envs fuel ph (fst wq)) (\<lambda>r. Ret (case r of
     None \<Rightarrow> None | Some (res, added, w) \<Rightarrow> Some (res, w, snd wq @ (case added of None \<Rightarrow> [] | Some ph' \<Rightarrow> [ph']))))"

definition withQueue :: "('r \<times> 'w) option go \<Rightarrow> 'q \<Rightarrow> ('r \<times> 'w \<times> 'q) option go" where
  "withQueue out q = gobind out (\<lambda>r. Ret (map_option (\<lambda>(res, w). (res, w, q)) r))"

definition AcceptAllValidFeedbackMapper ::
  "('p, 'b, 's) Kernel \<Rightarrow> verifier \<Rightarrow> (nat \<Rightarrow> ('p, 's) environment) \<Rightarrow> ('p, 's) environment \<Rightarrow> nat \<Rightarrow>
   (('p, 's) world \<times> ProposedHeader list) ConsensusHandler" where
  "AcceptAllValidFeedbackMapper K V envs env fuel = \<lparr>
     on_ProposedHeader = (\<lambda>ph wq. mapResult AcceptAllValid_mapHeader (mirror_ProposedHeader K V envs fuel ph wq)),
     on_PrevoteProofs = (\<lambda>p (w, q). mapResult AcceptAllValid_mapVoteResult (withQueue (HandlePrevoteProofs K env fuel p w) q)),
     on_PrecommitProofs = (\<lambda>p (w, q). mapResult AcceptAllValid_mapVoteResult (withQueue (HandlePrecommitProofs K env fuel p w) q))\<rparr>"

definition DropDuplicateFeedbackMapper ::
  "('p, 'b, 's) Kernel \<Rightarrow> verifier \<Rightarrow> (nat \<Rightarrow> ('p, 's) environment) \<Rightarrow> ('p, 's) environment \<Rightarrow> nat \<Rightarrow>
   (('p, 's) world \<times> ProposedHeader list) ConsensusHandler" where
  "DropDuplicateFeedbackMapper K V envs env fuel = \<lparr>
     on_ProposedHeader = (\<lambda>ph wq. mapResult DropDuplicate_mapHeader (mirror_ProposedHeader K V envs fuel ph wq)),
     on_PrevoteProofs = (\<lambda>p (w, q). mapResult DropDuplicate_mapVoteResult (withQueue (HandlePrevoteProofs K env fuel p w) q)),
     on_PrecommitProofs = (\<lambda>p (w, q). mapResult DropDuplicate_mapVoteResult (withQueue (HandlePrecommitProofs K env fuel p w) q))\<rparr>"

text \<open>The validator of the consensus topic: the state is untouched when a message is ours or malformed.\<close>

definition libp2pConsensusMessageValidator ::
  "'j json \<Rightarrow> Registry \<Rightarrow> 'id \<Rightarrow> 'w ConsensusHandler option \<Rightarrow> 'id \<Rightarrow> 'j \<Rightarrow> 'w \<Rightarrow> (ValidationResult \<times> 'w) option go" where
  "libp2pConsensusMessageValidator J reg selfID h sender data w =
     (if sender = selfID then Ret (Some (ValidationAccept, w))
      else gobind (UnmarshalConsensusMessage J reg data emptyMessage) (\<lambda>r. case r of
          Inl err \<Rightarrow> Ret (Some (ValidationIgnore, w))
        | Inr cm \<Rightarrow>
            gobind (case (h, cmsg_ProposedHeader cm, cmsg_PrevoteProof cm, cmsg_PrecommitProof cm) of
                (Some h, Some ph, _, _) \<Rightarrow> on_ProposedHeader h ph w
              | (Some h, None, Some p, _) \<Rightarrow> on_PrevoteProofs h p w
              | (Some h, None, None, Some p) \<Rightarrow> on_PrecommitProofs h p w
              | _ \<Rightarrow> Ret (Some (FeedbackRejected, w)))
              (\<lambda>out. Ret (map_option (\<lambda>(f, w'). (exchangeFeedbackToLibp2p f, w')) out))))"

definition ignoreMessage :: "'w \<Rightarrow> (ValidationResult \<times> 'w) option go" where
  "ignoreMessage w = Ret (Some (ValidationIgnore, w))"

text \<open>What the background goroutine reacts to, and its state: the registered topic validator (\<open>None\<close> is
  \<open>ignoreMessage\<close>) and what it has handed to \<open>Publish\<close>.\<close>

datatype ('w) conn_event = Outgoing gossip_msg | SetConsensusHandler "'w ConsensusHandler option"

record ('w, 'j) Connection =
  c_validator :: "'w ConsensusHandler option"
  c_published :: "'j list"

definition outgoingMessage :: "gossip_msg \<Rightarrow> ConsensusMessage" where
  "outgoingMessage m = (case m of
     OutProposedHeader ph \<Rightarrow> emptyMessage\<lparr>cmsg_ProposedHeader := Some ph\<rparr>
   | OutPrevotes p \<Rightarrow> emptyMessage\<lparr>cmsg_PrevoteProof := Some p\<rparr>
   | OutPrecommits p \<Rightarrow> emptyMessage\<lparr>cmsg_PrecommitProof := Some p\<rparr>)"

fun background_step :: "'j json \<Rightarrow> Registry \<Rightarrow> 'w conn_event \<Rightarrow> ('w, 'j) Connection \<Rightarrow> ('w, 'j) Connection go" where
  "background_step J reg (Outgoing m) c = gobind (MarshalConsensusMessage J reg (outgoingMessage m)) (\<lambda>r. Ret (case r of
     Inl err \<Rightarrow> c | Inr b \<Rightarrow> c\<lparr>c_published := c_published c @ [b]\<rparr>))"
| "background_step J reg (SetConsensusHandler h) c = Ret (c\<lparr>c_validator := h\<rparr>)"

definition background :: "'j json \<Rightarrow> Registry \<Rightarrow> 'w conn_event list \<Rightarrow> ('w, 'j) Connection \<Rightarrow> ('w, 'j) Connection go" where
  "background J reg evs c = gofold (background_step J reg) evs c"

definition receiveMessage :: "'j json \<Rightarrow> Registry \<Rightarrow> 'id \<Rightarrow> ('w, 'j) Connection \<Rightarrow> 'id \<Rightarrow> 'j \<Rightarrow> 'w \<Rightarrow> (ValidationResult \<times> 'w) option go" where
  "receiveMessage J reg selfID c sender data w = (case c_validator c of
     None \<Rightarrow> ignoreMessage w
   | Some h \<Rightarrow> libp2pConsensusMessageValidator J reg selfID (Some h) sender data w)"

section \<open>From one node to another\<close>

lemma AcceptAllValid_vote:
  assumes "HandlePrevoteProofs K env fuel p w = Ret (Some (res, w'))" "res \<in> {HandleVoteProofsAccepted, HandleVoteProofsNoNewSignatures}"
  shows "on_PrevoteProofs (AcceptAllValidFeedbackMapper K V envs env fuel) p (w, q) = Ret (Some (FeedbackAccepted, w', q))"
  using assms by (auto simp: AcceptAllValidFeedbackMapper_def mapResult_def withQueue_def AcceptAllValid_mapVoteResult_def)

lemma sparseOf_votes:
  assumes ok: "vote_map_ok V bits sb (rv_Height v) (rv_Round v) (keysOf v) (vs_PubKeyHash (rv_ValidatorSet v)) proofs"
    and msg: "\<And>h. sb \<lparr>vt_Height = rv_Height v, vt_Round = rv_Round v, vt_BlockHash = h\<rparr> = Inr (msg h)"
  shows "(case map_of (svp_Proofs (sparseOf v proofs)) h of None \<Rightarrow> {} | Some sigs \<Rightarrow> valid_votes V (keysOf v) (msg h) sigs) = signers_of bits proofs h"
proof (cases "map_of proofs h")
  case None
  then show ?thesis using map_of_map_values[of "\<lambda>p. ssp_Signatures (simple_AsSparse p)" proofs h] by (simp add: signers_of_def sparseOf_def)
next
  case (Some p)
  then have "(h, p) \<in> set proofs" by (rule map_of_SomeD)
  then have p: "simple_inv V bits p" "simple_exact bits p" "sp_keys p = keysOf v" "sp_msg p = msg h"
    "distinct (map PubKeyBytes (sp_keys p))" "length (sp_keys p) \<le> 65536"
    using ok msg by (auto simp: vote_map_ok_def)
  then show ?thesis
    using Some valid_votes_AsSparse[OF p(1,2,5,6)] map_of_map_values[of "\<lambda>p. ssp_Signatures (simple_AsSparse p)" proofs h] by (simp add: signers_of_def sparseOf_def)
qed

text \<open>(C12) Prevotes get from one node to another: what a node broadcasts of the prevotes in its view is published by its connection, and the validator of the connection of a peer whose
  voting round and validators are the same accepts it, after which the peer has, for every block hash, exactly the signers it had and those of the first node.
  The peer's kernel serves the handler undisturbed; the codec's JSON library restores what it is given.\<close>

theorem gossiped_prevotes_reach_peer:
  assumes lib: "bitset_lib B bits" and json: "json_lib J"
    and v: "gossip_view V bits S v" "PrevoteProofs v \<noteq> []" "0 < cb_room s"
    and K: "k_cmspScheme K = SimpleScheme V B" "k_bitset K = B" "k_sigScheme K = S"
    and peer: "kinv K w" "u = ks_Voting (w_state w)" "rv_Height u = rv_Height v" "rv_Round u = rv_Round v" "rv_ValidatorSet u = rv_ValidatorSet v"
    and pow: "powers_ok (Validators (rv_ValidatorSet v))"
    and msg: "\<And>h. PrevoteSignBytes \<lparr>vt_Height = rv_Height v, vt_Round = rv_Round v, vt_BlockHash = h\<rparr> S = Inr (msg h)"
    and votes: "votes_for V bits (rv_ValidatorSet u) msg (PrevoteProofs u)"
    and quiet: "env 0 w = Some w" "env 1 w = Some w"
    and ids: "sender \<noteq> selfID" "c_validator peerConn = Some (AcceptAllValidFeedbackMapper K V envs env (Suc n))"
  shows "\<exists>m b w'. broadcastPrevotes (SimpleScheme V B) v s = (True, s\<lparr>cb_room := cb_room s - 1, cb_sent := cb_sent s @ [OutPrevotes m]\<rparr>) \<and>
     background_step J reg (Outgoing (OutPrevotes m)) conn = Ret (conn\<lparr>c_published := c_published conn @ [b]\<rparr>) \<and>
     receiveMessage J reg selfID peerConn sender b (w, q) = Ret (Some (ValidationAccept, w', q)) \<and>
     (\<forall>h. signers_of bits (PrevoteProofs (ks_Voting (w_state w'))) h = signers_of bits (PrevoteProofs u) h \<union> signers_of bits (PrevoteProofs v) h)"
proof -
  define m where "m = sparseOf v (PrevoteProofs v)"
  define m' where "m' = sortedVotes m"
  note ok = gossip_viewD(1)[OF v(1)]
  have gm: "gomap_ok (svp_Proofs m)" "svp_Proofs m \<noteq> []"
    using gossip_viewD(6)[OF v(1)] v(2) by (simp_all add: m_def sparseOf_def gomap_ok_def comp_def)
  have m': "svp_Height m' = rv_Height u" "svp_Round m' = rv_Round u" "svp_PubKeyHash m' = vs_PubKeyHash (rv_ValidatorSet u)"
    "gomap_ok (svp_Proofs m')"
    using sortedVotes_same(1)[OF gm(1)] peer(3-5) by (simp_all add: m'_def sortedVotes_def m_def sparseOf_def)
  have "set (svp_Proofs m') = set (svp_Proofs m)" by (simp add: m'_def sortedVotes_def)
  with gm(2) have ne: "svp_Proofs m' \<noteq> []" by (metis set_empty)
  have same_keys: "ValidatorsToPubKeys (Validators (rv_ValidatorSet u)) = keysOf v" using peer(5) by (simp add: keysOf_def)
  have dist: "distinct (map PubKeyBytes (ValidatorsToPubKeys (Validators (rv_ValidatorSet u))))"
    using ok peer(5) by (simp add: vote_map_ok_def keysOf_def)
  have msg': "PrevoteSignBytes \<lparr>vt_Height = rv_Height u, vt_Round = rv_Round u, vt_BlockHash = h\<rparr> (k_sigScheme K) = Inr (msg h)" for h
    using msg peer(3,4) K(3) by simp
  obtain res w' where run: "HandlePrevoteProofs K env (Suc n) m' w = Ret (Some (res, w'))" "res \<in> {HandleVoteProofsAccepted, HandleVoteProofsNoNewSignatures}"
    and new: "\<And>h. signers_of bits (PrevoteProofs (ks_Voting (w_state w'))) h = signers_of bits (PrevoteProofs u) h \<union>
        (case map_of (svp_Proofs m') h of None \<Rightarrow> {} | Some sigs \<Rightarrow> valid_votes V (ValidatorsToPubKeys (Validators (rv_ValidatorSet u))) (msg h) sigs)"
    using prevotes_added[where msg = msg and env = env and n = n, OF lib K(1,2) peer(1,2) m' ne pow[folded peer(5)] dist msg' votes quiet] by blast
  have "signers_of bits (PrevoteProofs (ks_Voting (w_state w'))) h = signers_of bits (PrevoteProofs u) h \<union> signers_of bits (PrevoteProofs v) h" for h
    unfolding new m'_def sortedVotes_same(2)[OF gm(1)] same_keys
    using sparseOf_votes[where msg = msg and h = h, OF ok msg] by (simp add: m_def)
  moreover have "broadcastPrevotes (SimpleScheme V B) v s = (True, s\<lparr>cb_room := cb_room s - 1, cb_sent := cb_sent s @ [OutPrevotes m]\<rparr>)"
    using delivers_votes(1)[OF v(1), of B] v(2,3) by (simp add: delivers_def voteMsgs_def m_def)
  moreover obtain b where b: "MarshalConsensusMessage J reg (emptyMessage\<lparr>cmsg_PrevoteProof := Some m\<rparr>) = Ret (Inr b)"
    "UnmarshalConsensusMessage J reg b emptyMessage = Ret (Inr (emptyMessage\<lparr>cmsg_PrevoteProof := Some m'\<rparr>))"
    using json_lib.vote_message_roundtrip[OF json gm(1), of "emptyMessage\<lparr>cmsg_PrevoteProof := Some m\<rparr>" reg] by (auto simp: arrived_def m'_def)
  moreover have "receiveMessage J reg selfID peerConn sender b (w, q) = Ret (Some (ValidationAccept, w', q))"
    using ids b(2) AcceptAllValid_vote[OF run, of V envs q] by (simp add: receiveMessage_def libp2pConsensusMessageValidator_def exchangeFeedbackToLibp2p_def)
  ultimately show ?thesis by (intro exI[of _ m] exI[of _ b] exI[of _ w']) (simp add: outgoingMessage_def)
qed

text \<open>A view with a prevote of the second validator, sent to the node of the running example.\<close>

definition ex_sent_view :: "nat list SimpleProof VersionedRoundView" where
  "ex_sent_view = zeroVRV\<lparr>rv_Height := 1, rv_ValidatorSet := ex_valset, PrevoteProofs := [(''x'', ex_proof\<lparr>sp_msg := ''v''\<rparr>)]\<rparr>"

definition ex_peer :: "((nat list SimpleProof, mem_stores) world \<times> ProposedHeader list, ref_text) Connection" where
  "ex_peer = \<lparr>c_validator = Some (AcceptAllValidFeedbackMapper ex_kernel ex_V (\<lambda>n. ex_quiet) ex_quiet 1), c_published = []\<rparr>"

lemma ex_sent_view_ok: "gossip_view ex_V set ex_sigs ex_sent_view"
proof -
  let ?p = "ex_proof\<lparr>sp_msg := ''v''\<rparr>"
  have key: "\<exists>k. PubKeyBytes k \<noteq> ''a'' \<and> (PubKeyBytes k \<noteq> ''a'' \<longrightarrow> PubKeyBytes k = ''b'')"
    by (rule exI[of _ "PubKey ''t'' ''b''"]) simp
  have "simple_inv ex_V set ?p \<and> simple_exact set ?p \<and> sp_keys ?p = ValidatorsToPubKeys ex_vals \<and> sp_keyHash ?p = ''h'' \<and> sp_msg ?p = ''v''"
    by (auto simp: key simple_inv_def simple_exact_def ex_proof_def ex_keyIndexes ex_V_def ValidatorsToPubKeys_def ex_vals_def gomap_ok_def)
  then show ?thesis
    by (auto simp: gossip_view_def ex_sent_view_def zeroVRV_def vote_map_ok_def keysOf_def ex_valset_def PrecommitSignBytes_def PrevoteSignBytes_def ex_sigs_def
        single_votes_def signers_of_def gomap_ok_def ValidatorsToPubKeys_def ex_vals_def)
qed

theorem gossiped_prevotes_reach_peer_witness:
  "\<exists>b w'. background_step ref_json emptyRegistry (Outgoing (OutPrevotes (sparseOf ex_sent_view (PrevoteProofs ex_sent_view)))) ex_peer =
       Ret (ex_peer\<lparr>c_published := [b]\<rparr>) \<and>
     receiveMessage ref_json emptyRegistry (2 :: nat) ex_peer 1 b (ex_proposed, []) = Ret (Some (ValidationAccept, w', [])) \<and>
     signers_of set (PrevoteProofs (ks_Voting (w_state w'))) ''x'' = {1}"
proof -
  let ?v = ex_sent_view and ?u = "ks_Voting (w_state ex_proposed)" and ?s = "\<lparr>cb_room = 1, cb_sent = []\<rparr>"
  have v: "PrevoteProofs ?v \<noteq> []" "0 < cb_room ?s" by (simp_all add: ex_sent_view_def)
  have K: "k_cmspScheme ex_kernel = SimpleScheme ex_V ref_bitset" "k_bitset ex_kernel = ref_bitset" "k_sigScheme ex_kernel = ex_sigs" by (simp_all add: ex_kernel_def)
  have peer: "rv_Height ?u = rv_Height ?v" "rv_Round ?u = rv_Round ?v" "rv_ValidatorSet ?u = rv_ValidatorSet ?v"
    by (simp_all add: ex_proposed_voting ex_proposed_valset ex_sent_view_def zeroVRV_def)
  have pow: "powers_ok (Validators (rv_ValidatorSet ?v))" using ex_powers_ok by (simp add: ex_sent_view_def ex_valset_def)
  have msg: "PrevoteSignBytes \<lparr>vt_Height = rv_Height ?v, vt_Round = rv_Round ?v, vt_BlockHash = h\<rparr> ex_sigs = Inr ''v''" for h
    by (simp add: PrevoteSignBytes_def ex_sigs_def)
  have votes: "votes_for ex_V set (rv_ValidatorSet ?u) (\<lambda>h. ''v'') (PrevoteProofs ?u)"
    by (simp add: ex_proposed_voting votes_for_def)
  have quiet: "ex_quiet 0 ex_proposed = Some ex_proposed" "ex_quiet 1 ex_proposed = Some ex_proposed" by (simp_all add: ex_quiet_def)
  have ids: "(1 :: nat) \<noteq> 2" "c_validator ex_peer = Some (AcceptAllValidFeedbackMapper ex_kernel ex_V (\<lambda>n. ex_quiet) ex_quiet (Suc 0))"
    by (simp_all add: ex_peer_def)
  from gossiped_prevotes_reach_peer[where msg = "\<lambda>h. ''v''" and env = ex_quiet and n = 0 and q = "[]" and reg = emptyRegistry and conn = ex_peer,
      OF rbs.bitset_lib_axioms ref_json.json_lib_axioms ex_sent_view_ok v K ex_proposed_kinv refl peer pow msg votes quiet ids]
  obtain m b w' where 1: "broadcastPrevotes (SimpleScheme ex_V ref_bitset) ?v ?s = (True, ?s\<lparr>cb_room := cb_room ?s - 1, cb_sent := cb_sent ?s @ [OutPrevotes m]\<rparr>)"
    and 2: "background_step ref_json emptyRegistry (Outgoing (OutPrevotes m)) ex_peer = Ret (ex_peer\<lparr>c_published := c_published ex_peer @ [b]\<rparr>)"
      "receiveMessage ref_json emptyRegistry (2 :: nat) ex_peer 1 b (ex_proposed, []) = Ret (Some (ValidationAccept, w', []))"
    and 3: "\<forall>h. signers_of set (PrevoteProofs (ks_Voting (w_state w'))) h = signers_of set (PrevoteProofs ?u) h \<union> signers_of set (PrevoteProofs ?v) h" by blast
  have "m = sparseOf ?v (PrevoteProofs ?v)"
    using 1 delivers_votes(1)[OF ex_sent_view_ok, of ref_bitset] v by (simp add: delivers_def voteMsgs_def)
  moreover have "signers_of set (PrevoteProofs (ks_Voting (w_state w'))) ''x'' = {1}"
    using 3 by (simp add: signers_of_def ex_proposed_voting ex_sent_view_def ex_proof_def)
  ultimately show ?thesis using 2 by (auto simp: ex_peer_def)
qed

end
