(* ===== verification/EngineStart.thy ===== *)
theory EngineStart
  imports ViewManagers MemStores
begin

text \<open>
  The construction of the engine (\<open>tm/tmengine/engine.go\<close>, \<open>opts.go\<close>, \<open>mirror.go\<close>): the options, the validation
  of the settings, and the initialization of the chain with the initial validators, up to the point where the mirror
  and the state machine are started. An interface value or a channel that is only compared with nil is a flag that tells whether it
  is set. The configuration of the state machine is a pointer, which is nil for a mirror that runs alone: writing
  through it panics then.
\<close>

section \<open>Options\<close>

record ExternalGenesis =
  eg_ChainID :: string
  eg_InitialHeight :: u64
  GenesisValidatorSet :: ValidatorSet

record MirrorConfig =
  mc_Store :: bool
  mc_CommittedHeaderStore :: bool
  mc_RoundStore :: bool
  mc_ValidatorStore :: bool
  mc_HashScheme :: bool
  mc_SignatureScheme :: bool
  mc_CommonMessageSignatureProofScheme :: bool
  mc_LagStateOut :: bool
  mc_ReplayedHeadersIn :: bool
  mc_Watchdog :: bool
  mc_AssertEnv :: bool

record StateMachineConfig =
  smc_ConsensusStrategy :: bool
  smc_ActionStore :: bool
  smc_FinalizationStore :: bool
  smc_StateMachineStore :: bool
  smc_HashScheme :: bool
  smc_Signer :: bool
  smc_FinalizeBlockRequestCh :: bool
  smc_BlockDataArrivalCh :: bool
  smc_RoundTimer :: bool
  smc_Watchdog :: bool
  smc_AssertEnv :: bool

record Engine =
  e_genesis :: "ExternalGenesis option"
  e_gs :: bool
  e_hashScheme :: "hash_scheme option"
  e_sigScheme :: bool
  e_cmspScheme :: bool
  e_mCfg :: MirrorConfig
  e_initChainCh :: bool
  e_metricsCh :: bool
  e_watchdog :: bool

definition zeroMirrorConfig :: MirrorConfig where
  "zeroMirrorConfig = \<lparr>mc_Store = False, mc_CommittedHeaderStore = False, mc_RoundStore = False, mc_ValidatorStore = False, mc_HashScheme = False,
     mc_SignatureScheme = False, mc_CommonMessageSignatureProofScheme = False, mc_LagStateOut = False, mc_ReplayedHeadersIn = False, mc_Watchdog = False,
     mc_AssertEnv = False\<rparr>"

definition zeroStateMachineConfig :: StateMachineConfig where
  "zeroStateMachineConfig = \<lparr>smc_ConsensusStrategy = False, smc_ActionStore = False, smc_FinalizationStore = False, smc_StateMachineStore = False,
     smc_HashScheme = False, smc_Signer = False, smc_FinalizeBlockRequestCh = False, smc_BlockDataArrivalCh = False, smc_RoundTimer = False,
     smc_Watchdog = False, smc_AssertEnv = False\<rparr>"

definition zeroEngine :: Engine where
  "zeroEngine = \<lparr>e_genesis = None, e_gs = False, e_hashScheme = None, e_sigScheme = False, e_cmspScheme = False, e_mCfg = zeroMirrorConfig,
     e_initChainCh = False, e_metricsCh = False, e_watchdog = False\<rparr>"

text \<open>An option with its argument. Of the lag state channel the capacity is kept too, and of the metrics channel the number of
  buffered elements.\<close>

datatype Opt =
    WithConsensusStrategy bool
  | WithGossipStrategy bool
  | WithActionStore bool
  | WithCommittedHeaderStore bool
  | WithFinalizationStore bool
  | WithMirrorStore bool
  | WithRoundStore bool
  | WithStateMachineStore bool
  | WithValidatorStore bool
  | WithSignatureScheme bool
  | WithHashScheme "hash_scheme option"
  | WithCommonMessageSignatureProofScheme bool
  | WithSigner bool
  | WithGenesis "ExternalGenesis option"
  | WithInitChainChannel bool
  | WithBlockFinalizationChannel bool
  | WithBlockDataArrivalChannel bool
  | WithLagStateChannel bool nat
  | WithReplayedHeaderRequestChannel bool
  | WithInternalRoundTimer bool
  | WithTimeoutStrategy
  | WithWatchdog bool
  | WithMetricsChannel bool nat
  | WithAssertEnv bool

text \<open>A write through the pointer to the state machine configuration.\<close>

definition setSmc :: "(StateMachineConfig \<Rightarrow> StateMachineConfig) \<Rightarrow> Engine \<Rightarrow> StateMachineConfig option \<Rightarrow>
   (go_error option \<times> Engine \<times> StateMachineConfig option) go" where
  "setSmc f e smc = (case smc of None \<Rightarrow> Panic ''invalid memory address or nil pointer dereference'' | Some c \<Rightarrow> Ret (None, e, Some (f c)))"

abbreviation setMCfg :: "(MirrorConfig \<Rightarrow> MirrorConfig) \<Rightarrow> Engine \<Rightarrow> Engine" where
  "setMCfg f e \<equiv> e\<lparr>e_mCfg := f (e_mCfg e)\<rparr>"

fun applyOpt :: "Opt \<Rightarrow> Engine \<Rightarrow> StateMachineConfig option \<Rightarrow> (go_error option \<times> Engine \<times> StateMachineConfig option) go" where
  "applyOpt (WithConsensusStrategy cs) e smc = setSmc (\<lambda>c. c\<lparr>smc_ConsensusStrategy := cs\<rparr>) e smc"
| "applyOpt (WithGossipStrategy gs) e smc = Ret (None, e\<lparr>e_gs := gs\<rparr>, smc)"
| "applyOpt (WithActionStore s) e smc = setSmc (\<lambda>c. c\<lparr>smc_ActionStore := s\<rparr>) e smc"
| "applyOpt (WithCommittedHeaderStore s) e smc = Ret (None, setMCfg (\<lambda>c. c\<lparr>mc_CommittedHeaderStore := s\<rparr>) e, smc)"
| "applyOpt (WithFinalizationStore s) e smc = setSmc (\<lambda>c. c\<lparr>smc_FinalizationStore := s\<rparr>) e smc"
| "applyOpt (WithMirrorStore s) e smc = Ret (None, setMCfg (\<lambda>c. c\<lparr>mc_Store := s\<rparr>) e, smc)"
| "applyOpt (WithRoundStore s) e smc = Ret (None, setMCfg (\<lambda>c. c\<lparr>mc_RoundStore := s\<rparr>) e, smc)"
| "applyOpt (WithStateMachineStore s) e smc = setSmc (\<lambda>c. c\<lparr>smc_StateMachineStore := s\<rparr>) e smc"
| "applyOpt (WithValidatorStore s) e smc = Ret (None, setMCfg (\<lambda>c. c\<lparr>mc_ValidatorStore := s\<rparr>) e, smc)"
| "applyOpt (WithSignatureScheme s) e smc = Ret (None, setMCfg (\<lambda>c. c\<lparr>mc_SignatureScheme := s\<rparr>) (e\<lparr>e_sigScheme := s\<rparr>), smc)"
| "applyOpt (WithHashScheme h) e smc =
     setSmc (\<lambda>c. c\<lparr>smc_HashScheme := (h \<noteq> None)\<rparr>) (setMCfg (\<lambda>c. c\<lparr>mc_HashScheme := (h \<noteq> None)\<rparr>) (e\<lparr>e_hashScheme := h\<rparr>)) smc"
| "applyOpt (WithCommonMessageSignatureProofScheme s) e smc =
     Ret (None, setMCfg (\<lambda>c. c\<lparr>mc_CommonMessageSignatureProofScheme := s\<rparr>) (e\<lparr>e_cmspScheme := s\<rparr>), smc)"
| "applyOpt (WithSigner s) e smc = setSmc (\<lambda>c. c\<lparr>smc_Signer := s\<rparr>) e smc"
| "applyOpt (WithGenesis g) e smc = Ret (None, e\<lparr>e_genesis := g\<rparr>, smc)"
| "applyOpt (WithInitChainChannel ch) e smc = Ret (None, e\<lparr>e_initChainCh := ch\<rparr>, smc)"
| "applyOpt (WithBlockFinalizationChannel ch) e smc = setSmc (\<lambda>c. c\<lparr>smc_FinalizeBlockRequestCh := ch\<rparr>) e smc"
| "applyOpt (WithBlockDataArrivalChannel ch) e smc = setSmc (\<lambda>c. c\<lparr>smc_BlockDataArrivalCh := ch\<rparr>) e smc"
| "applyOpt (WithLagStateChannel ch cap) e smc =
     (if cap \<noteq> 0 then Ret (Some (OtherError ''WithLagStateChannel: capacity of channel must be zero''), e, smc)
      else Ret (None, setMCfg (\<lambda>c. c\<lparr>mc_LagStateOut := ch\<rparr>) e, smc))"
| "applyOpt (WithReplayedHeaderRequestChannel ch) e smc = Ret (None, setMCfg (\<lambda>c. c\<lparr>mc_ReplayedHeadersIn := ch\<rparr>) e, smc)"
| "applyOpt (WithInternalRoundTimer rt) e smc = setSmc (\<lambda>c. c\<lparr>smc_RoundTimer := rt\<rparr>) e smc"
| "applyOpt WithTimeoutStrategy e smc = setSmc (\<lambda>c. c\<lparr>smc_RoundTimer := True\<rparr>) e smc"
| "applyOpt (WithWatchdog wd) e smc =
     setSmc (\<lambda>c. c\<lparr>smc_Watchdog := wd\<rparr>) (setMCfg (\<lambda>c. c\<lparr>mc_Watchdog := wd\<rparr>) (e\<lparr>e_watchdog := wd\<rparr>)) smc"
| "applyOpt (WithMetricsChannel ch len) e smc =
     (if len \<noteq> 0 then Ret (Some (OtherError ''WithMetricsChannel: ch must be unbuffered''), e, smc) else Ret (None, e\<lparr>e_metricsCh := ch\<rparr>, smc))"
| "applyOpt (WithAssertEnv a) e smc = setSmc (\<lambda>c. c\<lparr>smc_AssertEnv := a\<rparr>) (setMCfg (\<lambda>c. c\<lparr>mc_AssertEnv := a\<rparr>) e) smc"

text \<open>The loop over the options: \<open>errors.Join\<close> of one error is that error, and it replaces the error of the option before.\<close>

definition applyOpts :: "Opt list \<Rightarrow> Engine \<Rightarrow> StateMachineConfig option \<Rightarrow> (go_error option \<times> Engine \<times> StateMachineConfig option) go" where
  "applyOpts opts e smc = gofold (\<lambda>opt (err, e, smc). applyOpt opt e smc) opts (None, e, smc)"

definition joinErr :: "bool \<Rightarrow> string \<Rightarrow> go_error option \<Rightarrow> go_error option" where
  "joinErr bad msg err = (if \<not> bad then err else Some (case err of None \<Rightarrow> OtherError msg | Some e \<Rightarrow> JoinedErrors e (OtherError msg)))"

definition validateSettings :: "Engine \<Rightarrow> StateMachineConfig \<Rightarrow> go_error option" where
  "validateSettings e smc =
     joinErr (\<not> smc_RoundTimer smc) ''no timeout strategy set (use tmengine.WithTimeoutStrategy)''
     (joinErr (\<not> smc_FinalizeBlockRequestCh smc) ''no block finalization channel set (use tmengine.WithBlockFinalizationChannel)''
     (joinErr (\<not> smc_ConsensusStrategy smc) ''no consensus strategy set (use tmengine.WithConsensusStrategy)''
     (joinErr (\<not> e_watchdog e) ''no watchdog set (use tmengine.WithWatchdog)''
     (joinErr (\<not> mc_ValidatorStore (e_mCfg e)) ''no validator store set (use tmengine.WithValidatorStore)''
     (joinErr (\<not> smc_StateMachineStore smc) ''no state machine store set (use tmengine.WithStateMachineStore)''
     (joinErr (\<not> mc_RoundStore (e_mCfg e)) ''no round store set (use tmengine.WithRoundStore)''
     (joinErr (\<not> mc_Store (e_mCfg e)) ''no mirror store set (use tmengine.WithMirrorStore)''
     (joinErr (\<not> smc_FinalizationStore smc) ''no finalization store set (use tmengine.WithFinalizationStore)''
     (joinErr (\<not> smc_ActionStore smc \<and> smc_Signer smc) ''no action store set (use tmengine.WithActionStore)''
     (joinErr (\<not> e_gs e) ''no gossip strategy set (use tmengine.WithGossipStrategy)''
     (joinErr (\<not> e_cmspScheme e) ''no common message signature proof scheme set (use tmengine.WithCommonMessageSignatureProofScheme)''
     (joinErr (\<not> e_sigScheme e) ''no signature scheme set (use tmengine.WithSignatureScheme)''
     (joinErr (e_hashScheme e = None) ''no hash scheme set (use tmengine.WithHashScheme)''
     (joinErr (e_genesis e = None) ''no genesis set (use tmengine.WithGenesis)'' None))))))))))))))"

definition validateMirrorSettings :: "MirrorConfig \<Rightarrow> go_error option" where
  "validateMirrorSettings cfg =
     joinErr (\<not> mc_CommonMessageSignatureProofScheme cfg) ''no common message signature proof scheme set (use tmengine.WithCommonMessageSignatureProofScheme)''
     (joinErr (\<not> mc_SignatureScheme cfg) ''no signature scheme set (use tmengine.WithSignatureScheme)''
     (joinErr (\<not> mc_HashScheme cfg) ''no hash scheme set (use tmengine.WithHashScheme)''
     (joinErr (\<not> mc_ValidatorStore cfg) ''no validator store set (use tmengine.WithValidatorStore)''
     (joinErr (\<not> mc_RoundStore cfg) ''no round store set (use tmengine.WithRoundStore)''
     (joinErr (\<not> mc_CommittedHeaderStore cfg) ''no committed header store set (use tmengine.WithCommittedHeaderStore)''
     (joinErr (\<not> mc_Store cfg) ''no mirror store set (use tmengine.WithMirrorStore)'' None))))))"

text \<open>A mirror without an engine; \<open>start\<close> is the constructor of the internal mirror with its configuration, initial height and
  initial validators.\<close>

definition tmengine_NewMirror :: "(MirrorConfig \<Rightarrow> u64 \<Rightarrow> ValidatorSet \<Rightarrow> (go_error + 'm) go) \<Rightarrow> Opt list \<Rightarrow> (go_error + 'm) go" where
  "tmengine_NewMirror start opts =
     gobind (applyOpts opts zeroEngine None) (\<lambda>(err, e, smc).
       case err of Some er \<Rightarrow> Ret (Inl er)
       | None \<Rightarrow> (case e_genesis e of
           None \<Rightarrow> Panic ''invalid memory address or nil pointer dereference''
         | Some g \<Rightarrow> (case validateMirrorSettings (e_mCfg e) of
             Some er \<Rightarrow> Ret (Inl er)
           | None \<Rightarrow> start (e_mCfg e) (eg_InitialHeight g) (GenesisValidatorSet g))))"

section \<open>Initialization of the chain\<close>

record InitChainResponse =
  icr_AppStateHash :: bytes
  icr_Validators :: "Validator list"

definition zeroGenesis :: Genesis where
  "zeroGenesis = \<lparr>ChainID = [], InitialHeight = 0, CurrentAppStateHash = [], g_ValidatorSet = zeroValidatorSet\<rparr>"

text \<open>The driver answers a request or the context is cancelled (\<open>None\<close>). The result has the finalization store, the state of the channel, and
  whether the driver was asked.\<close>

record init_world =
  iw_fins :: FinalizationStore
  iw_initChainCh :: chan_state
  iw_asked :: bool

definition maybeInitializeChain ::
  "Engine \<Rightarrow> ExternalGenesis \<Rightarrow> hash_scheme \<Rightarrow> MirrorStore \<Rightarrow> (ExternalGenesis \<Rightarrow> InitChainResponse option) \<Rightarrow> init_world \<Rightarrow> (go_error + Genesis) \<times> init_world" where
  "maybeInitializeChain e g hs ms driver w =
     (case NetworkHeightRound ms of
        Inr hr \<Rightarrow> (Inr zeroGenesis, if e_initChainCh e then w\<lparr>iw_initChainCh := ClosedChan\<rparr> else w)
      | Inl err \<Rightarrow>
          if err \<noteq> ErrStoreUninitialized then (Inl err, w)
          else let initFinHeight = eg_InitialHeight g - 1 in
            case LoadFinalizationByHeight (iw_fins w) initFinHeight of
              Inr f \<Rightarrow> (Inr zeroGenesis, w)
            | Inl err2 \<Rightarrow>
                if err2 \<noteq> HeightUnknownError initFinHeight then (Inl err2, w)
                else if \<not> e_initChainCh e then (Inl (OtherError ''chain is uninitialized and no init chain channel provided''), w)
                else let w1 = w\<lparr>iw_asked := True\<rparr> in
                  case driver g of
                    None \<Rightarrow> (Inl (OtherError ''context cancelled while initializing chain''), w1)
                  | Some resp \<Rightarrow>
                      (case (if icr_Validators resp = [] then Inr (GenesisValidatorSet g) else NewValidatorSet (icr_Validators resp) hs) of
                         Inl err3 \<Rightarrow> (Inl err3, w1)
                       | Inr valSet \<Rightarrow>
                           (let g' = \<lparr>ChainID = eg_ChainID g, InitialHeight = eg_InitialHeight g, CurrentAppStateHash = icr_AppStateHash resp,
                                      g_ValidatorSet = valSet\<rparr> in
                            case Genesis_Header g' hs of
                              Inl err4 \<Rightarrow> (Inl err4, w1)
                            | Inr b \<Rightarrow>
                                (case SaveFinalization (iw_fins w1) initFinHeight 0 (Hash b) valSet (icr_AppStateHash resp) of
                                   Inl err5 \<Rightarrow> (Inl err5, w1)
                                 | Inr fins \<Rightarrow> (Inr g', w1\<lparr>iw_fins := fins\<rparr>)))))"

text \<open>The constructor of the engine up to the start of its parts: what the state machine gets as genesis, and the initial height and validators of
  the mirror. A store that is set is the given one.\<close>

definition Engine_New ::
  "Opt list \<Rightarrow> MirrorStore \<Rightarrow> (ExternalGenesis \<Rightarrow> InitChainResponse option) \<Rightarrow> init_world \<Rightarrow> ((go_error + Genesis \<times> u64 \<times> ValidatorSet) \<times> init_world) go" where
  "Engine_New opts ms driver w =
     gobind (applyOpts opts zeroEngine (Some zeroStateMachineConfig)) (\<lambda>(err, e, smc).
       case err of Some er \<Rightarrow> Ret (Inl er, w)
       | None \<Rightarrow> (case validateSettings e (the smc) of
           Some er \<Rightarrow> Ret (Inl er, w)
         | None \<Rightarrow>
             (let g = the (e_genesis e) in
              case maybeInitializeChain e g (the (e_hashScheme e)) ms driver w of
                (Inl er, w1) \<Rightarrow> Ret (Inl er, w1)
              | (Inr genesis, w1) \<Rightarrow>
                  if Validators (g_ValidatorSet genesis) \<noteq> [] then Ret (Inr (genesis, eg_InitialHeight g, g_ValidatorSet genesis), w1)
                  else case LoadFinalizationByHeight (iw_fins w1) (eg_InitialHeight g - 1) of
                         Inl er \<Rightarrow> Ret (Inl er, w1)
                       | Inr (_, _, vs, _) \<Rightarrow> Ret (Inr (genesis, eg_InitialHeight g, vs), w1))))"

section \<open>A mirror alone\<close>

lemma applyOpt_nil:
  assumes "applyOpt opt e None = Ret (err, e', smc')"
  shows "smc' = None \<and> mc_HashScheme (e_mCfg e') = mc_HashScheme (e_mCfg e)"
  using assms by (cases opt) (auto simp: setSmc_def split: if_splits)

lemma applyOpts_nil:
  assumes "\<not> mc_HashScheme (e_mCfg e)"
  shows "go_post (\<lambda>(err, e', smc'). smc' = None \<and> \<not> mc_HashScheme (e_mCfg e')) (applyOpts opts e None)"
  unfolding applyOpts_def
proof (rule gofold_post)
  fix opt and st :: "go_error option \<times> Engine \<times> StateMachineConfig option"
  assume st: "case st of (err, e', smc') \<Rightarrow> smc' = None \<and> \<not> mc_HashScheme (e_mCfg e')"
  obtain err e1 smc1 where "st = (err, e1, smc1)" by (cases st)
  with st have "go_post (\<lambda>(err, e', smc'). smc' = None \<and> \<not> mc_HashScheme (e_mCfg e')) (applyOpt opt e1 smc1)"
    using applyOpt_nil[of opt e1] by (auto simp: go_post_iff)
  with \<open>st = (err, e1, smc1)\<close> show "go_post (\<lambda>(err, e', smc'). smc' = None \<and> \<not> mc_HashScheme (e_mCfg e')) (case st of (err, e, smc) \<Rightarrow> applyOpt opt e smc)" by simp
qed (simp add: assms)

lemma joinErr_not_None: "err \<noteq> None \<Longrightarrow> joinErr bad msg err \<noteq> None"
  by (simp add: joinErr_def)

lemma joinErr_None_iff: "joinErr bad msg err = None \<longleftrightarrow> \<not> bad \<and> err = None"
  by (simp add: joinErr_def)

text \<open>(C38) A mirror cannot be run alone: whatever the options, \<open>NewMirror\<close> never returns a mirror. The settings need a hash scheme, and the option that sets it
  writes through the pointer to the configuration of the state machine, which is nil here.\<close>

theorem standalone_mirror_never_starts: "tmengine_NewMirror start opts \<noteq> Ret (Inr m)"
proof
  assume "tmengine_NewMirror start opts = Ret (Inr m)"
  then obtain e smc where run: "applyOpts opts zeroEngine None = Ret (None, e, smc)" and valid: "validateMirrorSettings (e_mCfg e) = None"
    by (auto simp: tmengine_NewMirror_def split: option.splits)
  have "\<not> mc_HashScheme (e_mCfg e)"
    using applyOpts_nil[of zeroEngine opts] run by (simp add: zeroEngine_def zeroMirrorConfig_def)
  with valid show False by (simp add: validateMirrorSettings_def joinErr_None_iff)
qed

section \<open>Errors of options\<close>

lemma applyOpt_returns: "\<exists>err e' c'. applyOpt opt e (Some c) = Ret (err, e', Some c')"
  by (cases opt) (simp_all add: setSmc_def)

lemma applyOpts_returns: "\<exists>err e' c'. applyOpts opts e (Some c) = Ret (err, e', Some c')"
proof -
  let ?f = "\<lambda>opt (err :: go_error option, e, smc). applyOpt opt e smc"
  have "\<exists>err' e' c'. gofold ?f opts (err, e, Some c) = Ret (err', e', Some c')" for err e c
  proof (induction opts arbitrary: err e c)
    case (Cons opt opts)
    obtain err' e' c' where "applyOpt opt e (Some c) = Ret (err', e', Some c')" using applyOpt_returns by blast
    then show ?case using Cons.IH by simp
  qed simp
  then show ?thesis by (simp add: applyOpts_def)
qed

text \<open>An option that returns an error does so whatever the engine is, and changes nothing.\<close>

lemma applyOpt_error:
  "applyOpt opt e0 smc0 = Ret (Some err, e1, smc1) \<Longrightarrow> applyOpt opt e smc = Ret (Some err, e, smc)"
  by (cases opt) (auto simp: setSmc_def split: if_splits option.splits)

lemma applyOpts_snoc: "applyOpts (pre @ [opt]) e smc = gobind (applyOpts pre e smc) (\<lambda>(err, e, smc). applyOpt opt e smc)"
proof -
  have "gofold f (xs @ [x]) s = gobind (gofold f xs s) (f x)" for f and xs :: "Opt list" and x and s :: "go_error option \<times> Engine \<times> StateMachineConfig option"
  proof (induction xs arbitrary: s)
    case Nil
    then show ?case by (cases "f x s") simp_all
  next
    case (Cons y ys)
    then show ?case by (cases "f y s") simp_all
  qed
  then show ?thesis by (simp add: applyOpts_def)
qed

lemma applyOpts_skips:
  assumes "applyOpt opt e0 smc0 = Ret (Some err, e1, smc1)" "post \<noteq> []"
  shows "applyOpts (pre @ opt # post) e smc = applyOpts (pre @ post) e smc"
proof -
  let ?f = "\<lambda>opt (err :: go_error option, e, smc). applyOpt opt e smc"
  obtain q qs where post: "post = q # qs" using assms(2) by (cases post) simp_all
  have "gofold ?f (pre @ opt # post) st = gofold ?f (pre @ post) st" for st
  proof (induction pre arbitrary: st)
    case Nil
    obtain er e smc where "st = (er, e, smc)" by (cases st)
    then show ?case using applyOpt_error[OF assms(1), of e smc] by (simp add: post)
  next
    case (Cons x pre)
    then show ?case by (cases "?f x st") simp_all
  qed
  then show ?thesis by (simp add: applyOpts_def)
qed

text \<open>(C39) The error of an option is lost unless it is the last one: whatever stands before and after it, an engine with an option that returns an error is built
  exactly as without that option when at least one option follows it; as the last option it makes the constructor fail with its error.\<close>

theorem option_errors_lost:
  assumes "applyOpt opt e0 smc0 = Ret (Some err, e1, smc1)"
  shows "(post \<noteq> [] \<longrightarrow> Engine_New (pre @ opt # post) ms driver w = Engine_New (pre @ post) ms driver w) \<and>
    Engine_New (pre @ [opt]) ms driver w = Ret (Inl err, w)"
proof -
  obtain er e c where "applyOpts pre zeroEngine (Some zeroStateMachineConfig) = Ret (er, e, Some c)" using applyOpts_returns by blast
  then have "Engine_New (pre @ [opt]) ms driver w = Ret (Inl err, w)"
    using applyOpt_error[OF assms, of e "Some c"] by (simp add: Engine_New_def applyOpts_snoc)
  then show ?thesis using applyOpts_skips[OF assms] by (simp add: Engine_New_def)
qed

section \<open>Restarts\<close>

lemma maybeInitializeChain_stored:
  assumes "iw_fins w (eg_InitialHeight g - 1) = Some f"
  shows "maybeInitializeChain e g hs ms driver w =
    (Inr zeroGenesis, if ms_votingHeight ms \<noteq> 0 \<and> e_initChainCh e then w\<lparr>iw_initChainCh := ClosedChan\<rparr> else w)"
  using assms by (simp add: maybeInitializeChain_def NetworkHeightRound_def LoadFinalizationByHeight_def)

lemma maybeInitializeChain_saves:
  assumes "maybeInitializeChain e g hs ms driver w = (Inr gen, w1)"
  shows "gen = zeroGenesis \<and> iw_fins w1 = iw_fins w \<and> iw_asked w1 = iw_asked w \<or>
    e_initChainCh e \<and> InitialHeight gen = eg_InitialHeight g \<and> (\<exists>f. iw_fins w1 (eg_InitialHeight g - 1) = Some f \<and> fin_ValSet f = g_ValidatorSet gen)"
  using assms
  by (auto simp: maybeInitializeChain_def SaveFinalization_def Let_def split: sum.splits if_splits option.splits)

lemma Engine_New_initialized:
  assumes "Engine_New opts ms driver w = Ret (Inr (gen, ht, vs), w1)"
  obtains e smc g f where "applyOpts opts zeroEngine (Some zeroStateMachineConfig) = Ret (None, e, smc)" "validateSettings e (the smc) = None"
    "e_genesis e = Some g" "ht = eg_InitialHeight g" "iw_fins w1 (ht - 1) = Some f" "fin_ValSet f = vs" "iw_asked w1 \<noteq> iw_asked w \<longrightarrow> e_initChainCh e"
    "gen = zeroGenesis \<or> InitialHeight gen = ht \<and> g_ValidatorSet gen = vs"
proof -
  obtain e smc where run: "applyOpts opts zeroEngine (Some zeroStateMachineConfig) = Ret (None, e, smc)" and valid: "validateSettings e (the smc) = None"
    using assms by (auto simp: Engine_New_def split: option.splits)
  obtain g where g: "e_genesis e = Some g" using valid by (auto simp: validateSettings_def joinErr_None_iff)
  obtain gen' w' where init: "maybeInitializeChain e g (the (e_hashScheme e)) ms driver w = (Inr gen', w')"
    using assms run valid g by (auto simp: Engine_New_def split: prod.splits sum.splits)
  have res: "gen' = gen \<and> w' = w1 \<and> ht = eg_InitialHeight g \<and>
      (Validators (g_ValidatorSet gen) \<noteq> [] \<and> vs = g_ValidatorSet gen \<or>
       Validators (g_ValidatorSet gen) = [] \<and> (\<exists>f. iw_fins w1 (ht - 1) = Some f \<and> fin_ValSet f = vs))"
    using assms run valid g init by (auto simp: Engine_New_def LoadFinalizationByHeight_def split: if_splits option.splits)
  note saves = maybeInitializeChain_saves[OF init]
  have "\<exists>f. iw_fins w1 (ht - 1) = Some f \<and> fin_ValSet f = vs"
    using res saves by (auto simp: zeroGenesis_def zeroValidatorSet_def)
  then obtain f where f: "iw_fins w1 (ht - 1) = Some f" "fin_ValSet f = vs" by blast
  have ht: "ht = eg_InitialHeight g" using res by simp
  have asked: "iw_asked w1 \<noteq> iw_asked w \<longrightarrow> e_initChainCh e" using saves res by auto
  have gen: "gen = zeroGenesis \<or> InitialHeight gen = ht \<and> g_ValidatorSet gen = vs"
    using saves res by auto
  show thesis by (rule that[OF run valid g ht f asked gen])
qed

lemma Engine_New_again:
  assumes "Engine_New opts ms driver w = Ret (Inr (gen, ht, vs), w1)" "iw_fins w1 \<subseteq>\<^sub>m iw_fins w2"
  shows "\<exists>e :: Engine. (iw_asked w1 \<noteq> iw_asked w \<longrightarrow> e_initChainCh e) \<and> Engine_New opts ms' driver' w2 = Ret (Inr (zeroGenesis, ht, vs),
      if ms_votingHeight ms' \<noteq> 0 \<and> e_initChainCh e then w2\<lparr>iw_initChainCh := ClosedChan\<rparr> else w2)"
proof -
  obtain e smc g f where 1: "applyOpts opts zeroEngine (Some zeroStateMachineConfig) = Ret (None, e, smc)" "validateSettings e (the smc) = None"
    "e_genesis e = Some g" "ht = eg_InitialHeight g" "iw_fins w1 (ht - 1) = Some f" "fin_ValSet f = vs" "iw_asked w1 \<noteq> iw_asked w \<longrightarrow> e_initChainCh e"
    "gen = zeroGenesis \<or> InitialHeight gen = ht \<and> g_ValidatorSet gen = vs"
    by (rule Engine_New_initialized[OF assms(1)])
  have f: "iw_fins w2 (eg_InitialHeight g - 1) = Some f" using 1(4,5) assms(2) by (metis domI map_le_def)
  have z: "Validators (g_ValidatorSet zeroGenesis) = []" by (simp add: zeroGenesis_def zeroValidatorSet_def)
  have "Engine_New opts ms' driver' w2 = Ret (Inr (zeroGenesis, ht, vs),
      if ms_votingHeight ms' \<noteq> 0 \<and> e_initChainCh e then w2\<lparr>iw_initChainCh := ClosedChan\<rparr> else w2)"
    using f z by (simp add: Engine_New_def 1(1-4) 1(6)[symmetric] maybeInitializeChain_stored[OF f] LoadFinalizationByHeight_def)
  with 1(7) show ?thesis by (intro exI[of _ e] conjI)
qed

text \<open>(C16) A restart starts from the same validators: once an engine has been built, one built later with the same options on stores that still have its
  finalizations, whatever was finalized since, whatever the mirror has stored and whatever the driver would answer, gets the same initial height and
  validators, without asking the driver and without changing the finalizations; its state machine gets the zero genesis.\<close>

theorem engine_restart_same_validators:
  assumes "Engine_New opts ms driver w = Ret (Inr (gen, ht, vs), w1)" "iw_fins w1 \<subseteq>\<^sub>m iw_fins w2"
  shows "\<exists>w3. Engine_New opts ms' driver' w2 = Ret (Inr (zeroGenesis, ht, vs), w3) \<and> iw_fins w3 = iw_fins w2 \<and> iw_asked w3 = iw_asked w2"
proof -
  obtain e :: Engine where "Engine_New opts ms' driver' w2 = Ret (Inr (zeroGenesis, ht, vs),
      if ms_votingHeight ms' \<noteq> 0 \<and> e_initChainCh e then w2\<lparr>iw_initChainCh := ClosedChan\<rparr> else w2)"
    using Engine_New_again[OF assms, of ms' driver'] by blast
  then show ?thesis by simp
qed

text \<open>(C40) A driver that waits for the engine to ask it or to close the channel can wait for ever: when the engine stopped after it had initialized the chain and before the mirror
  stored its position, the next start neither asks nor closes the channel; once the mirror has stored its position, the channel is closed.\<close>

theorem interrupted_start_keeps_driver_waiting:
  assumes "Engine_New opts NewMirrorStore driver w = Ret (Inr (gen, ht, vs), w1)" "\<not> iw_asked w" "iw_asked w1"
    and "w2 = w1\<lparr>iw_asked := False, iw_initChainCh := OpenChan\<rparr>" "ms_votingHeight ms \<noteq> 0"
  shows "(\<exists>r w3. Engine_New opts NewMirrorStore driver' w2 = Ret (Inr r, w3) \<and> iw_initChainCh w3 = OpenChan \<and> \<not> iw_asked w3) \<and>
    (\<exists>r w3. Engine_New opts ms driver' w2 = Ret (Inr r, w3) \<and> iw_initChainCh w3 = ClosedChan \<and> \<not> iw_asked w3)"
proof -
  have f: "iw_fins w1 \<subseteq>\<^sub>m iw_fins w2" and w2: "iw_initChainCh w2 = OpenChan" "\<not> iw_asked w2" using assms(4) by simp_all
  have "iw_asked w1 \<noteq> iw_asked w" using assms(2,3) by blast
  then obtain d :: Engine where d: "e_initChainCh d" "Engine_New opts ms driver' w2 = Ret (Inr (zeroGenesis, ht, vs),
      if ms_votingHeight ms \<noteq> 0 \<and> e_initChainCh d then w2\<lparr>iw_initChainCh := ClosedChan\<rparr> else w2)"
    using Engine_New_again[OF assms(1) f, of ms driver'] by blast
  obtain e :: Engine where e: "Engine_New opts NewMirrorStore driver' w2 = Ret (Inr (zeroGenesis, ht, vs),
      if ms_votingHeight NewMirrorStore \<noteq> 0 \<and> e_initChainCh e then w2\<lparr>iw_initChainCh := ClosedChan\<rparr> else w2)"
    using Engine_New_again[OF assms(1) f, of NewMirrorStore driver'] by blast
  show ?thesis using d e w2 assms(5) by (simp add: NewMirrorStore_def)
qed

section \<open>An example\<close>

definition ex_opts :: "Opt list" where
  "ex_opts = [WithGenesis (Some \<lparr>eg_ChainID = ''c'', eg_InitialHeight = 1, GenesisValidatorSet = zeroValidatorSet\<rparr>),
     WithHashScheme (Some \<lparr>hs_PubKeys = (\<lambda>ks. Inr ''h''), hs_VotePowers = (\<lambda>ps. Inr ''p''), hs_Block = (\<lambda>h. Inr ''g'')\<rparr>),
     WithSignatureScheme True, WithCommonMessageSignatureProofScheme True, WithGossipStrategy True, WithFinalizationStore True, WithMirrorStore True,
     WithRoundStore True, WithStateMachineStore True, WithValidatorStore True, WithWatchdog True, WithConsensusStrategy True,
     WithBlockFinalizationChannel True, WithTimeoutStrategy, WithInitChainChannel True]"

definition ex_driver :: "ExternalGenesis \<Rightarrow> InitChainResponse option" where
  "ex_driver g = Some \<lparr>icr_AppStateHash = ''a'', icr_Validators = [\<lparr>val_PubKey = PubKey ''t'' ''a'', Power = 3\<rparr>]\<rparr>"

definition ex_init :: init_world where
  "ex_init = \<lparr>iw_fins = NewFinalizationStore, iw_initChainCh = OpenChan, iw_asked = False\<rparr>"

definition ex_valSet :: ValidatorSet where
  "ex_valSet = \<lparr>Validators = [\<lparr>val_PubKey = PubKey ''t'' ''a'', Power = 3\<rparr>], vs_PubKeyHash = ''h'', VotePowerHash = ''p''\<rparr>"

definition ex_genesis :: Genesis where
  "ex_genesis = \<lparr>ChainID = ''c'', InitialHeight = 1, CurrentAppStateHash = ''a'', g_ValidatorSet = ex_valSet\<rparr>"

lemma ex_engine:
  "Engine_New ex_opts NewMirrorStore ex_driver ex_init = Ret (Inr (ex_genesis, 1, ex_valSet),
     ex_init\<lparr>iw_fins := [0 \<mapsto> \<lparr>fin_H = 0, fin_R = 0, fin_BlockHash = ''g'', fin_ValSet = ex_valSet, fin_AppStateHash = ''a''\<rparr>], iw_asked := True\<rparr>)"
  by (simp add: Engine_New_def applyOpts_def ex_opts_def setSmc_def zeroEngine_def zeroMirrorConfig_def zeroStateMachineConfig_def validateSettings_def joinErr_def
      maybeInitializeChain_def NetworkHeightRound_def NewMirrorStore_def LoadFinalizationByHeight_def ex_init_def NewFinalizationStore_def ex_driver_def
      NewValidatorSet_def Genesis_Header_def zeroHeader_def SaveFinalization_def ex_genesis_def ex_valSet_def)

theorem option_errors_lost_witness:
  "Engine_New (take 3 ex_opts @ WithLagStateChannel True 5 # drop 3 ex_opts) NewMirrorStore ex_driver ex_init = Engine_New ex_opts NewMirrorStore ex_driver ex_init \<and>
   (\<exists>r w1. Engine_New ex_opts NewMirrorStore ex_driver ex_init = Ret (Inr r, w1))"
proof -
  have err: "applyOpt (WithLagStateChannel True 5) zeroEngine None =
      Ret (Some (OtherError ''WithLagStateChannel: capacity of channel must be zero''), zeroEngine, None)" by simp
  have "drop 3 ex_opts \<noteq> []" by (simp add: ex_opts_def)
  then show ?thesis using option_errors_lost[OF err, of "drop 3 ex_opts" "take 3 ex_opts" NewMirrorStore ex_driver ex_init] ex_engine by simp
qed

text \<open>A restart after the first height was finalized.\<close>

theorem engine_restart_same_validators_witness:
  "\<exists>w1 w3. Engine_New ex_opts NewMirrorStore ex_driver ex_init = Ret (Inr (ex_genesis, 1, ex_valSet), w1) \<and>
     Engine_New ex_opts NewMirrorStore (\<lambda>g. None) (w1\<lparr>iw_fins := (iw_fins w1)(1 \<mapsto>
       \<lparr>fin_H = 1, fin_R = 0, fin_BlockHash = ''b'', fin_ValSet = zeroValidatorSet, fin_AppStateHash = ''s''\<rparr>)\<rparr>) =
       Ret (Inr (zeroGenesis, 1, ex_valSet), w3)"
proof -
  let ?w1 = "ex_init\<lparr>iw_fins := [0 \<mapsto> \<lparr>fin_H = 0, fin_R = 0, fin_BlockHash = ''g'', fin_ValSet = ex_valSet, fin_AppStateHash = ''a''\<rparr>], iw_asked := True\<rparr>"
  have "iw_fins ?w1 \<subseteq>\<^sub>m iw_fins (?w1\<lparr>iw_fins := (iw_fins ?w1)(1 \<mapsto>
      \<lparr>fin_H = 1, fin_R = 0, fin_BlockHash = ''b'', fin_ValSet = zeroValidatorSet, fin_AppStateHash = ''s''\<rparr>)\<rparr>)"
    by (simp add: map_le_def)
  from engine_restart_same_validators[OF ex_engine this, of NewMirrorStore "\<lambda>g. None"] ex_engine show ?thesis by blast
qed

theorem interrupted_start_keeps_driver_waiting_witness:
  "\<exists>r w2 w3. Engine_New ex_opts NewMirrorStore (\<lambda>g. None) w2 = Ret (Inr r, w3) \<and> iw_initChainCh w3 = OpenChan \<and> \<not> iw_asked w3"
proof -
  have a: "\<not> iw_asked ex_init" by (simp add: ex_init_def)
  have m: "ms_votingHeight (NewMirrorStore\<lparr>ms_votingHeight := 1\<rparr>) \<noteq> 0" by simp
  have b: "iw_asked (ex_init\<lparr>iw_fins := [0 \<mapsto> \<lparr>fin_H = 0, fin_R = 0, fin_BlockHash = ''g'', fin_ValSet = ex_valSet, fin_AppStateHash = ''a''\<rparr>], iw_asked := True\<rparr>)"
    by simp
  from interrupted_start_keeps_driver_waiting[OF ex_engine a b refl m] show ?thesis by blast
qed

end
