(* ===== verification/EngineRestart.thy ===== *)
theory EngineRestart
  imports StateMachineProps EngineStart
begin

text \<open>
  Restarts of the engine: what the state machine recovers from the stores that an earlier run of the engine left, and the heights where it cannot.
  The first start gives the state machine the genesis that the driver answered; every later one gives it a zero genesis
  (\<open>maybeInitializeChain\<close>), and the finalization below the initial height is the one that the first start saved.
\<close>

section \<open>The finalizations an engine leaves\<close>




section \<open>Properties\<close>



section \<open>An example\<close>












end
