(* ===== verification/Spec2Isabelle.thy ===== *)
theory Spec2Isabelle
  imports StateMachineProps StrategyManager Timers TxBuffer NetDag BlsProps Network EngineRestart
begin

text \<open>
  Verification of gordian, a Tendermint-style Byzantine fault tolerant consensus engine written in Go. All paths are
  relative to \<open>src/\<close>; \<open>tm/tmengine/internal/\<close> is left out where the rest of the path tells.

  \<^bold>\<open>The program and its parts.\<close> A node runs two loops. The \<^emph>\<open>mirror\<close> follows the network: it takes proposed headers
  and votes from peers, checks and accumulates them into the views of the committing, voting and next rounds, moves to
  the next round or height when precommits decide it, and publishes the views to the gossip layer and to the local state
  machine. The \<^emph>\<open>state machine\<close> acts for the local validator: it enters rounds through the mirror, asks the
  application's consensus strategy what to propose and to vote for, records its own actions before it hands them to the
  mirror, and asks the application's driver to finalize committed blocks. Votes are signature proofs over a validator
  set; positions, headers, votes, own actions and finalizations are kept in stores. The \<^emph>\<open>gossip strategy\<close> turns the
  mirror's views into messages, which the \<^emph>\<open>codec\<close> encodes and the \<^emph>\<open>connection\<close> publishes and receives. The \<^emph>\<open>engine\<close>
  collects options, initializes the chain and starts the parts. Beside them are the timer service, the goroutine that calls the
  consensus strategy, the transaction buffer for drivers, and an index arithmetic for broadcast trees.

  \<^bold>\<open>The theories, in the order of their imports.\<close>

  \<^item> \<open>Prelude\<close>: machine integers, byte strings, Go maps as association lists, panics and errors as values (\<open>go\<close>,
    \<open>gobind\<close>, \<open>go_error\<close>), the third-party package \<open>bitset\<close> as the record \<open>bitset_ops\<close> with its documented laws in the
    locale \<open>bitset_lib\<close>.
  \<^item> \<open>Gcrypto\<close>, \<open>SimpleProof\<close> (\<open>gcrypto\<close>): public keys, sparse signatures, the interface of common message signature
    proofs and \<open>SimpleCommonMessageSignatureProof\<close>. The locale \<open>signature_proof\<close> is the contract of a proof; the
    simple proof is a sublocale instance of it over any bit set library. Merging adds exactly the valid new signatures,
    and the sparse form of a proof restores it.
  \<^item> \<open>Consensus\<close> (\<open>tm/tmconsensus/math.go\<close>, \<open>validator.go\<close>): thresholds on 64-bit powers, validator sets; the
    locale \<open>quorum_system\<close> says that two majorities share an honest validator.
  \<^item> \<open>VoteSummary\<close>, \<open>RoundView\<close>, \<open>SparseVotes\<close> (\<open>tm/tmconsensus\<close>): vote powers, headers, schemes, round views, their
    clones and resets, vote messages and their conversion.
  \<^item> \<open>MemStores\<close> (\<open>tm/tmstore/tmmemstore\<close>): the in-memory stores, with the locales \<open>height_store\<close> and
    \<open>write_once_store\<close>.
  \<^item> \<open>ViewManagers\<close>, \<open>KState\<close>, \<open>Kernel\<close> (\<open>tmmirror/internal/tmi\<close>): the gossip, lag and state machine view managers
    (locale \<open>outbox\<close>: what was sent is not sent again until it changes), the kernel's state with its view lookup and
    height and round shifts, and every handler of \<open>kernel.go\<close> with its startup.
  \<^item> \<open>KernelInv\<close>, \<open>KernelLoop\<close>, \<open>KernelProps\<close>, \<open>KernelDurable\<close>: the invariant of the kernel and that every handler
    keeps it; the select loop as a step relation with its reachable states; that each commit has a majority of
    precommits behind it and that two mirrors commit the same block; what the vote requests add; what the stores keep,
    and what a restart recovers and loses. The locale \<open>height_round_log\<close> is the contract of the mirror store.
  \<^item> \<open>Mirror\<close>, \<open>MirrorProps\<close> (\<open>tmmirror/mirror.go\<close>, \<open>tm/tmconsensus/feedbackmapper.go\<close>, \<open>gexchange\<close>): the handlers of peer
    messages, which ask the kernel for a view, compute outside of it and request an update by version, retrying on a conflict; the
    mapping of their results to feedback for the network.
  \<^item> \<open>StateMachine\<close> (\<open>tmstate/statemachine.go\<close>, \<open>tmstate/internal/tsi\<close>): the round lifecycle and every handler of the
    state machine, its start from the stores, its catch-up and its live loop \<open>smrun\<close>.
  \<^item> \<open>StateMachineInv\<close>, \<open>StateMachineRun\<close>: the invariant of the live loop: timers run in the timed steps and in no
    other, one precommit decision per round, no request with a nil channel; heights and rounds only grow (locale
    \<open>position_store\<close>). \<open>StateMachineFrame\<close>: what a handler keeps of the stores and the lifecycle (locales \<open>round_frame\<close>
    and \<open>sm_frame\<close>), shared by \<open>StateMachineSign\<close> and \<open>StateMachineLife\<close>, where a validator with restarts, also after a crash between recording and sending and with
    any genesis at each start, signs at most one proposal, prevote and precommit per round, and by \<open>StateMachineChain\<close>, where the carried validator sets, app state hash and
    block hash are those of the stored finalizations. \<open>StateMachineProps\<close>: commits from
    each step, the two orders of finalization and commit wait, and the failure of early majorities.
    The locales are interpreted on the in-memory stores as the state machine uses them (\<open>MemSMStores\<close>).
  \<^item> \<open>StrategyManager\<close> (\<open>tsi/consensusmanager.go\<close>): the goroutine that serves the consensus strategy, and a run of
    the state machine in which each of the two waits for the other.
  \<^item> \<open>Timers\<close> (\<open>tmengine/timeoutstrategy.go\<close>, \<open>tmstate/roundtimer.go\<close>): the timeouts on signed 64-bit durations, and the timer
    goroutine with its client as an inductive step relation.
  \<^item> \<open>TxBuffer\<close> (\<open>gdriver/gtxbuf\<close>): the transaction buffer, which refines one that applies all its transactions again
    at every request.
  \<^item> \<open>NetDag\<close> (\<open>gnetdag/fixedtree.go\<close>): the tree arithmetic, equivalent to the closed form of a complete tree.
  \<^item> \<open>SigTree\<close>, \<open>SigTreeProps\<close> (\<open>gcrypto/gblsminsig/internal/sigtree\<close>): the tree of aggregated BLS keys and signatures. The curve points are
    the record \<open>blst\<close> with the locale \<open>blst_lib\<close>, bit sets of fixed length the record \<open>sized_bitset\<close> with the locale \<open>sized_bitset_lib\<close>; the
    locale \<open>sigtree\<close> combines them, with the instance \<open>ref_tree\<close>. Adding a valid signature keeps the bits equal to the signers, and the sparse
    indices are exactly the largest complete subtrees.
  \<^item> \<open>BlsProof\<close>, \<open>BlsProps\<close> (\<open>gblsminsig/signatureproof.go\<close>, \<open>bls.go\<close>): the BLS signature proof over that tree: what merging adds, that the
    sparse form restores a proof of up to 32768 keys, and that it does not for more.
  \<^item> \<open>Codec\<close> (\<open>gcrypto/registry.go\<close>, \<open>ed25519.go\<close>, \<open>tm/tmcodec\<close>): the key registry and the JSON codec. \<open>encoding/json\<close> is a record of functions whose
    law, the locale \<open>json_lib\<close> with the instance \<open>ref_json\<close>, is that it restores a struct. Messages whose keys have a registered type name of at most eight bytes
    survive the codec; headers with BLS keys do not.
  \<^item> \<open>Gossip\<close> (\<open>tm/tmgossip/chattystrategy.go\<close>): the gossip strategy and its kernel; the headers and votes of the views it is given get sent, except second
    votes and the failed round of the first update.
  \<^item> \<open>Network\<close> (\<open>tm/tmp2p/tmlibp2p/connection.go\<close>): publishing and receiving consensus messages through the feedback mappers, and the
    composition of gossip, codec, connection and mirror: the prevotes of one node reach another.
  \<^item> \<open>EngineStart\<close> (\<open>tm/tmengine/engine.go\<close>, \<open>opts.go\<close>, \<open>mirror.go\<close>): the options of the engine, their validation, and the initialization of the chain; what a restart
    recovers, and which options and starts go wrong.
  \<^item> \<open>EngineRestart\<close>: the composition of the engine's starts with the runs of the state machine on the stores they share. The first start gives the state
    machine the genesis of the driver and saves the finalization below the initial height, every later one gives it a zero genesis: above the initial
    height the lifecycle is recovered from the finalizations, at the first two heights the state machine fails to initialize.

  \<^bold>\<open>State and operations.\<close> A struct is a record and a handler is a function from its receiver to the new receiver, in
  the order of the code's statements; what leaves a component (messages to the gossip layer, to the consensus strategy,
  to the driver) is returned as a list of effects or kept in a field that stands for the channel. A select loop is a
  list of events or an inductive step relation, so that a statement about all runs covers every order in which channels
  become ready. A nil map or slice is the empty one, so that a write to a nil map is no panic, and a
  slice has no capacity beyond its length. Maps are values: views of the kernel and stored headers that share a map of proofs in the code (\<open>NewKernel\<close> gives the
  voting and the next round view one map, and the committed header that is saved has the map of the voting view) have equal maps here, and the clearing
  of one of them in \<open>Reset\<close> does not reach the others. A channel is whether it is nil; a send on a nil channel blocks for ever
  and ends the run like a panic does. Consensus strategy, hash scheme, signature scheme, signer, stores and bit sets are
  parameters; where a property needs a law of one of them, it is a named premise and its witness gives an instance.

  \<^bold>\<open>Loops, fuel and bounds.\<close> Loops over bits carry the number of remaining validators. The retry loops of the mirror have fuel
  and an environment that says what other requests the kernel serves in between; \<open>vote_handlers_return\<close> proves that
  ten tries are enough when the environment interferes less often, and \<open>empty_commit_proof_loops\<close> that no fuel is
  enough for certain headers. The advance loop of the state machine consumes one answer of the mirror in each
  iteration, so the answers bound it. The loops of the fixed tree are \<open>partial_function (option)\<close> and proved to return. Heights, rounds, powers,
  versions and durations wrap as in Go; the fixed tree has unbounded integers, since its documentation leaves overflow
  undefined.

  \<^bold>\<open>Not modelled.\<close> Of the engine, the start of its goroutines and its metrics; of the connection, the calls of libp2p that join, poll and leave a
  topic, and the host; BLS pairings, ed25519 and \<open>encoding/json\<close>, which are libraries and parameters here; signers, which only call them;
  the watchdog, which measures wall-clock time; debugging, metrics and assertions, which have no influence on the results; Reed-Solomon
  coding, a wrapper of a library; test fixtures and demonstration programs. Cancellation of the context is a missing answer or a send that gives
  up, after which a loop handles no further event; logging and tracing are left out.

  \<^bold>\<open>What could follow.\<close> The loop between the state machine and the mirror: that a proposal the state machine makes is one that mirrors accept, and the precommits
  of a round from one node to another, by the steps of \<open>gossiped_prevotes_reach_peer\<close>.
\<close>

end
